(* ===== verification/Prelude.thy ===== *)
theory Prelude
  imports Main "HOL-Library.Char_ord" "HOL-Library.List_Lexorder" "HOL-Library.Multiset"
begin

text \<open>
  Shared vocabulary of the development: the model of Rust strings, of fallible results,
  of comparators and of the standard library's stable sort, and the generic lemmas the
  component theories rest on.

  A Rust \<open>String\<close> is its sequence of UTF-8 bytes, so it is modelled by HOL's
  \<open>string\<close> (a list of 8-bit \<open>char\<close>): \<open>len()\<close> is \<open>length\<close>, the byte-wise order
  of \<open>str\<close> is the lexicographic order of \<open>List_Lexorder\<close>, and operations that read
  characters (\<open>trim\<close>, \<open>chars\<close>) are written over the byte patterns of UTF-8.
\<close>

named_theorems conv_simps \<open>unfolding of the small conversions shared by the components\<close>

section \<open>Results\<close>

text \<open>
  A fallible operation returns \<open>'e + 'a\<close>, the error on the left; the \<open>?\<close> operator
  is \<open>bind_res\<close>.
\<close>

definition bind_res :: "'e + 'a \<Rightarrow> ('a \<Rightarrow> 'e + 'b) \<Rightarrow> 'e + 'b" where
  "bind_res r f = (case r of Inl e \<Rightarrow> Inl e | Inr a \<Rightarrow> f a)"

definition map_err :: "('e \<Rightarrow> 'f) \<Rightarrow> 'e + 'a \<Rightarrow> 'f + 'a" where
  "map_err g r = (case r of Inl e \<Rightarrow> Inl (g e) | Inr a \<Rightarrow> Inr a)"

lemma bind_res_simps [simp]:
  "bind_res (Inl e) f = Inl e"
  "bind_res (Inr a) f = f a"
  by (simp_all add: bind_res_def)

lemma map_err_simps [simp]:
  "map_err g (Inl e) = Inl (g e)"
  "map_err g (Inr a) = Inr a"
  by (simp_all add: map_err_def)

lemma bind_res_Inr_iff: "bind_res r f = Inr b \<longleftrightarrow> (\<exists>a. r = Inr a \<and> f a = Inr b)"
  by (cases r) simp_all

lemma map_err_Inr_iff [simp]: "map_err g r = Inr a \<longleftrightarrow> r = Inr a"
  by (cases r) simp_all

text \<open>\<open>collect::<Result<Vec<_>, _>>()\<close>: the first error, or every value in order.\<close>

fun collect_res :: "('e + 'a) list \<Rightarrow> 'e + 'a list" where
  "collect_res [] = Inr []"
| "collect_res (r # rs) =
     (case r of Inl e \<Rightarrow> Inl e
      | Inr a \<Rightarrow> (case collect_res rs of Inl e \<Rightarrow> Inl e | Inr as \<Rightarrow> Inr (a # as)))"

lemma collect_res_map_Inr [simp]: "collect_res (List.map Inr as) = Inr as"
  by (induction as) simp_all

lemma collect_res_InrD: "collect_res rs = Inr as \<Longrightarrow> rs = List.map Inr as"
  by (induction rs arbitrary: as) (auto split: sum.splits)

lemma collect_res_Inr_iff: "collect_res rs = Inr as \<longleftrightarrow> rs = List.map Inr as"
  using collect_res_InrD by auto

section \<open>Comparators and the stable sort\<close>

datatype ordering = Less | Equal | Greater

primrec flip_ord :: "ordering \<Rightarrow> ordering" where
  "flip_ord Less = Greater"
| "flip_ord Equal = Equal"
| "flip_ord Greater = Less"

definition then_with :: "ordering \<Rightarrow> ordering \<Rightarrow> ordering" where
  "then_with o1 o2 = (case o1 of Equal \<Rightarrow> o2 | _ \<Rightarrow> o1)"

definition cmp_ord :: "'a::linorder \<Rightarrow> 'a \<Rightarrow> ordering" where
  "cmp_ord x y = (if x < y then Less else if x = y then Equal else Greater)"

lemma then_with_simps [simp]:
  "then_with Equal d = d" "then_with Less d = Less" "then_with Greater d = Greater"
  by (simp_all add: then_with_def)

lemma cmp_ord_iff [simp]:
  "cmp_ord x y = Less \<longleftrightarrow> x < y"
  "cmp_ord x y = Equal \<longleftrightarrow> x = y"
  "cmp_ord x y = Greater \<longleftrightarrow> y < x"
  by (auto simp: cmp_ord_def)

lemma flip_cmp_ord: "flip_ord (cmp_ord x y) = cmp_ord y x"
  by (auto simp: cmp_ord_def)

lemma flip_then_with: "flip_ord (then_with c d) = then_with (flip_ord c) (flip_ord d)"
  by (cases c) simp_all

text \<open>
  \<open>slice::sort_by\<close> is a stable sort when the comparator is a total order on the
  elements; for any other comparator the library promises nothing (the order is
  unspecified and the call may panic), which the model records as \<open>None\<close>.
\<close>

definition cmp_total_on :: "('a \<Rightarrow> 'a \<Rightarrow> ordering) \<Rightarrow> 'a list \<Rightarrow> bool" where
  "cmp_total_on cmp xs \<longleftrightarrow>
     (\<forall>x\<in>set xs. \<forall>y\<in>set xs. cmp y x = flip_ord (cmp x y)) \<and>
     (\<forall>x\<in>set xs. \<forall>y\<in>set xs. \<forall>z\<in>set xs.
        cmp x y \<noteq> Greater \<longrightarrow> cmp y z \<noteq> Greater \<longrightarrow> cmp x z \<noteq> Greater)"

fun insert_by :: "('a \<Rightarrow> 'a \<Rightarrow> ordering) \<Rightarrow> 'a \<Rightarrow> 'a list \<Rightarrow> 'a list" where
  "insert_by cmp x [] = [x]"
| "insert_by cmp x (y # ys) =
     (if cmp x y = Greater then y # insert_by cmp x ys else x # y # ys)"

fun stable_sort :: "('a \<Rightarrow> 'a \<Rightarrow> ordering) \<Rightarrow> 'a list \<Rightarrow> 'a list" where
  "stable_sort cmp [] = []"
| "stable_sort cmp (x # xs) = insert_by cmp x (stable_sort cmp xs)"

definition sort_by :: "('a \<Rightarrow> 'a \<Rightarrow> ordering) \<Rightarrow> 'a list \<Rightarrow> 'a list option" where
  "sort_by cmp xs = (if cmp_total_on cmp xs then Some (stable_sort cmp xs) else None)"

abbreviation sorted_by :: "('a \<Rightarrow> 'a \<Rightarrow> ordering) \<Rightarrow> 'a list \<Rightarrow> bool" where
  "sorted_by cmp \<equiv> sorted_wrt (\<lambda>x y. cmp x y \<noteq> Greater)"

lemma mset_insert_by [simp]: "mset (insert_by cmp x xs) = add_mset x (mset xs)"
  by (induction xs) auto

lemma mset_stable_sort [simp]: "mset (stable_sort cmp xs) = mset xs"
  by (induction xs) auto

lemma set_stable_sort [simp]: "set (stable_sort cmp xs) = set xs"
  by (metis mset_stable_sort set_mset_mset)

lemma set_insert_by [simp]: "set (insert_by cmp x xs) = insert x (set xs)"
  by (metis mset_insert_by set_mset_add_mset_insert set_mset_mset)

lemma length_stable_sort [simp]: "length (stable_sort cmp xs) = length xs"
  by (metis mset_stable_sort size_mset)

lemma cmp_total_on_subset:
  "cmp_total_on cmp xs \<Longrightarrow> set ys \<subseteq> set xs \<Longrightarrow> cmp_total_on cmp ys"
  unfolding cmp_total_on_def by (meson subset_iff)

lemma cmp_total_on_flip:
  "cmp_total_on cmp xs \<Longrightarrow> x \<in> set xs \<Longrightarrow> y \<in> set xs \<Longrightarrow> cmp y x = flip_ord (cmp x y)"
  unfolding cmp_total_on_def by blast

lemma cmp_total_on_trans:
  "cmp_total_on cmp xs \<Longrightarrow> x \<in> set xs \<Longrightarrow> y \<in> set xs \<Longrightarrow> z \<in> set xs \<Longrightarrow>
     cmp x y \<noteq> Greater \<Longrightarrow> cmp y z \<noteq> Greater \<Longrightarrow> cmp x z \<noteq> Greater"
  unfolding cmp_total_on_def by blast

lemma sorted_insert_by:
  assumes "cmp_total_on cmp (x # xs)" and "sorted_by cmp xs"
  shows "sorted_by cmp (insert_by cmp x xs)"
  using assms
proof (induction xs)
  case Nil
  then show ?case by simp
next
  case (Cons y ys)
  have tot: "cmp_total_on cmp (x # ys)"
    by (rule cmp_total_on_subset [OF Cons.prems(1)]) auto
  show ?case
  proof (cases "cmp x y = Greater")
    case True
    then have "cmp y x = Less"
      using cmp_total_on_flip [OF Cons.prems(1), of x y] by simp
    with True Cons.IH [OF tot] Cons.prems(2) show ?thesis by auto
  next
    case False
    have "cmp x z \<noteq> Greater" if "z \<in> set ys" for z
    proof -
      have "cmp y z \<noteq> Greater" using Cons.prems(2) that by simp
      with cmp_total_on_trans [OF Cons.prems(1), of x y z] False that
      show ?thesis by simp
    qed
    with False Cons.prems(2) show ?thesis by auto
  qed
qed

lemma sorted_stable_sort: "cmp_total_on cmp xs \<Longrightarrow> sorted_by cmp (stable_sort cmp xs)"
proof (induction xs)
  case Nil
  then show ?case by simp
next
  case (Cons x xs)
  have "sorted_by cmp (stable_sort cmp xs)"
    using Cons by (meson cmp_total_on_subset set_subset_Cons)
  moreover have "cmp_total_on cmp (x # stable_sort cmp xs)"
    by (rule cmp_total_on_subset [OF Cons.prems]) auto
  ultimately show ?case by (simp add: sorted_insert_by)
qed

lemma sort_by_SomeD:
  assumes "sort_by cmp xs = Some ys"
  shows "mset ys = mset xs" and "sorted_by cmp ys"
  using assms sorted_stable_sort [of cmp xs] by (auto simp: sort_by_def split: if_splits)

text \<open>Where no two different elements compare equal, the sorted order is unique.\<close>

lemma sorted_by_unique:
  assumes "sorted_by cmp xs" and "sorted_by cmp ys" and "mset xs = mset ys"
    and "\<And>x y. x \<in> set xs \<Longrightarrow> y \<in> set xs \<Longrightarrow>
       cmp x y \<noteq> Greater \<Longrightarrow> cmp y x \<noteq> Greater \<Longrightarrow> x = y"
  shows "xs = ys"
  using assms
proof (induction xs arbitrary: ys)
  case Nil
  then show ?case by simp
next
  case (Cons x xs)
  from Cons.prems(3) obtain y ys' where ys: "ys = y # ys'"
    by (cases ys) auto
  have sets: "set (x # xs) = set (y # ys')"
    using Cons.prems(3) ys by (metis set_mset_mset)
  have "x = y"
  proof (rule ccontr)
    assume neq: "x \<noteq> y"
    have "y \<in> set xs" "x \<in> set ys'" using sets neq by auto
    then have "cmp x y \<noteq> Greater" "cmp y x \<noteq> Greater"
      using Cons.prems(1,2) ys by auto
    with Cons.prems(4) [of x y] neq \<open>y \<in> set xs\<close> show False by simp
  qed
  moreover have "xs = ys'"
    using Cons.prems ys \<open>x = y\<close> by (intro Cons.IH) auto
  ultimately show ?case using ys by simp
qed

section \<open>Bounded stores\<close>

text \<open>
  The contract shared by every long-lived container of the service (the admission queue,
  the exact-result cache, the text cache, the trace ring): one operation adds an entry,
  and neither the capacity nor the bound on the size is ever lost.
\<close>

locale bounded_store =
  fixes store_size :: "'s \<Rightarrow> nat"
    and store_capacity :: "'s \<Rightarrow> nat"
    and store_inv :: "'s \<Rightarrow> bool"
    and add :: "'e \<Rightarrow> 's \<Rightarrow> 's"
  assumes add_capacity: "store_capacity (add e s) = store_capacity s"
    and add_inv: "store_inv s \<Longrightarrow> store_inv (add e s)"
    and inv_bound: "store_inv s \<Longrightarrow> store_size s \<le> store_capacity s"
begin

lemma run_capacity: "store_capacity (fold add es s) = store_capacity s"
  by (induction es arbitrary: s) (simp_all add: add_capacity)

lemma run_inv: "store_inv s \<Longrightarrow> store_inv (fold add es s)"
  by (induction es arbitrary: s) (simp_all add: add_inv)

lemma run_bounded: "store_inv s \<Longrightarrow> store_size (fold add es s) \<le> store_capacity s"
  using inv_bound [OF run_inv, of s es] by (simp add: run_capacity)

end

section \<open>Bytes of UTF-8 strings\<close>

abbreviation byte :: "char \<Rightarrow> nat" where
  "byte c \<equiv> (of_char c :: nat)"

text \<open>A continuation byte has the bit pattern 10xxxxxx.\<close>

definition is_cont_byte :: "char \<Rightarrow> bool" where
  "is_cont_byte c \<longleftrightarrow> 128 \<le> byte c \<and> byte c < 192"

text \<open>\<open>str::is_char_boundary\<close>.\<close>

definition is_char_boundary :: "string \<Rightarrow> nat \<Rightarrow> bool" where
  "is_char_boundary s i \<longleftrightarrow>
     i = 0 \<or> i = length s \<or> (i < length s \<and> \<not> is_cont_byte (s ! i))"

text \<open>
  The UTF-8 encodings of the characters with the Unicode property White_Space, which
  \<open>str::trim\<close> and \<open>str::split_whitespace\<close> use: U+0009..U+000D, U+0020, U+0085,
  U+00A0, U+1680, U+2000..U+200A, U+2028, U+2029, U+202F, U+205F, U+3000.
\<close>

fun ws_prefix_len :: "nat list \<Rightarrow> nat" where
  "ws_prefix_len [] = 0"
| "ws_prefix_len (b # bs) =
     (if (9 \<le> b \<and> b \<le> 13) \<or> b = 32 then 1
      else if b = 194 then
        (case bs of c # _ \<Rightarrow> if c = 133 \<or> c = 160 then 2 else 0 | [] \<Rightarrow> 0)
      else if b = 225 then
        (case bs of c # d # _ \<Rightarrow> if c = 154 \<and> d = 128 then 3 else 0 | _ \<Rightarrow> 0)
      else if b = 226 then
        (case bs of c # d # _ \<Rightarrow>
           if (c = 128 \<and> ((128 \<le> d \<and> d \<le> 138) \<or> d = 168 \<or> d = 169 \<or> d = 175)) \<or>
              (c = 129 \<and> d = 159) then 3 else 0 | _ \<Rightarrow> 0)
      else if b = 227 then
        (case bs of c # d # _ \<Rightarrow> if c = 128 \<and> d = 128 then 3 else 0 | _ \<Rightarrow> 0)
      else 0)"

definition ws_at :: "string \<Rightarrow> nat" where
  "ws_at s = ws_prefix_len (List.map byte (take 3 s))"

text \<open>The length of a white-space character at the end of the string, if there is one.\<close>

definition ws_end :: "string \<Rightarrow> nat" where
  "ws_end s =
     (if s \<noteq> [] \<and> ws_at (drop (length s - 1) s) = 1 then 1
      else if 2 \<le> length s \<and> ws_at (drop (length s - 2) s) = 2 then 2
      else if 3 \<le> length s \<and> ws_at (drop (length s - 3) s) = 3 then 3
      else 0)"

lemma ws_prefix_len_le: "ws_prefix_len bs \<le> length bs"
  by (cases bs) (auto split: list.splits)

lemma ws_at_le: "ws_at s \<le> length s"
  using ws_prefix_len_le [of "List.map byte (take 3 s)"] by (simp add: ws_at_def)

lemma ws_end_le: "ws_end s \<le> length s"
  by (cases s) (auto simp: ws_end_def)

function trim_start :: "string \<Rightarrow> string" where
  "trim_start s = (if ws_at s = 0 then s else trim_start (drop (ws_at s) s))"
  by pat_completeness auto
termination
proof (relation "measure length")
  fix s
  assume "ws_at s \<noteq> 0"
  then show "(drop (ws_at s) s, s) \<in> measure length"
    using ws_at_le [of s] by simp
qed simp

function trim_end :: "string \<Rightarrow> string" where
  "trim_end s = (if ws_end s = 0 then s else trim_end (take (length s - ws_end s) s))"
  by pat_completeness auto
termination
proof (relation "measure length")
  fix s
  assume "ws_end s \<noteq> 0"
  then show "(take (length s - ws_end s) s, s) \<in> measure length"
    using ws_end_le [of s] by simp
qed simp

declare trim_start.simps [simp del] trim_end.simps [simp del]

definition trim :: "string \<Rightarrow> string" where
  "trim s = trim_end (trim_start s)"

lemma ws_at_trim_start [simp]: "ws_at (trim_start s) = 0"
  by (induction s rule: trim_start.induct) (simp add: trim_start.simps)

lemma ws_end_trim_end [simp]: "ws_end (trim_end s) = 0"
  by (induction s rule: trim_end.induct) (simp add: trim_end.simps)

text \<open>A prefix of a string that starts with no white space starts with none either.\<close>

lemma ws_prefix_len_append:
  assumes "ws_prefix_len bs \<noteq> 0"
  shows "ws_prefix_len (bs @ cs) \<noteq> 0"
proof -
  consider "bs = []" | b where "bs = [b]" | b c where "bs = [b, c]"
    | b c d r where "bs = b # c # d # r"
    by (metis list.exhaust)
  then show ?thesis
  proof cases
    case (4 b c d r)
    have "ws_prefix_len ((b # c # d # r) @ cs) = ws_prefix_len (b # c # d # r)"
      by (simp cong: if_cong)
    with assms 4 show ?thesis by simp
  qed (use assms in \<open>auto split: if_splits\<close>)
qed

lemma ws_prefix_len_take:
  "ws_prefix_len (take n bs) \<noteq> 0 \<Longrightarrow> ws_prefix_len bs \<noteq> 0"
  using ws_prefix_len_append [of "take n bs" "drop n bs"] by simp

lemma ws_at_take: "ws_at s = 0 \<Longrightarrow> ws_at (take n s) = 0"
  using ws_prefix_len_take [of n "List.map byte (take 3 s)"]
  by (auto simp: ws_at_def take_map min.commute)

lemma ws_at_trim_end: "ws_at s = 0 \<Longrightarrow> ws_at (trim_end s) = 0"
proof (induction s rule: trim_end.induct)
  case (1 s)
  then show ?case by (cases "ws_end s = 0") (simp_all add: trim_end.simps [of s] ws_at_take)
qed

lemma trim_start_id: "ws_at s = 0 \<Longrightarrow> trim_start s = s"
  by (simp add: trim_start.simps)

lemma trim_end_id: "ws_end s = 0 \<Longrightarrow> trim_end s = s"
  by (simp add: trim_end.simps)

lemma trim_idem [simp]: "trim (trim s) = trim s"
  by (simp add: trim_def trim_start_id ws_at_trim_end trim_end_id)


section \<open>Sums over the elements of a list\<close>

definition tally :: "('a \<Rightarrow> nat) \<Rightarrow> 'a list \<Rightarrow> nat" where
  "tally f xs = sum_list (List.map f xs)"

lemma tally_update:
  "i < length xs \<Longrightarrow> tally f (xs[i := x]) + f (xs ! i) = tally f xs + f x"
  by (induction xs arbitrary: i) (auto simp: tally_def nth_Cons split: nat.splits)

lemma update_mem: "p \<in> set (xs[w := q]) \<Longrightarrow> p = q \<or> p \<in> set xs"
  using set_update_subset_insert [of xs w q] by auto

lemma nth_update: "i < length xs \<Longrightarrow> xs[k := y] ! i = (if k = i then y else xs ! i)"
  by (simp add: nth_list_update)

lemma tally_replicate [simp]: "tally f (replicate n x) = n * f x"
  by (induction n) (simp_all add: tally_def)

lemma tally_mem: "i < length xs \<Longrightarrow> f (xs ! i) \<le> tally f xs"
  by (induction xs arbitrary: i) (auto simp: tally_def nth_Cons intro: trans_le_add2 split: nat.splits)

lemma tally_mono: "(\<And>x. f x \<le> g x) \<Longrightarrow> tally f xs \<le> tally g xs"
  unfolding tally_def by (induction xs) (simp_all add: add_mono)

lemma ball_update: "\<forall>x\<in>set xs. P x \<Longrightarrow> P y \<Longrightarrow> \<forall>x\<in>set (xs[i := y]). P x"
  using set_update_subset_insert [of xs i y] by blast

end
