(* ===== verification/Queue.thy ===== *)
theory Queue
  imports Prelude
begin

text \<open>
  The bounded inference queue of \<open>src/src/queue.rs\<close>: a FIFO of at most \<open>capacity\<close> jobs
  whose admission is rejected, never buffered, once it is full. A job type \<open>'a\<close> is a
  parameter, as in the code.
\<close>

datatype queue_error = QueueResourceExhausted

record 'a bounded_queue =
  q_capacity :: nat
  q_jobs :: "'a list"

definition queue_new :: "nat \<Rightarrow> 'a bounded_queue" where
  "queue_new c = \<lparr>q_capacity = c, q_jobs = []\<rparr>"

definition try_enqueue :: "'a \<Rightarrow> 'a bounded_queue \<Rightarrow> (queue_error + unit) \<times> 'a bounded_queue" where
  "try_enqueue job q =
     (if q_capacity q \<le> length (q_jobs q) then (Inl QueueResourceExhausted, q)
      else (Inr (), q\<lparr>q_jobs := q_jobs q @ [job]\<rparr>))"

definition queue_len :: "'a bounded_queue \<Rightarrow> nat" where
  "queue_len q = length (q_jobs q)"

definition queue_is_empty :: "'a bounded_queue \<Rightarrow> bool" where
  "queue_is_empty q \<longleftrightarrow> q_jobs q = []"

definition queue_capacity :: "'a bounded_queue \<Rightarrow> nat" where
  "queue_capacity q = q_capacity q"

lemmas queue_defs = queue_new_def try_enqueue_def queue_len_def queue_is_empty_def
  queue_capacity_def

definition queue_within :: "'a bounded_queue \<Rightarrow> bool" where
  "queue_within q \<longleftrightarrow> queue_len q \<le> queue_capacity q"

lemma queue_within_new: "queue_within (queue_new c)"
  by (simp add: queue_within_def queue_defs)

interpretation bq: bounded_store queue_len queue_capacity queue_within
  "\<lambda>job q. snd (try_enqueue job q)"
  by unfold_locales (auto simp: queue_within_def queue_defs)

text \<open>Every job offered to the queue, in order: which were admitted, and the final queue.\<close>

fun enqueue_all :: "'a list \<Rightarrow> 'a bounded_queue \<Rightarrow> (queue_error + unit) list \<times> 'a bounded_queue" where
  "enqueue_all [] q = ([], q)"
| "enqueue_all (j # js) q =
     (let (r, q') = try_enqueue j q; (rs, q'') = enqueue_all js q' in (r # rs, q''))"

lemma enqueue_all_queue: "snd (enqueue_all js q) = fold (\<lambda>j q. snd (try_enqueue j q)) js q"
  by (induction js arbitrary: q) (simp_all add: split_beta Let_def)

lemma enqueue_all_exact:
  assumes "queue_within q"
  defines "free \<equiv> queue_capacity q - queue_len q"
  shows "enqueue_all js q =
     (replicate (min free (length js)) (Inr ()) @
        replicate (length js - free) (Inl QueueResourceExhausted),
      q\<lparr>q_jobs := q_jobs q @ take free js\<rparr>)"
  using assms(1) unfolding free_def
proof (induction js arbitrary: q)
  case Nil
  then show ?case by simp
next
  case (Cons j js)
  show ?case
  proof (cases "q_capacity q \<le> length (q_jobs q)")
    case True
    with Cons.IH [OF Cons.prems] Cons.prems show ?thesis
      by (simp add: queue_defs queue_within_def split_beta)
  next
    case False
    then have room: "q_capacity q - length (q_jobs q) = Suc (q_capacity q - Suc (length (q_jobs q)))"
      by simp
    have "queue_within (q\<lparr>q_jobs := q_jobs q @ [j]\<rparr>)"
      using False by (simp add: queue_within_def queue_defs)
    from Cons.IH [OF this] False room show ?thesis
      by (simp add: queue_defs split_beta)
  qed
qed

section \<open>Admission\<close>

text \<open>
  Of any jobs offered to a fresh queue, exactly the first \<open>capacity\<close> are
  admitted and kept in their order; every later one is rejected and leaves the queue
  unchanged.
\<close>

theorem queue_admits_exactly_capacity:
  "enqueue_all js (queue_new c) =
     (replicate (min c (length js)) (Inr ()) @ replicate (length js - c) (Inl QueueResourceExhausted),
      \<lparr>q_capacity = c, q_jobs = take c js\<rparr>)"
  using enqueue_all_exact [OF queue_within_new] by (simp add: queue_defs)

end
