(* ===== verification/Floats.thy ===== *)
theory Floats
  imports Complex_Main Prelude
begin

text \<open>
  IEEE 754 binary floating point, as the \<open>f32\<close> and \<open>f64\<close> arithmetic of the program
  uses it: a value is NaN, an infinity or a finite real, an arithmetic operation rounds
  the exact result to nearest with ties to even, and comparison is partial. The sign of a
  zero is not represented: no code modelled here reads it, and every divisor of the code
  is a sum of squares, a count or a sum of exponentials, whose zero is positive.
\<close>

section \<open>Values and comparison\<close>

datatype flt = NaN | NInf | PInf | Fin real

fun flt_partial_cmp :: "flt \<Rightarrow> flt \<Rightarrow> ordering option" where
  "flt_partial_cmp NaN _ = None"
| "flt_partial_cmp _ NaN = None"
| "flt_partial_cmp (Fin x) (Fin y) = Some (cmp_ord x y)"
| "flt_partial_cmp NInf NInf = Some Equal"
| "flt_partial_cmp NInf _ = Some Less"
| "flt_partial_cmp _ NInf = Some Greater"
| "flt_partial_cmp PInf PInf = Some Equal"
| "flt_partial_cmp PInf _ = Some Greater"
| "flt_partial_cmp _ PInf = Some Less"

definition flt_lt :: "flt \<Rightarrow> flt \<Rightarrow> bool" where
  "flt_lt a b \<longleftrightarrow> flt_partial_cmp a b = Some Less"

definition flt_le :: "flt \<Rightarrow> flt \<Rightarrow> bool" where
  "flt_le a b \<longleftrightarrow> flt_partial_cmp a b = Some Less \<or> flt_partial_cmp a b = Some Equal"

definition flt_eq :: "flt \<Rightarrow> flt \<Rightarrow> bool" where
  "flt_eq a b \<longleftrightarrow> flt_partial_cmp a b = Some Equal"

primrec is_finite :: "flt \<Rightarrow> bool" where
  "is_finite NaN = False"
| "is_finite NInf = False"
| "is_finite PInf = False"
| "is_finite (Fin x) = True"

lemma flt_cmp_simps [simp]:
  "flt_lt (Fin x) (Fin y) \<longleftrightarrow> x < y"
  "flt_le (Fin x) (Fin y) \<longleftrightarrow> x \<le> y"
  "flt_eq (Fin x) (Fin y) \<longleftrightarrow> x = y"
  "\<not> flt_lt NaN b" "\<not> flt_lt a NaN"
  "\<not> flt_le NaN b" "\<not> flt_le a NaN"
  "\<not> flt_eq NaN b" "\<not> flt_eq a NaN"
  "flt_le a PInf \<longleftrightarrow> a \<noteq> NaN" "flt_le NInf a \<longleftrightarrow> a \<noteq> NaN"
  "\<not> flt_le PInf (Fin x)" "\<not> flt_le (Fin x) NInf" "\<not> flt_le PInf NInf"
  "\<not> flt_eq PInf (Fin x)" "\<not> flt_eq NInf (Fin x)"
  by (auto simp: flt_lt_def flt_le_def flt_eq_def; (cases a; simp))+

lemma is_finite_iff: "is_finite a \<longleftrightarrow> (\<exists>x. a = Fin x)"
  by (cases a) auto

lemma flt_le_refl: "a \<noteq> NaN \<Longrightarrow> flt_le a a"
  by (cases a) (auto simp: flt_le_def cmp_ord_def)

lemma flt_le_trans: "flt_le a b \<Longrightarrow> flt_le b c \<Longrightarrow> flt_le a c"
  by (cases a; cases b; cases c) (auto simp: flt_le_def cmp_ord_def split: if_splits)

lemma flt_le_betweenD: "flt_le (Fin x) a \<Longrightarrow> flt_le a (Fin y) \<Longrightarrow> \<exists>z. a = Fin z \<and> x \<le> z \<and> z \<le> y"
  by (cases a) auto

lemma flt_partial_cmp_flip:
  "flt_partial_cmp b a = map_option flip_ord (flt_partial_cmp a b)"
  by (cases a; cases b) (simp_all add: flip_cmp_ord)

section \<open>Arithmetic over a rounding function\<close>

type_synonym rounding_fn = "real \<Rightarrow> flt"

definition inf_of_sign :: "real \<Rightarrow> flt" where
  "inf_of_sign s = (if 0 < s then PInf else if s < 0 then NInf else NaN)"

fun fadd :: "rounding_fn \<Rightarrow> flt \<Rightarrow> flt \<Rightarrow> flt" where
  "fadd rnd NaN _ = NaN"
| "fadd rnd _ NaN = NaN"
| "fadd rnd (Fin x) (Fin y) = rnd (x + y)"
| "fadd rnd PInf NInf = NaN"
| "fadd rnd NInf PInf = NaN"
| "fadd rnd PInf _ = PInf"
| "fadd rnd _ PInf = PInf"
| "fadd rnd NInf _ = NInf"
| "fadd rnd _ NInf = NInf"

primrec fneg :: "flt \<Rightarrow> flt" where
  "fneg NaN = NaN"
| "fneg NInf = PInf"
| "fneg PInf = NInf"
| "fneg (Fin x) = Fin (- x)"

primrec fabs :: "flt \<Rightarrow> flt" where
  "fabs NaN = NaN"
| "fabs NInf = PInf"
| "fabs PInf = PInf"
| "fabs (Fin x) = Fin \<bar>x\<bar>"

definition fsub :: "rounding_fn \<Rightarrow> flt \<Rightarrow> flt \<Rightarrow> flt" where
  "fsub rnd a b = fadd rnd a (fneg b)"

primrec flt_sign :: "flt \<Rightarrow> real" where
  "flt_sign NaN = 0"
| "flt_sign NInf = -1"
| "flt_sign PInf = 1"
| "flt_sign (Fin x) = sgn x"

fun fmul :: "rounding_fn \<Rightarrow> flt \<Rightarrow> flt \<Rightarrow> flt" where
  "fmul rnd (Fin x) (Fin y) = rnd (x * y)"
| "fmul rnd NaN _ = NaN"
| "fmul rnd _ NaN = NaN"
| "fmul rnd a b = inf_of_sign (flt_sign a * flt_sign b)"

fun fdiv :: "rounding_fn \<Rightarrow> flt \<Rightarrow> flt \<Rightarrow> flt" where
  "fdiv rnd NaN _ = NaN"
| "fdiv rnd _ NaN = NaN"
| "fdiv rnd (Fin x) (Fin y) = (if y = 0 then inf_of_sign x else rnd (x / y))"
| "fdiv rnd (Fin x) _ = Fin 0"
| "fdiv rnd a (Fin y) = inf_of_sign (flt_sign a * (if y < 0 then -1 else 1))"
| "fdiv rnd a b = NaN"

primrec fsqrt :: "rounding_fn \<Rightarrow> flt \<Rightarrow> flt" where
  "fsqrt rnd NaN = NaN"
| "fsqrt rnd NInf = NaN"
| "fsqrt rnd PInf = PInf"
| "fsqrt rnd (Fin x) = (if x < 0 then NaN else rnd (sqrt x))"

text \<open>\<open>f32::max\<close>: a NaN operand is ignored.\<close>

fun fmax :: "flt \<Rightarrow> flt \<Rightarrow> flt" where
  "fmax NaN b = b"
| "fmax a NaN = a"
| "fmax a b = (if flt_le a b then b else a)"

text \<open>\<open>f64::min\<close>, likewise.\<close>

fun fmin :: "flt \<Rightarrow> flt \<Rightarrow> flt" where
  "fmin NaN b = b"
| "fmin a NaN = a"
| "fmin a b = (if flt_le a b then a else b)"

text \<open>\<open>Iterator::sum\<close>, from left to right, starting at zero.\<close>

definition fsum :: "rounding_fn \<Rightarrow> flt list \<Rightarrow> flt" where
  "fsum rnd xs = foldl (fadd rnd) (Fin 0) xs"

text \<open>The cast between the two widths (exact when widening).\<close>

primrec fcast :: "rounding_fn \<Rightarrow> flt \<Rightarrow> flt" where
  "fcast rnd NaN = NaN"
| "fcast rnd NInf = NInf"
| "fcast rnd PInf = PInf"
| "fcast rnd (Fin x) = rnd x"

section \<open>What the proofs use of a rounding function\<close>

locale rounding =
  fixes rnd :: "real \<Rightarrow> flt" and exact_upto :: nat
  assumes rnd_mono: "x \<le> y \<Longrightarrow> flt_le (rnd x) (rnd y)"
    and rnd_nat: "n \<le> exact_upto \<Longrightarrow> rnd (real n) = Fin (real n)"
    and exact_pos: "1 \<le> exact_upto"
begin

lemma rnd_0 [simp]: "rnd 0 = Fin 0"
  using rnd_nat [of 0] by simp

lemma rnd_1 [simp]: "rnd 1 = Fin 1"
  using rnd_nat [of 1] exact_pos by simp

lemma rnd_not_NaN [simp]: "rnd x \<noteq> NaN"
  using rnd_mono [of x x] by auto

lemma rnd_nonneg: "0 \<le> x \<Longrightarrow> flt_le (Fin 0) (rnd x)"
  using rnd_mono [of 0 x] by simp

lemma rnd_unit:
  assumes "0 \<le> x" and "x \<le> 1"
  obtains z where "rnd x = Fin z" and "0 \<le> z" and "z \<le> 1"
  using rnd_mono [OF assms(1)] rnd_mono [OF assms(2)] by (auto dest: flt_le_betweenD)

lemma rnd_upto:
  assumes "0 \<le> x" and "x \<le> real n" and "n \<le> exact_upto"
  obtains z where "rnd x = Fin z" and "0 \<le> z" and "z \<le> real n"
  using rnd_mono [OF assms(1)] rnd_mono [OF assms(2)] rnd_nat [OF assms(3)]
  by (auto dest: flt_le_betweenD)

lemma rnd_ge_nat:
  assumes "real n \<le> x" and "n \<le> exact_upto" and "rnd x = Fin z"
  shows "real n \<le> z"
  using rnd_mono [OF assms(1)] rnd_nat [OF assms(2)] assms(3) by simp

end

section \<open>Rounding to nearest, ties to even\<close>

definition round_even :: "real \<Rightarrow> int" where
  "round_even r =
     (let f = \<lfloor>r\<rfloor>; d = r - of_int f
      in if d < 1/2 then f else if 1/2 < d then f + 1 else if even f then f else f + 1)"

lemma round_even_le: "r \<le> of_int n \<Longrightarrow> round_even r \<le> n"
  unfolding round_even_def Let_def
  by (cases "r = of_int n") (auto, linarith+)

lemma round_even_ge: "of_int n \<le> r \<Longrightarrow> n \<le> round_even r"
  unfolding round_even_def Let_def by (auto simp: le_floor_iff) linarith+

lemma round_even_of_int [simp]: "round_even (of_int n) = n"
  by (simp add: round_even_def)

lemma round_even_mono:
  assumes "r \<le> s" shows "round_even r \<le> round_even s"
proof (cases "\<lfloor>r\<rfloor> = \<lfloor>s\<rfloor>")
  case True
  with assms show ?thesis unfolding round_even_def Let_def by auto
next
  case False
  with floor_mono [OF assms] have lt: "\<lfloor>r\<rfloor> + 1 \<le> \<lfloor>s\<rfloor>" by simp
  have "round_even r \<le> \<lfloor>r\<rfloor> + 1" by (rule round_even_le) linarith
  also note lt
  also have "\<lfloor>s\<rfloor> \<le> round_even s" by (rule round_even_ge) simp
  finally show ?thesis .
qed

lemma round_even_minus: "round_even (- r) = - round_even r"
proof (cases "r = of_int \<lfloor>r\<rfloor>")
  case True
  then obtain n where "r = of_int n" by blast
  then show ?thesis using round_even_of_int [of "- n"] by simp
next
  case False
  then have "\<lfloor>- r\<rfloor> = - \<lfloor>r\<rfloor> - 1" by linarith
  then show ?thesis unfolding round_even_def Let_def by auto
qed

text \<open>
  \<open>ieee_round p emin emax\<close> rounds to a significand of \<open>p\<close> bits, with \<open>2 ^ emin\<close> the
  least positive subnormal and \<open>2 ^ emax\<close> the first magnitude that overflows.
\<close>

definition ulp_exp :: "nat \<Rightarrow> int \<Rightarrow> real \<Rightarrow> int" where
  "ulp_exp p emin x = max emin (\<lfloor>log 2 \<bar>x\<bar>\<rfloor> + 1 - int p)"

definition round_at :: "int \<Rightarrow> real \<Rightarrow> real" where
  "round_at e x = of_int (round_even (x / 2 powi e)) * 2 powi e"

definition clip_range :: "nat \<Rightarrow> real \<Rightarrow> flt" where
  "clip_range emax y = (if 2 ^ emax \<le> y then PInf else if y \<le> - (2 ^ emax) then NInf else Fin y)"

definition ieee_round :: "nat \<Rightarrow> int \<Rightarrow> nat \<Rightarrow> real \<Rightarrow> flt" where
  "ieee_round p emin emax x = clip_range emax (round_at (ulp_exp p emin x) x)"

definition round32 :: "real \<Rightarrow> flt" where
  "round32 = ieee_round 24 (-149) 128"

definition round64 :: "real \<Rightarrow> flt" where
  "round64 = ieee_round 53 (-1074) 1024"

lemma clip_range_mono: "x \<le> y \<Longrightarrow> flt_le (clip_range emax x) (clip_range emax y)"
  by (auto simp: clip_range_def)

lemma round_at_mono: "x \<le> y \<Longrightarrow> round_at e x \<le> round_at e y"
  unfolding round_at_def
  by (intro mult_right_mono) (auto intro!: round_even_mono divide_right_mono)

lemma round_at_minus: "round_at e (- x) = - round_at e x"
  by (simp add: round_at_def round_even_minus)

lemma ulp_exp_minus [simp]: "ulp_exp p emin (- x) = ulp_exp p emin x"
  by (simp add: ulp_exp_def)

lemma round_at_powi_le: "e \<le> k \<Longrightarrow> x \<le> 2 powi k \<Longrightarrow> round_at e x \<le> 2 powi k"
  and round_at_powi_ge: "e \<le> k \<Longrightarrow> 2 powi k \<le> x \<Longrightarrow> 2 powi k \<le> round_at e x"
proof -
  have split: "(2::real) powi k = of_int (2 ^ nat (k - e)) * 2 powi e" if "e \<le> k"
  proof -
    have "(2::real) powi k = 2 powi (k - e) * 2 powi e"
      by (simp flip: power_int_add)
    also have "(2::real) powi (k - e) = of_int (2 ^ nat (k - e))"
      using that by (simp add: power_int_def)
    finally show ?thesis .
  qed
  have pos: "(0::real) < 2 powi e" by simp
  show "round_at e x \<le> 2 powi k" if "e \<le> k" and "x \<le> 2 powi k"
  proof -
    have "x / 2 powi e \<le> of_int (2 ^ nat (k - e))"
      using that(2) pos unfolding split [OF that(1)] by (simp add: pos_divide_le_eq)
    then have "round_even (x / 2 powi e) \<le> 2 ^ nat (k - e)"
      by (rule round_even_le)
    then show ?thesis
      unfolding round_at_def split [OF that(1)]
      by (intro mult_right_mono) (simp_all only: of_int_le_iff pos less_imp_le)
  qed
  show "2 powi k \<le> round_at e x" if "e \<le> k" and "2 powi k \<le> x"
  proof -
    have "of_int (2 ^ nat (k - e)) \<le> x / 2 powi e"
      using that(2) pos unfolding split [OF that(1)] by (simp add: pos_le_divide_eq)
    then have "2 ^ nat (k - e) \<le> round_even (x / 2 powi e)"
      by (rule round_even_ge)
    then show ?thesis
      unfolding round_at_def split [OF that(1)]
      by (intro mult_right_mono) (simp_all only: of_int_le_iff pos less_imp_le)
  qed
qed


lemma round_even_error: "\<bar>of_int (round_even r) - r\<bar> \<le> 1 / 2"
  unfolding round_even_def Let_def by (auto split: if_splits; linarith)

lemma round_at_error: "\<bar>round_at e x - x\<bar> \<le> 2 powi e / 2"
proof -
  define r where "r = x / 2 powi e"
  have x: "x = r * 2 powi e" by (simp add: r_def)
  have "round_at e x - x = (of_int (round_even r) - r) * 2 powi e"
    unfolding round_at_def r_def [symmetric] using x by (simp add: left_diff_distrib)
  then have "\<bar>round_at e x - x\<bar> = \<bar>of_int (round_even r) - r\<bar> * 2 powi e" by (simp add: abs_mult)
  also have "\<dots> \<le> 1 / 2 * 2 powi e"
    by (intro mult_right_mono round_even_error) simp
  finally show ?thesis by simp
qed

lemma log2_bounds:
  assumes "0 < (x::real)"
  shows "2 powi \<lfloor>log 2 x\<rfloor> \<le> x" and "x < 2 powi (\<lfloor>log 2 x\<rfloor> + 1)"
proof -
  have "2 powr of_int \<lfloor>log 2 x\<rfloor> \<le> 2 powr log 2 x"
    by (rule powr_mono) simp_all
  then show "2 powi \<lfloor>log 2 x\<rfloor> \<le> x"
    using assms by (simp add: powr_real_of_int')
  have "2 powr log 2 x < 2 powr of_int (\<lfloor>log 2 x\<rfloor> + 1)"
    by (rule powr_less_mono) (linarith, simp)
  then show "x < 2 powi (\<lfloor>log 2 x\<rfloor> + 1)"
    using assms powr_real_of_int' [of 2 "\<lfloor>log 2 x\<rfloor> + 1"] by simp
qed

lemma round_at_ulp_mono_pos:
  assumes "0 < x" and "x \<le> y" and "1 \<le> p"
  shows "round_at (ulp_exp p emin x) x \<le> round_at (ulp_exp p emin y) y"
proof (cases "ulp_exp p emin x = ulp_exp p emin y")
  case True
  with assms show ?thesis by (simp add: round_at_mono)
next
  case False
  define kx ky where "kx = \<lfloor>log 2 x\<rfloor>" and "ky = \<lfloor>log 2 y\<rfloor>"
  have "kx \<le> ky" using assms unfolding kx_def ky_def by (intro floor_mono) simp
  with False have lt: "kx < ky" and ey: "ulp_exp p emin y = ky + 1 - int p"
    and ex: "ulp_exp p emin x < ulp_exp p emin y"
    using assms unfolding ulp_exp_def kx_def ky_def by auto
  have e: "ulp_exp p emin y \<le> ky" "ulp_exp p emin x \<le> ky" using ex ey assms(3) by auto
  have "x \<le> 2 powi (kx + 1)" using log2_bounds(2) [OF assms(1)] by (simp add: kx_def)
  also have "(2::real) powi (kx + 1) \<le> 2 powi ky"
    using lt by (intro power_int_increasing) auto
  finally have "round_at (ulp_exp p emin x) x \<le> 2 powi ky"
    by (rule round_at_powi_le [OF e(2)])
  also have "\<dots> \<le> round_at (ulp_exp p emin y) y"
    using log2_bounds(1) [of y] assms by (intro round_at_powi_ge [OF e(1)]) (simp add: ky_def)
  finally show ?thesis .
qed

lemma round_at_0 [simp]: "round_at e 0 = 0"
  using round_even_of_int [of 0] by (simp add: round_at_def)

lemma round_at_nonneg: "0 \<le> x \<Longrightarrow> 0 \<le> round_at e x"
  using round_at_mono [of 0 x e] by simp

lemma round_at_ulp_mono:
  assumes "x \<le> y" and "1 \<le> p"
  shows "round_at (ulp_exp p emin x) x \<le> round_at (ulp_exp p emin y) y"
proof -
  consider "0 < x" | "y < 0" | "x \<le> 0" "0 \<le> y" by linarith
  then show ?thesis
  proof cases
    case 1
    then show ?thesis using assms by (simp add: round_at_ulp_mono_pos)
  next
    case 2
    then show ?thesis
      using round_at_ulp_mono_pos [of "- y" "- x" p emin] assms
      by (simp add: round_at_minus)
  next
    case 3
    have "round_at (ulp_exp p emin x) x \<le> 0"
      using round_at_nonneg [of "- x" "ulp_exp p emin x"] 3 by (simp add: round_at_minus)
    also have "0 \<le> round_at (ulp_exp p emin y) y" using 3 by (simp add: round_at_nonneg)
    finally show ?thesis .
  qed
qed

lemma ieee_round_mono: "x \<le> y \<Longrightarrow> 1 \<le> p \<Longrightarrow> flt_le (ieee_round p emin emax x) (ieee_round p emin emax y)"
  unfolding ieee_round_def by (intro clip_range_mono round_at_ulp_mono)

lemma round_at_int: "e \<le> 0 \<Longrightarrow> round_at e (of_int n) = of_int n"
proof -
  assume "e \<le> 0"
  then have "of_int n / (2::real) powi e = of_int (n * 2 ^ nat (- e))"
    by (simp add: power_int_def field_simps)
  moreover have "(2::real) ^ nat (- e) * 2 powi e = 1"
    using \<open>e \<le> 0\<close> by (auto simp: power_int_def simp flip: power_mult_distrib)
  ultimately show ?thesis
    by (simp add: round_at_def mult.assoc del: of_int_mult) (simp add: mult.assoc)
qed

lemma ieee_round_nat:
  assumes "n \<le> 2 ^ p" and "emin \<le> 0" and "p < emax" and "1 \<le> p"
  shows "ieee_round p emin emax (real n) = Fin (real n)"
proof -
  have "round_at (ulp_exp p emin (real n)) (real n) = real n"
  proof (cases "n = 0 \<or> n = 2 ^ p")
    case True
    show ?thesis
    proof (cases "n = 0")
      case False
      with True have n: "n = 2 ^ p" by simp
      then have "\<lfloor>log 2 (real n)\<rfloor> = int p" by simp
      then have "ulp_exp p emin (real n) \<le> int p" using assms by (simp add: ulp_exp_def)
      moreover have "real n = 2 powi int p" using n by simp
      ultimately show ?thesis
        using round_at_powi_le [of _ "int p" "real n"] round_at_powi_ge [of _ "int p" "real n"]
        by (metis order.refl order_antisym)
    qed simp
  next
    case False
    have "real n < 2 ^ p"
      using False assms(1)
      by (metis le_neq_implies_less numeral_power_less_of_nat_cancel_iff of_nat_numeral of_nat_power of_nat_less_iff)
    then have "log 2 (real n) < p"
      using False by (simp add: log_less_iff powr_realpow)
    then have "\<lfloor>log 2 (real n)\<rfloor> < int p" by (simp add: floor_less_iff)
    then have "ulp_exp p emin (real n) \<le> 0" using assms(2) by (simp add: ulp_exp_def)
    then show ?thesis using round_at_int [of _ "int n"] by simp
  qed
  moreover have "real n < 2 ^ emax"
  proof -
    have "real n \<le> 2 ^ p" using assms(1) by (metis of_nat_le_iff of_nat_numeral of_nat_power)
    also have "(2::real) ^ p < 2 ^ emax" using assms(3) by simp
    finally show ?thesis .
  qed
  moreover have "- (2 ^ emax) < real n"
    by (rule less_le_trans [of _ 0]) simp_all
  ultimately show ?thesis by (simp add: ieee_round_def clip_range_def)
qed

interpretation f32: rounding round32 "2 ^ 24"
proof unfold_locales
  show "flt_le (round32 x) (round32 y)" if "x \<le> y" for x y
    using that by (simp add: round32_def ieee_round_mono)
  show "round32 (real n) = Fin (real n)" if "n \<le> 2 ^ 24" for n
    using that by (simp add: round32_def ieee_round_nat)
qed simp

interpretation f64: rounding round64 "2 ^ 53"
proof unfold_locales
  show "flt_le (round64 x) (round64 y)" if "x \<le> y" for x y
    using that by (simp add: round64_def ieee_round_mono)
  show "round64 (real n) = Fin (real n)" if "n \<le> 2 ^ 53" for n
    using that by (simp add: round64_def ieee_round_nat)
qed simp

section \<open>Conversions with integers\<close>

text \<open>The casts \<open>as f64\<close> of an integer, \<open>f64::ceil\<close>, \<open>f64::max\<close> and \<open>as u64\<close>.\<close>

definition nat_as_f64 :: "nat \<Rightarrow> flt" where
  "nat_as_f64 n = round64 (real n)"

primrec fceil :: "flt \<Rightarrow> flt" where
  "fceil NaN = NaN"
| "fceil NInf = NInf"
| "fceil PInf = PInf"
| "fceil (Fin x) = Fin (of_int \<lceil>x\<rceil>)"

primrec f64_as_u64 :: "flt \<Rightarrow> nat" where
  "f64_as_u64 NaN = 0"
| "f64_as_u64 NInf = 0"
| "f64_as_u64 PInf = 2 ^ 64 - 1"
| "f64_as_u64 (Fin x) = min (nat \<lfloor>x\<rfloor>) (2 ^ 64 - 1)"

section \<open>Exact dyadic fractions\<close>

lemma round_at_dyadic:
  assumes "e + int m \<le> 0"
  shows "round_at e (of_int n / 2 ^ m) = of_int n / 2 ^ m"
proof -
  have "round_at e (of_int n / 2 ^ m) = round_at (e + int m) (of_int n) / 2 ^ m"
    unfolding round_at_def by (simp add: power_int_add field_simps)
  then show ?thesis using round_at_int [OF assms] by simp
qed

lemma round64_dyadic:
  assumes "k \<le> 2 ^ m" and "m \<le> 52"
  shows "round64 (real k / 2 ^ m) = Fin (real k / 2 ^ m)"
proof (cases "k = 0")
  case True
  then show ?thesis by simp
next
  case False
  define x where "x = real k / 2 ^ m"
  have "real k \<le> 2 ^ m" using assms(1) by (metis of_nat_le_iff of_nat_numeral of_nat_power)
  then have x: "0 < x" "x \<le> 1" using False by (simp_all add: x_def)
  then have "log 2 \<bar>x\<bar> \<le> 0" by simp
  then have fl: "\<lfloor>log 2 \<bar>x\<bar>\<rfloor> + 1 - int 53 \<le> - 52" by linarith
  have "ulp_exp 53 (-1074) x \<le> max (-1074) (- 52)"
    unfolding ulp_exp_def using fl by (intro max.mono) simp_all
  then have "ulp_exp 53 (-1074) x + int m \<le> 0" using assms(2) by simp
  from round_at_dyadic [OF this, of "int k"]
  have "round_at (ulp_exp 53 (-1074) x) x = x" by (simp add: x_def)
  then show ?thesis using x
    unfolding x_def [symmetric] round64_def ieee_round_def clip_range_def
    by (auto simp: not_le intro: le_less_trans less_le_trans)
qed

end
