(* ===== verification/ClassifyTypes.thy ===== *)
theory ClassifyTypes
  imports Prelude Floats
begin

text \<open>
  The typed classification contract of \<open>src/src/classify.rs\<close>: inputs, embeddings, ranked
  results, statuses, errors, and the identity a loaded runtime reports.
\<close>

section \<open>Requests and results\<close>

datatype context_completeness = Unspecified | Full | Delta

record classification_input =
  in_text :: string
  requested_signals :: "string list"
  session_metadata :: "string \<rightharpoonup> string"
  completeness :: context_completeness

record embedding =
  vector :: "flt list"
  logits :: "flt list option"

definition embedding_new :: "flt list \<Rightarrow> embedding" where
  "embedding_new v = \<lparr>vector = v, logits = None\<rparr>"

definition embedding_with_logits :: "flt list \<Rightarrow> flt list option \<Rightarrow> embedding" where
  "embedding_with_logits v l = \<lparr>vector = v, logits = l\<rparr>"

definition embedding_dim :: "embedding \<Rightarrow> nat" where
  "embedding_dim e = length (vector e)"

record ranked_signal =
  sig_id :: string
  score :: flt

datatype classify_status = Ok | Abstain | Error

record classification_result =
  res_classifier_id :: string
  res_model_revision :: string
  res_tokenizer_revision :: string
  res_taxonomy_revision :: string
  res_status :: classify_status
  res_ranked :: "ranked_signal list"

datatype classify_error =
    NotReady
  | ResourceExhausted
  | RequestExpired
  | TokenizerError string
  | EmbeddingFailed string
  | Unavailable string

text \<open>The \<open>Display\<close> text of an error, which reaches the client as a gRPC message.\<close>

fun show_classify_error :: "classify_error \<Rightarrow> string" where
  "show_classify_error NotReady = ''classifier not ready''"
| "show_classify_error ResourceExhausted = ''resource exhausted''"
| "show_classify_error RequestExpired = ''request expired''"
| "show_classify_error (TokenizerError e) = ''tokenizer error: '' @ e"
| "show_classify_error (EmbeddingFailed e) = ''embedding error: '' @ e"
| "show_classify_error (Unavailable m) = ''classifier unavailable: '' @ m"

type_synonym outcome = "classify_error + classification_result"

section \<open>Identity of a runtime\<close>

datatype ranking_mode = TrainedHead | AnchorCosine

fun ranking_mode_str :: "ranking_mode \<Rightarrow> string" where
  "ranking_mode_str TrainedHead = ''trained_head''"
| "ranking_mode_str AnchorCosine = ''anchor_cosine''"

record runtime_metadata =
  meta_classifier_id :: string
  meta_signal :: string
  meta_model_revision :: string
  meta_tokenizer_revision :: string
  meta_taxonomy_revision :: string
  meta_artifact_digest :: "string option"
  meta_ranking_mode :: ranking_mode

type_synonym identity = "string \<times> string \<times> string \<times> string \<times> string option"

definition cache_identity :: "runtime_metadata \<Rightarrow> identity" where
  "cache_identity m =
     (meta_classifier_id m, meta_model_revision m, meta_tokenizer_revision m,
      meta_taxonomy_revision m, meta_artifact_digest m)"

definition insufficient_context_abstention :: "runtime_metadata \<Rightarrow> classification_result" where
  "insufficient_context_abstention m =
     \<lparr>res_classifier_id = meta_classifier_id m,
      res_model_revision = meta_model_revision m,
      res_tokenizer_revision = meta_tokenizer_revision m,
      res_taxonomy_revision = meta_taxonomy_revision m,
      res_status = Abstain,
      res_ranked = []\<rparr>"

text \<open>The revisions a result carries, and the same four components of an identity.\<close>

definition result_revisions :: "classification_result \<Rightarrow> string \<times> string \<times> string \<times> string" where
  "result_revisions r =
     (res_classifier_id r, res_model_revision r, res_tokenizer_revision r, res_taxonomy_revision r)"

definition meta_revisions :: "runtime_metadata \<Rightarrow> string \<times> string \<times> string \<times> string" where
  "meta_revisions m =
     (meta_classifier_id m, meta_model_revision m, meta_tokenizer_revision m,
      meta_taxonomy_revision m)"

lemma abstention_revisions [simp]:
  "result_revisions (insufficient_context_abstention m) = meta_revisions m"
  "res_ranked (insufficient_context_abstention m) = []"
  "res_status (insufficient_context_abstention m) = Abstain"
  by (simp_all add: result_revisions_def meta_revisions_def insufficient_context_abstention_def)

end
