(* ===== verification/ExactCache.thy ===== *)
theory ExactCache
  imports ClassifyTypes "HOL-Library.AList"
begin

text \<open>
  The exact-result cache of \<open>src/src/cache.rs\<close>: a map bounded by FIFO eviction, with its
  hit, forward and eviction counters. The hash map is an association list (its \<open>len()\<close>
  is the list's length: an invariant keeps the keys distinct). Keys, values and errors are
  type parameters; the code instantiates them with \<open>CacheKey\<close>, \<open>ClassificationResult\<close>
  and \<open>ClassifyError\<close>.
\<close>

section \<open>State and operations\<close>

record ('k, 'v) exact_cache =
  ec_entries :: "('k \<times> 'v) list"
  ec_order :: "'k list"
  ec_capacity :: nat
  ec_forward_count :: nat
  ec_hit_count :: nat
  ec_evicted_count :: nat

definition DEFAULT_CAPACITY :: nat where
  "DEFAULT_CAPACITY = 50000"

definition ec_with_capacity :: "nat \<Rightarrow> ('k, 'v) exact_cache" where
  "ec_with_capacity capacity =
     \<lparr>ec_entries = [], ec_order = [], ec_capacity = max capacity 1,
      ec_forward_count = 0, ec_hit_count = 0, ec_evicted_count = 0\<rparr>"

definition ec_new :: "('k, 'v) exact_cache" where
  "ec_new = ec_with_capacity DEFAULT_CAPACITY"

text \<open>The eviction loop of \<open>store\<close>: it consumes the insertion order from the front.\<close>

fun evict_loop :: "nat \<Rightarrow> ('k \<times> 'v) list \<Rightarrow> 'k list \<Rightarrow> nat \<Rightarrow> ('k \<times> 'v) list \<times> 'k list \<times> nat" where
  "evict_loop cap es [] ev = (es, [], ev)"
| "evict_loop cap es (oldest # order) ev =
     (if cap \<le> length es
      then evict_loop cap (AList.delete oldest es) order
             (if map_of es oldest \<noteq> None then ev + 1 else ev)
      else (es, oldest # order, ev))"

definition ec_store :: "'k \<Rightarrow> 'v \<Rightarrow> ('k, 'v) exact_cache \<Rightarrow> ('k, 'v) exact_cache" where
  "ec_store key result c =
     (if map_of (ec_entries c) key \<noteq> None
      then c\<lparr>ec_entries := AList.update key result (ec_entries c)\<rparr>
      else (let (es, order, ev) =
                  evict_loop (ec_capacity c) (ec_entries c) (ec_order c) (ec_evicted_count c)
            in c\<lparr>ec_entries := AList.update key result es,
                 ec_order := order @ [key],
                 ec_evicted_count := ev\<rparr>))"

definition ec_len :: "('k, 'v) exact_cache \<Rightarrow> nat" where
  "ec_len c = length (ec_entries c)"

definition ec_is_empty :: "('k, 'v) exact_cache \<Rightarrow> bool" where
  "ec_is_empty c \<longleftrightarrow> ec_entries c = []"

definition ec_cached_value :: "'k \<Rightarrow> ('k, 'v) exact_cache \<Rightarrow> 'v option" where
  "ec_cached_value key c = map_of (ec_entries c) key"

text \<open>
  \<open>forward\<close> is the tokenize-and-forward closure: it may change the world \<open>'w\<close> it runs
  in, and returns an error or a result.
\<close>

definition ec_classify ::
    "'k \<Rightarrow> ('w \<Rightarrow> ('e + 'v) \<times> 'w) \<Rightarrow> ('k, 'v) exact_cache \<Rightarrow> 'w \<Rightarrow>
     ('e + 'v) \<times> ('k, 'v) exact_cache \<times> 'w" where
  "ec_classify key forward c w =
     (case map_of (ec_entries c) key of
        Some cached \<Rightarrow> (Inr cached, c\<lparr>ec_hit_count := ec_hit_count c + 1\<rparr>, w)
      | None \<Rightarrow>
          (let (result, w') = forward w
           in case result of
                Inr r \<Rightarrow>
                  (result, ec_store key r (c\<lparr>ec_forward_count := ec_forward_count c + 1\<rparr>), w')
              | Inl e \<Rightarrow> (result, c\<lparr>ec_forward_count := ec_forward_count c + 1\<rparr>, w')))"

definition ec_store_after_forward :: "'k \<Rightarrow> 'v \<Rightarrow> ('k, 'v) exact_cache \<Rightarrow> ('k, 'v) exact_cache" where
  "ec_store_after_forward key result c =
     ec_store key result (c\<lparr>ec_forward_count := ec_forward_count c + 1\<rparr>)"

section \<open>The invariant\<close>

text \<open>
  The insertion order lists the cached keys exactly once, oldest first, and the cache
  never holds more than its capacity, which is at least one.
\<close>

definition ec_inv :: "('k, 'v) exact_cache \<Rightarrow> bool" where
  "ec_inv c \<longleftrightarrow>
     distinct (ec_order c) \<and> distinct (List.map fst (ec_entries c)) \<and>
     set (ec_order c) = fst ` set (ec_entries c) \<and>
     length (ec_entries c) \<le> ec_capacity c \<and> 1 \<le> ec_capacity c"

lemma ec_inv_new: "ec_inv (ec_with_capacity n)"
  by (simp add: ec_inv_def ec_with_capacity_def)

lemma ec_inv_ec_new [simp]: "ec_inv ec_new"
  by (simp add: ec_inv_new ec_new_def)

lemma length_keys:
  assumes "distinct (List.map fst es)" and "distinct ks" and "set ks = fst ` set es"
  shows "length es = length ks"
  using assms by (metis distinct_card length_map list.set_map)

lemma length_delete:
  "distinct (List.map fst es) \<Longrightarrow> k \<in> fst ` set es \<Longrightarrow> length (AList.delete k es) = length es - 1"
  using arg_cong [OF delete_keys [of k es], of length]
  by (simp add: distinct_remove1_removeAll [symmetric] length_remove1)

text \<open>With the keys of the cache in the order, one eviction makes room for one entry.\<close>

lemma evict_loop_step:
  assumes "distinct (k # ks)" and "distinct (List.map fst es)" and "set (k # ks) = fst ` set es"
    and "length es = cap" and "1 \<le> cap"
  shows "evict_loop cap es (k # ks) ev = (AList.delete k es, ks, ev + 1)"
proof -
  have k: "k \<in> fst ` set es" using assms(3) by auto
  have "length (AList.delete k es) < cap"
    using length_delete [OF assms(2) k] assms(4,5) by simp
  then have "evict_loop cap (AList.delete k es) ks n = (AList.delete k es, ks, n)" for n
    by (cases ks) simp_all
  moreover have "map_of es k \<noteq> None" using k by (simp add: map_of_eq_None_iff)
  ultimately show ?thesis using assms(4) by simp
qed

lemma evict_loop_noop: "length es < cap \<Longrightarrow> evict_loop cap es ks ev = (es, ks, ev)"
  by (cases ks) simp_all

text \<open>The three ways a store changes the cache.\<close>

lemma ec_store_present:
  "map_of (ec_entries c) k \<noteq> None \<Longrightarrow>
     ec_store k v c = c\<lparr>ec_entries := AList.update k v (ec_entries c)\<rparr>"
  by (simp add: ec_store_def)

lemma ec_store_room:
  "map_of (ec_entries c) k = None \<Longrightarrow> length (ec_entries c) < ec_capacity c \<Longrightarrow>
     ec_store k v c =
       c\<lparr>ec_entries := AList.update k v (ec_entries c), ec_order := ec_order c @ [k]\<rparr>"
  by (simp add: ec_store_def evict_loop_noop)

lemma ec_store_full:
  assumes "ec_inv c" and "map_of (ec_entries c) k = None"
    and "length (ec_entries c) = ec_capacity c"
  obtains oldest rest where "ec_order c = oldest # rest"
    and "ec_store k v c =
       c\<lparr>ec_entries := AList.update k v (AList.delete oldest (ec_entries c)),
         ec_order := rest @ [k], ec_evicted_count := ec_evicted_count c + 1\<rparr>"
proof -
  have "length (ec_order c) = ec_capacity c"
    using assms(1,3) length_keys unfolding ec_inv_def by fastforce
  then obtain oldest rest where o: "ec_order c = oldest # rest"
    using assms(1) unfolding ec_inv_def by (cases "ec_order c") auto
  have "evict_loop (ec_capacity c) (ec_entries c) (oldest # rest) n =
      (AList.delete oldest (ec_entries c), rest, n + 1)" for n
    using assms(1,3) o unfolding ec_inv_def by (intro evict_loop_step) auto
  then show ?thesis
    using assms(2) o by (intro that [of oldest rest]) (simp_all add: ec_store_def)
qed

lemma length_update_new: "map_of es k = None \<Longrightarrow> length (AList.update k v es) = Suc (length es)"
  by (induction es) (auto split: if_splits)

lemma length_update_present: "map_of es k \<noteq> None \<Longrightarrow> length (AList.update k v es) = length es"
  by (induction es) auto

lemma keys_update: "fst ` set (AList.update k v es) = insert k (fst ` set es)"
  by (simp add: dom_update)

lemma keys_delete: "fst ` set (AList.delete k es) = fst ` set es - {k}"
  using arg_cong [OF delete_keys [of k es], of set] by simp

lemma ec_inv_store:
  assumes "ec_inv c" shows "ec_inv (ec_store k v c)"
proof -
  consider (present) "map_of (ec_entries c) k \<noteq> None"
    | (room) "map_of (ec_entries c) k = None" "length (ec_entries c) < ec_capacity c"
    | (full) "map_of (ec_entries c) k = None" "length (ec_entries c) = ec_capacity c"
    using assms unfolding ec_inv_def by linarith
  then show ?thesis
  proof cases
    case present
    then have "k \<in> fst ` set (ec_entries c)" by (simp add: map_of_eq_None_iff)
    with present assms show ?thesis
      by (auto simp: ec_store_present ec_inv_def keys_update length_update_present distinct_update)
  next
    case room
    then have "k \<notin> fst ` set (ec_entries c)" by (simp add: map_of_eq_None_iff)
    with room assms show ?thesis
      by (auto simp: ec_store_room ec_inv_def keys_update length_update_new distinct_update)
  next
    case full
    then have new: "k \<notin> fst ` set (ec_entries c)" by (simp add: map_of_eq_None_iff)
    from ec_store_full [OF assms full, of v] obtain oldest rest where
      o: "ec_order c = oldest # rest" and st: "ec_store k v c =
       c\<lparr>ec_entries := AList.update k v (AList.delete oldest (ec_entries c)),
         ec_order := rest @ [k], ec_evicted_count := ec_evicted_count c + 1\<rparr>" by blast
    have mem: "oldest \<in> fst ` set (ec_entries c)" using assms o by (auto simp: ec_inv_def)
    have none: "map_of (AList.delete oldest (ec_entries c)) k = None"
      using new keys_delete [of oldest "ec_entries c"] by (simp add: map_of_eq_None_iff)
    have len: "length (AList.delete oldest (ec_entries c)) = length (ec_entries c) - 1"
      using assms mem by (intro length_delete) (simp add: ec_inv_def)
    show ?thesis
      using assms new o len none unfolding st ec_inv_def
      by (auto simp: keys_update keys_delete length_update_new distinct_update distinct_delete)
  qed
qed

lemma ec_capacity_store [simp]: "ec_capacity (ec_store k v c) = ec_capacity c"
  by (simp add: ec_store_def split_beta Let_def)

lemma ec_len_bound: "ec_inv c \<Longrightarrow> ec_len c \<le> ec_capacity c"
  by (simp add: ec_inv_def ec_len_def)

interpretation ecb: bounded_store ec_len ec_capacity ec_inv "\<lambda>(k, v). ec_store k v"
  by unfold_locales (auto simp: ec_inv_store ec_len_bound)

lemma ec_inv_counts [simp]:
  "ec_inv (c\<lparr>ec_forward_count := n\<rparr>) = ec_inv c"
  "ec_inv (c\<lparr>ec_hit_count := n\<rparr>) = ec_inv c"
  by (simp_all add: ec_inv_def)

lemma ec_inv_store_after_forward: "ec_inv c \<Longrightarrow> ec_inv (ec_store_after_forward k v c)"
  by (simp add: ec_store_after_forward_def ec_inv_store)

lemma ec_inv_classify: "ec_inv c \<Longrightarrow> ec_inv (fst (snd (ec_classify k fwd c w)))"
  by (auto simp: ec_classify_def Let_def split_beta ec_inv_store split: option.split sum.split)

section \<open>Lookups after a store\<close>

lemma ec_cached_counts [simp]:
  "ec_cached_value k (c\<lparr>ec_forward_count := n\<rparr>) = ec_cached_value k c"
  "ec_cached_value k (c\<lparr>ec_hit_count := n\<rparr>) = ec_cached_value k c"
  by (simp_all add: ec_cached_value_def)

lemma map_of_evict_loop:
  "map_of es' k = Some v \<Longrightarrow> evict_loop cap es ks ev = (es', ks', ev') \<Longrightarrow> map_of es k = Some v"
  by (induction cap es ks ev rule: evict_loop.induct)
    (auto split: if_splits simp: delete_conv')

lemma ec_cached_store_same [simp]: "ec_cached_value k (ec_store k v c) = Some v"
  by (simp add: ec_cached_value_def ec_store_def split_beta Let_def update_conv')

lemma ec_cached_store_other:
  assumes "k' \<noteq> k" and "ec_cached_value k' (ec_store k v c) = Some u"
  shows "ec_cached_value k' c = Some u"
proof (cases "map_of (ec_entries c) k = None")
  case False
  with assms show ?thesis
    by (auto simp: ec_cached_value_def ec_store_present update_conv')
next
  case True
  obtain es order ev where
    e: "evict_loop (ec_capacity c) (ec_entries c) (ec_order c) (ec_evicted_count c) = (es, order, ev)"
    by (metis prod.exhaust)
  with True assms have "map_of es k' = Some u"
    by (simp add: ec_cached_value_def ec_store_def update_conv')
  from map_of_evict_loop [OF this e] show ?thesis by (simp add: ec_cached_value_def)
qed

section \<open>Refinement: a bounded FIFO of key-value pairs\<close>

text \<open>
  The abstract view of the cache is the list of its entries in insertion order. A store
  replaces the value of a present key in place, and otherwise appends the new entry,
  dropping the oldest ones beyond the capacity.
\<close>

definition ec_abs :: "('k, 'v) exact_cache \<Rightarrow> ('k \<times> 'v) list" where
  "ec_abs c = List.map (\<lambda>k. (k, the (map_of (ec_entries c) k))) (ec_order c)"

definition fifo_store :: "nat \<Rightarrow> 'k \<Rightarrow> 'v \<Rightarrow> ('k \<times> 'v) list \<Rightarrow> ('k \<times> 'v) list" where
  "fifo_store cap k v xs =
     (if k \<in> fst ` set xs then List.map (\<lambda>(k', u). if k' = k then (k', v) else (k', u)) xs
      else drop (length xs + 1 - cap) (xs @ [(k, v)]))"

lemma ec_abs_keys [simp]: "List.map fst (ec_abs c) = ec_order c"
  by (simp add: ec_abs_def comp_def)

lemma ec_abs_map_of:
  assumes "ec_inv c"
  shows "map_of (ec_abs c) = map_of (ec_entries c)"
proof
  fix k
  show "map_of (ec_abs c) k = map_of (ec_entries c) k"
  proof (cases "k \<in> set (ec_order c)")
    case True
    then have "map_of (ec_entries c) k \<noteq> None"
      using assms by (simp add: ec_inv_def map_of_eq_None_iff)
    with True show ?thesis by (auto simp: ec_abs_def map_of_map_restrict)
  next
    case False
    then show ?thesis
      using assms by (simp add: ec_inv_def ec_abs_def map_of_map_restrict map_of_eq_None_iff [symmetric])
  qed
qed

lemma ec_abs_length: "ec_inv c \<Longrightarrow> length (ec_abs c) = length (ec_entries c)"
  using length_keys [of "ec_entries c" "ec_order c"] by (simp add: ec_inv_def ec_abs_def)

lemma ec_abs_store:
  assumes "ec_inv c"
  shows "ec_abs (ec_store k v c) = fifo_store (ec_capacity c) k v (ec_abs c)"
proof -
  have keys: "fst ` set (ec_abs c) = set (ec_order c)"
    by (metis ec_abs_keys list.set_map)
  have dom: "set (ec_order c) = fst ` set (ec_entries c)" using assms by (simp add: ec_inv_def)
  consider (present) "k \<in> set (ec_order c)"
    | (room) "k \<notin> set (ec_order c)" "length (ec_entries c) < ec_capacity c"
    | (full) "k \<notin> set (ec_order c)" "length (ec_entries c) = ec_capacity c"
    using assms unfolding ec_inv_def by linarith
  then show ?thesis
  proof cases
    case present
    then have "map_of (ec_entries c) k \<noteq> None" using dom by (simp add: map_of_eq_None_iff)
    with present show ?thesis
      by (simp add: ec_store_present fifo_store_def keys) (simp add: ec_abs_def update_conv')
  next
    case room
    then have none: "map_of (ec_entries c) k = None" using dom by (simp add: map_of_eq_None_iff)
    have "length (ec_abs c) + 1 - ec_capacity c = 0"
      using room by (simp add: ec_abs_length [OF assms])
    with room none show ?thesis
      by (simp add: ec_store_room fifo_store_def keys)
        (auto simp: ec_abs_def update_conv')
  next
    case full
    then have none: "map_of (ec_entries c) k = None" using dom by (simp add: map_of_eq_None_iff)
    from ec_store_full [OF assms none full(2), of v] obtain oldest rest where
      o: "ec_order c = oldest # rest" and st: "ec_store k v c =
       c\<lparr>ec_entries := AList.update k v (AList.delete oldest (ec_entries c)),
         ec_order := rest @ [k], ec_evicted_count := ec_evicted_count c + 1\<rparr>" by blast
    have one: "length (ec_abs c) + 1 - ec_capacity c = Suc 0"
      using full(2) by (simp add: ec_abs_length [OF assms])
    have "oldest \<notin> set rest" using assms o by (simp add: ec_inv_def)
    with full(1) o one show ?thesis
      by (auto simp: st fifo_store_def keys) (auto simp: ec_abs_def update_conv' delete_conv')
  qed
qed

abbreviation ec_store_all :: "('k \<times> 'v) list \<Rightarrow> ('k, 'v) exact_cache \<Rightarrow> ('k, 'v) exact_cache" where
  "ec_store_all kvs c \<equiv> fold (\<lambda>(k, v). ec_store k v) kvs c"

abbreviation fifo_store_all :: "nat \<Rightarrow> ('k \<times> 'v) list \<Rightarrow> ('k \<times> 'v) list \<Rightarrow> ('k \<times> 'v) list" where
  "fifo_store_all cap kvs xs \<equiv> fold (\<lambda>(k, v). fifo_store cap k v) kvs xs"

lemma ec_abs_store_all:
  "ec_inv c \<Longrightarrow> ec_inv (ec_store_all kvs c) \<and> ec_capacity (ec_store_all kvs c) = ec_capacity c \<and>
     ec_abs (ec_store_all kvs c) = fifo_store_all (ec_capacity c) kvs (ec_abs c)"
  by (induction kvs arbitrary: c) (auto simp: ec_inv_store ec_abs_store)

text \<open>
  C9. Whatever is stored in whatever order, the hash map with its insertion-order queue
  behaves as a bounded FIFO list: same entries in the same order, same answer to every
  lookup, never more entries than the capacity.
\<close>

theorem exact_cache_refines_fifo:
  "ec_abs (ec_store_all kvs (ec_with_capacity n)) = fifo_store_all (max n 1) kvs [] \<and>
   ec_cached_value k (ec_store_all kvs (ec_with_capacity n)) = map_of (fifo_store_all (max n 1) kvs []) k \<and>
   ec_len (ec_store_all kvs (ec_with_capacity n)) \<le> max n 1"
proof -
  have c: "ec_capacity (ec_with_capacity n) = max n 1" "ec_abs (ec_with_capacity n) = []"
    by (simp_all add: ec_with_capacity_def ec_abs_def)
  define c' where "c' = ec_store_all kvs (ec_with_capacity n)"
  have s: "ec_inv c'" "ec_capacity c' = max n 1" "ec_abs c' = fifo_store_all (max n 1) kvs []"
    using ec_abs_store_all [OF ec_inv_new, of kvs n] by (simp_all add: c c'_def)
  have "ec_cached_value k c' = map_of (ec_abs c') k" for k
    by (simp add: ec_cached_value_def ec_abs_map_of [OF s(1)])
  moreover have "ec_len c' \<le> max n 1" using ec_len_bound [OF s(1)] s(2) by simp
  ultimately show ?thesis using s(3) by (simp flip: c'_def)
qed

section \<open>The concurrent entry point, for one caller\<close>

datatype cache_path = Hit | Miss | Coalesced

text \<open>
  \<open>classify_concurrent\<close> for a caller no other thread interferes with: the function the
  service core composes. \<open>forward\<close> runs in, and may change, the world \<open>'w\<close>.
\<close>

definition classify_concurrent ::
    "'k \<Rightarrow> ('w \<Rightarrow> ('e + 'v) \<times> 'w) \<Rightarrow> ('k, 'v) exact_cache \<Rightarrow> 'w \<Rightarrow>
     (('e + 'v) \<times> cache_path) \<times> ('k, 'v) exact_cache \<times> 'w" where
  "classify_concurrent key forward inner w =
     (case ec_cached_value key inner of
        Some cached \<Rightarrow> ((Inr cached, Hit), inner, w)
      | None \<Rightarrow>
          (let (result, w') = forward w;
               inner' = (case result of
                  Inr v \<Rightarrow> ec_store_after_forward key v inner
                | Inl e \<Rightarrow> inner)
           in ((result, Miss), inner', w')))"

end
