(* ===== verification/SharedCache.thy ===== *)
theory SharedCache
  imports ExactCache
begin

text \<open>
  The concurrent cache of \<open>src/src/cache.rs\<close> (\<open>SharedCache::classify_concurrent\<close>) as a
  transition system. A thread is a program counter; each transition is one critical
  section of the code, that is what a thread does while it holds one of the mutexes
  (\<open>inner\<close>, \<open>in_flight\<close>, the slot's \<open>result\<close>), or the \<open>notify_all\<close> that the code calls
  after it has released the last of them. Threads interleave arbitrarily between
  transitions. A waiter that finds no result sleeps on the slot's condition variable and
  stays asleep until the forwarder notifies it or it wakes up spuriously. In-flight slots live in a store of addresses, as the code shares
  them through \<open>Arc\<close>.
\<close>

section \<open>State\<close>

datatype ('k, 'e, 'v) cache_pc =
    Idle
  | Called 'k                        \<comment> \<open>before the fast path\<close>
  | Missed 'k                        \<comment> \<open>the fast path found nothing\<close>
  | Waiting 'k nat                   \<comment> \<open>about to look for the result of a slot\<close>
  | Parked 'k nat                    \<comment> \<open>asleep on the condition variable of a slot\<close>
  | Forwarding 'k                    \<comment> \<open>designated forwarder, inside \<open>forward()\<close>\<close>
  | Forwarded 'k "'e + 'v"           \<comment> \<open>the closure returned\<close>
  | Stored 'k "'e + 'v"              \<comment> \<open>a success has been stored\<close>
  | Removed 'k nat "'e + 'v"         \<comment> \<open>the slot has left the in-flight map\<close>
  | Published 'k nat "'e + 'v"       \<comment> \<open>the slot holds the result, nobody is notified yet\<close>
  | Returned 'k "'e + 'v" cache_path

text \<open>
  \<open>sc_log\<close> is a history variable: what every call of a forward closure returned. No
  transition reads it.
\<close>

record ('k, 'e, 'v) shared_cache =
  sc_inner :: "('k, 'v) exact_cache"
  sc_in_flight :: "'k \<rightharpoonup> nat"
  sc_slots :: "nat \<rightharpoonup> ('e + 'v) option"
  sc_next :: nat
  sc_pc :: "nat \<Rightarrow> ('k, 'e, 'v) cache_pc"
  sc_log :: "('k \<times> ('e + 'v)) list"

definition sc_new :: "('k, 'e, 'v) shared_cache" where
  "sc_new =
     \<lparr>sc_inner = ec_new, sc_in_flight = Map.empty, sc_slots = Map.empty, sc_next = 0,
      sc_pc = (\<lambda>_. Idle), sc_log = []\<rparr>"

abbreviation sc_goto ::
    "nat \<Rightarrow> ('k, 'e, 'v) cache_pc \<Rightarrow> ('k, 'e, 'v) shared_cache \<Rightarrow> ('k, 'e, 'v) shared_cache" where
  "sc_goto t p s \<equiv> s\<lparr>sc_pc := (sc_pc s)(t := p)\<rparr>"

section \<open>Transitions\<close>

text \<open>
  \<open>Condvar::notify_all\<close> of a slot: whoever sleeps on it is to look again.
\<close>

fun woken :: "nat \<Rightarrow> ('k, 'e, 'v) cache_pc \<Rightarrow> ('k, 'e, 'v) cache_pc" where
  "woken b (Parked k a) = (if a = b then Waiting k a else Parked k a)"
| "woken b p = p"

definition notify_all :: "nat \<Rightarrow> ('k, 'e, 'v) shared_cache \<Rightarrow> ('k, 'e, 'v) shared_cache" where
  "notify_all b s = s\<lparr>sc_pc := (\<lambda>t. woken b (sc_pc s t))\<rparr>"

text \<open>
  \<open>sc_advance t\<close> is the next transition of thread \<open>t\<close>; \<open>None\<close> says that it has none: it
  is idle or inside the forward closure, it sleeps on its slot, or the \<open>unwrap\<close> of the
  slot's removal would panic.
\<close>

definition sc_advance :: "nat \<Rightarrow> ('k, 'e, 'v) shared_cache \<Rightarrow> ('k, 'e, 'v) shared_cache option" where
  "sc_advance t s =
     (case sc_pc s t of
        Called k \<Rightarrow>
          (case ec_cached_value k (sc_inner s) of
             Some cached \<Rightarrow> Some (sc_goto t (Returned k (Inr cached) Hit) s)
           | None \<Rightarrow> Some (sc_goto t (Missed k) s))
      | Missed k \<Rightarrow>
          (case sc_in_flight s k of
             Some slot \<Rightarrow> Some (sc_goto t (Waiting k slot) s)
           | None \<Rightarrow>
               Some (sc_goto t (Forwarding k)
                 (s\<lparr>sc_in_flight := (sc_in_flight s)(k \<mapsto> sc_next s),
                    sc_slots := (sc_slots s)(sc_next s \<mapsto> None),
                    sc_next := sc_next s + 1\<rparr>)))
      | Waiting k slot \<Rightarrow>
          (case sc_slots s slot of
             Some (Some r) \<Rightarrow> Some (sc_goto t (Returned k r Coalesced) s)
           | Some None \<Rightarrow> Some (sc_goto t (Parked k slot) s)
           | None \<Rightarrow> None)
      | Forwarded k r \<Rightarrow>
          Some (sc_goto t (Stored k r)
            (case r of
               Inr v \<Rightarrow> s\<lparr>sc_inner := ec_store_after_forward k v (sc_inner s)\<rparr>
             | Inl e \<Rightarrow> s))
      | Stored k r \<Rightarrow>
          (case sc_in_flight s k of
             Some slot \<Rightarrow>
               Some (sc_goto t (Removed k slot r)
                 (s\<lparr>sc_in_flight := (sc_in_flight s)(k := None)\<rparr>))
           | None \<Rightarrow> None)
      | Removed k slot r \<Rightarrow>
          Some (sc_goto t (Published k slot r)
            (s\<lparr>sc_slots := (sc_slots s)(slot \<mapsto> Some r)\<rparr>))
      | Published k slot r \<Rightarrow> Some (sc_goto t (Returned k r Miss) (notify_all slot s))
      | Returned k r p \<Rightarrow> Some (sc_goto t Idle s)
      | _ \<Rightarrow> None)"

datatype ('k, 'e, 'v) cache_event =
    Call nat 'k
  | ForwardReturns nat "'e + 'v"
  | Advance nat
  | Spurious nat

fun sc_step ::
    "('k, 'e, 'v) cache_event \<Rightarrow> ('k, 'e, 'v) shared_cache \<Rightarrow> ('k, 'e, 'v) shared_cache option"
where
  "sc_step (Call t k) s = (if sc_pc s t = Idle then Some (sc_goto t (Called k) s) else None)"
| "sc_step (ForwardReturns t r) s =
     (case sc_pc s t of
        Forwarding k \<Rightarrow> Some (sc_goto t (Forwarded k r) (s\<lparr>sc_log := sc_log s @ [(k, r)]\<rparr>))
      | _ \<Rightarrow> None)"
| "sc_step (Advance t) s = sc_advance t s"
| "sc_step (Spurious t) s =
     (case sc_pc s t of
        Parked k b \<Rightarrow> Some (sc_goto t (Waiting k b) s)
      | _ \<Rightarrow> None)"

fun sc_run ::
    "('k, 'e, 'v) cache_event list \<Rightarrow> ('k, 'e, 'v) shared_cache \<Rightarrow> ('k, 'e, 'v) shared_cache option"
where
  "sc_run [] s = Some s"
| "sc_run (a # as) s = Option.bind (sc_step a s) (sc_run as)"

inductive sc_reachable :: "('k, 'e, 'v) shared_cache \<Rightarrow> bool" where
  sc_start: "sc_reachable sc_new"
| sc_more: "sc_reachable s \<Longrightarrow> sc_step a s = Some s' \<Longrightarrow> sc_reachable s'"

lemma sc_run_reachable: "sc_reachable s \<Longrightarrow> sc_run as s = Some s' \<Longrightarrow> sc_reachable s'"
  by (induction as arbitrary: s) (auto simp: bind_eq_Some_conv intro: sc_more)

definition sc_forward_count :: "('k, 'e, 'v) shared_cache \<Rightarrow> nat" where
  "sc_forward_count s = ec_forward_count (sc_inner s)"

section \<open>The invariant\<close>

text \<open>The thread is the designated forwarder of the key, its slot still in the map.\<close>

fun leads :: "'k \<Rightarrow> ('k, 'e, 'v) cache_pc \<Rightarrow> bool" where
  "leads k (Forwarding k') = (k' = k)"
| "leads k (Forwarded k' r) = (k' = k)"
| "leads k (Stored k' r) = (k' = k)"
| "leads k _ = False"

text \<open>Slots: who owns them, and what they hold.\<close>

definition slots_inv :: "('k, 'e, 'v) shared_cache \<Rightarrow> bool" where
  "slots_inv s \<longleftrightarrow>
     (\<forall>k a. sc_in_flight s k = Some a \<longrightarrow> a < sc_next s \<and> sc_slots s a = Some None) \<and>
     (\<forall>k k' a. sc_in_flight s k = Some a \<longrightarrow> sc_in_flight s k' = Some a \<longrightarrow> k' = k) \<and>
     (\<forall>t k a r. sc_pc s t = Removed k a r \<longrightarrow>
        a < sc_next s \<and> sc_slots s a = Some None \<and> (\<forall>k'. sc_in_flight s k' \<noteq> Some a)) \<and>
     (\<forall>t t' k k' a r r'. sc_pc s t = Removed k a r \<longrightarrow> sc_pc s t' = Removed k' a r' \<longrightarrow> t' = t)"

definition leaders_inv :: "('k, 'e, 'v) shared_cache \<Rightarrow> bool" where
  "leaders_inv s \<longleftrightarrow>
     (\<forall>k. sc_in_flight s k \<noteq> None \<longleftrightarrow> (\<exists>t. leads k (sc_pc s t))) \<and>
     (\<forall>k t t'. leads k (sc_pc s t) \<longrightarrow> leads k (sc_pc s t') \<longrightarrow> t' = t)"

text \<open>
  A slot is served for a key: its forwarder is still to remove it, or is about to publish
  it, or has published a result that a forward for that key returned.
\<close>

definition slot_served :: "('k, 'e, 'v) shared_cache \<Rightarrow> 'k \<Rightarrow> nat \<Rightarrow> bool" where
  "slot_served s k a \<longleftrightarrow>
     sc_in_flight s k = Some a \<or>
     (\<exists>t r. sc_pc s t = Removed k a r) \<or>
     (\<exists>r. sc_slots s a = Some (Some r) \<and> (k, r) \<in> set (sc_log s))"

text \<open>The thread waits for a slot, awake or asleep.\<close>

fun awaits :: "('k, 'e, 'v) cache_pc \<Rightarrow> 'k \<Rightarrow> nat \<Rightarrow> bool" where
  "awaits (Waiting k' a') k a = (k' = k \<and> a' = a)"
| "awaits (Parked k' a') k a = (k' = k \<and> a' = a)"
| "awaits _ k a = False"

definition waiters_inv :: "('k, 'e, 'v) shared_cache \<Rightarrow> bool" where
  "waiters_inv s \<longleftrightarrow>
     (\<forall>t k a. awaits (sc_pc s t) k a \<longrightarrow> a < sc_next s \<and> slot_served s k a)"

text \<open>No wake-up is lost: who sleeps on a slot that holds its result is still to be notified.\<close>

definition sleepers_inv :: "('k, 'e, 'v) shared_cache \<Rightarrow> bool" where
  "sleepers_inv s \<longleftrightarrow>
     (\<forall>t k a. sc_pc s t = Parked k a \<longrightarrow>
        sc_slots s a = Some None \<or> (\<exists>u k' r. sc_pc s u = Published k' a r))"

fun pc_result :: "('k, 'e, 'v) cache_pc \<Rightarrow> ('k \<times> ('e + 'v)) option" where
  "pc_result (Forwarded k r) = Some (k, r)"
| "pc_result (Stored k r) = Some (k, r)"
| "pc_result (Removed k a r) = Some (k, r)"
| "pc_result (Published k a r) = Some (k, r)"
| "pc_result (Returned k r p) = Some (k, r)"
| "pc_result _ = None"

definition provenance_inv :: "('k, 'e, 'v) shared_cache \<Rightarrow> bool" where
  "provenance_inv s \<longleftrightarrow>
     (\<forall>k v. ec_cached_value k (sc_inner s) = Some v \<longrightarrow> (k, Inr v) \<in> set (sc_log s)) \<and>
     (\<forall>t q. pc_result (sc_pc s t) = Some q \<longrightarrow> q \<in> set (sc_log s))"

definition sc_inv :: "('k, 'e, 'v) shared_cache \<Rightarrow> bool" where
  "sc_inv s \<longleftrightarrow>
     slots_inv s \<and> leaders_inv s \<and> waiters_inv s \<and> sleepers_inv s \<and> provenance_inv s \<and>
     ec_inv (sc_inner s)"

lemma ec_cached_new [simp]: "ec_cached_value k ec_new = None"
  by (simp add: ec_cached_value_def ec_new_def ec_with_capacity_def)

lemma sc_inv_new: "sc_inv sc_new"
  by (simp add: sc_inv_def slots_inv_def leaders_inv_def waiters_inv_def sleepers_inv_def
      provenance_inv_def sc_new_def)

section \<open>Preservation\<close>

lemma sc_stepE:
  assumes "sc_step a s = Some s'"
  obtains
    (call) t k where "sc_pc s t = Idle" "s' = sc_goto t (Called k) s"
  | (hit) t k v where "sc_pc s t = Called k" "ec_cached_value k (sc_inner s) = Some v"
      "s' = sc_goto t (Returned k (Inr v) Hit) s"
  | (miss) t k where "sc_pc s t = Called k" "ec_cached_value k (sc_inner s) = None"
      "s' = sc_goto t (Missed k) s"
  | (join) t k b where "sc_pc s t = Missed k" "sc_in_flight s k = Some b"
      "s' = sc_goto t (Waiting k b) s"
  | (lead) t k where "sc_pc s t = Missed k" "sc_in_flight s k = None"
      "s' = sc_goto t (Forwarding k)
         (s\<lparr>sc_in_flight := (sc_in_flight s)(k \<mapsto> sc_next s),
            sc_slots := (sc_slots s)(sc_next s \<mapsto> None), sc_next := sc_next s + 1\<rparr>)"
  | (wake) t k b r where "sc_pc s t = Waiting k b" "sc_slots s b = Some (Some r)"
      "s' = sc_goto t (Returned k r Coalesced) s"
  | (park) t k b where "sc_pc s t = Waiting k b" "sc_slots s b = Some None"
      "s' = sc_goto t (Parked k b) s"
  | (spurious) t k b where "sc_pc s t = Parked k b" "s' = sc_goto t (Waiting k b) s"
  | (returns) t k r where "sc_pc s t = Forwarding k"
      "s' = sc_goto t (Forwarded k r) (s\<lparr>sc_log := sc_log s @ [(k, r)]\<rparr>)"
  | (store) t k v where "sc_pc s t = Forwarded k (Inr v)"
      "s' = sc_goto t (Stored k (Inr v)) (s\<lparr>sc_inner := ec_store_after_forward k v (sc_inner s)\<rparr>)"
  | (failed) t k e where "sc_pc s t = Forwarded k (Inl e)" "s' = sc_goto t (Stored k (Inl e)) s"
  | (remove) t k b r where "sc_pc s t = Stored k r" "sc_in_flight s k = Some b"
      "s' = sc_goto t (Removed k b r) (s\<lparr>sc_in_flight := (sc_in_flight s)(k := None)\<rparr>)"
  | (publish) t k b r where "sc_pc s t = Removed k b r"
      "s' = sc_goto t (Published k b r) (s\<lparr>sc_slots := (sc_slots s)(b \<mapsto> Some r)\<rparr>)"
  | (notify) t k b r where "sc_pc s t = Published k b r"
      "s' = sc_goto t (Returned k r Miss) (notify_all b s)"
  | (finish) t k r p where "sc_pc s t = Returned k r p" "s' = sc_goto t Idle s"
proof (cases a)
  case (Advance t)
  with assms show ?thesis
    by (auto simp: sc_advance_def split: cache_pc.splits option.splits sum.splits intro: that)
next
  case (Call t k)
  with assms show ?thesis by (intro call) (auto split: if_splits)
next
  case (ForwardReturns t r)
  with assms obtain k where "sc_pc s t = Forwarding k" by (auto split: cache_pc.splits)
  with assms ForwardReturns show ?thesis by (intro returns) auto
next
  case (Spurious t)
  with assms obtain k b where "sc_pc s t = Parked k b" by (auto split: cache_pc.splits)
  with assms Spurious show ?thesis by (intro spurious) auto
qed

lemma notify_all_simps [simp]:
  "sc_inner (notify_all b s) = sc_inner s" "sc_in_flight (notify_all b s) = sc_in_flight s"
  "sc_slots (notify_all b s) = sc_slots s" "sc_next (notify_all b s) = sc_next s"
  "sc_log (notify_all b s) = sc_log s" "sc_pc (notify_all b s) t = woken b (sc_pc s t)"
  by (simp_all add: notify_all_def)

lemma woken_simps [simp]:
  "woken b p = Removed k a r \<longleftrightarrow> p = Removed k a r"
  "woken b p = Published k a r \<longleftrightarrow> p = Published k a r"
  "woken b p = Parked k a \<longleftrightarrow> p = Parked k a \<and> a \<noteq> b"
  "woken b p = Idle \<longleftrightarrow> p = Idle"
  "leads k (woken b p) \<longleftrightarrow> leads k p"
  "awaits (woken b p) k a \<longleftrightarrow> awaits p k a"
  "pc_result (woken b p) = pc_result p"
  by (cases p; auto)+

lemma slots_inv_step: "sc_step a s = Some s' \<Longrightarrow> slots_inv s \<Longrightarrow> slots_inv s'"
proof (elim sc_stepE)
qed (fastforce simp: slots_inv_def split: if_splits)+

text \<open>Only taking and giving up the lead changes who leads which key.\<close>

lemma leaders_inv_cong:
  assumes "sc_in_flight s' = sc_in_flight s" and "\<And>k t. leads k (sc_pc s' t) = leads k (sc_pc s t)"
  shows "leaders_inv s' = leaders_inv s"
  by (simp add: leaders_inv_def assms)

lemma leaders_inv_step:
  assumes "sc_step a s = Some s'" and "leaders_inv s"
  shows "leaders_inv s'"
  using assms(1)
proof (cases rule: sc_stepE)
  case (lead t k)
  have none: "\<not> leads k (sc_pc s u)" for u
    using assms(2) lead(2) unfolding leaders_inv_def by metis
  have pc: "leads k' (sc_pc s' u) \<longleftrightarrow> (u = t \<and> k' = k) \<or> leads k' (sc_pc s u)" for k' u
    using lead(1,3) by auto
  show ?thesis
    using assms(2) none unfolding leaders_inv_def pc by (auto simp: lead(3))
next
  case (remove t k b r)
  have pc: "leads k' (sc_pc s' u) \<longleftrightarrow> u \<noteq> t \<and> leads k' (sc_pc s u)" for k' u
    using remove(3) by auto
  have lt: "leads k' (sc_pc s t) \<longleftrightarrow> k' = k" for k' using remove(1) by auto
  show ?thesis
    using assms(2) unfolding leaders_inv_def pc by (auto simp: remove(3)) (metis lt)+
qed (use assms(2) in \<open>subst leaders_inv_cong [where s = s]; auto\<close>)+

text \<open>A slot that waiters may hold keeps being served until it is published.\<close>

lemma removed_step:
  assumes "sc_step a s = Some s'" and "sc_pc s u = Removed k b r"
  shows "sc_pc s' u = Removed k b r \<or> sc_slots s' b = Some (Some r) \<and> sc_log s' = sc_log s"
  using assms(1) by (cases rule: sc_stepE) (use assms(2) in auto)

lemma in_flight_step:
  assumes "sc_step a s = Some s'" and "sc_in_flight s k = Some b"
  shows "sc_in_flight s' k = Some b \<or> (\<exists>t r. sc_pc s' t = Removed k b r)"
  using assms(1) by (cases rule: sc_stepE) (use assms(2) in auto)

lemma published_step:
  assumes "sc_step a s = Some s'" and "slots_inv s"
    and "sc_slots s b = Some (Some r)" and "b < sc_next s"
  shows "sc_slots s' b = Some (Some r)"
  using assms(1)
proof (cases rule: sc_stepE)
  case (publish t k' b' r')
  then have "sc_slots s b' = Some None" using assms(2) unfolding slots_inv_def by blast
  with assms(3) publish show ?thesis by auto
qed (use assms(3,4) in auto)

lemma log_step: "sc_step a s = Some s' \<Longrightarrow> q \<in> set (sc_log s) \<Longrightarrow> q \<in> set (sc_log s')"
  by (elim sc_stepE) auto

lemma provenanceD: "provenance_inv s \<Longrightarrow> pc_result (sc_pc s t) = Some q \<Longrightarrow> q \<in> set (sc_log s)"
  unfolding provenance_inv_def by blast

lemma provenance_cachedD:
  "provenance_inv s \<Longrightarrow> ec_cached_value k (sc_inner s) = Some v \<Longrightarrow> (k, Inr v) \<in> set (sc_log s)"
  by (simp add: provenance_inv_def)

lemma slot_served_step:
  assumes "sc_step a s = Some s'" and "slots_inv s" and "provenance_inv s"
    and "slot_served s k b" and "b < sc_next s"
  shows "slot_served s' k b"
proof -
  from assms(4) consider "sc_in_flight s k = Some b" | u r where "sc_pc s u = Removed k b r"
    | r where "sc_slots s b = Some (Some r)" "(k, r) \<in> set (sc_log s)"
    unfolding slot_served_def by blast
  then show ?thesis
  proof cases
    case 1
    then show ?thesis using in_flight_step [OF assms(1)] by (auto simp: slot_served_def)
  next
    case (2 u r)
    then have "(k, r) \<in> set (sc_log s)" using provenanceD [OF assms(3), of u] by simp
    with removed_step [OF assms(1) 2] show ?thesis by (auto simp: slot_served_def)
  next
    case (3 r)
    then show ?thesis
      using published_step [OF assms(1,2) 3(1) assms(5)] log_step [OF assms(1)]
      by (auto simp: slot_served_def)
  qed
qed

lemma next_step: "sc_step a s = Some s' \<Longrightarrow> sc_next s \<le> sc_next s'"
  by (elim sc_stepE) auto

text \<open>A thread that waits after a step either waited before or has just found the slot.\<close>

lemma waiting_step:
  assumes "sc_step a s = Some s'" and "awaits (sc_pc s' u) k b"
  shows "awaits (sc_pc s u) k b \<or> sc_in_flight s k = Some b"
  using assms(1) by (cases rule: sc_stepE) (use assms(2) in \<open>auto split: if_splits\<close>)

lemma waiters_inv_step:
  assumes "sc_step a s = Some s'" and "waiters_inv s" and "slots_inv s" and "provenance_inv s"
  shows "waiters_inv s'"
  unfolding waiters_inv_def
proof (intro allI impI)
  fix u k b assume "awaits (sc_pc s' u) k b"
  from waiting_step [OF assms(1) this] have "b < sc_next s \<and> slot_served s k b"
  proof
    assume "awaits (sc_pc s u) k b"
    with assms(2) show ?thesis by (simp add: waiters_inv_def)
  next
    assume "sc_in_flight s k = Some b"
    with assms(3) show ?thesis by (simp add: slots_inv_def slot_served_def)
  qed
  then show "b < sc_next s' \<and> slot_served s' k b"
    using slot_served_step [OF assms(1,3,4)] next_step [OF assms(1)] by auto
qed

text \<open>
  Only a forwarder's publication fills a slot, and that forwarder is then to notify; when it
  does, it leaves nobody asleep.
\<close>

lemma parked_step:
  assumes "sc_step a s = Some s'" and "sc_pc s' u = Parked k b"
  shows "sc_pc s u = Parked k b \<or> sc_slots s' b = Some None"
  using assms(1) by (cases rule: sc_stepE) (use assms(2) in \<open>auto split: if_splits\<close>)

lemma empty_slot_step:
  assumes "sc_step a s = Some s'" and "sc_slots s b = Some None"
  shows "sc_slots s' b = Some None \<or> (\<exists>u k r. sc_pc s' u = Published k b r)"
  using assms(1) by (cases rule: sc_stepE) (use assms(2) in auto)

lemma notifier_step:
  assumes "sc_step a s = Some s'" and "sc_pc s u = Published k b r"
  shows "sc_pc s' u = Published k b r \<or> (\<forall>v k'. sc_pc s' v \<noteq> Parked k' b)"
  using assms(1) by (cases rule: sc_stepE) (use assms(2) in \<open>auto split: if_splits\<close>)

lemma sleepers_inv_step:
  assumes "sc_step a s = Some s'" and "sleepers_inv s"
  shows "sleepers_inv s'"
  using assms(2) parked_step [OF assms(1)] empty_slot_step [OF assms(1)] notifier_step [OF assms(1)]
  unfolding sleepers_inv_def by metis

lemma cached_step:
  assumes "sc_step a s = Some s'" and "ec_cached_value k (sc_inner s') = Some v"
  shows "ec_cached_value k (sc_inner s) = Some v \<or> (\<exists>t. sc_pc s t = Forwarded k (Inr v))"
  using assms(1)
proof (cases rule: sc_stepE)
  case (store t k' v')
  with assms(2) show ?thesis
    by (cases "k = k'") (auto simp: ec_store_after_forward_def dest: ec_cached_store_other [rotated])
qed (use assms(2) in auto)

text \<open>Where the result a thread holds after a step comes from.\<close>

lemma result_step:
  assumes "sc_step a s = Some s'" and "pc_result (sc_pc s' u) = Some q"
  shows "q \<in> set (sc_log s') \<or> pc_result (sc_pc s u) = Some q \<or>
    (\<exists>v. snd q = Inr v \<and> ec_cached_value (fst q) (sc_inner s) = Some v) \<or>
    (\<exists>b r. sc_pc s u = Waiting (fst q) b \<and> sc_slots s b = Some (Some (snd q)))"
  using assms(1) by (cases rule: sc_stepE) (use assms(2) in \<open>auto split: if_splits\<close>)

text \<open>What a waiter reads from its slot is what a forward for its key returned.\<close>

lemma waiter_reads:
  assumes "sc_inv s" and "sc_pc s u = Waiting k b" and "sc_slots s b = Some (Some r)"
  shows "(k, r) \<in> set (sc_log s)"
proof -
  have "awaits (sc_pc s u) k b" by (simp add: assms(2))
  then have "slot_served s k b" using assms(1) unfolding sc_inv_def waiters_inv_def by blast
  moreover have "sc_in_flight s k \<noteq> Some b" "sc_pc s t \<noteq> Removed k b r'" for t r'
    using assms(1,3) unfolding sc_inv_def slots_inv_def by force+
  ultimately show ?thesis using assms(3) by (auto simp: slot_served_def)
qed

lemma provenance_inv_step:
  assumes "sc_step a s = Some s'" and "sc_inv s"
  shows "provenance_inv s'"
  unfolding provenance_inv_def
proof (intro conjI allI impI)
  have prov: "provenance_inv s" using assms(2) by (simp add: sc_inv_def)
  fix k v assume "ec_cached_value k (sc_inner s') = Some v"
  from cached_step [OF assms(1) this] have "(k, Inr v) \<in> set (sc_log s)"
    using provenance_cachedD [OF prov] provenanceD [OF prov] by (metis pc_result.simps(1))
  then show "(k, Inr v) \<in> set (sc_log s')" by (rule log_step [OF assms(1)])
next
  have prov: "provenance_inv s" using assms(2) by (simp add: sc_inv_def)
  fix u q assume "pc_result (sc_pc s' u) = Some q"
  from result_step [OF assms(1) this] have "q \<in> set (sc_log s') \<or> q \<in> set (sc_log s)"
    using provenanceD [OF prov] provenance_cachedD [OF prov] waiter_reads [OF assms(2)]
    by (metis prod.collapse)
  then show "q \<in> set (sc_log s')" using log_step [OF assms(1)] by blast
qed

lemma inner_inv_step: "sc_step a s = Some s' \<Longrightarrow> ec_inv (sc_inner s) \<Longrightarrow> ec_inv (sc_inner s')"
  by (elim sc_stepE) (auto simp: ec_inv_store_after_forward)

lemma sc_inv_step:
  assumes "sc_step a s = Some s'" and "sc_inv s"
  shows "sc_inv s'"
  using assms slots_inv_step [OF assms(1)] leaders_inv_step [OF assms(1)]
    waiters_inv_step [OF assms(1)] sleepers_inv_step [OF assms(1)] provenance_inv_step [OF assms]
    inner_inv_step [OF assms(1)]
  unfolding sc_inv_def by blast

lemma sc_reachable_inv: "sc_reachable s \<Longrightarrow> sc_inv s"
  by (induction rule: sc_reachable.induct) (blast intro: sc_inv_new sc_inv_step)+

section \<open>Nothing stays blocked\<close>

lemma leader_slot:
  assumes "sc_inv s" and "leads k (sc_pc s t)"
  obtains b where "sc_in_flight s k = Some b"
  using assms unfolding sc_inv_def leaders_inv_def by (metis not_Some_eq)

lemma sc_run_append: "sc_run (as @ bs) s = Option.bind (sc_run as s) (sc_run bs)"
  by (induction as arbitrary: s) (auto split: bind_splits)

section \<open>One caller alone\<close>

lemma solo_hit_run:
  assumes "sc_pc s t = Idle" and "ec_cached_value k (sc_inner s) = Some v"
  shows "sc_run [Call t k, Advance t] s = Some (sc_goto t (Returned k (Inr v) Hit) s)"
  using assms by (simp add: sc_advance_def)

lemma solo_miss_run:
  assumes "sc_pc s t = Idle" and "ec_cached_value k (sc_inner s) = None" and "sc_in_flight s k = None"
  shows "sc_run [Call t k, Advance t, Advance t, ForwardReturns t r,
     Advance t, Advance t, Advance t, Advance t] s =
    Some (sc_goto t (Returned k r Miss) (notify_all (sc_next s)
      (s\<lparr>sc_inner := (case r of Inr v \<Rightarrow> ec_store_after_forward k v (sc_inner s) | Inl e \<Rightarrow> sc_inner s),
         sc_slots := (sc_slots s)(sc_next s \<mapsto> Some r), sc_next := sc_next s + 1,
         sc_log := sc_log s @ [(k, r)]\<rparr>)))"
  using assms
  by (cases r) (auto simp: sc_advance_def notify_all_def fun_upd_idem fun_eq_iff)

end
