(* ===== verification/SingleFlight.thy ===== *)
theory SingleFlight
  imports SharedCache
begin

text \<open>
  What the concurrent cache guarantees over all interleavings of its threads
  (\<open>SharedCache\<close>), and the two runs that show what it does not: a second forward for a key
  whose result is already cached, and a forward its counter does not see.
\<close>

section \<open>Safety\<close>

text \<open>
  C1. In every reachable state at most one thread runs the forward of a key.
\<close>

theorem one_forward_in_flight:
  assumes "sc_reachable s" and "sc_pc s t = Forwarding k" and "sc_pc s t' = Forwarding k"
  shows "t' = t"
proof -
  have "leads k (sc_pc s t)" "leads k (sc_pc s t')" using assms(2,3) by simp_all
  with sc_reachable_inv [OF assms(1)] show ?thesis
    unfolding sc_inv_def leaders_inv_def by blast
qed

lemma demo_reachable: "sc_run as sc_new = Some s \<Longrightarrow> sc_reachable s"
  by (rule sc_run_reachable [OF sc_start])

theorem one_forward_in_flight_witness:
  "\<exists>s. sc_run [Call 0 True, Advance 0, Advance 0] (sc_new :: (bool, unit, nat) shared_cache) = Some s \<and>
     sc_pc s 0 = Forwarding True \<and> (sc_pc s 5 = Forwarding True \<longrightarrow> 5 = (0::nat))"
proof -
  obtain s where s: "sc_run [Call 0 True, Advance 0, Advance 0] (sc_new :: (bool, unit, nat) shared_cache) = Some s"
    "sc_pc s 0 = Forwarding True"
    by (simp add: sc_advance_def sc_new_def)
  then show ?thesis using one_forward_in_flight [OF demo_reachable [OF s(1)] s(2)] by blast
qed

text \<open>
  C10. Whatever a caller gets back for a key, and whatever the cache holds for it, was
  returned by a call of the forward for that same key; the cache holds only successes.
\<close>

theorem results_are_computed:
  assumes "sc_reachable s"
  shows "(\<forall>t k r p. sc_pc s t = Returned k r p \<longrightarrow> (k, r) \<in> set (sc_log s)) \<and>
    (\<forall>k v. ec_cached_value k (sc_inner s) = Some v \<longrightarrow> (k, Inr v) \<in> set (sc_log s))"
proof -
  have prov: "provenance_inv s" using sc_reachable_inv [OF assms] by (simp add: sc_inv_def)
  show ?thesis
    using provenanceD [OF prov] provenance_cachedD [OF prov] by (metis pc_result.simps(5))
qed

theorem results_are_computed_witness:
  "\<exists>s. sc_run [Call 0 True, Advance 0, Advance 0, ForwardReturns 0 (Inr 7), Advance 0, Advance 0, Advance 0, Advance 0]
       (sc_new :: (bool, unit, nat) shared_cache) = Some s \<and>
     sc_pc s 0 = Returned True (Inr 7) Miss \<and> (True, Inr 7) \<in> set (sc_log s)"
proof -
  obtain s where s: "sc_run [Call 0 True, Advance 0, Advance 0, ForwardReturns 0 (Inr 7), Advance 0, Advance 0, Advance 0, Advance 0]
       (sc_new :: (bool, unit, nat) shared_cache) = Some s" "sc_pc s 0 = Returned True (Inr 7) Miss"
    by (simp add: sc_advance_def sc_new_def)
  then show ?thesis using results_are_computed [OF demo_reachable [OF s(1)]] by blast
qed

text \<open>
  The \<open>unwrap\<close> of the in-flight removal never panics: a forwarder always
  finds its own slot, and no result has been published in it before.
\<close>

theorem slot_removal_succeeds:
  assumes "sc_reachable s" and "sc_pc s t = Stored k r"
  shows "\<exists>b s'. sc_in_flight s k = Some b \<and> sc_slots s b = Some None \<and>
    sc_step (Advance t) s = Some s' \<and> sc_pc s' t = Removed k b r \<and> sc_in_flight s' k = None"
proof -
  note inv = sc_reachable_inv [OF assms(1)]
  have "leads k (sc_pc s t)" using assms(2) by simp
  from leader_slot [OF inv this] obtain b where b: "sc_in_flight s k = Some b" .
  moreover from this have "sc_slots s b = Some None"
    using inv by (simp add: sc_inv_def slots_inv_def)
  ultimately show ?thesis using assms(2) by (simp add: sc_advance_def)
qed

theorem slot_removal_succeeds_witness:
  "\<exists>s b. sc_run [Call 0 True, Advance 0, Advance 0, ForwardReturns 0 (Inl ()), Advance 0]
       (sc_new :: (bool, unit, nat) shared_cache) = Some s \<and> sc_in_flight s True = Some b"
proof -
  obtain s where s: "sc_run [Call 0 True, Advance 0, Advance 0, ForwardReturns 0 (Inl ()), Advance 0]
       (sc_new :: (bool, unit, nat) shared_cache) = Some s" "sc_pc s 0 = Stored True (Inl ())"
    by (simp add: sc_advance_def sc_new_def)
  then show ?thesis using slot_removal_succeeds [OF demo_reachable [OF s(1)] s(2)] by blast
qed

lemma capacity_step:
  "sc_step a s = Some s' \<Longrightarrow> ec_capacity (sc_inner s') = ec_capacity (sc_inner s)"
  by (elim sc_stepE) (auto simp: ec_store_after_forward_def ecb.add_capacity split: prod.splits)

text \<open>
  The cache never holds more than its default capacity, in any reachable state.
\<close>

theorem shared_cache_bounded:
  assumes "sc_reachable s"
  shows "ec_len (sc_inner s) \<le> DEFAULT_CAPACITY"
proof -
  have "ec_capacity (sc_inner s) = DEFAULT_CAPACITY"
    using assms
  proof (induction rule: sc_reachable.induct)
    case sc_start
    show ?case by (simp add: sc_new_def ec_new_def ec_with_capacity_def DEFAULT_CAPACITY_def)
  qed (simp add: capacity_step)
  moreover have "ec_inv (sc_inner s)" using sc_reachable_inv [OF assms] by (simp add: sc_inv_def)
  ultimately show ?thesis by (metis ecb.inv_bound)
qed

theorem shared_cache_bounded_witness:
  "ec_len (sc_inner (sc_new :: (bool, unit, nat) shared_cache)) \<le> DEFAULT_CAPACITY"
  by (rule shared_cache_bounded [OF sc_start])

section \<open>Progress\<close>

text \<open>
  What the threads do by themselves: their transitions and the return of their forward
  closures. New calls come from outside, and a spurious wake-up is the condition variable's.
\<close>

fun sc_internal :: "('k, 'e, 'v) cache_event \<Rightarrow> bool" where
  "sc_internal (Advance t) = True"
| "sc_internal (ForwardReturns t r) = True"
| "sc_internal (Spurious t) = False"
| "sc_internal (Call t k) = False"

fun is_spurious :: "('k, 'e, 'v) cache_event \<Rightarrow> bool" where
  "is_spurious (Spurious t) = True"
| "is_spurious _ = False"

fun is_call :: "('k, 'e, 'v) cache_event \<Rightarrow> bool" where
  "is_call (Call t k) = True"
| "is_call _ = False"

text \<open>The threads inside a call.\<close>

definition busy :: "('k, 'e, 'v) shared_cache \<Rightarrow> nat set" where
  "busy s = {t. sc_pc s t \<noteq> Idle}"

text \<open>
  How far a thread is from its return, where \<open>n\<close> other threads may be asleep on its slot
  when it notifies them.
\<close>

fun distance :: "nat \<Rightarrow> ('k, 'e, 'v) cache_pc \<Rightarrow> nat" where
  "distance n Idle = 0"
| "distance n (Returned k r p) = 1"
| "distance n (Parked k a) = 2"
| "distance n (Waiting k a) = 3"
| "distance n (Published k a r) = n + 2"
| "distance n (Removed k a r) = n + 3"
| "distance n (Stored k r) = n + 4"
| "distance n (Forwarded k r) = n + 5"
| "distance n (Forwarding k) = n + 6"
| "distance n (Missed k) = n + 7"
| "distance n (Called k) = n + 8"

lemma distance_bound: "distance n p \<le> n + 8"
  by (cases p) simp_all

lemma distance_woken: "distance n (woken b p) \<le> Suc (distance n p)"
  by (cases p) simp_all

definition remaining :: "nat set \<Rightarrow> ('k, 'e, 'v) shared_cache \<Rightarrow> nat" where
  "remaining B s = (\<Sum>t\<in>B. distance (card B) (sc_pc s t))"

text \<open>One thread moves and no other does.\<close>

lemma remaining_goto:
  assumes "finite B" and "t \<in> B" and "sc_pc s' = (sc_pc s)(t := p)"
  shows "remaining B s' + distance (card B) (sc_pc s t) = remaining B s + distance (card B) p"
proof -
  have "(\<Sum>u\<in>B - {t}. distance (card B) (sc_pc s' u)) = (\<Sum>u\<in>B - {t}. distance (card B) (sc_pc s u))"
    by (intro sum.cong) (simp_all add: assms(3))
  then show ?thesis
    using sum.remove [OF assms(1,2), of "\<lambda>u. distance (card B) (sc_pc s u)"]
      sum.remove [OF assms(1,2), of "\<lambda>u. distance (card B) (sc_pc s' u)"]
    by (simp add: remaining_def assms(3))
qed

text \<open>A notification costs the notifier more than it gives to the sleepers.\<close>

lemma remaining_notify:
  assumes "finite B" and "t \<in> B" and "sc_pc s t = Published k b r"
    and "s' = sc_goto t (Returned k r Miss) (notify_all b s)"
  shows "remaining B s' < remaining B s"
proof -
  let ?n = "card B"
  have "(\<Sum>u\<in>B - {t}. distance ?n (sc_pc s' u)) \<le> (\<Sum>u\<in>B - {t}. distance ?n (sc_pc s u) + 1)"
    by (intro sum_mono) (simp add: assms(4) distance_woken)
  also have "\<dots> = (\<Sum>u\<in>B - {t}. distance ?n (sc_pc s u)) + (?n - 1)"
    using assms(1,2) by (subst sum.distrib) simp
  finally have le: "(\<Sum>u\<in>B - {t}. distance ?n (sc_pc s' u)) \<le>
    (\<Sum>u\<in>B - {t}. distance ?n (sc_pc s u)) + (?n - 1)" .
  have "distance ?n (sc_pc s t) = ?n + 2" "distance ?n (sc_pc s' t) = 1"
    by (simp_all add: assms(3,4))
  with le show ?thesis
    using sum.remove [OF assms(1,2), of "\<lambda>u. distance ?n (sc_pc s u)"]
      sum.remove [OF assms(1,2), of "\<lambda>u. distance ?n (sc_pc s' u)"]
    by (simp add: remaining_def)
qed

text \<open>Every transition of a thread but the notification moves that thread alone, and forward.\<close>

lemma advance_moves:
  assumes "sc_advance t s = Some s'"
  shows "(\<exists>k b r. sc_pc s t = Published k b r \<and> s' = sc_goto t (Returned k r Miss) (notify_all b s)) \<or>
    (\<exists>p. sc_pc s' = (sc_pc s)(t := p) \<and> sc_pc s t \<noteq> Idle \<and>
      (\<forall>n. distance n p < distance n (sc_pc s t)))"
  using assms
  by (auto simp: sc_advance_def split: cache_pc.splits option.splits sum.splits)

lemma step_moves:
  assumes "sc_step a s = Some s'" and "\<not> is_call a"
  shows "(\<exists>t k b r. sc_pc s t = Published k b r \<and> \<not> is_spurious a \<and>
      s' = sc_goto t (Returned k r Miss) (notify_all b s)) \<or>
    (\<exists>t p. sc_pc s' = (sc_pc s)(t := p) \<and> sc_pc s t \<noteq> Idle \<and>
      (\<forall>n. distance n p + (if is_spurious a then 0 else 1) \<le>
         distance n (sc_pc s t) + (if is_spurious a then 1 else 0)))"
proof (cases a)
  case (Advance t)
  with assms(1) advance_moves [of t s s'] show ?thesis by (force simp: Suc_le_eq)
next
  case (ForwardReturns t r)
  with assms(1) show ?thesis by (intro disjI2 exI [of _ t]) (auto split: cache_pc.splits)
next
  case (Spurious t)
  with assms(1) show ?thesis by (intro disjI2 exI [of _ t]) (auto split: cache_pc.splits)
qed (use assms(2) in simp)

lemma busy_mono:
  assumes "sc_step a s = Some s'" and "\<not> is_call a"
  shows "busy s' \<subseteq> busy s"
  using step_moves [OF assms] by (auto simp: busy_def split: if_splits)

lemma remaining_step:
  assumes "sc_step a s = Some s'" and "\<not> is_call a" and "finite B" and "busy s \<subseteq> B"
  shows "remaining B s' + (if is_spurious a then 0 else 1) \<le>
    remaining B s + (if is_spurious a then 1 else 0)"
proof -
  have inB: "t \<in> B" if "sc_pc s t \<noteq> Idle" for t using assms(4) that by (auto simp: busy_def)
  from step_moves [OF assms(1,2)] show ?thesis
  proof (elim disjE exE conjE)
    fix t k b r
    assume p: "sc_pc s t = Published k b r" "\<not> is_spurious a"
      "s' = sc_goto t (Returned k r Miss) (notify_all b s)"
    from p(1) have "t \<in> B" by (intro inB) simp
    from remaining_notify [OF assms(3) this p(1,3)] p(2) show ?thesis by simp
  next
    fix t p
    assume p: "sc_pc s' = (sc_pc s)(t := p)" "sc_pc s t \<noteq> Idle"
      "\<forall>n. distance n p + (if is_spurious a then 0 else 1) \<le>
         distance n (sc_pc s t) + (if is_spurious a then 1 else 0)"
    from remaining_goto [OF assms(3) inB [OF p(2)] p(1)] p(3) [rule_format, of "card B"]
    show ?thesis by (simp split: if_splits)
  qed
qed

lemma run_remaining:
  assumes "sc_run as s = Some s'" and "\<forall>a\<in>set as. \<not> is_call a" and "finite B" and "busy s \<subseteq> B"
  shows "remaining B s' + length (filter (\<lambda>a. \<not> is_spurious a) as) \<le>
    remaining B s + length (filter is_spurious as)"
  using assms
proof (induction as arbitrary: s)
  case (Cons a as)
  then obtain s1 where s1: "sc_step a s = Some s1" "sc_run as s1 = Some s'"
    by (auto simp: bind_eq_Some_conv)
  from Cons.prems have "\<not> is_call a" by simp
  note step = remaining_step [OF s1(1) this Cons.prems(3,4)] busy_mono [OF s1(1) this]
  have "remaining B s' + length (filter (\<lambda>a. \<not> is_spurious a) as) \<le>
    remaining B s1 + length (filter is_spurious as)"
    using Cons.IH [OF s1(2)] Cons.prems(2,3,4) step(2) by auto
  with step(1) show ?case by (auto split: if_splits)
qed simp

lemma busy_finite: "sc_reachable s \<Longrightarrow> finite (busy s)"
proof (induction rule: sc_reachable.induct)
  case sc_start
  show ?case by (simp add: busy_def sc_new_def)
next
  case (sc_more s a s')
  show ?case
  proof (cases a)
    case (Call t k)
    with sc_more.hyps have "busy s' \<subseteq> insert t (busy s)"
      by (auto simp: busy_def split: if_splits)
    then show ?thesis using sc_more.IH by (simp add: finite_subset)
  qed (use busy_mono [OF sc_more.hyps(2)] sc_more.IH in \<open>auto intro: finite_subset\<close>)
qed

text \<open>Where no thread can make a step of its own, no thread is inside a call.\<close>

lemma leader_steps:
  assumes "sc_inv s" and "leads k (sc_pc s t)"
  shows "\<exists>a s'. sc_internal a \<and> sc_step a s = Some s'"
proof (cases "sc_pc s t")
  case (Forwarding k')
  then have "sc_step (ForwardReturns t r) s \<noteq> None" for r by simp
  then show ?thesis by (metis not_Some_eq sc_internal.simps(2))
next
  case (Forwarded k' r)
  then have "sc_step (Advance t) s \<noteq> None" by (simp add: sc_advance_def)
  then show ?thesis by (metis not_Some_eq sc_internal.simps(1))
next
  case (Stored k' r)
  with leader_slot [OF assms] assms(2) have "sc_step (Advance t) s \<noteq> None"
    by (auto simp: sc_advance_def split: option.splits)
  then show ?thesis by (metis not_Some_eq sc_internal.simps(1))
qed (use assms(2) in simp_all)

lemma busy_steps:
  assumes "sc_inv s" and "sc_pc s t \<noteq> Idle"
  shows "\<exists>a s'. sc_internal a \<and> sc_step a s = Some s'"
proof (rule ccontr)
  assume none: "\<not> ?thesis"
  have adv: "sc_advance u s = None" for u
    using none by (metis not_Some_eq sc_internal.simps(1) sc_step.simps(3))
  have lead: "\<not> leads k (sc_pc s u)" for k u using leader_steps [OF assms(1)] none by blast
  have pub: "sc_pc s u \<noteq> Removed k b r" "sc_pc s u \<noteq> Published k b r" for u k b r
    using adv [of u] by (auto simp: sc_advance_def)
  have filled: "\<exists>r. sc_slots s b = Some (Some r)" if "awaits (sc_pc s u) k b" for u k b
  proof -
    have "slot_served s k b" using assms(1) that by (auto simp: sc_inv_def waiters_inv_def)
    moreover have "sc_in_flight s k \<noteq> Some b"
      using assms(1) lead unfolding sc_inv_def leaders_inv_def by (metis option.distinct(1))
    ultimately show ?thesis using pub by (auto simp: slot_served_def)
  qed
  show False
  proof (cases "sc_pc s t")
    case (Waiting k b)
    with filled [of t k b] adv [of t] show False by (auto simp: sc_advance_def)
  next
    case (Parked k b)
    with filled [of t k b] pub assms(1) show False by (auto simp: sc_inv_def sleepers_inv_def)
  qed (use adv [of t] lead [of _ t] assms(2) pub [of t] in
    \<open>auto simp: sc_advance_def split: option.splits\<close>)
qed

text \<open>
  C14. Every caller returns. From any reachable state, with \<open>n\<close> threads
  inside a call and no new one arriving, the threads take at most \<open>n * (n +
  8)\<close> steps, and one more for each spurious wake-up, in whatever order they are
  scheduled and whatever their forwards return (a forward that has not returned counts as
  a step to come); and a state in which no thread has a step left has every caller back. A
  waiter therefore sleeps no longer than its forwarder takes: it is notified, and no
  notification is lost.
\<close>

theorem every_caller_returns:
  assumes "sc_reachable s" and "sc_run as s = Some s'" and "\<forall>a\<in>set as. \<not> is_call a"
  shows "length (filter (\<lambda>a. \<not> is_spurious a) as) \<le>
      card (busy s) * (card (busy s) + 8) + length (filter is_spurious as) \<and>
    ((\<forall>a. sc_internal a \<longrightarrow> sc_step a s' = None) \<longrightarrow> (\<forall>t. sc_pc s' t = Idle))"
proof -
  have "remaining (busy s) s \<le> card (busy s) * (card (busy s) + 8)"
    unfolding remaining_def
    using sum_bounded_above [of "busy s" "\<lambda>t. distance (card (busy s)) (sc_pc s t)", OF distance_bound]
    by simp
  with run_remaining [OF assms(2,3) busy_finite [OF assms(1)] subset_refl]
  have "length (filter (\<lambda>a. \<not> is_spurious a) as) \<le>
      card (busy s) * (card (busy s) + 8) + length (filter is_spurious as)" by linarith
  moreover have "sc_inv s'"
    using sc_run_reachable [OF assms(1,2)] by (rule sc_reachable_inv)
  ultimately show ?thesis using busy_steps [of s'] by (metis option.distinct(1))
qed

theorem every_caller_returns_witness:
  "\<exists>s s'. sc_run [Call 0 True, Advance 0, Advance 0, Call 1 True, Advance 1, Advance 1, Advance 1]
       (sc_new :: (bool, unit, nat) shared_cache) = Some s \<and> sc_pc s 1 = Parked True 0 \<and>
     sc_run [ForwardReturns 0 (Inr 7), Advance 0, Advance 0, Advance 0, Spurious 1, Advance 0,
       Advance 1, Advance 1, Advance 0] s = Some s' \<and>
     8 \<le> card (busy s) * (card (busy s) + 8) + 1 \<and>
     ((\<forall>a. sc_internal a \<longrightarrow> sc_step a s' = None) \<longrightarrow> sc_pc s' 1 = Idle)"
proof -
  obtain s where s: "sc_run [Call 0 True, Advance 0, Advance 0, Call 1 True, Advance 1, Advance 1, Advance 1]
       (sc_new :: (bool, unit, nat) shared_cache) = Some s"
    by (simp add: sc_advance_def sc_new_def)
  let ?as = "[ForwardReturns 0 (Inr 7), Advance 0, Advance 0, Advance 0, Spurious 1, Advance 0,
    Advance 1, Advance 1, Advance 0] :: (bool, unit, nat) cache_event list"
  from s have parked: "sc_pc s 1 = Parked True 0" by (auto simp: sc_advance_def sc_new_def)
  from s obtain s' where s': "sc_run ?as s = Some s'"
    by (auto simp: sc_advance_def sc_new_def notify_all_def)
  show ?thesis
    using every_caller_returns [OF demo_reachable [OF s] s'] s parked s' by auto
qed

section \<open>Refinement of the sequential function\<close>

definition solo_events :: "nat \<Rightarrow> 'k \<Rightarrow> 'e + 'v \<Rightarrow> ('k, 'v) exact_cache \<Rightarrow> ('k, 'e, 'v) cache_event list" where
  "solo_events t k r inner =
     (if ec_cached_value k inner = None
      then [Call t k, Advance t, Advance t, ForwardReturns t r,
        Advance t, Advance t, Advance t, Advance t]
      else [Call t k, Advance t])"

text \<open>
  A caller that nobody interferes with gets what the sequential function
  \<open>classify_concurrent\<close> returns, and leaves the cache as the function does.
\<close>

theorem solo_caller_refines:
  assumes "sc_pc s t = Idle" and "sc_in_flight s k = None"
    and "classify_concurrent k (\<lambda>w. (r, w)) (sc_inner s) w = ((result, path), inner', w')"
  shows "\<exists>s'. sc_run (solo_events t k r (sc_inner s)) s = Some s' \<and>
    sc_pc s' t = Returned k result path \<and> sc_inner s' = inner' \<and> sc_in_flight s' = sc_in_flight s \<and>
    w' = w"
proof (cases "ec_cached_value k (sc_inner s)")
  case None
  then show ?thesis
    using assms(3) solo_miss_run [OF assms(1) None assms(2), of r]
    by (auto simp: classify_concurrent_def solo_events_def)
next
  case (Some v)
  then show ?thesis
    using assms(3) solo_hit_run [OF assms(1) Some]
    by (auto simp: classify_concurrent_def solo_events_def)
qed

theorem solo_caller_refines_witness:
  "\<exists>s'. sc_run (solo_events 3 True (Inr 7 :: unit + nat) (sc_inner (sc_new :: (bool, unit, nat) shared_cache)))
       sc_new = Some s' \<and> sc_pc s' 3 = Returned True (Inr 7) Miss"
proof -
  have "classify_concurrent True (\<lambda>w. (Inr 7 :: unit + nat, w)) (sc_inner (sc_new :: (bool, unit, nat) shared_cache)) ()
      = ((Inr 7, Miss), ec_store_after_forward True 7 ec_new, ())"
    by (simp add: classify_concurrent_def sc_new_def)
  from solo_caller_refines [OF _ _ this, of 3] show ?thesis by (auto simp: sc_new_def)
qed

section \<open>What is not guaranteed\<close>

lemma forward_count_simps:
  "ec_forward_count (ec_store k v c) = ec_forward_count c"
  "ec_forward_count (ec_store_after_forward k v c) = ec_forward_count c + 1"
  "ec_forward_count ec_new = 0"
  by (simp_all add: ec_store_def ec_store_after_forward_def ec_new_def ec_with_capacity_def split_beta Let_def)

text \<open>
  Identical concurrent misses are not bounded to one forward per key. A caller that missed
  the fast path before another caller stored the result, and reaches the in-flight map
  after that caller has removed its slot, runs the forward again although the result is
  cached: two forwards, none of them counted as coalesced.
\<close>

theorem concurrent_misses_forward_twice:
  "\<exists>s. sc_run
      [Call 0 True, Advance 0, Call 1 True, Advance 1,
       Advance 0, ForwardReturns 0 (Inr 7), Advance 0, Advance 0, Advance 0, Advance 0,
       Advance 1, ForwardReturns 1 (Inr 8), Advance 1, Advance 1, Advance 1, Advance 1]
      (sc_new :: (bool, unit, nat) shared_cache) = Some s \<and>
    sc_pc s 0 = Returned True (Inr 7) Miss \<and> sc_pc s 1 = Returned True (Inr 8) Miss \<and>
    sc_log s = [(True, Inr 7), (True, Inr 8)] \<and> sc_forward_count s = 2"
  by (simp add: sc_advance_def sc_new_def sc_forward_count_def forward_count_simps notify_all_def)

text \<open>
  \<open>forward_count\<close> does not count a forward that failed: only
  \<open>store_after_forward\<close> increments it, and failures are not stored.
\<close>

theorem failed_forwards_uncounted:
  "\<exists>s. sc_run [Call 0 True, Advance 0, Advance 0, ForwardReturns 0 (Inl ()), Advance 0, Advance 0, Advance 0, Advance 0]
      (sc_new :: (bool, unit, nat) shared_cache) = Some s \<and>
    sc_log s = [(True, Inl ())] \<and> sc_forward_count s = 0"
  by (simp add: sc_advance_def sc_new_def sc_forward_count_def forward_count_simps notify_all_def)

end
