(* ===== verification/Parsing.thy ===== *)
theory Parsing
  imports Floats
begin

text \<open>
  The number parsing of the standard library that configuration, protocol and label-map
  code uses: \<open>parse::<usize>\<close> (and \<open>u64\<close>, the same on a 64-bit platform) and
  \<open>parse::<f32>\<close>, which rounds the decimal value to the nearest float.
\<close>

section \<open>Unsigned integers\<close>

text \<open>\<open>str::parse::<usize>\<close>: an optional plus sign, then at least one digit, below \<open>2 ^ 64\<close>.\<close>

definition digit_val :: "char \<Rightarrow> nat option" where
  "digit_val c = (if 48 \<le> byte c \<and> byte c \<le> 57 then Some (byte c - 48) else None)"

fun digits_val :: "nat \<Rightarrow> string \<Rightarrow> nat option" where
  "digits_val acc [] = Some acc"
| "digits_val acc (c # cs) =
     (case digit_val c of None \<Rightarrow> None | Some d \<Rightarrow> digits_val (10 * acc + d) cs)"

definition parse_usize :: "string \<Rightarrow> nat option" where
  "parse_usize s =
     (let ds = (case s of c # cs \<Rightarrow> if byte c = 43 then cs else s | [] \<Rightarrow> [])
      in if ds = [] then None
         else (case digits_val 0 ds of
                 None \<Rightarrow> None
               | Some n \<Rightarrow> if n < 2 ^ 64 then Some n else None))"

section \<open>Decimal floats\<close>

definition digit_chars :: "string \<Rightarrow> string" where
  "digit_chars s = takeWhile (\<lambda>c. digit_val c \<noteq> None) s"

definition after_digits :: "string \<Rightarrow> string" where
  "after_digits s = dropWhile (\<lambda>c. digit_val c \<noteq> None) s"

definition nat_of_digits :: "string \<Rightarrow> nat" where
  "nat_of_digits s = foldl (\<lambda>acc c. 10 * acc + the (digit_val c)) 0 s"

definition lower_ascii :: "char \<Rightarrow> char" where
  "lower_ascii c = (if 65 \<le> byte c \<and> byte c \<le> 90 then char_of (byte c + 32) else c)"

text \<open>The exponent part: empty, or \<open>e\<close>, an optional sign and at least one digit.\<close>

definition parse_exponent :: "string \<Rightarrow> int option" where
  "parse_exponent s =
     (case s of
        [] \<Rightarrow> Some 0
      | e # r \<Rightarrow>
          if lower_ascii e \<noteq> CHR ''e'' then None
          else (let (neg, ds) = (case r of
                     c # cs \<Rightarrow> if c = CHR ''-'' then (True, cs) else if c = CHR ''+'' then (False, cs) else (False, r)
                   | [] \<Rightarrow> (False, []))
                in if ds = [] \<or> after_digits ds \<noteq> [] then None
                   else Some (if neg then - int (nat_of_digits ds) else int (nat_of_digits ds))))"

definition parse_decimal :: "string \<Rightarrow> real option" where
  "parse_decimal s =
     (let whole = digit_chars s;
          rest = after_digits s;
          (frac, rest') = (case rest of
              c # cs \<Rightarrow> if c = CHR ''.'' then (digit_chars cs, after_digits cs) else ([], rest)
            | [] \<Rightarrow> ([], []))
      in if whole @ frac = [] then None
         else (case parse_exponent rest' of
                 None \<Rightarrow> None
               | Some e \<Rightarrow> Some (real (nat_of_digits (whole @ frac)) * 10 powi (e - int (length frac)))))"

definition parse_f32 :: "string \<Rightarrow> flt option" where
  "parse_f32 s =
     (let (neg, t) = (case s of
              c # cs \<Rightarrow> if c = CHR ''-'' then (True, cs) else if c = CHR ''+'' then (False, cs) else (False, s)
            | [] \<Rightarrow> (False, []));
          word = List.map lower_ascii t;
          magnitude =
            (if word = ''inf'' \<or> word = ''infinity'' then Some PInf
             else if word = ''nan'' then Some NaN
             else map_option round32 (parse_decimal t))
      in map_option (\<lambda>x. if neg then fneg x else x) magnitude)"

end
