(* ===== verification/Config.thy ===== *)
theory Config
  imports Parsing
begin

text \<open>
  The configuration of \<open>src/src/config.rs\<close>: the cache settings resolved from the
  environment, and the validation of the classifier registry. The TOML decoder is a
  library; the model starts from the decoded record.
\<close>

section \<open>Definitions\<close>

definition KNOWN_BACKENDS :: "string list" where "KNOWN_BACKENDS = [''candle'']"

definition KNOWN_CACHE_STRATEGIES :: "string list" where
  "KNOWN_CACHE_STRATEGIES = [''exact'', ''redis-semantic'']"

record server_config =
  listen :: string

record classifier_config =
  cc_id :: string
  cc_backend :: string
  cc_model_path :: string

record config =
  server :: server_config
  classifiers :: "classifier_config list"

datatype config_error =
    MissingClassifiers
  | UnknownBackend string
  | DuplicateClassifierId string
  | InvalidModelPath string
  | ParseError string
  | UnknownCacheStrategy string
  | MissingRedisUrl
  | InvalidThreshold flt

record cache_config =
  strategy :: string
  redis_url :: "string option"
  threshold :: flt
  ttl_secs :: nat
  timeout_ms :: nat

definition filter_opt :: "('a \<Rightarrow> bool) \<Rightarrow> 'a option \<Rightarrow> 'a option" where
  "filter_opt p x = (case x of Some a \<Rightarrow> if p a then Some a else None | None \<Rightarrow> None)"

definition unwrap_or :: "'a \<Rightarrow> 'a option \<Rightarrow> 'a" where
  "unwrap_or d x = (case x of Some a \<Rightarrow> a | None \<Rightarrow> d)"

text \<open>The \<open>f32\<close> literal 0.90.\<close>

definition default_threshold :: flt where "default_threshold = round32 (9 / 10)"

definition from_env_with :: "(string \<Rightarrow> string option) \<Rightarrow> config_error + cache_config" where
  "from_env_with get =
     (let strat = unwrap_or ''exact'' (get ''LLM_D_SC_CACHE'')
      in if strat \<notin> set KNOWN_CACHE_STRATEGIES then Inl (UnknownCacheStrategy strat)
         else (let url = filter_opt (\<lambda>s. trim s \<noteq> []) (get ''LLM_D_SC_REDIS_URL'')
           in if strat = ''redis-semantic'' \<and> url = None then Inl MissingRedisUrl
              else (case (case get ''LLM_D_SC_CACHE_THRESHOLD'' of
                            None \<Rightarrow> Inr default_threshold
                          | Some s \<Rightarrow> (case parse_f32 s of
                                None \<Rightarrow> Inl (InvalidThreshold NaN) | Some t \<Rightarrow> Inr t)) of
                      Inl e \<Rightarrow> Inl e
                    | Inr t \<Rightarrow>
                        if \<not> (flt_le (Fin 0) t \<and> flt_le t (Fin 1)) then Inl (InvalidThreshold t)
                        else Inr \<lparr>strategy = strat, redis_url = url, threshold = t,
                               ttl_secs = unwrap_or 86400 (Option.bind (get ''LLM_D_SC_CACHE_TTL'') parse_usize),
                               timeout_ms = unwrap_or 50 (Option.bind (get ''LLM_D_SC_CACHE_TIMEOUT_MS'') parse_usize)\<rparr>)))"

definition default_listen :: string where "default_listen = ''0.0.0.0:50051''"

definition server_config_default :: server_config where
  "server_config_default = \<lparr>listen = default_listen\<rparr>"

fun validate_classifiers :: "string set \<Rightarrow> classifier_config list \<Rightarrow> config_error + unit" where
  "validate_classifiers seen [] = Inr ()"
| "validate_classifiers seen (c # cs) =
     (if cc_backend c \<notin> set KNOWN_BACKENDS then Inl (UnknownBackend (cc_backend c))
      else if trim (cc_model_path c) = [] then Inl (InvalidModelPath (cc_id c))
      else if cc_id c \<in> seen then Inl (DuplicateClassifierId (cc_id c))
      else validate_classifiers (insert (cc_id c) seen) cs)"

definition validate_config :: "config \<Rightarrow> config_error + unit" where
  "validate_config cfg =
     (if classifiers cfg = [] then Inl MissingClassifiers
      else validate_classifiers {} (classifiers cfg))"

text \<open>\<open>Config::parse\<close> over the decoder \<open>toml\<close>, which gives the message of its error.\<close>

definition config_parse :: "(string \<Rightarrow> string + config) \<Rightarrow> string \<Rightarrow> config_error + config" where
  "config_parse toml raw =
     bind_res (map_err ParseError (toml raw)) (\<lambda>cfg. bind_res (validate_config cfg) (\<lambda>_. Inr cfg))"

section \<open>Properties\<close>

lemma accepted_cache_config:
  assumes "from_env_with get = Inr c"
  shows "strategy c \<in> set KNOWN_CACHE_STRATEGIES" "\<exists>t. threshold c = Fin t \<and> 0 \<le> t \<and> t \<le> 1"
    "strategy c = ''redis-semantic'' \<Longrightarrow> \<exists>url. redis_url c = Some url \<and> trim url \<noteq> []"
  using assms flt_le_betweenD
  by (auto simp: from_env_with_def Let_def filter_opt_def split: if_splits option.splits sum.splits)

text \<open>
  An accepted cache configuration names a known strategy, has a threshold between 0 and 1
  (never NaN), and carries a Redis address that is not blank whenever the strategy needs
  one.
\<close>

theorem cache_config_sound:
  assumes "from_env_with get = Inr c"
  shows "strategy c \<in> set KNOWN_CACHE_STRATEGIES \<and>
    (\<exists>t. threshold c = Fin t \<and> 0 \<le> t \<and> t \<le> 1) \<and>
    (strategy c = ''redis-semantic'' \<longrightarrow> (\<exists>url. redis_url c = Some url \<and> trim url \<noteq> []))"
  using accepted_cache_config [OF assms] by blast

lemma default_threshold_unit: "flt_le (Fin 0) default_threshold \<and> flt_le default_threshold (Fin 1)"
  using f32.rnd_mono [of 0 "9 / 10"] f32.rnd_mono [of "9 / 10" 1] by (simp add: default_threshold_def)

theorem cache_config_sound_witness:
  "\<exists>c. from_env_with Map.empty = Inr c \<and> strategy c = ''exact'' \<and> (\<exists>t. threshold c = Fin t \<and> 0 \<le> t \<and> t \<le> 1)"
proof -
  obtain c where c: "from_env_with Map.empty = Inr c" "strategy c = ''exact''"
    using default_threshold_unit
    by (simp add: from_env_with_def unwrap_or_def filter_opt_def KNOWN_CACHE_STRATEGIES_def)
  then show ?thesis using cache_config_sound by blast
qed

text \<open>
  With nothing set, and also with a blank Redis address and unparsable numbers for the
  lifetime and the timeout, the service runs the exact cache with the documented defaults.
\<close>

theorem cache_config_defaults:
  assumes "get ''LLM_D_SC_CACHE'' = None" and "get ''LLM_D_SC_CACHE_THRESHOLD'' = None"
    and "filter_opt (\<lambda>s. trim s \<noteq> []) (get ''LLM_D_SC_REDIS_URL'') = None"
    and "Option.bind (get ''LLM_D_SC_CACHE_TTL'') parse_usize = None"
    and "Option.bind (get ''LLM_D_SC_CACHE_TIMEOUT_MS'') parse_usize = None"
  shows "from_env_with get =
    Inr \<lparr>strategy = ''exact'', redis_url = None, threshold = default_threshold, ttl_secs = 86400, timeout_ms = 50\<rparr>"
  using assms default_threshold_unit
  by (simp add: from_env_with_def unwrap_or_def KNOWN_CACHE_STRATEGIES_def)

theorem cache_config_defaults_witness:
  "from_env_with Map.empty =
    Inr \<lparr>strategy = ''exact'', redis_url = None, threshold = default_threshold, ttl_secs = 86400, timeout_ms = 50\<rparr>"
  by (rule cache_config_defaults) (simp_all add: filter_opt_def)

lemma validate_classifiers_iff:
  "validate_classifiers seen cs = Inr () \<longleftrightarrow>
     list_all (\<lambda>c. cc_backend c \<in> set KNOWN_BACKENDS \<and> trim (cc_model_path c) \<noteq> []) cs \<and>
     distinct (List.map cc_id cs) \<and> seen \<inter> set (List.map cc_id cs) = {}"
  by (induction seen cs rule: validate_classifiers.induct) auto

text \<open>
  The registry is accepted exactly when it is not empty, every backend is known, no model
  path is blank, and no two classifiers share an id.
\<close>

theorem config_validated_exactly:
  "(validate_config cfg = Inr ()) =
     (classifiers cfg \<noteq> [] \<and>
      list_all (\<lambda>c. cc_backend c \<in> set KNOWN_BACKENDS \<and> trim (cc_model_path c) \<noteq> []) (classifiers cfg) \<and>
      distinct (List.map cc_id (classifiers cfg)))"
  by (simp add: validate_config_def validate_classifiers_iff)

end
