(* ===== verification/Telemetry.thy ===== *)
theory Telemetry
  imports Prelude
begin

text \<open>
  The request trace of \<open>src/src/telemetry.rs\<close>: a bounded ring of events that carry a
  request id and hashes, never the hashed texts. The blake3 digest in hexadecimal is a
  parameter \<open>hex\<close> of the definitions that hash.
\<close>

record trace_event =
  te_request_id :: string
  te_context_hash :: string
  te_session_hash :: string

record request_event =
  re_request_id :: string
  re_session_id :: string
  re_context :: string

record telemetry =
  tm_events :: "trace_event list"
  tm_capacity :: nat

definition DEFAULT_TRACE_CAPACITY :: nat where "DEFAULT_TRACE_CAPACITY = 1024"

definition MAX_REQUEST_ID_BYTES :: nat where "MAX_REQUEST_ID_BYTES = 256"

definition telemetry_with_capacity :: "nat \<Rightarrow> telemetry" where
  "telemetry_with_capacity capacity = \<lparr>tm_events = [], tm_capacity = max capacity 1\<rparr>"

text \<open>\<open>env\<close> is the environment variable as parsed, \<open>None\<close> when unset or not a number.\<close>

definition telemetry_new :: "nat option \<Rightarrow> telemetry" where
  "telemetry_new env =
     telemetry_with_capacity
       (case env of Some n \<Rightarrow> if 0 < n then n else DEFAULT_TRACE_CAPACITY
        | None \<Rightarrow> DEFAULT_TRACE_CAPACITY)"

definition short_hash :: "(string \<Rightarrow> string) \<Rightarrow> string \<Rightarrow> string" where
  "short_hash hex s = take 16 (hex s)"

text \<open>The largest character boundary not above the limit, searched from the limit down.\<close>

fun boundary_below :: "string \<Rightarrow> nat \<Rightarrow> nat" where
  "boundary_below s 0 = 0"
| "boundary_below s (Suc i) = (if is_char_boundary s (Suc i) then Suc i else boundary_below s i)"

definition bounded_id :: "string \<Rightarrow> string" where
  "bounded_id s =
     (if MAX_REQUEST_ID_BYTES < length s then take (boundary_below s MAX_REQUEST_ID_BYTES) s else s)"

fun pop_to :: "nat \<Rightarrow> 'a list \<Rightarrow> 'a list" where
  "pop_to cap [] = []"
| "pop_to cap (e # es) = (if cap \<le> length (e # es) then pop_to cap es else e # es)"

definition record_request :: "(string \<Rightarrow> string) \<Rightarrow> request_event \<Rightarrow> telemetry \<Rightarrow> telemetry" where
  "record_request hex ev t =
     t\<lparr>tm_events := pop_to (tm_capacity t) (tm_events t) @
         [\<lparr>te_request_id = bounded_id (re_request_id ev),
           te_context_hash = ''ctx_'' @ short_hash hex (re_context ev),
           te_session_hash = ''sess_'' @ short_hash hex (re_session_id ev)\<rparr>]\<rparr>"

definition telemetry_len :: "telemetry \<Rightarrow> nat" where
  "telemetry_len t = length (tm_events t)"

definition telemetry_is_empty :: "telemetry \<Rightarrow> bool" where
  "telemetry_is_empty t \<longleftrightarrow> telemetry_len t = 0"

definition event_line :: "trace_event \<Rightarrow> string" where
  "event_line ev =
     ''request_id='' @ te_request_id ev @ '' context_hash='' @ te_context_hash ev @
     '' session_hash='' @ te_session_hash ev @ [CHR 0x0A]"

definition default_output :: "telemetry \<Rightarrow> string" where
  "default_output t = concat (List.map event_line (tm_events t))"

definition trace_capture :: "telemetry \<Rightarrow> trace_event list" where
  "trace_capture t = tm_events t"

section \<open>The ring\<close>

definition telemetry_inv :: "telemetry \<Rightarrow> bool" where
  "telemetry_inv t \<longleftrightarrow> 1 \<le> tm_capacity t \<and> length (tm_events t) \<le> tm_capacity t"

lemma pop_to_drop: "1 \<le> cap \<Longrightarrow> pop_to cap es = drop (length es + 1 - cap) es"
  by (induction es) (auto simp: Suc_diff_le not_le)

interpretation trace_ring: bounded_store telemetry_len tm_capacity telemetry_inv "record_request hex"
proof unfold_locales
  fix ev t
  assume "telemetry_inv t"
  then show "telemetry_inv (record_request hex ev t)"
    by (auto simp: telemetry_inv_def record_request_def pop_to_drop)
qed (auto simp: record_request_def telemetry_inv_def telemetry_len_def)

definition trace_of :: "(string \<Rightarrow> string) \<Rightarrow> request_event \<Rightarrow> trace_event" where
  "trace_of hex ev =
     \<lparr>te_request_id = bounded_id (re_request_id ev),
      te_context_hash = ''ctx_'' @ short_hash hex (re_context ev),
      te_session_hash = ''sess_'' @ short_hash hex (re_session_id ev)\<rparr>"

lemma record_events:
  "tm_events (record_request hex ev t) = pop_to (tm_capacity t) (tm_events t) @ [trace_of hex ev]"
  by (simp add: record_request_def trace_of_def)

text \<open>
  After any requests, the capture holds the traces of the last \<open>capacity\<close>
  requests, in order, and never more than the capacity.
\<close>

theorem trace_holds_last_requests:
  "trace_capture (fold (record_request hex) evs (telemetry_with_capacity capacity)) =
     drop (length evs - max capacity 1) (List.map (trace_of hex) evs) \<and>
   telemetry_len (fold (record_request hex) evs (telemetry_with_capacity capacity)) \<le> max capacity 1"
proof -
  define t0 where "t0 = telemetry_with_capacity capacity"
  define c where "c = max capacity 1"
  have cap: "tm_capacity (fold (record_request hex) evs t0) = c" for evs
    by (simp add: trace_ring.run_capacity t0_def telemetry_with_capacity_def c_def)
  have ring: "tm_events (fold (record_request hex) evs t0) = drop (length evs - c) (List.map (trace_of hex) evs)" for evs
  proof (induction evs rule: rev_induct)
    case Nil
    show ?case by (simp add: t0_def telemetry_with_capacity_def)
  next
    case (snoc ev evs)
    have c1: "1 \<le> c" by (simp add: c_def)
    have "tm_events (fold (record_request hex) (evs @ [ev]) t0) =
        pop_to c (drop (length evs - c) (List.map (trace_of hex) evs)) @ [trace_of hex ev]"
      using snoc cap [of evs] by (simp add: record_events)
    also have "\<dots> = drop (length (evs @ [ev]) - c) (List.map (trace_of hex) (evs @ [ev]))"
      using c1 by (cases "c \<le> length evs") (auto simp: pop_to_drop Suc_diff_le add.commute)
    finally show ?case .
  qed
  have "telemetry_inv t0" by (simp add: t0_def telemetry_with_capacity_def telemetry_inv_def)
  from trace_ring.run_bounded [OF this, of hex evs] ring show ?thesis
    by (simp add: trace_capture_def t0_def c_def telemetry_with_capacity_def)
qed

lemma boundary_below_props:
  "boundary_below s n \<le> n \<and> is_char_boundary s (boundary_below s n) \<and>
     (\<forall>i. boundary_below s n < i \<and> i \<le> n \<longrightarrow> \<not> is_char_boundary s i)"
  by (induction n) (auto simp: is_char_boundary_def le_Suc_eq)

text \<open>
  A retained request id has at most 256 bytes, is a prefix of the caller's, ends on a
  character boundary, and is the longest such prefix.
\<close>

theorem request_id_truncation:
  "\<exists>n. bounded_id s = take n s \<and> n \<le> length s \<and> is_char_boundary s n \<and>
     length (bounded_id s) = n \<and> n \<le> MAX_REQUEST_ID_BYTES \<and>
     {i. n < i \<and> i \<le> MAX_REQUEST_ID_BYTES \<and> i \<le> length s \<and> is_char_boundary s i} = {}"
proof (cases "MAX_REQUEST_ID_BYTES < length s")
  case True
  then show ?thesis
    using boundary_below_props [of s MAX_REQUEST_ID_BYTES]
    by (intro exI [of _ "boundary_below s MAX_REQUEST_ID_BYTES"]) (auto simp: bounded_id_def)
next
  case False
  then show ?thesis by (intro exI [of _ "length s"]) (auto simp: bounded_id_def is_char_boundary_def)
qed

text \<open>
  The default output depends on the prompt and the session only through the 16 hexadecimal
  digits of their digests: requests whose ids and digests agree pairwise give the same
  output, so a text cannot be told apart from another with its digest.
\<close>

theorem output_reveals_only_hashes:
  assumes "List.map re_request_id evs = List.map re_request_id evs'"
    and "List.map (\<lambda>e. short_hash hex (re_context e)) evs = List.map (\<lambda>e. short_hash hex (re_context e)) evs'"
    and "List.map (\<lambda>e. short_hash hex (re_session_id e)) evs = List.map (\<lambda>e. short_hash hex (re_session_id e)) evs'"
  shows "default_output (fold (record_request hex) evs t) = default_output (fold (record_request hex) evs' t)"
proof -
  have len: "length evs = length evs'" using assms(1) by (metis length_map)
  then have "fold (record_request hex) evs t = fold (record_request hex) evs' t"
    using assms
  proof (induction evs evs' arbitrary: t rule: list_induct2)
    case (Cons e es e' es')
    then have "record_request hex e t = record_request hex e' t" for t
      by (simp add: record_request_def)
    with Cons show ?case by simp
  qed simp
  then show ?thesis by simp
qed

theorem output_reveals_only_hashes_witness:
  "default_output (record_request (\<lambda>s. replicate 64 (CHR ''0''))
       \<lparr>re_request_id = ''r'', re_session_id = ''s'', re_context = ''my password''\<rparr> (telemetry_with_capacity 4)) =
   default_output (record_request (\<lambda>s. replicate 64 (CHR ''0''))
       \<lparr>re_request_id = ''r'', re_session_id = ''s'', re_context = ''nothing''\<rparr> (telemetry_with_capacity 4))"
  using output_reveals_only_hashes
    [of "[\<lparr>re_request_id = ''r'', re_session_id = ''s'', re_context = ''my password''\<rparr>]"
        "[\<lparr>re_request_id = ''r'', re_session_id = ''s'', re_context = ''nothing''\<rparr>]"
        "\<lambda>s. replicate 64 (CHR ''0'')" "telemetry_with_capacity 4"]
  by (simp add: short_hash_def)

end
