(* ===== verification/Wire.thy ===== *)
theory Wire
  imports ClassifyTypes Parsing
begin

text \<open>
  The wire level of \<open>src/src/grpc/classify.rs\<close> and \<open>src/proto/classify.proto\<close>: the
  messages and enumerations, gRPC statuses, and the deadline a request inherits from its
  \<open>grpc-timeout\<close> header. Durations and instants are nanoseconds.

  The conversion of a header value to text (\<open>to_str\<close>) and \<open>Instant::checked_add\<close>, whose
  range depends on the platform, are parameters.
\<close>

section \<open>Messages\<close>

record classify_request =
  rq_request_id :: string
  rq_session_id :: string
  rq_context :: string
  rq_signals :: "string list"
  rq_completeness :: int

record wire_signal =
  ws_label :: string
  ws_score :: flt

record classify_response =
  rp_request_id :: string
  rp_classifier_id :: string
  rp_model_revision :: string
  rp_tokenizer_revision :: string
  rp_taxonomy_revision :: string
  rp_status :: int
  rp_ranked :: "wire_signal list"

text \<open>The numbers the enumerations have on the wire.\<close>

datatype classification_status = StatusUnspecified | StatusOk | StatusAbstain | StatusUnavailable

primrec status_number :: "classification_status \<Rightarrow> int" where
  "status_number StatusUnspecified = 0"
| "status_number StatusOk = 1"
| "status_number StatusAbstain = 2"
| "status_number StatusUnavailable = 3"

primrec wire_status :: "classify_status \<Rightarrow> classification_status" where
  "wire_status Ok = StatusOk"
| "wire_status Abstain = StatusAbstain"
| "wire_status Error = StatusUnavailable"

definition completeness_number :: "context_completeness \<Rightarrow> int" where
  "completeness_number c = (case c of Unspecified \<Rightarrow> 0 | Full \<Rightarrow> 1 | Delta \<Rightarrow> 2)"

text \<open>An unknown number is read as \<open>Unspecified\<close>.\<close>

definition read_completeness :: "int \<Rightarrow> context_completeness" where
  "read_completeness n = (if n = 1 then Full else if n = 2 then Delta else Unspecified)"

definition wire_response :: "string \<Rightarrow> classification_result \<Rightarrow> classify_response" where
  "wire_response rid r =
     \<lparr>rp_request_id = rid, rp_classifier_id = res_classifier_id r,
      rp_model_revision = res_model_revision r, rp_tokenizer_revision = res_tokenizer_revision r,
      rp_taxonomy_revision = res_taxonomy_revision r,
      rp_status = status_number (wire_status (res_status r)),
      rp_ranked = List.map (\<lambda>s. \<lparr>ws_label = sig_id s, ws_score = fcast round32 (score s)\<rparr>) (res_ranked r)\<rparr>"

text \<open>What a client reads back from a response, a number no server sends being an error.\<close>

definition read_status :: "int \<Rightarrow> classify_status" where
  "read_status n = (if n = 1 then Ok else if n = 2 then Abstain else Error)"

definition read_response :: "classify_response \<Rightarrow> string \<times> classification_result" where
  "read_response p =
     (rp_request_id p,
      \<lparr>res_classifier_id = rp_classifier_id p, res_model_revision = rp_model_revision p,
       res_tokenizer_revision = rp_tokenizer_revision p, res_taxonomy_revision = rp_taxonomy_revision p,
       res_status = read_status (rp_status p),
       res_ranked = List.map (\<lambda>w. \<lparr>sig_id = ws_label w, score = ws_score w\<rparr>) (rp_ranked p)\<rparr>)"

section \<open>Statuses\<close>

datatype grpc_code = InvalidArgument | CodeResourceExhausted | DeadlineExceeded | CodeUnavailable | NotFound | CodeInternal

record grpc_status =
  st_code :: grpc_code
  st_message :: string

definition apostrophe :: string where "apostrophe = [CHR 0x27]"

definition unsupported_signal :: "string \<Rightarrow> string \<Rightarrow> grpc_status" where
  "unsupported_signal signal supported =
     \<lparr>st_code = InvalidArgument,
      st_message = ''unsupported signal '' @ apostrophe @ signal @ apostrophe @
        ''; this instance serves '' @ apostrophe @ supported @ apostrophe\<rparr>"

definition queue_is_full :: grpc_status where
  "queue_is_full = \<lparr>st_code = CodeResourceExhausted, st_message = ''inference queue is full''\<rparr>"

definition executor_stopped :: grpc_status where
  "executor_stopped = \<lparr>st_code = CodeUnavailable, st_message = ''inference executor stopped''\<rparr>"

definition error_status :: "classify_error \<Rightarrow> grpc_status" where
  "error_status e =
     (case e of
        ResourceExhausted \<Rightarrow> queue_is_full
      | RequestExpired \<Rightarrow> \<lparr>st_code = DeadlineExceeded, st_message = ''request deadline expired''\<rparr>
      | _ \<Rightarrow> \<lparr>st_code = CodeUnavailable, st_message = show_classify_error e\<rparr>)"

section \<open>Deadlines\<close>

definition checked_mul_u64 :: "nat \<Rightarrow> nat \<Rightarrow> nat option" where
  "checked_mul_u64 a b = (if a * b < 2 ^ 64 then Some (a * b) else None)"

definition from_secs :: "nat \<Rightarrow> nat" where "from_secs n = n * 10 ^ 9"

definition from_millis :: "nat \<Rightarrow> nat" where "from_millis n = n * 10 ^ 6"

definition from_micros :: "nat \<Rightarrow> nat" where "from_micros n = n * 10 ^ 3"

definition from_nanos :: "nat \<Rightarrow> nat" where "from_nanos n = n"

text \<open>The outer option is \<open>None\<close> when \<open>split_at\<close> panics inside a character.\<close>

definition parse_grpc_timeout :: "string \<Rightarrow> nat option option" where
  "parse_grpc_timeout v =
     (if length v < 2 then Some None
      else if \<not> is_char_boundary v (length v - 1) then None
      else (let number = take (length v - 1) v; unit = drop (length v - 1) v
        in if number = [] \<or> 8 < length number then Some None
           else (case parse_usize number of
                   None \<Rightarrow> Some None
                 | Some n \<Rightarrow> Some
                     (if unit = ''H'' then map_option from_secs (checked_mul_u64 n (60 * 60))
                      else if unit = ''M'' then map_option from_secs (checked_mul_u64 n 60)
                      else if unit = ''S'' then Some (from_secs n)
                      else if unit = ''m'' then Some (from_millis n)
                      else if unit = ''u'' then Some (from_micros n)
                      else if unit = ''n'' then Some (from_nanos n)
                      else None))))"

text \<open>\<open>ext\<close> is the deadline an interceptor stored, \<open>header\<close> the raw \<open>grpc-timeout\<close> value.\<close>

definition request_deadline ::
  "(nat \<Rightarrow> nat \<Rightarrow> nat option) \<Rightarrow> (string \<Rightarrow> string option) \<Rightarrow> nat \<Rightarrow> nat option \<Rightarrow> string option \<Rightarrow> nat option option" where
  "request_deadline instant_add to_str now ext header =
     (case ext of
        Some d \<Rightarrow> Some (Some d)
      | None \<Rightarrow>
          (case Option.bind header to_str of
             None \<Rightarrow> Some None
           | Some s \<Rightarrow> map_option (\<lambda>t. Option.bind t (instant_add now)) (parse_grpc_timeout s)))"

section \<open>Properties\<close>

text \<open>A result as the wire can carry it: each score rounded to the nearest \<open>f32\<close>.\<close>

definition f32_result :: "classification_result \<Rightarrow> classification_result" where
  "f32_result r = r\<lparr>res_ranked := List.map (\<lambda>s. s\<lparr>score := fcast round32 (score s)\<rparr>) (res_ranked r)\<rparr>"

lemma f32_result_revisions [simp]: "result_revisions (f32_result r) = result_revisions r"
  by (simp add: f32_result_def result_revisions_def)

lemma fcast_mono: "flt_le a b \<Longrightarrow> flt_le (fcast round32 a) (fcast round32 b)"
  by (cases a; cases b) (simp_all add: f32.rnd_mono)

lemma signal_update: "s\<lparr>score := x\<rparr> = \<lparr>sig_id = sig_id s, score = x\<rparr>" for s :: ranked_signal
  by (cases s) simp

lemma read_status_number [simp]: "read_status (status_number (wire_status s)) = s"
  by (cases s) (simp_all add: read_status_def)

lemma read_wire_response [simp]: "read_response (wire_response rid r) = (rid, f32_result r)"
  unfolding f32_result_def signal_update
  by (cases r) (simp add: read_response_def wire_response_def comp_def)

lemma read_completeness_number [simp]: "read_completeness (completeness_number c) = c"
  by (cases c) (simp_all add: read_completeness_def completeness_number_def)

text \<open>
  C27. A client that reads a response back obtains the request id and the result the
  server computed, with each score rounded to the nearest \<open>f32\<close>: no field is
  lost, renamed or reordered on the wire, and a descending ranking stays descending. A
  completeness a client declares is the one the server reads, and no other number is read
  as \<open>Delta\<close>.
\<close>

theorem wire_round_trip:
  "read_response (wire_response rid r) = (rid, f32_result r) \<and>
   (sorted_wrt (\<lambda>a b. flt_le (score b) (score a)) (res_ranked r) \<longrightarrow>
      sorted_wrt (\<lambda>a b. flt_le (score b) (score a)) (res_ranked (f32_result r))) \<and>
   read_completeness (completeness_number c) = c \<and> (read_completeness n = Delta) = (n = completeness_number Delta)"
proof -
  have "sorted_wrt (\<lambda>a b. flt_le (score b) (score a)) (res_ranked (f32_result r))"
    if "sorted_wrt (\<lambda>a b. flt_le (score b) (score a)) (res_ranked r)"
    using sorted_wrt_mono_rel [OF _ that, where Q = "\<lambda>a b. flt_le (fcast round32 (score b)) (fcast round32 (score a))"] fcast_mono
    by (simp add: f32_result_def sorted_wrt_map)
  moreover have "(read_completeness n = Delta) = (n = completeness_number Delta)"
    by (simp add: read_completeness_def completeness_number_def)
  ultimately show ?thesis by simp
qed

definition demo_ranking :: classification_result where
  "demo_ranking = \<lparr>res_classifier_id = ''c'', res_model_revision = ''m'', res_tokenizer_revision = ''t'',
     res_taxonomy_revision = ''x'', res_status = Ok,
     res_ranked = [\<lparr>sig_id = ''a'', score = Fin 1\<rparr>, \<lparr>sig_id = ''b'', score = Fin (1 / 3)\<rparr>]\<rparr>"

theorem wire_round_trip_witness:
  "sorted_wrt (\<lambda>a b. flt_le (score b) (score a)) (res_ranked (f32_result demo_ranking))"
proof -
  have "sorted_wrt (\<lambda>a b. flt_le (score b) (score a)) (res_ranked demo_ranking)"
    by (simp add: demo_ranking_def)
  with wire_round_trip [of "''r''" demo_ranking Full 0] show ?thesis by blast
qed

text \<open>The number of nanoseconds in each unit of the protocol.\<close>

definition unit_nanos :: "char \<Rightarrow> nat option" where
  "unit_nanos u =
     (if u = CHR ''H'' then Some (3600 * 10 ^ 9) else if u = CHR ''M'' then Some (60 * 10 ^ 9)
      else if u = CHR ''S'' then Some (10 ^ 9) else if u = CHR ''m'' then Some (10 ^ 6)
      else if u = CHR ''u'' then Some (10 ^ 3) else if u = CHR ''n'' then Some 1 else None)"

lemma digit_val_less: "digit_val c = Some d \<Longrightarrow> d < 10"
  by (auto simp: digit_val_def split: if_splits)

lemma digits_val_bound: "digits_val acc ds = Some n \<Longrightarrow> n < (acc + 1) * 10 ^ length ds"
proof (induction ds arbitrary: acc)
  case (Cons c ds)
  then obtain d where d: "digit_val c = Some d" "digits_val (10 * acc + d) ds = Some n"
    by (auto split: option.splits)
  have "n < (10 * acc + d + 1) * 10 ^ length ds" using Cons.IH [OF d(2)] .
  also have "\<dots> \<le> ((acc + 1) * 10) * 10 ^ length ds"
    using digit_val_less [OF d(1)] by (intro mult_right_mono) auto
  finally show ?case by (simp add: algebra_simps)
qed simp

lemma parse_usize_bound:
  assumes "parse_usize s = Some n" shows "n < 10 ^ length s"
proof -
  define ds where "ds = (case s of c # cs \<Rightarrow> if byte c = 43 then cs else s | [] \<Rightarrow> [])"
  have ds: "digits_val 0 ds = Some n" "length ds \<le> length s"
    using assms by (auto simp: parse_usize_def ds_def [symmetric] Let_def split: option.splits if_splits)
      (simp add: ds_def split: list.split)
  have "n < 10 ^ length ds" using digits_val_bound [OF ds(1)] by simp
  also have "\<dots> \<le> 10 ^ length s" using ds(2) by (intro power_increasing) auto
  finally show ?thesis .
qed

lemma eight_digits:
  assumes "parse_usize s = Some n" and "length s \<le> 8" and "k \<le> 3600"
  shows "checked_mul_u64 n k = Some (n * k)"
proof -
  have "n < 10 ^ 8"
    using parse_usize_bound [OF assms(1)] power_increasing [OF assms(2), of "10 :: nat"] by simp
  then have "n * k \<le> 10 ^ 8 * 3600" using assms(3) by (intro mult_mono) auto
  then show ?thesis by (simp add: checked_mul_u64_def)
qed

lemmas durations = from_secs_def from_millis_def from_micros_def from_nanos_def

lemma unit_char_boundary: "unit_nanos u = Some k \<Longrightarrow> \<not> is_cont_byte u"
  by (auto simp: unit_nanos_def is_cont_byte_def split: if_splits)

lemma parse_timeout_snoc:
  "parse_grpc_timeout (ds @ [u]) =
     (if ds = [] then Some None
      else if is_cont_byte u then None
      else Some (if 8 < length ds then None
        else Option.bind (parse_usize ds) (\<lambda>n. map_option (\<lambda>k. n * k) (unit_nanos u))))"
proof -
  have b: "is_char_boundary (ds @ [u]) (length ds) \<longleftrightarrow> ds = [] \<or> \<not> is_cont_byte u"
    by (simp add: is_char_boundary_def)
  show ?thesis
  proof (cases "ds = [] \<or> 8 < length ds \<or> parse_usize ds = None")
    case True
    then show ?thesis by (auto simp: parse_grpc_timeout_def b split: option.split)
  next
    case False
    then obtain n where n: "parse_usize ds = Some n" "length ds \<le> 8" "ds \<noteq> []" by auto
    have "checked_mul_u64 n 3600 = Some (n * 3600)" "checked_mul_u64 n 60 = Some (n * 60)"
      by (rule eight_digits [OF n(1,2)], simp)+
    then show ?thesis using n
      by (auto simp: parse_grpc_timeout_def b unit_nanos_def durations)
  qed
qed

text \<open>
  C28. A timeout is accepted exactly when it is at most eight characters that parse as an
  unsigned number, followed by one of the six units, and its value is then the exact
  product: no accepted value ever overflows.
\<close>

theorem grpc_timeout_value:
  "parse_grpc_timeout v = Some (Some d) \<longleftrightarrow>
     (\<exists>ds u n k. v = ds @ [u] \<and> length ds \<le> 8 \<and> parse_usize ds = Some n \<and> unit_nanos u = Some k \<and> d = n * k)"
proof (cases v rule: rev_cases)
  case Nil
  then show ?thesis by (simp add: parse_grpc_timeout_def)
next
  case (snoc ds u)
  have "parse_usize [] = None" by (simp add: parse_usize_def)
  then show ?thesis unfolding snoc parse_timeout_snoc
    by (auto simp: unit_char_boundary Option.bind_eq_Some_conv)
qed

text \<open>
  The deadline of a request is never computed with a panic, as long as the header
  conversion returns ASCII text, as documented: the last byte is always a character of its
  own. A stored deadline takes precedence, and a header that does not parse leaves the
  request without one.
\<close>

theorem request_deadline_total:
  assumes "\<And>h s. to_str h = Some s \<Longrightarrow> \<forall>c\<in>set s. byte c < 128"
  shows "\<exists>d. request_deadline add to_str now ext header = Some d \<and>
    (case ext of Some e \<Rightarrow> d = Some e
     | None \<Rightarrow> d = Option.bind (Option.bind header to_str)
         (\<lambda>s. Option.bind (Option.bind (parse_grpc_timeout s) (\<lambda>t. t)) (add now)))"
proof -
  have "\<exists>t. parse_grpc_timeout s = Some t" if "\<forall>c\<in>set s. byte c < 128" for s
    using that
    by (cases s rule: rev_cases) (auto simp: parse_timeout_snoc is_cont_byte_def, simp add: parse_grpc_timeout_def)
  with assms show ?thesis
    by (cases header; cases ext) (auto simp: request_deadline_def split: option.split, fastforce+)
qed

theorem request_deadline_total_witness:
  "request_deadline (\<lambda>now t. Some (now + t)) (\<lambda>h. if \<forall>c\<in>set h. byte c < 128 then Some h else None) 7 None (Some ''250m'')
     = Some (Some 250000007)"
proof -
  have p: "parse_grpc_timeout ''250m'' = Some (Some 250000000)"
    using parse_timeout_snoc [of "''250''" "CHR ''m''"]
    by (simp add: unit_nanos_def is_cont_byte_def parse_usize_def digit_val_def)
  have "\<exists>d. request_deadline (\<lambda>now t. Some (now + t)) (\<lambda>h. if \<forall>c\<in>set h. byte c < 128 then Some h else None) 7 None (Some ''250m'') = Some d \<and>
    (case None :: nat option of Some e \<Rightarrow> d = Some e
     | None \<Rightarrow> d = Option.bind (Option.bind (Some ''250m'') (\<lambda>h. if \<forall>c\<in>set h. byte c < 128 then Some h else None))
         (\<lambda>s. Option.bind (Option.bind (parse_grpc_timeout s) (\<lambda>t. t)) ((\<lambda>now t. Some (now + t)) 7)))"
    by (rule request_deadline_total) (auto split: if_splits)
  then show ?thesis by (auto simp: p)
qed

end
