(* ===== verification/Metrics.thy ===== *)
theory Metrics
  imports Floats "HOL-Library.Word" "HOL-Library.Log_Nat"
begin

text \<open>
  The latency metrics of \<open>src/src/metrics.rs\<close>: a logarithmic histogram of fixed size, and
  the registry of stages and counters. A \<open>Duration\<close> is a number of nanoseconds; a sample
  is the 64-bit number of microseconds \<open>record\<close> derives from it.
\<close>

unbundle bit_operations_syntax

section \<open>The histogram\<close>

definition SUB_BUCKETS :: nat where "SUB_BUCKETS = 8"

definition OCTAVES :: nat where "OCTAVES = 41"

definition BUCKETS :: nat where "BUCKETS = OCTAVES * SUB_BUCKETS"

lemmas bucket_consts = SUB_BUCKETS_def OCTAVES_def BUCKETS_def

record histogram =
  h_buckets :: "nat list"
  h_count :: nat
  h_max_us :: "64 word"

definition histogram_default :: histogram where
  "histogram_default = \<lparr>h_buckets = replicate BUCKETS 0, h_count = 0, h_max_us = 0\<rparr>"

text \<open>\<open>u64::leading_zeros\<close>.\<close>

definition leading_zeros :: "64 word \<Rightarrow> nat" where
  "leading_zeros w = 64 - floorlog 2 (unat w)"

definition hist_index :: "64 word \<Rightarrow> nat" where
  "hist_index us =
     (if us < of_nat SUB_BUCKETS then unat us
      else (let octave = 63 - leading_zeros us;
                shift = octave - 3;
                sub = unat (drop_bit shift us AND (of_nat SUB_BUCKETS - 1));
                idx = octave * SUB_BUCKETS + sub
            in min idx (BUCKETS - 1)))"

text \<open>
  The lower bound of a bucket. The octaves 1 and 2 have no bucket: there the subtraction
  \<open>octave - 3\<close> underflows \<open>usize\<close>, which the model records as \<open>None\<close>.
\<close>

definition lower_bound :: "nat \<Rightarrow> 64 word option" where
  "lower_bound idx =
     (if idx < SUB_BUCKETS then Some (of_nat idx)
      else (let octave = idx div SUB_BUCKETS; sub = idx mod SUB_BUCKETS
            in if octave < 3 then None
               else Some (push_bit (octave - 3) (of_nat SUB_BUCKETS + of_nat sub))))"

definition as_micros_u64 :: "nat \<Rightarrow> 64 word" where
  "as_micros_u64 latency = of_nat (min (latency div 1000) (2 ^ 64 - 1))"

definition hist_record :: "nat \<Rightarrow> histogram \<Rightarrow> histogram" where
  "hist_record latency h =
     (let us = as_micros_u64 latency
      in h\<lparr>h_buckets := (h_buckets h)[hist_index us := h_buckets h ! hist_index us + 1],
           h_count := h_count h + 1,
           h_max_us := max (h_max_us h) us\<rparr>)"

definition quantile_target :: "nat \<Rightarrow> real \<Rightarrow> nat" where
  "quantile_target n q =
     f64_as_u64 (fmax (fceil (fmul round64 (nat_as_f64 n) (Fin q))) (Fin 1))"

text \<open>
  The scan over the buckets; a value is in microseconds. \<open>None\<close> is the underflow of
  \<open>lower_bound\<close>.
\<close>

fun quantile_scan :: "nat \<Rightarrow> nat \<Rightarrow> nat \<Rightarrow> nat list \<Rightarrow> 64 word \<Rightarrow> 64 word option" where
  "quantile_scan target i cumulative [] max_us = Some max_us"
| "quantile_scan target i cumulative (n # ns) max_us =
     (if target \<le> cumulative + n then lower_bound i
      else quantile_scan target (i + 1) (cumulative + n) ns max_us)"

definition hist_quantile :: "real \<Rightarrow> histogram \<Rightarrow> 64 word option" where
  "hist_quantile q h =
     (if h_count h = 0 then Some 0
      else quantile_scan (quantile_target (h_count h) q) 0 0 (h_buckets h) (h_max_us h))"

section \<open>Bucket arithmetic\<close>

lemma unat64_lt: "unat (w :: 64 word) < 2 ^ 64"
  by (rule order.strict_trans2 [OF unsigned_less]) simp

lemma unat64_of_nat: "n < 2 ^ 64 \<Longrightarrow> unat (of_nat n :: 64 word) = n"
  by (simp add: unsigned_of_nat take_bit_nat_eq_self)

lemma octave_range:
  fixes n :: nat
  assumes "1 \<le> n"
  obtains oct where "2 ^ oct \<le> n" and "n < 2 ^ (oct + 1)"
    and "floorlog 2 n = oct + 1"
proof -
  define oct where "oct = floorlog 2 n - 1"
  have fl: "floorlog 2 n = oct + 1"
    using assms floorlog_eq_zero_iff [of 2 n] by (simp add: oct_def)
  have "2 ^ oct \<le> n" using floorlog_geD [of "oct + 1" 2 n] fl by simp
  moreover have "n < 2 ^ (oct + 1)" using floorlog_leD [of 2 n "oct + 1"] fl assms by simp
  ultimately show thesis using fl that by blast
qed

lemma floorlog_octave:
  fixes n :: nat
  assumes "2 ^ oct \<le> n" and "n < 2 ^ (oct + 1)"
  shows "floorlog 2 n = oct + 1"
proof (rule antisym)
  show "floorlog 2 n \<le> oct + 1" using assms(2) by (intro floorlog_leI) simp_all
  show "oct + 1 \<le> floorlog 2 n" using assms(1) floorlog_geI [of 2 "oct + 1" n] by simp
qed

lemma octave_floorlog:
  assumes "0 < us"
  shows "63 - leading_zeros us = floorlog 2 (unat us) - 1"
proof -
  have "0 < unat us" using assms by (simp add: word_gt_0 unat_gt_0)
  have "floorlog 2 (unat us) \<le> 64"
    using unat64_lt [of us] by (intro floorlog_leI) simp_all
  then show ?thesis by (simp add: leading_zeros_def)
qed

text \<open>The bucket of a sample of at least 8 in terms of its octave \<open>o\<close>.\<close>

lemma hist_index_octave:
  assumes "8 \<le> unat us" and "2 ^ oct \<le> unat us" and "unat us < 2 ^ (oct + 1)"
  shows "hist_index us = min (oct * 8 + (unat us div 2 ^ (oct - 3) - 8)) 327"
    and "3 \<le> oct" and "oct < 64"
proof -
  have us: "0 < us" using assms(1) by (simp add: word_less_nat_alt)
  have fl: "floorlog 2 (unat us) = oct + 1"
    using assms(2,3) by (rule floorlog_octave)
  have oct: "63 - leading_zeros us = oct" using octave_floorlog [OF us] fl by simp
  show o3: "3 \<le> oct"
  proof (rule ccontr)
    assume "\<not> 3 \<le> oct"
    then have "(2::nat) ^ (oct + 1) \<le> 2 ^ 3" by (intro power_increasing) auto
    with assms(1,3) show False by simp
  qed
  show "oct < 64"
  proof (rule ccontr)
    assume "\<not> oct < 64"
    then have "(2::nat) ^ 64 \<le> 2 ^ oct" by (intro power_increasing) auto
    with assms(2) unat64_lt [of us] show False by simp
  qed
  define q where "q = unat us div 2 ^ (oct - 3)"
  have pow: "(2::nat) ^ oct = 8 * 2 ^ (oct - 3)"
    using o3 power_add [of "2::nat" 3 "oct - 3"] by simp
  have q: "8 \<le> q" "q < 16"
    using assms(2,3) pow unfolding q_def
    by (simp_all add: less_eq_div_iff_mult_less_eq div_less_iff_less_mult)
  have seven: "(of_nat SUB_BUCKETS - 1 :: 64 word) = mask 3" by (simp add: SUB_BUCKETS_def mask_eq_exp_minus_1)
  have "unat (drop_bit (oct - 3) us AND mask 3) = take_bit 3 (drop_bit (oct - 3) (unat us))"
    using unat64_lt [of us]
    by (simp add: unsigned_take_bit_eq unsigned_drop_bit_eq take_bit_nat_eq_self flip: take_bit_eq_mask)
  also have "\<dots> = q mod 8"
    by (simp add: q_def drop_bit_eq_div take_bit_eq_mod)
  finally have "unat (drop_bit (oct - 3) us AND mask 3) = q mod 8" .
  moreover have "q mod 8 = q - 8" using q by (simp add: mod_if [of q])
  ultimately have sub: "unat (drop_bit (oct - 3) us AND (of_nat SUB_BUCKETS - 1)) = q - 8"
    unfolding seven by simp
  have "\<not> us < of_nat SUB_BUCKETS"
    using assms(1) by (simp add: SUB_BUCKETS_def word_less_nat_alt)
  then have "hist_index us = min (oct * SUB_BUCKETS + (q - 8)) (BUCKETS - 1)"
    unfolding hist_index_def Let_def oct sub by simp
  then show "hist_index us = min (oct * 8 + (unat us div 2 ^ (oct - 3) - 8)) 327"
    by (simp add: bucket_consts q_def)
qed

text \<open>The two forms a bucket takes: exact below 8, and eighths of an octave above.\<close>

lemma hist_index_small: "unat us < 8 \<Longrightarrow> hist_index us = unat us"
  by (simp add: hist_index_def SUB_BUCKETS_def word_less_nat_alt)

lemma hist_index_cases:
  obtains (small) "unat us < 8" "hist_index us = unat us"
  | (octave) oct q where "8 \<le> q" "q < 16" "3 \<le> oct" "oct < 64" "q = unat us div 2 ^ (oct - 3)"
      "hist_index us = min (oct * 8 + (q - 8)) 327"
      "2 ^ oct \<le> unat us" "unat us < 2 ^ (oct + 1)"
proof (cases "unat us < 8")
  case True
  then show ?thesis using small hist_index_small by blast
next
  case False
  then have "1 \<le> unat us" by simp
  from octave_range [OF this] obtain oct
    where oct: "2 ^ oct \<le> unat us" "unat us < 2 ^ (oct + 1)" by blast
  note idx = hist_index_octave [OF _ oct]
  define q where "q = unat us div 2 ^ (oct - 3)"
  have pow: "(2::nat) ^ oct = 8 * 2 ^ (oct - 3)"
    using idx(2) False power_add [of "2::nat" 3 "oct - 3"] by simp
  have "8 \<le> q" "q < 16"
    using oct pow unfolding q_def by (simp_all add: less_eq_div_iff_mult_less_eq div_less_iff_less_mult)
  then show ?thesis using octave [of q oct] idx False oct q_def by auto
qed

lemma hist_index_less: "hist_index us < BUCKETS"
  by (cases us rule: hist_index_cases) (auto simp: bucket_consts)

lemma hist_index_mono: "us \<le> vs \<Longrightarrow> hist_index us \<le> hist_index vs"
proof -
  assume "us \<le> vs"
  then have le: "unat us \<le> unat vs" by (simp add: word_le_nat_alt)
  show ?thesis
  proof (cases us rule: hist_index_cases)
    case us: small
    show ?thesis
      by (cases vs rule: hist_index_cases) (use us le in auto)
  next
    case us: (octave o1 q1)
    show ?thesis
    proof (cases vs rule: hist_index_cases)
      case small
      have "(8::nat) \<le> 2 ^ o1" using us(3) power_increasing [of 3 o1 "2::nat"] by simp
      with us(7) le small show ?thesis by simp
    next
      case vs: (octave o2 q2)
      have "(2::nat) ^ o1 < 2 ^ (o2 + 1)" using us(7) vs(8) le by linarith
      then have "o1 < o2 + 1" by (rule power_less_imp_less_exp [rotated]) simp
      then have "o1 \<le> o2" by simp
      show ?thesis
      proof (cases "o1 = o2")
        case True
        then have "q1 \<le> q2" using us(5) vs(5) le by (simp add: div_le_mono)
        then show ?thesis unfolding us(6) vs(6) using True by (intro min.mono) auto
      next
        case False
        with \<open>o1 \<le> o2\<close> have "o1 * 8 + (q1 - 8) \<le> o2 * 8 + (q2 - 8)" using us(1,2) vs(1) by simp
        then show ?thesis unfolding us(6) vs(6) by (intro min.mono) auto
      qed
    qed
  qed
qed

lemma lower_bound_octave:
  assumes "3 \<le> oct" and "oct < 41" and "8 \<le> q" and "q < 16"
  shows "\<exists>lb. lower_bound (oct * 8 + (q - 8)) = Some lb \<and> unat lb = q * 2 ^ (oct - 3)"
proof -
  have div: "(oct * 8 + (q - 8)) div 8 = oct" "(oct * 8 + (q - 8)) mod 8 = q - 8"
    using assms(4) by (simp_all add: div_add1_eq del: diff_add_assoc2 add_diff_assoc add_diff_assoc2)
  have "q * 2 ^ (oct - 3) < 16 * 2 ^ (oct - 3)" using assms by simp
  also have "16 * 2 ^ (oct - 3) \<le> 16 * (2::nat) ^ 37" using assms by (intro mult_left_mono power_increasing) auto
  finally have lt: "q * 2 ^ (oct - 3) < 2 ^ 64" by simp
  have "(of_nat SUB_BUCKETS + of_nat (q - 8) :: 64 word) = of_nat (SUB_BUCKETS + (q - 8))"
    by (rule of_nat_add [symmetric])
  also have "SUB_BUCKETS + (q - 8) = q" using assms(3) by (simp add: SUB_BUCKETS_def)
  finally have sum: "(of_nat SUB_BUCKETS + of_nat (q - 8) :: 64 word) = of_nat q" .
  have "push_bit (oct - 3) (of_nat SUB_BUCKETS + of_nat (q - 8) :: 64 word)
      = of_nat (q * 2 ^ (oct - 3))"
    unfolding sum by (simp add: push_bit_eq_mult)
  moreover have "unat (of_nat (q * 2 ^ (oct - 3)) :: 64 word) = q * 2 ^ (oct - 3)"
    by (rule unat64_of_nat [OF lt])
  moreover have "\<not> oct * 8 + (q - 8) < SUB_BUCKETS" using assms by (simp add: SUB_BUCKETS_def)
  ultimately show ?thesis
    using assms(1) div by (simp add: lower_bound_def Let_def SUB_BUCKETS_def)
qed

lemma lower_bound_small: "n < 8 \<Longrightarrow> \<exists>lb. lower_bound n = Some lb \<and> unat lb = n"
  by (simp add: lower_bound_def SUB_BUCKETS_def unsigned_of_nat take_bit_nat_eq_self)

section \<open>The error of a bucket\<close>

text \<open>
  Up to \<open>2 ^ 41\<close> microseconds the bucket of a sample has a lower bound that
  never exceeds the sample and is within an eighth of itself below it, the bucket holds
  its own lower bound, and computing the bound never underflows.
\<close>

theorem bucket_error:
  assumes "us < 2 ^ 41"
  shows "\<exists>lb. lower_bound (hist_index us) = Some lb \<and> lb \<le> us \<and>
    8 * (unat us - unat lb) \<le> unat lb \<and> hist_index lb = hist_index us"
proof (cases us rule: hist_index_cases)
  case small
  then obtain lb where "lower_bound (hist_index us) = Some lb" "unat lb = unat us"
    using lower_bound_small by metis
  moreover from this have "lb = us" by (simp add: word_unat_eq_iff)
  ultimately show ?thesis by auto
next
  case (octave oct q)
  have "unat us < 2 ^ 41" using assms by (simp add: word_less_nat_alt)
  with octave(7) have "(2::nat) ^ oct < 2 ^ 41" by linarith
  then have oct: "oct < 41" by (rule power_less_imp_less_exp [rotated]) simp
  define p where "p = (2::nat) ^ (oct - 3)"
  have idx: "hist_index us = oct * 8 + (q - 8)" using octave(2,6) oct by simp
  from lower_bound_octave [OF octave(3) oct octave(1,2)] idx
  obtain lb where lb: "lower_bound (hist_index us) = Some lb" "unat lb = q * p"
    unfolding p_def by metis
  have pow: "(2::nat) ^ oct = 8 * p"
    using octave(3) power_add [of "2::nat" 3 "oct - 3"] by (simp add: p_def)
  have "0 < p" by (simp add: p_def)
  have le: "q * p \<le> unat us" unfolding octave(5) p_def by simp
  have rest: "unat us < q * p + p"
    unfolding octave(5) p_def [symmetric] using \<open>0 < p\<close>
    by (metis div_mult_mod_eq mod_less_divisor nat_add_left_cancel_less)
  have "8 * p \<le> q * p" using octave(1) by (rule mult_le_mono1)
  then have err: "8 * (unat us - unat lb) \<le> unat lb" using rest le lb(2) by linarith
  have "q * p < 16 * p" using octave(2) \<open>0 < p\<close> by simp
  have "8 \<le> q * p" using \<open>8 * p \<le> q * p\<close> \<open>0 < p\<close> by linarith
  then have b8: "8 \<le> unat lb" by (simp only: lb(2))
  have lo: "2 ^ oct \<le> unat lb" using \<open>8 * p \<le> q * p\<close> by (simp only: pow lb(2))
  have hi: "unat lb < 2 ^ (oct + 1)" using \<open>q * p < 16 * p\<close> by (simp add: pow lb(2))
  from hist_index_octave(1) [OF b8 lo hi]
  have "hist_index lb = hist_index us"
    using idx octave(2) oct lb(2) \<open>0 < p\<close> by (simp add: p_def [symmetric])
  then show ?thesis using lb le err by (auto simp: word_le_nat_alt)
qed

theorem bucket_error_witness:
  "\<exists>lb. lower_bound (hist_index 1000) = Some lb \<and> lb \<le> 1000 \<and>
    8 * (unat (1000 :: 64 word) - unat lb) \<le> unat lb \<and> hist_index lb = hist_index 1000"
  using bucket_error [of 1000] by (simp add: word_less_nat_alt)

text \<open>Every bucket that a sample can fall in has a lower bound.\<close>

lemma lower_bound_defined: "\<exists>lb. lower_bound (hist_index us) = Some lb"
proof (cases us rule: hist_index_cases)
  case small
  then show ?thesis using lower_bound_small by metis
next
  case (octave oct q)
  show ?thesis
  proof (cases "oct < 41")
    case True
    then show ?thesis
      using lower_bound_octave [OF octave(3) True octave(1,2)] octave(2,6) by auto
  next
    case False
    then have "hist_index us = 40 * 8 + (15 - 8)" using octave(1,6) by simp
    then show ?thesis using lower_bound_octave [of 40 15] by auto
  qed
qed

section \<open>Quantiles\<close>

definition hist_inv :: "nat list \<Rightarrow> histogram \<Rightarrow> bool" where
  "hist_inv lats h \<longleftrightarrow>
     h_count h = length lats \<and>
     h_max_us h = fold max (List.map as_micros_u64 lats) 0 \<and>
     h_buckets h = List.map (\<lambda>i. length (filter (\<lambda>l. hist_index (as_micros_u64 l) = i) lats)) [0..<BUCKETS]"

lemma hist_inv_default: "hist_inv [] histogram_default"
  by (simp add: hist_inv_def histogram_default_def map_replicate_const)

lemma hist_inv_record: "hist_inv lats h \<Longrightarrow> hist_inv (lats @ [l]) (hist_record l h)"
  using hist_index_less [of "as_micros_u64 l"]
  by (auto simp: hist_inv_def hist_record_def Let_def max.commute intro!: nth_equalityI
      simp: nth_list_update)

lemma hist_inv_fold: "hist_inv lats h \<Longrightarrow> hist_inv (lats @ ls) (fold hist_record ls h)"
proof (induction ls arbitrary: lats h)
  case (Cons l ls)
  then show ?case using Cons.IH [OF hist_inv_record [OF Cons.prems, of l]] by simp
qed simp

text \<open>The element of rank \<open>k\<close> of a sorted list, read off the cumulative counts.\<close>

lemma sorted_rank_less:
  "sorted xs \<Longrightarrow> j < length xs \<Longrightarrow> xs ! j < i \<longleftrightarrow> j < length (filter (\<lambda>x. x < i) xs)"
proof (induction xs arbitrary: j)
  case (Cons x xs)
  show ?case
  proof (cases "x < i")
    case True
    with Cons show ?thesis by (cases j) auto
  next
    case False
    then have "\<forall>y\<in>set (x # xs). \<not> y < i" using Cons.prems(1) by auto
    moreover from this have "filter (\<lambda>x. x < i) (x # xs) = []" by (simp only: filter_empty_conv)
    ultimately show ?thesis using Cons.prems(2) nth_mem [OF Cons.prems(2)] by (metis length_0_conv not_less0)
  qed
qed simp

lemma length_filter_less_Suc:
  fixes xs :: "nat list"
  shows "length (filter (\<lambda>x. x < Suc i) xs)
    = length (filter (\<lambda>x. x < i) xs) + length (filter (\<lambda>x. x = i) xs)"
  by (induction xs) (auto simp: less_Suc_eq)

lemma quantile_scan_rank:
  assumes "sorted xs" and "\<forall>x\<in>set xs. x < m" and "1 \<le> k" and "k \<le> length xs"
    and "length (filter (\<lambda>x. x < i) xs) < k" and "i \<le> m"
  shows "quantile_scan k i (length (filter (\<lambda>x. x < i) xs))
      (List.map (\<lambda>i. length (filter (\<lambda>x. x = i) xs)) [i..<m]) mx = lower_bound (xs ! (k - 1))"
  using assms(5,6)
proof (induction "m - i" arbitrary: i)
  case 0
  then have "i = m" by simp
  with assms(2) have "filter (\<lambda>x. x < i) xs = xs" by (simp add: filter_id_conv)
  with 0 assms(4) show ?case by simp
next
  case (Suc n)
  then have "i < m" by simp
  then have upt: "[i..<m] = i # [Suc i..<m]" by (rule upt_conv_Cons)
  note cnt = length_filter_less_Suc [of i xs]
  have j: "k - 1 < length xs" using assms(3,4) by simp
  show ?case
  proof (cases "k \<le> length (filter (\<lambda>x. x < Suc i) xs)")
    case True
    then have "xs ! (k - 1) < Suc i" "\<not> xs ! (k - 1) < i"
      using sorted_rank_less [OF assms(1) j] assms(3) Suc.prems(1) by auto
    then have "xs ! (k - 1) = i" by simp
    then show ?thesis using True cnt by (simp add: upt)
  next
    case False
    have "quantile_scan k (Suc i) (length (filter (\<lambda>x. x < Suc i) xs))
        (List.map (\<lambda>i. length (filter (\<lambda>x. x = i) xs)) [Suc i..<m]) mx = lower_bound (xs ! (k - 1))"
      using Suc.hyps \<open>i < m\<close> False by (intro Suc.hyps(1)) auto
    then show ?thesis using False cnt by (simp add: upt)
  qed
qed

lemma quantile_target_range:
  assumes "1 \<le> n" and "n \<le> 2 ^ 53" and "0 \<le> q" and "q \<le> 1"
  shows "1 \<le> quantile_target n q" and "quantile_target n q \<le> n"
proof -
  have n: "nat_as_f64 n = Fin (real n)" unfolding nat_as_f64_def by (rule f64.rnd_nat [OF assms(2)])
  have "0 \<le> real n * q" "real n * q \<le> real n" using assms(3,4) by (simp_all add: mult_left_le)
  from f64.rnd_upto [OF this assms(2)] obtain z
    where z: "round64 (real n * q) = Fin z" "0 \<le> z" "z \<le> real n" .
  have "\<lceil>z\<rceil> \<le> int n" using z(3) by (simp add: ceiling_le_iff)
  moreover have "int n < 2 ^ 64" using assms(2) by simp
  moreover have "Suc 0 \<le> nat \<lceil>z\<rceil>" if "\<not> z \<le> 1" using that by linarith
  ultimately show "1 \<le> quantile_target n q" "quantile_target n q \<le> n"
    using z assms(1) by (auto simp: quantile_target_def n)
qed

text \<open>
  C31. After any samples \<open>lats\<close>, the reported quantile is the lower bound of
  the bucket of the sample whose rank in sorted order is the quantile's target rank, which
  lies between 1 and the number of samples.
\<close>

theorem quantile_rank:
  assumes "lats \<noteq> []" and "length lats \<le> 2 ^ 53" and "0 \<le> q" and "q \<le> 1"
  shows "hist_quantile q (fold hist_record lats histogram_default)
      = lower_bound (hist_index (as_micros_u64 (sort lats ! (quantile_target (length lats) q - 1)))) \<and>
    1 \<le> quantile_target (length lats) q \<and> quantile_target (length lats) q \<le> length lats"
proof -
  define h where "h = fold hist_record lats histogram_default"
  define k where "k = quantile_target (length lats) q"
  define f where "f l = hist_index (as_micros_u64 l)" for l
  have inv: "hist_inv lats h" using hist_inv_fold [OF hist_inv_default, of lats] by (simp add: h_def)
  have k: "1 \<le> k" "k \<le> length lats"
    using quantile_target_range [OF _ assms(2-4)] assms(1) by (auto simp: k_def Suc_le_eq)
  have mono: "f a \<le> f b" if "a \<le> b" for a b
    using that div_le_mono [OF that, of 1000] unfolding f_def as_micros_u64_def
    by (intro hist_index_mono) (simp add: word_le_nat_alt unat64_of_nat)
  define xs where "xs = List.map f (sort lats)"
  have sorted: "sorted xs" unfolding xs_def
    by (simp add: sorted_map) (rule sorted_wrt_mono_rel [OF _ sorted_sort], rule mono)
  have cnt: "length (filter (\<lambda>l. f l = i) lats) = length (filter (\<lambda>x. x = i) xs)" for i
    unfolding xs_def by (simp add: filter_map comp_def) (metis filter_sort length_sort)
  have bs: "h_buckets h = List.map (\<lambda>i. length (filter (\<lambda>x. x = i) xs)) [0..<BUCKETS]"
    using inv by (simp add: hist_inv_def cnt flip: f_def)
  have less: "\<forall>x\<in>set xs. x < BUCKETS" by (auto simp: xs_def f_def hist_index_less)
  have "quantile_scan k 0 (length (filter (\<lambda>x. x < 0) xs)) (h_buckets h) (h_max_us h)
      = lower_bound (xs ! (k - 1))"
    unfolding bs using k by (intro quantile_scan_rank [OF sorted less]) (auto simp: xs_def)
  then have "hist_quantile q h = lower_bound (xs ! (k - 1))"
    using inv assms(1) by (simp add: hist_quantile_def hist_inv_def k_def)
  moreover have "xs ! (k - 1) = f (sort lats ! (k - 1))"
    unfolding xs_def using k by (intro nth_map) auto
  ultimately show ?thesis using k by (simp add: h_def k_def f_def)
qed

theorem quantile_rank_witness:
  "hist_quantile 1 (fold hist_record [9000, 1000] histogram_default)
      = lower_bound (hist_index (as_micros_u64 (sort [9000, 1000] ! (quantile_target (length [9000 :: nat, 1000]) 1 - 1)))) \<and>
    1 \<le> quantile_target (length [9000 :: nat, 1000]) 1 \<and> quantile_target (length [9000 :: nat, 1000]) 1 \<le> length [9000 :: nat, 1000]"
  by (rule quantile_rank) simp_all

section \<open>The registry\<close>

datatype latency_stage = StageQueue | StageTokenize | StageForward | StageTotal

record stage_percentiles_t =
  p50 :: "64 word option"
  p95 :: "64 word option"
  p99 :: "64 word option"
  pmax :: "64 word"
  pcount :: nat

record metrics_snapshot =
  ms_queue :: nat
  ms_tokenize :: nat
  ms_forward :: nat
  ms_total :: nat
  ms_cache_hits :: nat
  ms_cache_misses :: nat
  ms_l2_hits :: nat
  ms_l2_misses :: nat
  ms_l2_degraded :: nat
  ms_cache_coalesced :: nat
  ms_queued_expired :: nat
  ms_queued_cancelled :: nat

text \<open>
  \<open>Inner\<close>: the accumulators of the snapshot and one histogram per stage. \<open>Metrics\<close> is a
  shared handle on one of these behind a mutex, so each method is one atomic update.
\<close>

record metrics = metrics_snapshot +
  hist_queue :: histogram
  hist_tokenize :: histogram
  hist_forward :: histogram
  hist_total :: histogram

definition metrics_new :: metrics where
  "metrics_new =
     \<lparr>ms_queue = 0, ms_tokenize = 0, ms_forward = 0, ms_total = 0,
      ms_cache_hits = 0, ms_cache_misses = 0, ms_l2_hits = 0, ms_l2_misses = 0,
      ms_l2_degraded = 0, ms_cache_coalesced = 0, ms_queued_expired = 0,
      ms_queued_cancelled = 0,
      hist_queue = histogram_default, hist_tokenize = histogram_default,
      hist_forward = histogram_default, hist_total = histogram_default\<rparr>"

fun record_stage :: "latency_stage \<Rightarrow> nat \<Rightarrow> metrics \<Rightarrow> metrics" where
  "record_stage StageQueue latency m =
     m\<lparr>ms_queue := ms_queue m + latency, hist_queue := hist_record latency (hist_queue m)\<rparr>"
| "record_stage StageTokenize latency m =
     m\<lparr>ms_tokenize := ms_tokenize m + latency, hist_tokenize := hist_record latency (hist_tokenize m)\<rparr>"
| "record_stage StageForward latency m =
     m\<lparr>ms_forward := ms_forward m + latency, hist_forward := hist_record latency (hist_forward m)\<rparr>"
| "record_stage StageTotal latency m =
     m\<lparr>ms_total := ms_total m + latency, hist_total := hist_record latency (hist_total m)\<rparr>"

fun stage_hist :: "latency_stage \<Rightarrow> metrics \<Rightarrow> histogram" where
  "stage_hist StageQueue m = hist_queue m"
| "stage_hist StageTokenize m = hist_tokenize m"
| "stage_hist StageForward m = hist_forward m"
| "stage_hist StageTotal m = hist_total m"

definition stage_percentiles :: "latency_stage \<Rightarrow> metrics \<Rightarrow> stage_percentiles_t" where
  "stage_percentiles stage m =
     (let h = stage_hist stage m
      in \<lparr>p50 = hist_quantile 0.50 h, p95 = hist_quantile 0.95 h, p99 = hist_quantile 0.99 h,
          pmax = h_max_us h, pcount = h_count h\<rparr>)"

definition record_cache_hit :: "metrics \<Rightarrow> metrics" where
  "record_cache_hit m = m\<lparr>ms_cache_hits := ms_cache_hits m + 1\<rparr>"

definition record_cache_miss :: "metrics \<Rightarrow> metrics" where
  "record_cache_miss m = m\<lparr>ms_cache_misses := ms_cache_misses m + 1\<rparr>"

definition record_l2_hit :: "metrics \<Rightarrow> metrics" where
  "record_l2_hit m = m\<lparr>ms_l2_hits := ms_l2_hits m + 1\<rparr>"

definition record_l2_miss :: "metrics \<Rightarrow> metrics" where
  "record_l2_miss m = m\<lparr>ms_l2_misses := ms_l2_misses m + 1\<rparr>"

definition record_l2_degraded :: "metrics \<Rightarrow> metrics" where
  "record_l2_degraded m = m\<lparr>ms_l2_degraded := ms_l2_degraded m + 1\<rparr>"

definition record_cache_coalesced :: "metrics \<Rightarrow> metrics" where
  "record_cache_coalesced m = m\<lparr>ms_cache_coalesced := ms_cache_coalesced m + 1\<rparr>"

definition record_queued_expired :: "metrics \<Rightarrow> metrics" where
  "record_queued_expired m = m\<lparr>ms_queued_expired := ms_queued_expired m + 1\<rparr>"

definition record_queued_cancelled :: "metrics \<Rightarrow> metrics" where
  "record_queued_cancelled m = m\<lparr>ms_queued_cancelled := ms_queued_cancelled m + 1\<rparr>"

definition snapshot :: "metrics \<Rightarrow> metrics_snapshot" where
  "snapshot m =
     \<lparr>ms_queue = ms_queue m, ms_tokenize = ms_tokenize m, ms_forward = ms_forward m,
      ms_total = ms_total m, ms_cache_hits = ms_cache_hits m,
      ms_cache_misses = ms_cache_misses m, ms_l2_hits = ms_l2_hits m,
      ms_l2_misses = ms_l2_misses m, ms_l2_degraded = ms_l2_degraded m,
      ms_cache_coalesced = ms_cache_coalesced m, ms_queued_expired = ms_queued_expired m,
      ms_queued_cancelled = ms_queued_cancelled m\<rparr>"

lemmas metrics_defs = record_cache_hit_def record_cache_miss_def record_l2_hit_def
  record_l2_miss_def record_l2_degraded_def record_cache_coalesced_def
  record_queued_expired_def record_queued_cancelled_def

text \<open>The calls a run makes on the registry, and their effect on it.\<close>

datatype metric_call = Stage latency_stage nat | CacheHit | CacheMiss | L2Hit | L2Miss
  | L2Degraded | CacheCoalesced | QueuedExpired | QueuedCancelled

primrec metric_step :: "metric_call \<Rightarrow> metrics \<Rightarrow> metrics" where
  "metric_step (Stage st l) m = record_stage st l m"
| "metric_step CacheHit m = record_cache_hit m"
| "metric_step CacheMiss m = record_cache_miss m"
| "metric_step L2Hit m = record_l2_hit m"
| "metric_step L2Miss m = record_l2_miss m"
| "metric_step L2Degraded m = record_l2_degraded m"
| "metric_step CacheCoalesced m = record_cache_coalesced m"
| "metric_step QueuedExpired m = record_queued_expired m"
| "metric_step QueuedCancelled m = record_queued_cancelled m"

definition stage_samples :: "latency_stage \<Rightarrow> metric_call list \<Rightarrow> nat list" where
  "stage_samples st cs = List.map_filter (\<lambda>c. case c of Stage st' l \<Rightarrow> if st' = st then Some l else None | _ \<Rightarrow> None) cs"

primrec stage_total :: "latency_stage \<Rightarrow> metrics \<Rightarrow> nat" where
  "stage_total StageQueue m = ms_queue m"
| "stage_total StageTokenize m = ms_tokenize m"
| "stage_total StageForward m = ms_forward m"
| "stage_total StageTotal m = ms_total m"

lemma stage_samples_simps [simp]:
  "stage_samples st [] = []"
  "stage_samples st (c # cs) =
     (case c of Stage st' l \<Rightarrow> (if st' = st then [l] else []) | _ \<Rightarrow> []) @ stage_samples st cs"
  by (auto simp: stage_samples_def map_filter_simps split: metric_call.splits)

lemma metric_step_stage:
  "stage_hist st (metric_step c m) =
     (case c of Stage st' l \<Rightarrow> if st' = st then hist_record l (stage_hist st m) else stage_hist st m
      | _ \<Rightarrow> stage_hist st m)"
  "stage_total st (metric_step c m) = stage_total st m +
     (case c of Stage st' l \<Rightarrow> if st' = st then l else 0 | _ \<Rightarrow> 0)"
proof -
  show "stage_hist st (metric_step c m) =
     (case c of Stage st' l \<Rightarrow> if st' = st then hist_record l (stage_hist st m) else stage_hist st m
      | _ \<Rightarrow> stage_hist st m)"
  proof (cases c)
    case (Stage st' l)
    then show ?thesis by (cases st; cases st'; simp)
  qed (cases st; simp add: metrics_defs)+
  show "stage_total st (metric_step c m) = stage_total st m +
     (case c of Stage st' l \<Rightarrow> if st' = st then l else 0 | _ \<Rightarrow> 0)"
  proof (cases c)
    case (Stage st' l)
    then show ?thesis by (cases st; cases st'; simp)
  qed (cases st; simp add: metrics_defs)+
qed

lemma metric_run_stage:
  "stage_hist st (fold metric_step cs m) = fold hist_record (stage_samples st cs) (stage_hist st m)"
  "stage_total st (fold metric_step cs m) = stage_total st m + sum_list (stage_samples st cs)"
  by (induction cs arbitrary: m) (auto simp: metric_step_stage split: metric_call.splits)

lemma metric_run_counters:
  "ms_cache_hits (fold metric_step cs m) = ms_cache_hits m + count_list cs CacheHit"
  "ms_cache_misses (fold metric_step cs m) = ms_cache_misses m + count_list cs CacheMiss"
  "ms_cache_coalesced (fold metric_step cs m) = ms_cache_coalesced m + count_list cs CacheCoalesced"
proof -
  have stage: "ms_cache_hits (record_stage st l m) = ms_cache_hits m"
    "ms_cache_misses (record_stage st l m) = ms_cache_misses m"
    "ms_cache_coalesced (record_stage st l m) = ms_cache_coalesced m" for st l m
    by (cases st; simp)+
  have "ms_cache_hits (fold metric_step cs m) = ms_cache_hits m + count_list cs CacheHit \<and>
    ms_cache_misses (fold metric_step cs m) = ms_cache_misses m + count_list cs CacheMiss \<and>
    ms_cache_coalesced (fold metric_step cs m) = ms_cache_coalesced m + count_list cs CacheCoalesced"
  proof (induction cs arbitrary: m)
    case (Cons c cs)
    then show ?case by (cases c) (simp_all add: stage metrics_defs)
  qed simp
  then show "ms_cache_hits (fold metric_step cs m) = ms_cache_hits m + count_list cs CacheHit"
    "ms_cache_misses (fold metric_step cs m) = ms_cache_misses m + count_list cs CacheMiss"
    "ms_cache_coalesced (fold metric_step cs m) = ms_cache_coalesced m + count_list cs CacheCoalesced"
    by auto
qed

text \<open>
  After any calls on a fresh registry, each stage's percentiles are those of exactly the
  samples recorded for that stage and its total is their sum, whatever was recorded
  elsewhere in between.
\<close>

theorem registry_stages_independent:
  "stage_percentiles st (fold metric_step cs metrics_new)
     = stage_percentiles st (fold (record_stage st) (stage_samples st cs) metrics_new) \<and>
   stage_total st (fold metric_step cs metrics_new) = sum_list (stage_samples st cs) \<and>
   pcount (stage_percentiles st (fold metric_step cs metrics_new)) = length (stage_samples st cs)"
proof -
  define ls where "ls = stage_samples st cs"
  have same: "fold (record_stage st) ls m = fold metric_step (List.map (Stage st) ls) m" for m
    by (induction ls arbitrary: m) simp_all
  have samples: "stage_samples st (List.map (Stage st) ls) = ls" by (induction ls) simp_all
  have default: "stage_hist st metrics_new = histogram_default" "stage_total st metrics_new = 0"
    by (cases st; simp add: metrics_new_def)+
  have inv: "hist_inv ls (fold hist_record ls histogram_default)"
    using hist_inv_fold [OF hist_inv_default, of ls] by simp
  show ?thesis
    unfolding ls_def [symmetric] same stage_percentiles_def metric_run_stage samples default Let_def
    using inv by (simp add: ls_def hist_inv_def)
qed

end
