(* ===== verification/Handoff.thy ===== *)
theory Handoff
  imports ClassifyTypes Metrics
begin

text \<open>
  The bounded handoff of \<open>src/src/handoff.rs\<close> as a transition system: request handlers
  admit jobs, executor threads run them. A step performs at most one operation that
  another thread can observe (on the semaphore, on the counters \<open>current\<close> and \<open>max\<close>, on
  the channel, on a oneshot, on the registry), and threads interleave arbitrarily between
  steps. A panic is no step: the release profile of \<open>src/Cargo.toml\<close> sets
  \<open>panic = "abort"\<close>, so it ends the process.

  Time is a number of nanoseconds of the monotonic clock. \<open>Instant::now()\<close> is the \<open>now\<close>
  of the step that reads it.
\<close>

section \<open>State\<close>

record inference_job =
  job_input :: classification_input
  job_queued_at :: nat
  job_deadline :: "nat option"
  job_caller :: nat       \<comment> \<open>whose oneshot answers it\<close>

datatype handler_pc =
    HIdle
  | HPermitted classification_input "nat option"       \<comment> \<open>permit acquired\<close>
  | HCounted classification_input "nat option" nat     \<comment> \<open>after \<open>current.fetch_add\<close>\<close>
  | HMaxed classification_input "nat option"           \<comment> \<open>after \<open>max.fetch_max\<close>\<close>
  | HUndo                                              \<comment> \<open>\<open>try_send\<close> failed\<close>
  | HRejected
  | HAwait                                             \<comment> \<open>holds the oneshot receiver\<close>
  | HCancelled                                         \<comment> \<open>the receiver was dropped\<close>
  | HAnswered outcome

datatype worker_pc =
    WIdle
  | WTook inference_job
  | WDiscard bool               \<comment> \<open>the caller is gone; was the job expired as well?\<close>
  | WDiscarded bool             \<comment> \<open>after \<open>current.fetch_sub\<close> for such a job\<close>
  | WExpire inference_job       \<comment> \<open>the deadline has passed\<close>
  | WExpired inference_job      \<comment> \<open>after \<open>current.fetch_sub\<close> for such a job\<close>
  | WReply inference_job        \<comment> \<open>expiry recorded, \<open>RequestExpired\<close> yet to be sent\<close>
  | WRunning inference_job      \<comment> \<open>inside \<open>service.classify\<close>\<close>
  | WSent                       \<comment> \<open>the result was sent\<close>
  | WReleasing                  \<comment> \<open>\<open>current\<close> decremented, the permit still held\<close>

text \<open>
  \<open>ho_current\<close> is an integer so that a decrement below zero (a wrap of the unsigned
  counter) would show. \<open>ho_sent\<close>, \<open>ho_received\<close> and \<open>ho_ran\<close> are history variables; no step
  reads them.
\<close>

record handoff =
  ho_bound :: nat
  ho_permits :: nat
  ho_current :: int
  ho_max :: int
  ho_channel :: "inference_job list"
  ho_handlers :: "handler_pc list"
  ho_workers :: "worker_pc list"
  ho_metrics :: metrics
  ho_sent :: "inference_job list"
  ho_received :: "inference_job list"
  ho_ran :: "(inference_job \<times> nat) list"

definition spawn_with_workers :: "nat \<Rightarrow> nat \<Rightarrow> nat \<Rightarrow> metrics \<Rightarrow> handoff" where
  "spawn_with_workers bound workers callers m =
     \<lparr>ho_bound = bound, ho_permits = bound, ho_current = 0, ho_max = 0, ho_channel = [],
      ho_handlers = replicate callers HIdle, ho_workers = replicate (max workers 1) WIdle,
      ho_metrics = m, ho_sent = [], ho_received = [], ho_ran = []\<rparr>"

text \<open>\<open>env\<close> is the value of the environment variable as parsed, \<open>cores\<close> the parallelism the system reports.\<close>

definition default_worker_width :: "nat option \<Rightarrow> nat option \<Rightarrow> nat" where
  "default_worker_width env cores =
     (case env of
        Some n \<Rightarrow> if 1 \<le> n then n else max (case cores of Some p \<Rightarrow> min p 4 | None \<Rightarrow> 1) 1
      | None \<Rightarrow> max (case cores of Some p \<Rightarrow> min p 4 | None \<Rightarrow> 1) 1)"

abbreviation set_handler :: "nat \<Rightarrow> handler_pc \<Rightarrow> handoff \<Rightarrow> handoff" where
  "set_handler h p s \<equiv> s\<lparr>ho_handlers := (ho_handlers s)[h := p]\<rparr>"

abbreviation set_worker :: "nat \<Rightarrow> worker_pc \<Rightarrow> handoff \<Rightarrow> handoff" where
  "set_worker w p s \<equiv> s\<lparr>ho_workers := (ho_workers s)[w := p]\<rparr>"

section \<open>Steps\<close>

datatype handoff_event =
    Enqueue nat classification_input "nat option"
  | Handler nat nat                 \<comment> \<open>the next step of a handler, at a time\<close>
  | Cancel nat
  | Recv nat
  | Decide nat nat                  \<comment> \<open>a worker looks at its job, at a time\<close>
  | Leave nat                       \<comment> \<open>the next step of a worker that drops its job\<close>
  | Finish nat outcome
  | Decrement nat
  | Release nat

definition job_closed :: "handoff \<Rightarrow> inference_job \<Rightarrow> bool" where
  "job_closed s j \<longleftrightarrow> ho_handlers s ! job_caller j \<noteq> HAwait"

definition job_expired :: "nat \<Rightarrow> inference_job \<Rightarrow> bool" where
  "job_expired now j \<longleftrightarrow> (case job_deadline j of None \<Rightarrow> False | Some d \<Rightarrow> d \<le> now)"

definition try_enqueue_step :: "nat \<Rightarrow> classification_input \<Rightarrow> nat option \<Rightarrow> handoff \<Rightarrow> handoff" where
  "try_enqueue_step h inp deadline s =
     (if ho_permits s = 0 then set_handler h HRejected s
      else set_handler h (HPermitted inp deadline) (s\<lparr>ho_permits := ho_permits s - 1\<rparr>))"

definition handler_step :: "nat \<Rightarrow> nat \<Rightarrow> handoff \<Rightarrow> handoff option" where
  "handler_step h now s =
     (case ho_handlers s ! h of
        HPermitted inp deadline \<Rightarrow>
          Some (set_handler h (HCounted inp deadline (nat (ho_current s + 1)))
                 (s\<lparr>ho_current := ho_current s + 1\<rparr>))
      | HCounted inp deadline n \<Rightarrow>
          Some (set_handler h (HMaxed inp deadline) (s\<lparr>ho_max := max (ho_max s) (int n)\<rparr>))
      | HMaxed inp deadline \<Rightarrow>
          (let job = \<lparr>job_input = inp, job_queued_at = now, job_deadline = deadline, job_caller = h\<rparr>
           in if length (ho_channel s) < ho_bound s
              then Some (set_handler h HAwait
                     (s\<lparr>ho_channel := ho_channel s @ [job], ho_sent := ho_sent s @ [job]\<rparr>))
              else Some (set_handler h HUndo (s\<lparr>ho_permits := ho_permits s + 1\<rparr>)))
      | HUndo \<Rightarrow> Some (set_handler h HRejected (s\<lparr>ho_current := ho_current s - 1\<rparr>))
      | _ \<Rightarrow> None)"

text \<open>
  A worker that took a job looks whether it has expired and whether the caller is gone: a
  closed oneshot discards the job, an expired one is to be answered with
  \<open>RequestExpired\<close>; both leave without calling the classifier. Otherwise the queue wait is
  recorded and the forward starts.
\<close>

definition decide_step :: "nat \<Rightarrow> nat \<Rightarrow> handoff \<Rightarrow> handoff option" where
  "decide_step w now s =
     (case ho_workers s ! w of
        WTook j \<Rightarrow>
          (let expired = job_expired now j
           in if job_closed s j then Some (set_worker w (WDiscard expired) s)
              else if expired then Some (set_worker w (WExpire j) s)
              else
                Some (set_worker w (WRunning j)
                  (s\<lparr>ho_metrics := record_stage StageQueue (now - job_queued_at j) (ho_metrics s),
                     ho_ran := ho_ran s @ [(j, now)]\<rparr>)))
      | _ \<Rightarrow> None)"

text \<open>What follows when the classifier is not called: uncount, record, and answer who still waits.\<close>

definition leave_step :: "nat \<Rightarrow> handoff \<Rightarrow> handoff option" where
  "leave_step w s =
     (case ho_workers s ! w of
        WDiscard expired \<Rightarrow>
          Some (set_worker w (WDiscarded expired) (s\<lparr>ho_current := ho_current s - 1\<rparr>))
      | WDiscarded expired \<Rightarrow>
          Some (set_worker w WReleasing
            (s\<lparr>ho_metrics := (if expired then record_queued_expired (ho_metrics s)
                              else record_queued_cancelled (ho_metrics s))\<rparr>))
      | WExpire j \<Rightarrow> Some (set_worker w (WExpired j) (s\<lparr>ho_current := ho_current s - 1\<rparr>))
      | WExpired j \<Rightarrow>
          Some (set_worker w (WReply j) (s\<lparr>ho_metrics := record_queued_expired (ho_metrics s)\<rparr>))
      | WReply j \<Rightarrow>
          Some (set_worker w WReleasing
            (if ho_handlers s ! job_caller j = HAwait
             then set_handler (job_caller j) (HAnswered (Inl RequestExpired)) s else s))
      | _ \<Rightarrow> None)"

fun ho_step :: "handoff_event \<Rightarrow> handoff \<Rightarrow> handoff option" where
  "ho_step (Enqueue h inp deadline) s =
     (if h < length (ho_handlers s) \<and> ho_handlers s ! h = HIdle
      then Some (try_enqueue_step h inp deadline s) else None)"
| "ho_step (Handler h now) s = (if h < length (ho_handlers s) then handler_step h now s else None)"
| "ho_step (Cancel h) s =
     (if h < length (ho_handlers s) \<and> ho_handlers s ! h = HAwait
      then Some (set_handler h HCancelled s) else None)"
| "ho_step (Recv w) s =
     (if w < length (ho_workers s) \<and> ho_workers s ! w = WIdle then
        (case ho_channel s of
           [] \<Rightarrow> None
         | j # js \<Rightarrow> Some (set_worker w (WTook j) (s\<lparr>ho_channel := js, ho_received := ho_received s @ [j]\<rparr>)))
      else None)"
| "ho_step (Decide w now) s = (if w < length (ho_workers s) then decide_step w now s else None)"
| "ho_step (Leave w) s = (if w < length (ho_workers s) then leave_step w s else None)"
| "ho_step (Finish w r) s =
     (if w < length (ho_workers s) then
        (case ho_workers s ! w of
           WRunning j \<Rightarrow>
             Some (set_worker w WSent
               (if ho_handlers s ! job_caller j = HAwait
                then set_handler (job_caller j) (HAnswered r) s else s))
         | _ \<Rightarrow> None)
      else None)"
| "ho_step (Decrement w) s =
     (if w < length (ho_workers s) \<and> ho_workers s ! w = WSent
      then Some (set_worker w WReleasing (s\<lparr>ho_current := ho_current s - 1\<rparr>)) else None)"
| "ho_step (Release w) s =
     (if w < length (ho_workers s) \<and> ho_workers s ! w = WReleasing
      then Some (set_worker w WIdle (s\<lparr>ho_permits := ho_permits s + 1\<rparr>)) else None)"

inductive ho_reachable :: "nat \<Rightarrow> handoff \<Rightarrow> bool" for bound where
  ho_start: "ho_reachable bound (spawn_with_workers bound workers callers m)"
| ho_more: "ho_reachable bound s \<Longrightarrow> ho_step e s = Some s' \<Longrightarrow> ho_reachable bound s'"

fun ho_run :: "handoff_event list \<Rightarrow> handoff \<Rightarrow> handoff option" where
  "ho_run [] s = Some s"
| "ho_run (e # es) s = (case ho_step e s of None \<Rightarrow> None | Some s' \<Rightarrow> ho_run es s')"

lemma ho_run_reachable: "ho_reachable b s \<Longrightarrow> ho_run es s = Some s' \<Longrightarrow> ho_reachable b s'"
  by (induction es arbitrary: s) (auto split: option.splits intro: ho_more)

section \<open>Counting permits\<close>

text \<open>Who holds a permit, and who is counted in \<open>current\<close>.\<close>

primrec handler_permits :: "handler_pc \<Rightarrow> nat" where
  "handler_permits HIdle = 0"
| "handler_permits (HPermitted i d) = 1"
| "handler_permits (HCounted i d n) = 1"
| "handler_permits (HMaxed i d) = 1"
| "handler_permits HUndo = 0"
| "handler_permits HRejected = 0"
| "handler_permits HAwait = 0"
| "handler_permits HCancelled = 0"
| "handler_permits (HAnswered r) = 0"

primrec handler_counted :: "handler_pc \<Rightarrow> nat" where
  "handler_counted HIdle = 0"
| "handler_counted (HPermitted i d) = 0"
| "handler_counted (HCounted i d n) = 1"
| "handler_counted (HMaxed i d) = 1"
| "handler_counted HUndo = 1"
| "handler_counted HRejected = 0"
| "handler_counted HAwait = 0"
| "handler_counted HCancelled = 0"
| "handler_counted (HAnswered r) = 0"

primrec worker_permits :: "worker_pc \<Rightarrow> nat" where
  "worker_permits WIdle = 0"
| "worker_permits (WTook j) = 1"
| "worker_permits (WDiscard e) = 1"
| "worker_permits (WDiscarded e) = 1"
| "worker_permits (WExpire j) = 1"
| "worker_permits (WExpired j) = 1"
| "worker_permits (WReply j) = 1"
| "worker_permits (WRunning j) = 1"
| "worker_permits WSent = 1"
| "worker_permits WReleasing = 1"

primrec worker_counted :: "worker_pc \<Rightarrow> nat" where
  "worker_counted WIdle = 0"
| "worker_counted (WTook j) = 1"
| "worker_counted (WDiscard e) = 1"
| "worker_counted (WDiscarded e) = 0"
| "worker_counted (WExpire j) = 1"
| "worker_counted (WExpired j) = 0"
| "worker_counted (WReply j) = 0"
| "worker_counted (WRunning j) = 1"
| "worker_counted WSent = 1"
| "worker_counted WReleasing = 0"

definition held_permits :: "handoff \<Rightarrow> nat" where
  "held_permits s =
     tally handler_permits (ho_handlers s) + length (ho_channel s) + tally worker_permits (ho_workers s)"

definition counted :: "handoff \<Rightarrow> nat" where
  "counted s =
     tally handler_counted (ho_handlers s) + length (ho_channel s) + tally worker_counted (ho_workers s)"

primrec handler_ok :: "nat \<Rightarrow> handler_pc \<Rightarrow> bool" where
  "handler_ok bound HIdle = True"
| "handler_ok bound (HPermitted i d) = True"
| "handler_ok bound (HCounted i d n) = (n \<le> bound)"
| "handler_ok bound (HMaxed i d) = True"
| "handler_ok bound HUndo = False"
| "handler_ok bound HRejected = True"
| "handler_ok bound HAwait = True"
| "handler_ok bound HCancelled = True"
| "handler_ok bound (HAnswered r) = True"

primrec worker_ok :: "nat \<Rightarrow> worker_pc \<Rightarrow> bool" where
  "worker_ok callers WIdle = True"
| "worker_ok callers (WTook j) = (job_caller j < callers)"
| "worker_ok callers (WDiscard e) = True"
| "worker_ok callers (WDiscarded e) = True"
| "worker_ok callers (WExpire j) = (job_caller j < callers)"
| "worker_ok callers (WExpired j) = (job_caller j < callers)"
| "worker_ok callers (WReply j) = (job_caller j < callers)"
| "worker_ok callers (WRunning j) = (job_caller j < callers)"
| "worker_ok callers WSent = True"
| "worker_ok callers WReleasing = True"

definition ho_pcs_ok :: "nat \<Rightarrow> handoff \<Rightarrow> bool" where
  "ho_pcs_ok bound s \<longleftrightarrow>
     (\<forall>p\<in>set (ho_handlers s). handler_ok bound p) \<and>
     (\<forall>p\<in>set (ho_workers s). worker_ok (length (ho_handlers s)) p) \<and>
     (\<forall>j\<in>set (ho_channel s). job_caller j < length (ho_handlers s))"

definition ho_inv :: "nat \<Rightarrow> handoff \<Rightarrow> bool" where
  "ho_inv bound s \<longleftrightarrow>
     ho_bound s = bound \<and>
     ho_permits s + held_permits s = bound \<and>
     ho_current s = int (counted s) \<and>
     ho_sent s = ho_received s @ ho_channel s \<and>
     ho_max s \<le> int bound \<and>
     ho_pcs_ok bound s"

lemma ho_inv_start: "ho_inv bound (spawn_with_workers bound workers callers m)"
  by (auto simp: ho_inv_def spawn_with_workers_def held_permits_def counted_def ho_pcs_ok_def)

text \<open>The counters are the thread-local weights, so one update shifts them by one weight.\<close>

lemma pcs_ok_handler:
  "ho_pcs_ok bound s \<Longrightarrow> handler_ok bound p \<Longrightarrow> ho_pcs_ok bound (set_handler h p s)"
  unfolding ho_pcs_ok_def by (auto dest: ball_update [where y = p])

lemma counts_handler:
  assumes "h < length (ho_handlers s)"
  shows "held_permits (set_handler h p s) + handler_permits (ho_handlers s ! h) = held_permits s + handler_permits p"
    and "counted (set_handler h p s) + handler_counted (ho_handlers s ! h) = counted s + handler_counted p"
  using tally_update [OF assms, of handler_permits p] tally_update [OF assms, of handler_counted p]
  by (simp_all add: held_permits_def counted_def)

lemma counts_worker:
  assumes "w < length (ho_workers s)"
  shows "held_permits (set_worker w p s) + worker_permits (ho_workers s ! w) = held_permits s + worker_permits p"
    and "counted (set_worker w p s) + worker_counted (ho_workers s ! w) = counted s + worker_counted p"
  using tally_update [OF assms, of worker_permits p] tally_update [OF assms, of worker_counted p]
  by (simp_all add: held_permits_def counted_def)

lemma weight_le:
  "handler_ok b p \<Longrightarrow> handler_counted p \<le> handler_permits p"
  "worker_counted q \<le> worker_permits q"
  by (cases p; simp) (cases q; simp)

lemma tally_le:
  "(\<And>x. x \<in> set xs \<Longrightarrow> f x \<le> g x) \<Longrightarrow> tally f xs \<le> tally g xs"
  unfolding tally_def by (rule sum_list_mono)

lemma counted_le_held: "ho_pcs_ok bound s \<Longrightarrow> counted s \<le> held_permits s"
  using tally_le [of "ho_handlers s" handler_counted handler_permits]
    tally_le [of "ho_workers s" worker_counted worker_permits]
  by (auto simp: counted_def held_permits_def ho_pcs_ok_def intro!: add_mono weight_le)

text \<open>Fields that neither the counters nor the program counters read.\<close>

lemma counts_other [simp]:
  "held_permits (s\<lparr>ho_permits := a\<rparr>) = held_permits s" "counted (s\<lparr>ho_permits := a\<rparr>) = counted s"
  "held_permits (s\<lparr>ho_current := c\<rparr>) = held_permits s" "counted (s\<lparr>ho_current := c\<rparr>) = counted s"
  "held_permits (s\<lparr>ho_max := c\<rparr>) = held_permits s" "counted (s\<lparr>ho_max := c\<rparr>) = counted s"
  "held_permits (s\<lparr>ho_metrics := m\<rparr>) = held_permits s" "counted (s\<lparr>ho_metrics := m\<rparr>) = counted s"
  "held_permits (s\<lparr>ho_ran := r\<rparr>) = held_permits s" "counted (s\<lparr>ho_ran := r\<rparr>) = counted s"
  "held_permits (s\<lparr>ho_sent := q\<rparr>) = held_permits s" "counted (s\<lparr>ho_sent := q\<rparr>) = counted s"
  "held_permits (s\<lparr>ho_received := q\<rparr>) = held_permits s" "counted (s\<lparr>ho_received := q\<rparr>) = counted s"
  by (simp_all add: held_permits_def counted_def)

lemma counts_channel:
  "held_permits (s\<lparr>ho_channel := js\<rparr>) + length (ho_channel s) = held_permits s + length js"
  "counted (s\<lparr>ho_channel := js\<rparr>) + length (ho_channel s) = counted s + length js"
  by (simp_all add: held_permits_def counted_def)

section \<open>What a step conserves\<close>

text \<open>
  A step moves permits and counts between the threads, the channel and the counters; it
  makes none and loses none.
\<close>

definition callers_ok :: "handoff \<Rightarrow> bool" where
  "callers_ok s \<longleftrightarrow>
     (\<forall>p\<in>set (ho_workers s). worker_ok (length (ho_handlers s)) p) \<and> (\<forall>j\<in>set (ho_channel s). job_caller j < length (ho_handlers s))"

definition balance :: "handoff \<Rightarrow> handoff \<Rightarrow> bool" where
  "balance s s' \<longleftrightarrow>
     ho_permits s' + held_permits s' = ho_permits s + held_permits s \<and>
     ho_current s' - int (counted s') = ho_current s - int (counted s) \<and>
     ho_bound s' = ho_bound s \<and> length (ho_workers s') = length (ho_workers s) \<and> length (ho_handlers s') = length (ho_handlers s)"

lemma balance_refl [simp]: "balance s s" by (simp add: balance_def)

lemma balance_trans: "balance s s' \<Longrightarrow> balance s' s'' \<Longrightarrow> balance s s''"
  by (simp add: balance_def)

lemma balance_handler:
  assumes "h < length (ho_handlers s)" and "ho_handlers s' = (ho_handlers s)[h := p]"
    and "ho_workers s' = ho_workers s" "ho_channel s' = ho_channel s" "ho_bound s' = ho_bound s"
    and "ho_permits s' + handler_permits p = ho_permits s + handler_permits (ho_handlers s ! h)"
    and "ho_current s' - int (handler_counted p) = ho_current s - int (handler_counted (ho_handlers s ! h))"
  shows "balance s s'"
  using tally_update [OF assms(1), of handler_permits p] tally_update [OF assms(1), of handler_counted p] assms(2-)
  by (simp add: balance_def held_permits_def counted_def)

lemma balance_worker:
  assumes "w < length (ho_workers s)" and "ho_workers s' = (ho_workers s)[w := p]"
    and "ho_handlers s' = ho_handlers s" "ho_channel s' = ho_channel s" "ho_bound s' = ho_bound s"
    and "ho_permits s' + worker_permits p = ho_permits s + worker_permits (ho_workers s ! w)"
    and "ho_current s' - int (worker_counted p) = ho_current s - int (worker_counted (ho_workers s ! w))"
  shows "balance s s'"
  using tally_update [OF assms(1), of worker_permits p] tally_update [OF assms(1), of worker_counted p] assms(2-)
  by (simp add: balance_def held_permits_def counted_def)

lemma callers_ok_cong:
  assumes "callers_ok s" and "length (ho_handlers s') = length (ho_handlers s)"
    and "set (ho_channel s') \<subseteq> set (ho_channel s)" and "\<forall>p\<in>set (ho_workers s'). p \<in> set (ho_workers s) \<or> worker_ok (length (ho_handlers s)) p"
  shows "callers_ok s'"
  using assms by (auto simp: callers_ok_def)

lemma balance_handler_step:
  assumes "callers_ok s" and h: "h < length (ho_handlers s)" and "handler_step h now s = Some s'"
  shows "balance s s' \<and> callers_ok s'"
proof (cases "\<exists>i d. ho_handlers s ! h = HMaxed i d \<and> length (ho_channel s) < ho_bound s")
  case True
  then obtain i d where pc: "ho_handlers s ! h = HMaxed i d" "length (ho_channel s) < ho_bound s" by blast
  define job where "job = \<lparr>job_input = i, job_queued_at = now, job_deadline = d, job_caller = h\<rparr>"
  define s1 where "s1 = s\<lparr>ho_channel := ho_channel s @ [job], ho_sent := ho_sent s @ [job]\<rparr>"
  have s': "s' = set_handler h HAwait s1" using assms(3) pc by (simp add: handler_step_def Let_def s1_def job_def)
  have "balance s s'"
    using counts_handler [of h s1 HAwait] h pc counts_channel [where s = s and js = "ho_channel s @ [job]"]
    by (simp add: s' s1_def balance_def)
  moreover have "callers_ok s'" using assms(1) h by (auto simp: callers_ok_def s' s1_def job_def)
  ultimately show ?thesis ..
next
  case False
  have "balance s s'"
    using assms(3) False unfolding handler_step_def
    by (auto simp: Let_def split: handler_pc.splits if_splits intro!: balance_handler [OF h])
  moreover have "callers_ok s'"
    using assms(1,3) False by (auto simp: handler_step_def Let_def callers_ok_def split: handler_pc.splits if_splits)
  ultimately show ?thesis ..
qed

lemma balance_step:
  assumes ok: "callers_ok s" and st: "ho_step e s = Some s'"
  shows "balance s s' \<and> callers_ok s'"
proof (cases e)
  case (Enqueue h i d)
  then have h: "h < length (ho_handlers s)" "ho_handlers s ! h = HIdle" "s' = try_enqueue_step h i d s"
    using st by (auto split: if_splits)
  have "balance s s'" unfolding h(3) try_enqueue_step_def
    by (auto simp: h(2) intro!: balance_handler [OF h(1)])
  moreover have "callers_ok s'" using ok by (simp add: h(3) try_enqueue_step_def callers_ok_def)
  ultimately show ?thesis ..
next
  case (Handler h now)
  then show ?thesis using st balance_handler_step [OF ok] by (auto split: if_splits)
next
  case (Cancel h)
  then have h: "h < length (ho_handlers s)" "ho_handlers s ! h = HAwait" "s' = set_handler h HCancelled s"
    using st by (auto split: if_splits)
  have "balance s s'" by (rule balance_handler [OF h(1), where p = HCancelled]) (simp_all add: h(2,3))
  moreover have "callers_ok s'" using ok by (simp add: h(3) callers_ok_def)
  ultimately show ?thesis ..
next
  case (Recv w)
  then obtain j js where w: "w < length (ho_workers s)" "ho_workers s ! w = WIdle" "ho_channel s = j # js"
    "s' = set_worker w (WTook j) (s\<lparr>ho_channel := js, ho_received := ho_received s @ [j]\<rparr>)"
    using st by (auto split: if_splits list.splits)
  define s1 where "s1 = s\<lparr>ho_channel := js, ho_received := ho_received s @ [j]\<rparr>"
  have "balance s s'"
    using counts_worker [of w s1 "WTook j"] w counts_channel [where s = s and js = js]
    by (simp add: s1_def balance_def)
  moreover have "callers_ok s'"
    using ok by (auto simp: callers_ok_def w(3,4) dest!: update_mem)
  ultimately show ?thesis ..
next
  case (Decide w now)
  then have w: "w < length (ho_workers s)" and d: "decide_step w now s = Some s'" using st by (auto split: if_splits)
  then obtain j where j: "ho_workers s ! w = WTook j" by (auto simp: decide_step_def split: worker_pc.splits)
  have caller: "job_caller j < length (ho_handlers s)" using ok j w nth_mem [OF w] by (fastforce simp: callers_ok_def)
  have "callers_ok s'"
    by (rule callers_ok_cong [OF ok]) (use d j caller in \<open>auto simp: decide_step_def Let_def split: if_splits dest!: update_mem\<close>)
  moreover have "balance s s'" using d j
    by (auto simp: decide_step_def Let_def split: if_splits intro!: balance_worker [OF w])
  ultimately show ?thesis by simp
next
  case (Leave w)
  then have w: "w < length (ho_workers s)" and l: "leave_step w s = Some s'" using st by (auto split: if_splits)
  have cs: "callers_ok s'"
    by (rule callers_ok_cong [OF ok])
      (use l ok nth_mem [OF w] in \<open>fastforce simp: leave_step_def callers_ok_def split: worker_pc.splits if_splits dest!: update_mem\<close>)+
  show ?thesis
  proof (cases "\<exists>j. ho_workers s ! w = WReply j \<and> ho_handlers s ! job_caller j = HAwait")
    case False
    then have "balance s s'" using l
      by (auto simp: leave_step_def split: worker_pc.splits if_splits intro!: balance_worker [OF w])
    with cs show ?thesis by simp
  next
    case True
    then obtain j where j: "ho_workers s ! w = WReply j" "ho_handlers s ! job_caller j = HAwait" by blast
    have caller: "job_caller j < length (ho_handlers s)" using ok j w nth_mem [OF w] by (fastforce simp: callers_ok_def)
    define s1 where "s1 = set_handler (job_caller j) (HAnswered (Inl RequestExpired)) s"
    have s': "s' = set_worker w WReleasing s1" using l j by (simp add: leave_step_def s1_def)
    have "held_permits s1 = held_permits s" "counted s1 = counted s"
      using counts_handler [OF caller, of "HAnswered (Inl RequestExpired)"] j(2) by (simp_all add: s1_def)
    then have "balance s s'"
      using counts_worker [of w s1 WReleasing] w j by (simp add: balance_def s' s1_def)
    with cs show ?thesis by simp
  qed
next
  case (Finish w r)
  then obtain j where w: "w < length (ho_workers s)" "ho_workers s ! w = WRunning j"
    using st by (auto split: if_splits worker_pc.splits)
  have caller: "job_caller j < length (ho_handlers s)" using ok w nth_mem [OF w(1)] by (fastforce simp: callers_ok_def)
  define s1 where "s1 = (if ho_handlers s ! job_caller j = HAwait then set_handler (job_caller j) (HAnswered r) s else s)"
  have s': "s' = set_worker w WSent s1" using st Finish w by (simp add: s1_def)
  have "held_permits s1 = held_permits s" "counted s1 = counted s"
    using counts_handler [OF caller, of "HAnswered r"] by (auto simp: s1_def)
  then have "balance s s'" using counts_worker [of w s1 WSent] w by (auto simp: balance_def s' s1_def)
  moreover have "callers_ok s'"
    by (rule callers_ok_cong [OF ok]) (auto simp: s' s1_def dest!: update_mem)
  ultimately show ?thesis ..
next
  case (Decrement w)
  then have w: "w < length (ho_workers s)" "ho_workers s ! w = WSent"
    "s' = set_worker w WReleasing (s\<lparr>ho_current := ho_current s - 1\<rparr>)" using st by (auto split: if_splits)
  have "balance s s'" by (rule balance_worker [OF w(1), where p = WReleasing]) (simp_all add: w(2,3))
  moreover have "callers_ok s'"
    by (rule callers_ok_cong [OF ok]) (auto simp: w(3) dest!: update_mem)
  ultimately show ?thesis ..
next
  case (Release w)
  then have w: "w < length (ho_workers s)" "ho_workers s ! w = WReleasing"
    "s' = set_worker w WIdle (s\<lparr>ho_permits := ho_permits s + 1\<rparr>)" using st by (auto split: if_splits)
  have "balance s s'" by (rule balance_worker [OF w(1), where p = WIdle]) (simp_all add: w(2,3))
  moreover have "callers_ok s'"
    by (rule callers_ok_cong [OF ok]) (auto simp: w(3) dest!: update_mem)
  ultimately show ?thesis ..
qed

section \<open>The invariant is kept\<close>

lemma held_channel: "length (ho_channel s) + tally handler_permits (ho_handlers s) \<le> held_permits s"
  by (simp add: held_permits_def)

text \<open>A thread that holds a permit and is not yet counted leaves room for one more.\<close>

lemma room_to_count:
  assumes inv: "ho_inv bound s" and h: "h < length (ho_handlers s)" and pc: "ho_handlers s ! h = HPermitted i d"
  shows "nat (ho_current s + 1) \<le> bound"
proof -
  define s1 where "s1 = set_handler h HIdle s"
  have "ho_pcs_ok bound s1" unfolding s1_def by (rule pcs_ok_handler) (use inv in \<open>simp_all add: ho_inv_def\<close>)
  then have "counted s1 \<le> held_permits s1" by (rule counted_le_held)
  then have "counted s + 1 \<le> bound" using counts_handler [OF h, of HIdle] pc inv by (simp add: s1_def ho_inv_def)
  then show ?thesis using inv by (simp add: ho_inv_def)
qed

text \<open>Every permit has its place in the channel.\<close>

lemma room_to_send:
  assumes inv: "ho_inv bound s" and h: "h < length (ho_handlers s)" and pc: "ho_handlers s ! h = HMaxed i d"
  shows "length (ho_channel s) < ho_bound s"
  using tally_mem [OF h, of handler_permits] pc inv held_channel [of s] by (simp add: ho_inv_def)

lemma handlers_ok_step:
  assumes inv: "ho_inv bound s" and st: "ho_step e s = Some s'"
  shows "(\<forall>p\<in>set (ho_handlers s'). handler_ok bound p) \<and> ho_max s' \<le> int bound \<and> ho_sent s' = ho_received s' @ ho_channel s'"
proof -
  have ok: "\<forall>p\<in>set (ho_handlers s). handler_ok bound p" "ho_max s \<le> int bound" "ho_sent s = ho_received s @ ho_channel s"
    using inv by (simp_all add: ho_inv_def ho_pcs_ok_def)
  show ?thesis
  proof (cases "\<exists>h now. e = Handler h now")
    case True
    then obtain h now where h: "h < length (ho_handlers s)" "handler_step h now s = Some s'"
      using st by (auto split: if_splits)
    show ?thesis
    proof (cases "ho_handlers s ! h")
      case (HPermitted i d)
      then show ?thesis using h ok room_to_count [OF inv h(1) HPermitted]
        by (auto simp: handler_step_def dest!: update_mem)
    next
      case (HCounted i d n)
      then have "n \<le> bound" using ok(1) nth_mem [OF h(1)] by fastforce
      then show ?thesis using h ok HCounted by (auto simp: handler_step_def dest!: update_mem)
    next
      case (HMaxed i d)
      then show ?thesis using h ok room_to_send [OF inv h(1) HMaxed]
        by (auto simp: handler_step_def Let_def dest!: update_mem)
    qed (use h ok in \<open>auto simp: handler_step_def dest!: update_mem\<close>)
  next
    case False
    then show ?thesis using st ok
      by (cases e)
        (auto simp: try_enqueue_step_def decide_step_def leave_step_def Let_def split: if_splits worker_pc.splits list.splits dest!: update_mem)
  qed
qed

lemma ho_inv_step:
  assumes inv: "ho_inv bound s" and st: "ho_step e s = Some s'"
  shows "ho_inv bound s'"
proof -
  have "callers_ok s" using inv by (simp add: ho_inv_def ho_pcs_ok_def callers_ok_def)
  from balance_step [OF this st] handlers_ok_step [OF inv st] inv show ?thesis
    by (auto simp: ho_inv_def balance_def callers_ok_def ho_pcs_ok_def)
qed

lemma ho_reachable_inv: "ho_reachable bound s \<Longrightarrow> ho_inv bound s"
  by (induction rule: ho_reachable.induct) (auto intro: ho_inv_start ho_inv_step)

section \<open>Properties\<close>

definition demo_input :: classification_input where
  "demo_input = \<lparr>in_text = ''hello'', requested_signals = [], session_metadata = Map.empty, completeness = Full\<rparr>"

definition admit_one :: "nat \<Rightarrow> nat option \<Rightarrow> handoff_event list" where
  "admit_one h deadline = [Enqueue h demo_input deadline, Handler h 10, Handler h 11, Handler h 12]"

lemmas demo_steps = admit_one_def spawn_with_workers_def try_enqueue_step_def handler_step_def
  decide_step_def leave_step_def job_expired_def job_closed_def Let_def numeral_2_eq_2

lemma demo_ho_reachable:
  "ho_run es (spawn_with_workers b w c metrics_new) = Some s \<Longrightarrow> ho_reachable b s"
  by (rule ho_run_reachable [OF ho_start])

text \<open>
  C4. The work admitted and not yet released never exceeds the bound, neither does the
  observed maximum, and the counter never falls below zero, whatever the interleaving.
\<close>

theorem admission_bound:
  assumes "ho_reachable bound s"
  shows "held_permits s \<le> bound \<and> 0 \<le> ho_current s \<and> ho_current s \<le> int (held_permits s) \<and>
    ho_max s \<le> int bound"
proof -
  have "ho_inv bound s" by (rule ho_reachable_inv [OF assms])
  moreover from this have "counted s \<le> held_permits s"
    by (intro counted_le_held [of bound]) (simp add: ho_inv_def)
  ultimately show ?thesis by (simp add: ho_inv_def)
qed

theorem admission_bound_witness:
  "\<exists>s. ho_run (admit_one 0 None) (spawn_with_workers 1 4 2 metrics_new) = Some s \<and>
     ho_current s = 1 \<and> held_permits s \<le> 1"
proof -
  obtain s where s: "ho_run (admit_one 0 None) (spawn_with_workers 1 4 2 metrics_new) = Some s" "ho_current s = 1"
    by (simp add: demo_steps)
  then show ?thesis using admission_bound [OF demo_ho_reachable [OF s(1)]] by blast
qed

text \<open>
  A caller that obtained a permit is never rejected by the channel:
  \<open>try_send\<close> always finds room, so admission fails only for want of a permit.
\<close>

theorem permit_implies_channel_room:
  assumes "ho_reachable bound s" and "h < length (ho_handlers s)" and "ho_handlers s ! h = HMaxed i d"
  shows "\<exists>s'. ho_step (Handler h now) s = Some s' \<and> ho_handlers s' ! h = HAwait"
proof -
  have inv: "ho_inv bound s" by (rule ho_reachable_inv [OF assms(1)])
  show ?thesis using room_to_send [OF inv assms(2,3)] assms(2,3) by (simp add: handler_step_def Let_def)
qed

theorem permit_implies_channel_room_witness:
  "\<exists>s s'. ho_run [Enqueue 0 demo_input None, Handler 0 10, Handler 0 11] (spawn_with_workers 1 1 1 metrics_new) = Some s \<and>
     ho_step (Handler 0 12) s = Some s' \<and> ho_handlers s' ! 0 = HAwait"
proof -
  obtain s where s: "ho_run [Enqueue 0 demo_input None, Handler 0 10, Handler 0 11] (spawn_with_workers 1 1 1 metrics_new) = Some s"
    "0 < length (ho_handlers s)" "ho_handlers s ! 0 = HMaxed demo_input None"
    by (simp add: demo_steps)
  then show ?thesis using permit_implies_channel_room [OF demo_ho_reachable [OF s(1)] s(2,3)] by blast
qed

text \<open>
  Jobs reach the executor threads in the order in which they entered the channel, none
  lost, none twice.
\<close>

theorem jobs_received_in_order:
  assumes "ho_reachable bound s"
  shows "ho_sent s = ho_received s @ ho_channel s"
  using ho_reachable_inv [OF assms] by (simp add: ho_inv_def)

theorem jobs_received_in_order_witness:
  "\<exists>s. ho_run (admit_one 0 None @ admit_one 1 None @ [Recv 0]) (spawn_with_workers 2 1 2 metrics_new) = Some s \<and>
     length (ho_sent s) = 2 \<and> ho_sent s = ho_received s @ ho_channel s"
proof -
  obtain s where s: "ho_run (admit_one 0 None @ admit_one 1 None @ [Recv 0]) (spawn_with_workers 2 1 2 metrics_new) = Some s"
    "length (ho_sent s) = 2"
    by (simp add: demo_steps)
  then show ?thesis using jobs_received_in_order [OF demo_ho_reachable [OF s(1)]] by blast
qed


text \<open>A caller that is gone stays gone.\<close>

lemma nth_update_cases: "xs[k := x] ! i = (if k = i \<and> k < length xs then x else xs ! i)"
  by (cases "k < length xs"; cases "i = k") (auto simp: list_update_beyond)







section \<open>The executor drains\<close>

text \<open>Steps that the threads take by themselves; a new call and a cancellation come from outside.\<close>

fun own_step :: "handoff_event \<Rightarrow> bool" where
  "own_step (Enqueue h i d) = False"
| "own_step (Cancel h) = False"
| "own_step _ = True"

fun is_enqueue :: "handoff_event \<Rightarrow> bool" where
  "is_enqueue (Enqueue h i d) = True"
| "is_enqueue _ = False"

text \<open>The steps a thread has before it, its job's included.\<close>

fun handler_work :: "handler_pc \<Rightarrow> nat" where
  "handler_work (HPermitted i d) = 10"
| "handler_work (HCounted i d n) = 9"
| "handler_work (HMaxed i d) = 8"
| "handler_work HUndo = 1"
| "handler_work HAwait = 1"
| "handler_work _ = 0"

fun worker_work :: "worker_pc \<Rightarrow> nat" where
  "worker_work WIdle = 0"
| "worker_work WReleasing = 1"
| "worker_work WSent = 2"
| "worker_work (WDiscarded e) = 2"
| "worker_work (WReply j) = 2"
| "worker_work (WRunning j) = 3"
| "worker_work (WDiscard e) = 3"
| "worker_work (WExpired j) = 3"
| "worker_work (WExpire j) = 4"
| "worker_work (WTook j) = 5"

definition work :: "handoff \<Rightarrow> nat" where
  "work s = tally handler_work (ho_handlers s) + 6 * length (ho_channel s) + tally worker_work (ho_workers s)"

lemma tally_drop:
  "i < length xs \<Longrightarrow> f y + k \<le> f (xs ! i) \<Longrightarrow> tally f (xs[i := y]) + k \<le> tally f xs"
  using tally_update [of i xs f y] by linarith

lemma tally_answer: "tally handler_work (xs[i := HAnswered r]) \<le> tally handler_work xs"
  using tally_drop [of i xs handler_work "HAnswered r" 0]
  by (cases "i < length xs") (auto simp: list_update_beyond)

lemma handler_work_step:
  assumes "h < length (ho_handlers s)" and "handler_step h now s = Some s'"
  shows "work s' < work s"
proof (cases "ho_handlers s ! h")
  case (HMaxed i d)
  show ?thesis
    using assms HMaxed tally_drop [OF assms(1), of handler_work HAwait 7]
      tally_drop [OF assms(1), of handler_work HUndo 7]
    by (auto simp: handler_step_def Let_def work_def split: if_splits)
qed (use assms tally_drop [OF assms(1), of handler_work _ 1] in
  \<open>auto simp: handler_step_def work_def Suc_le_eq\<close>)

lemma worker_work_step:
  assumes "w < length (ho_workers s)"
    and "decide_step w now s = Some s' \<or> leave_step w s = Some s'"
  shows "work s' < work s"
proof -
  have drop: "tally worker_work ((ho_workers s)[w := p]) < tally worker_work (ho_workers s)"
    if "worker_work p < worker_work (ho_workers s ! w)" for p
    using tally_drop [OF assms(1), of worker_work p 1] that by simp
  show ?thesis
    using assms(2)
    by (auto simp: decide_step_def leave_step_def Let_def work_def drop tally_answer
        split: worker_pc.splits if_splits intro!: add_le_less_mono)
qed

lemma work_step:
  assumes "ho_step e s = Some s'" and "\<not> is_enqueue e"
  shows "work s' < work s"
proof (cases e)
  case (Handler h now)
  with assms show ?thesis by (auto split: if_splits intro: handler_work_step)
next
  case (Cancel h)
  with assms show ?thesis
    using tally_drop [of h "ho_handlers s" handler_work HCancelled 1]
    by (auto simp: work_def split: if_splits)
next
  case (Recv w)
  with assms show ?thesis
    using tally_update [of w "ho_workers s" worker_work]
    by (auto simp: work_def split: if_splits list.splits)
next
  case (Decide w now)
  with assms show ?thesis by (auto split: if_splits intro: worker_work_step)
next
  case (Leave w)
  with assms show ?thesis by (auto split: if_splits intro: worker_work_step)
next
  case (Finish w r)
  with assms show ?thesis
    using tally_drop [of w "ho_workers s" worker_work WSent 1]
    by (auto simp: work_def tally_answer split: if_splits worker_pc.splits intro!: add_le_less_mono)
next
  case (Decrement w)
  with assms show ?thesis
    using tally_drop [of w "ho_workers s" worker_work WReleasing 1]
    by (auto simp: work_def split: if_splits)
next
  case (Release w)
  with assms show ?thesis
    using tally_drop [of w "ho_workers s" worker_work WIdle 1]
    by (auto simp: work_def split: if_splits)
qed (use assms in simp)

lemma work_run:
  "ho_run es s = Some s' \<Longrightarrow> \<forall>e\<in>set es. \<not> is_enqueue e \<Longrightarrow> length es + work s' \<le> work s"
proof (induction es arbitrary: s)
  case (Cons e es)
  then obtain s1 where s1: "ho_step e s = Some s1" "ho_run es s1 = Some s'"
    by (auto split: option.splits)
  with Cons.prems(2) have "length es + work s' \<le> work s1" by (intro Cons.IH) simp_all
  moreover have "work s1 < work s" using work_step [OF s1(1)] Cons.prems(2) by simp
  ultimately show ?case by simp
qed simp

text \<open>Admitted work is bounded by the permits, and beside it there is one step per caller.\<close>

lemma work_weight:
  "handler_ok b p \<Longrightarrow> handler_work p \<le> 10 * handler_permits p + 1"
  "worker_work q \<le> 10 * worker_permits q"
  by (cases p; simp) (cases q; simp)

lemma tally_bound:
  "(\<And>x. x \<in> set xs \<Longrightarrow> f x \<le> c * g x + d) \<Longrightarrow> tally f xs \<le> c * tally g xs + d * length xs"
proof (induction xs)
  case (Cons x xs)
  then have "f x \<le> c * g x + d" "tally f xs \<le> c * tally g xs + d * length xs" by simp_all
  then show ?case by (simp add: tally_def algebra_simps)
qed (simp add: tally_def)

lemma work_bound:
  assumes "ho_inv bound s"
  shows "work s \<le> 10 * bound + length (ho_handlers s)"
proof -
  have "tally handler_work (ho_handlers s) \<le> 10 * tally handler_permits (ho_handlers s) + 1 * length (ho_handlers s)"
    using assms by (intro tally_bound work_weight(1)) (auto simp: ho_inv_def ho_pcs_ok_def)
  moreover have "tally worker_work (ho_workers s) \<le> 10 * tally worker_permits (ho_workers s) + 0 * length (ho_workers s)"
    by (intro tally_bound) (simp add: work_weight(2))
  moreover have "10 * held_permits s \<le> 10 * bound" using assms by (simp add: ho_inv_def)
  ultimately show ?thesis by (simp add: work_def held_permits_def)
qed

text \<open>Whoever waits for an answer has a job that is still to be answered.\<close>

fun serves :: "worker_pc \<Rightarrow> nat \<Rightarrow> bool" where
  "serves (WTook j) h = (job_caller j = h)"
| "serves (WExpire j) h = (job_caller j = h)"
| "serves (WExpired j) h = (job_caller j = h)"
| "serves (WReply j) h = (job_caller j = h)"
| "serves (WRunning j) h = (job_caller j = h)"
| "serves _ h = False"

definition awaiting_inv :: "handoff \<Rightarrow> bool" where
  "awaiting_inv s \<longleftrightarrow>
     (\<forall>h<length (ho_handlers s). ho_handlers s ! h = HAwait \<longrightarrow>
        (\<exists>j\<in>set (ho_channel s). job_caller j = h) \<or>
        (\<exists>w<length (ho_workers s). serves (ho_workers s ! w) h))"

lemma ho_step_lengths:
  assumes "ho_step e s = Some s'"
  shows "length (ho_handlers s') = length (ho_handlers s)" "length (ho_workers s') = length (ho_workers s)"
  using assms
  by (cases e;
      auto simp: try_enqueue_step_def handler_step_def decide_step_def leave_step_def Let_def
        split: if_splits handler_pc.splits worker_pc.splits list.splits)+

lemma await_step:
  assumes "ho_step e s = Some s'" and "h < length (ho_handlers s)" and "ho_handlers s' ! h = HAwait"
  shows "ho_handlers s ! h = HAwait \<or> (\<exists>j\<in>set (ho_channel s'). job_caller j = h)"
  using assms
  by (cases e)
    (auto simp: try_enqueue_step_def handler_step_def decide_step_def leave_step_def Let_def nth_update_cases
      split: if_splits handler_pc.splits worker_pc.splits list.splits)

lemma channel_step:
  assumes "ho_step e s = Some s'" and "j \<in> set (ho_channel s)"
  shows "j \<in> set (ho_channel s') \<or> (\<exists>w<length (ho_workers s'). ho_workers s' ! w = WTook j)"
  using assms
  by (cases e)
    (auto simp: try_enqueue_step_def handler_step_def decide_step_def leave_step_def Let_def
      split: if_splits handler_pc.splits worker_pc.splits list.splits)

lemma serves_step:
  assumes "ho_step e s = Some s'" and "w < length (ho_workers s)" and "serves (ho_workers s ! w) h"
    and "h < length (ho_handlers s)" and "ho_handlers s' ! h = HAwait"
  shows "serves (ho_workers s' ! w) h"
  using assms
  by (cases e)
    (auto simp: try_enqueue_step_def handler_step_def decide_step_def leave_step_def Let_def
      nth_update_cases job_closed_def
      split: if_splits handler_pc.splits worker_pc.splits list.splits)

lemma awaiting_step:
  assumes "ho_step e s = Some s'" and "awaiting_inv s"
  shows "awaiting_inv s'"
  unfolding awaiting_inv_def
proof (intro allI impI)
  fix h assume h: "h < length (ho_handlers s')" "ho_handlers s' ! h = HAwait"
  note len = ho_step_lengths [OF assms(1)]
  from h(1) have h': "h < length (ho_handlers s)" by (simp add: len)
  from await_step [OF assms(1) h' h(2)] show
    "(\<exists>j\<in>set (ho_channel s'). job_caller j = h) \<or> (\<exists>w<length (ho_workers s'). serves (ho_workers s' ! w) h)"
  proof
    assume "ho_handlers s ! h = HAwait"
    with assms(2) h' consider j where "j \<in> set (ho_channel s)" "job_caller j = h"
      | w where "w < length (ho_workers s)" "serves (ho_workers s ! w) h"
      unfolding awaiting_inv_def by blast
    then show ?thesis
    proof cases
      case (1 j)
      with channel_step [OF assms(1) 1(1)] show ?thesis by force
    next
      case (2 w)
      with serves_step [OF assms(1) 2 h' h(2)] show ?thesis by (auto simp: len)
    qed
  qed blast
qed

lemma reachable_awaiting:
  "ho_reachable bound s \<Longrightarrow> awaiting_inv s \<and> ho_workers s \<noteq> []"
proof (induction rule: ho_reachable.induct)
  case (ho_start workers callers m)
  show ?case by (simp add: awaiting_inv_def spawn_with_workers_def)
next
  case (ho_more s e s')
  then show ?case using awaiting_step ho_step_lengths(2) [OF ho_more.hyps(2)] by (metis length_0_conv)
qed

lemma stuck_worker:
  assumes "\<forall>e. own_step e \<longrightarrow> ho_step e s = None" and "w < length (ho_workers s)"
  shows "ho_workers s ! w = WIdle"
proof -
  have none: "ho_step (Decide w 0) s = None" "ho_step (Leave w) s = None"
    "ho_step (Finish w (Inl RequestExpired)) s = None" "ho_step (Decrement w) s = None"
    "ho_step (Release w) s = None"
    by (rule assms(1) [THEN spec, THEN mp], simp)+
  then show ?thesis
    using assms(2)
    by (cases "ho_workers s ! w") (auto simp: decide_step_def leave_step_def Let_def split: if_splits)
qed

lemma stuck_handler:
  assumes "\<forall>e. own_step e \<longrightarrow> ho_step e s = None" and "h < length (ho_handlers s)"
  shows "ho_handlers s ! h \<in> {HIdle, HRejected, HAwait, HCancelled} \<or> (\<exists>r. ho_handlers s ! h = HAnswered r)"
proof -
  have "ho_step (Handler h 0) s = None" by (rule assms(1) [THEN spec, THEN mp]) simp
  then show ?thesis
    using assms(2) by (cases "ho_handlers s ! h") (auto simp: handler_step_def Let_def split: if_splits)
qed

lemma tally_zero: "(\<And>x. x \<in> set xs \<Longrightarrow> f x = 0) \<Longrightarrow> tally f xs = 0"
  by (simp add: tally_def)

lemma drained:
  assumes "ho_reachable bound s" and stuck: "\<forall>e. own_step e \<longrightarrow> ho_step e s = None"
  shows "ho_permits s = bound \<and> ho_current s = 0 \<and> ho_channel s = [] \<and>
    (\<forall>h<length (ho_handlers s). ho_handlers s ! h \<in> {HIdle, HRejected, HCancelled} \<or>
       (\<exists>r. ho_handlers s ! h = HAnswered r))"
proof -
  note inv = ho_reachable_inv [OF assms(1)]
  note aw = reachable_awaiting [OF assms(1)]
  have idle: "\<forall>p\<in>set (ho_workers s). p = WIdle"
    using stuck_worker [OF stuck] by (auto simp: in_set_conv_nth)
  have "ho_step (Recv 0) s = None" by (rule stuck [THEN spec, THEN mp]) simp
  then have ch: "ho_channel s = []"
    using aw stuck_worker [OF stuck, of 0] by (auto split: list.splits if_splits)
  have pcs: "ho_handlers s ! h \<in> {HIdle, HRejected, HCancelled} \<or> (\<exists>r. ho_handlers s ! h = HAnswered r)"
    if "h < length (ho_handlers s)" for h
    using stuck_handler [OF stuck that] aw that ch stuck_worker [OF stuck]
    by (auto simp: awaiting_inv_def)
  have "handler_permits p = 0 \<and> handler_counted p = 0" if "p \<in> set (ho_handlers s)" for p
    using that pcs by (fastforce simp: in_set_conv_nth)
  then have "tally handler_permits (ho_handlers s) = 0" "tally handler_counted (ho_handlers s) = 0"
    by (auto intro!: tally_zero)
  moreover have "tally worker_permits (ho_workers s) = 0" "tally worker_counted (ho_workers s) = 0"
    using idle by (auto intro!: tally_zero)
  ultimately show ?thesis
    using inv pcs ch by (simp add: ho_inv_def held_permits_def counted_def)
qed

text \<open>
  C6. The executor drains. From every reachable state, with no new call arriving, its
  handlers and workers take at most \<open>10 * bound\<close> steps and one more per
  caller, cancellations included and in any order; and where none of them has a step left,
  every permit is back, nothing is counted as admitted, the channel is empty, and every
  caller was refused, answered or has gone: no admitted request is left without an answer
  and no permit is lost, on any of the paths a job can take.
\<close>

theorem executor_drains:
  assumes "ho_reachable bound s" and "ho_run es s = Some s'" and "\<forall>e\<in>set es. \<not> is_enqueue e"
  shows "length es \<le> 10 * bound + length (ho_handlers s) \<and>
    ((\<forall>e. own_step e \<longrightarrow> ho_step e s' = None) \<longrightarrow>
       ho_permits s' = bound \<and> ho_current s' = 0 \<and> ho_channel s' = [] \<and>
       (\<forall>h<length (ho_handlers s'). ho_handlers s' ! h \<in> {HIdle, HRejected, HCancelled} \<or>
          (\<exists>r. ho_handlers s' ! h = HAnswered r)))"
  using work_run [OF assms(2,3)] work_bound [OF ho_reachable_inv [OF assms(1)]]
    drained [OF ho_run_reachable [OF assms(1,2)]] by simp

theorem executor_drains_witness:
  "\<exists>s s'. ho_run (admit_one 0 (Some 20) @ admit_one 1 None) (spawn_with_workers 2 1 2 metrics_new) = Some s \<and>
     ho_run [Recv 0, Decide 0 25, Leave 0, Leave 0, Leave 0, Release 0, Cancel 1, Recv 0, Decide 0 26,
       Leave 0, Leave 0, Release 0] s = Some s' \<and>
     (12::nat) \<le> 10 * 2 + 2 \<and> ho_handlers s' ! 0 = HAnswered (Inl RequestExpired) \<and> ho_permits s' = 2"
proof -
  obtain s where s: "ho_run (admit_one 0 (Some 20) @ admit_one 1 None) (spawn_with_workers 2 1 2 metrics_new) = Some s"
    by (simp add: demo_steps)
  let ?es = "[Recv 0, Decide 0 25, Leave 0, Leave 0, Leave 0, Release 0, Cancel 1, Recv 0, Decide 0 26,
       Leave 0, Leave 0, Release 0]"
  from s obtain s' where s': "ho_run ?es s = Some s'" "ho_handlers s' ! 0 = HAnswered (Inl RequestExpired)"
    by (auto simp: demo_steps)
  have stuck: "ho_workers s' = [WIdle]" "ho_channel s' = []"
    "ho_handlers s' = [HAnswered (Inl RequestExpired), HCancelled]"
    using s s'(1) by (auto simp: demo_steps)
  have "\<forall>e. own_step e \<longrightarrow> ho_step e s' = None"
  proof (intro allI impI)
    fix e assume "own_step e"
    then show "ho_step e s' = None"
      by (cases e) (auto simp: stuck handler_step_def decide_step_def leave_step_def less_Suc_eq)
  qed
  with executor_drains [OF demo_ho_reachable [OF s] s'(1)] s s' show ?thesis by auto
qed

end
