(* ===== verification/CacheKey.thy ===== *)
theory CacheKey
  imports ClassifyTypes
begin

text \<open>
  The versioned cache identities of \<open>src/src/cache.rs\<close>: the byte string the exact-cache
  key hashes, the key itself, and the textual isolation tag of the approximate tiers.

  \<open>blake3\<close> is a third-party hash: a parameter of the definitions, from the bytes fed to
  the hasher (whose \<open>update\<close> calls concatenate) to a 32-byte digest.
\<close>

section \<open>The length-prefixed pre-image\<close>

text \<open>\<open>u64::to_le_bytes\<close>; a \<open>len()\<close> is below 2^64 on every supported target.\<close>

fun le_bytes :: "nat \<Rightarrow> nat \<Rightarrow> string" where
  "le_bytes 0 n = []"
| "le_bytes (Suc k) n = char_of (n mod 256) # le_bytes k (n div 256)"

definition u64_le_bytes :: "nat \<Rightarrow> string" where
  "u64_le_bytes n = le_bytes 8 n"

definition update_field :: "string \<Rightarrow> string \<Rightarrow> string" where
  "update_field hasher field = hasher @ u64_le_bytes (length field) @ field"

definition key_preimage ::
    "string \<Rightarrow> string \<Rightarrow> string \<Rightarrow> string \<Rightarrow> string \<Rightarrow> string option \<Rightarrow> string" where
  "key_preimage cid mrev krev xrev txt digest =
     (let h = update_field (update_field (update_field (update_field (update_field
                []
                cid) mrev) krev) xrev) txt
      in case digest of None \<Rightarrow> h | Some d \<Rightarrow> update_field h d)"

record cache_key =
  fingerprint :: string

definition cache_key_new_with_artifact_digest ::
    "(string \<Rightarrow> string) \<Rightarrow> string \<Rightarrow> string \<Rightarrow> string \<Rightarrow> string \<Rightarrow> string \<Rightarrow> string option \<Rightarrow> cache_key"
where
  "cache_key_new_with_artifact_digest blake3 cid mrev krev xrev txt digest =
     \<lparr>fingerprint = blake3 (key_preimage cid mrev krev xrev txt digest)\<rparr>"

definition cache_key_new ::
    "(string \<Rightarrow> string) \<Rightarrow> string \<Rightarrow> string \<Rightarrow> string \<Rightarrow> string \<Rightarrow> string \<Rightarrow> cache_key" where
  "cache_key_new blake3 cid mrev krev xrev txt =
     cache_key_new_with_artifact_digest blake3 cid mrev krev xrev txt None"

lemma length_le_bytes [simp]: "length (le_bytes k n) = k"
  by (induction k arbitrary: n) simp_all

lemma le_bytes_inj: "n < 256 ^ k \<Longrightarrow> m < 256 ^ k \<Longrightarrow> le_bytes k n = le_bytes k m \<Longrightarrow> n = m"
proof (induction k arbitrary: n m)
  case 0
  then show ?case by simp
next
  case (Suc k)
  from Suc.prems(3) have "char_of (n mod 256) = (char_of (m mod 256) :: char)"
    and rest: "le_bytes k (n div 256) = le_bytes k (m div 256)" by simp_all
  then have low: "n mod 256 = m mod 256"
    by (metis char_of_eq_iff mod_mod_trivial of_char_of)
  have "n div 256 < 256 ^ k" "m div 256 < 256 ^ k"
    using Suc.prems(1,2) by (simp_all add: less_mult_imp_div_less mult.commute)
  then have "n div 256 = m div 256" using rest by (rule Suc.IH)
  with low show ?case by (metis div_mult_mod_eq)
qed

lemma u64_le_bytes_not_Nil [simp]: "u64_le_bytes n \<noteq> []"
  using length_le_bytes [of 8 n] by (auto simp: u64_le_bytes_def simp del: length_le_bytes)

text \<open>The fields of a pre-image, one after the other.\<close>

fun encode_fields :: "string list \<Rightarrow> string" where
  "encode_fields [] = []"
| "encode_fields (f # fs) = u64_le_bytes (length f) @ f @ encode_fields fs"

lemma key_preimage_fields:
  "key_preimage cid mrev krev xrev txt digest =
     encode_fields ([cid, mrev, krev, xrev, txt] @ (case digest of None \<Rightarrow> [] | Some d \<Rightarrow> [d]))"
  by (simp add: key_preimage_def update_field_def Let_def split: option.split)

lemma encode_fields_inj:
  assumes "\<forall>f\<in>set fs. length f < 2 ^ 64" and "\<forall>g\<in>set gs. length g < 2 ^ 64"
    and "encode_fields fs = encode_fields gs"
  shows "fs = gs"
  using assms
proof (induction fs arbitrary: gs)
  case Nil
  then show ?case by (cases gs) simp_all
next
  case (Cons f fs)
  show ?case
  proof (cases gs)
    case Nil
    with Cons.prems(3) show ?thesis by simp
  next
    case (Cons g gs')
    from Cons.prems(3) Cons have eq:
      "u64_le_bytes (length f) @ f @ encode_fields fs = u64_le_bytes (length g) @ g @ encode_fields gs'"
      by simp
    then have "u64_le_bytes (length f) = u64_le_bytes (length g)"
      by (simp add: u64_le_bytes_def)
    then have len: "length f = length g"
      using Cons.prems(1,2) Cons le_bytes_inj [of "length f" 8 "length g"]
      by (simp add: u64_le_bytes_def)
    with eq have "f = g" and "encode_fields fs = encode_fields gs'" by simp_all
    with Cons.IH [of gs'] Cons.prems(1,2) Cons show ?thesis by simp
  qed
qed

definition short :: "string \<Rightarrow> bool" where
  "short s \<longleftrightarrow> length s < 2 ^ 64"

definition short_opt :: "string option \<Rightarrow> bool" where
  "short_opt d = (case d of None \<Rightarrow> True | Some s \<Rightarrow> short s)"

lemma key_preimage_inj:
  assumes "list_all short [a1, a2, a3, a4, t, b1, b2, b3, b4, u]" and "short_opt d" and "short_opt e"
    and "key_preimage a1 a2 a3 a4 t d = key_preimage b1 b2 b3 b4 u e"
  shows "a1 = b1 \<and> a2 = b2 \<and> a3 = b3 \<and> a4 = b4 \<and> t = u \<and> d = e"
proof -
  have "[a1, a2, a3, a4, t] @ (case d of None \<Rightarrow> [] | Some d \<Rightarrow> [d]) =
      [b1, b2, b3, b4, u] @ (case e of None \<Rightarrow> [] | Some d \<Rightarrow> [d])"
    using assms
    by (intro encode_fields_inj)
      (auto simp: key_preimage_fields short_def short_opt_def split: option.splits)
  then show ?thesis by (auto split: option.splits)
qed

text \<open>
  C34. Two requests share an exact-cache key only when all of classifier id, model,
  tokenizer and taxonomy revision, text and artifact digest agree, unless the hash itself
  collides on two different pre-images: the length prefixes leave no other way.
\<close>

theorem cache_key_collides_only_with_hash:
  assumes "list_all short [a1, a2, a3, a4, t, b1, b2, b3, b4, u]" and "short_opt d" and "short_opt e"
    and "cache_key_new_with_artifact_digest blake3 a1 a2 a3 a4 t d =
      cache_key_new_with_artifact_digest blake3 b1 b2 b3 b4 u e"
  shows "(a1, a2, a3, a4, t, d) = (b1, b2, b3, b4, u, e) \<or>
    (\<exists>p q. p \<noteq> q \<and> blake3 p = blake3 q)"
proof (cases "key_preimage a1 a2 a3 a4 t d = key_preimage b1 b2 b3 b4 u e")
  case True
  from key_preimage_inj [OF assms(1-3) True] show ?thesis by simp
next
  case False
  then show ?thesis using assms(4) by (auto simp: cache_key_new_with_artifact_digest_def)
qed

theorem cache_key_collides_only_with_hash_witness:
  "cache_key_new (\<lambda>s. s) ''ab'' ''c'' ''k'' ''x'' ''hi'' \<noteq> cache_key_new (\<lambda>s. s) ''a'' ''bc'' ''k'' ''x'' ''hi''"
proof
  assume "cache_key_new (\<lambda>s. s) ''ab'' ''c'' ''k'' ''x'' ''hi'' = cache_key_new (\<lambda>s. s) ''a'' ''bc'' ''k'' ''x'' ''hi''"
  from cache_key_collides_only_with_hash [OF _ _ _ this [unfolded cache_key_new_def]] show False
    by (auto simp: short_def short_opt_def)
qed

section \<open>The isolation tag of the approximate tiers\<close>

definition identity_tag :: "identity \<Rightarrow> string" where
  "identity_tag ident =
     (case ident of (c, m, k, x, Some d) \<Rightarrow>
        c @ ''|'' @ m @ ''|'' @ k @ ''|'' @ x @ ''|'' @ d
      | (c, m, k, x, None) \<Rightarrow> c @ ''|'' @ m @ ''|'' @ k @ ''|'' @ x)"

definition pipe_free :: "string \<Rightarrow> bool" where
  "pipe_free s \<longleftrightarrow> CHR ''|'' \<notin> set s"

definition pipe_free_identity :: "identity \<Rightarrow> bool" where
  "pipe_free_identity ident =
     (case ident of (c, m, k, x, d) \<Rightarrow>
        list_all pipe_free [c, m, k, x] \<and> (case d of None \<Rightarrow> True | Some s \<Rightarrow> pipe_free s))"

lemma split_at_pipe:
  assumes "pipe_free s" and "pipe_free t" and "s @ CHR ''|'' # u = t @ CHR ''|'' # v"
  shows "s = t \<and> u = v"
  using assms
proof (induction s arbitrary: t)
  case Nil
  then show ?case by (cases t) (auto simp: pipe_free_def)
next
  case (Cons a s)
  then show ?case by (cases t) (auto simp: pipe_free_def)
qed

lemma pipe_free_append [simp]: "\<not> pipe_free (s @ CHR ''|'' # t)"
  by (simp add: pipe_free_def)

lemma identity_tag_inj:
  assumes "pipe_free_identity i" and "pipe_free_identity j" and "identity_tag i = identity_tag j"
  shows "i = j"
proof -
  obtain c m k x d where i: "i = (c, m, k, x, d)" by (cases i) auto
  obtain c' m' k' x' d' where j: "j = (c', m', k', x', d')" by (cases j) auto
  let ?t = "\<lambda>x d. case d of None \<Rightarrow> x | Some e \<Rightarrow> x @ CHR ''|'' # e"
  have tag: "identity_tag (c, m, k, x, d) = c @ CHR ''|'' # m @ CHR ''|'' # k @ CHR ''|'' # ?t x d"
    for c m k x d by (simp add: identity_tag_def split: option.split)
  have pf: "list_all pipe_free [c, m, k, x, c', m', k', x']"
    and pd: "\<And>e. d = Some e \<Longrightarrow> pipe_free e" "\<And>e. d' = Some e \<Longrightarrow> pipe_free e"
    using assms(1,2) i j by (simp_all add: pipe_free_identity_def)
  from assms(3) have eq: "c @ CHR ''|'' # m @ CHR ''|'' # k @ CHR ''|'' # ?t x d =
      c' @ CHR ''|'' # m' @ CHR ''|'' # k' @ CHR ''|'' # ?t x' d'"
    unfolding i j tag .
  from split_at_pipe [OF _ _ eq] pf have "c = c'"
    and eq2: "m @ CHR ''|'' # k @ CHR ''|'' # ?t x d = m' @ CHR ''|'' # k' @ CHR ''|'' # ?t x' d'"
    by simp_all
  from split_at_pipe [OF _ _ eq2] pf have "m = m'"
    and eq3: "k @ CHR ''|'' # ?t x d = k' @ CHR ''|'' # ?t x' d'"
    by simp_all
  from split_at_pipe [OF _ _ eq3] pf have "k = k'" and eq4: "?t x d = ?t x' d'"
    by simp_all
  have "x = x' \<and> d = d'"
  proof (cases d; cases d')
    fix e e' assume "d = Some e" "d' = Some e'"
    with eq4 pf split_at_pipe [of x x' e e'] show ?thesis by simp
  qed (use eq4 pf in \<open>auto simp: pipe_free_def\<close>)
  with \<open>c = c'\<close> \<open>m = m'\<close> \<open>k = k'\<close> show ?thesis by (simp add: i j)
qed

text \<open>
  Two identities without a pipe in their fields have different isolation tags; a pipe
  inside a field can make two different identities share one.
\<close>

theorem identity_tag_separates:
  assumes "pipe_free_identity i" and "pipe_free_identity j" and "i \<noteq> j"
  shows "identity_tag i \<noteq> identity_tag j"
  using identity_tag_inj assms by blast

theorem identity_tag_separates_witness:
  "identity_tag (''a'', ''m'', ''k'', ''x'', None) \<noteq> identity_tag (''a'', ''m'', ''k'', ''x'', Some ''x'')"
  by (rule identity_tag_separates) (simp_all add: pipe_free_identity_def pipe_free_def)

lemma identity_tag_aliases:
  "identity_tag (''a'', ''m'', ''k'', ''x|d'', None) = identity_tag (''a'', ''m'', ''k'', ''x'', Some ''d'')"
  by (simp add: identity_tag_def)

end
