(* ===== verification/Tier.thy ===== *)
theory Tier
  imports ClassifyTypes
begin

text \<open>
  The contract of an approximate cache tier, which the traits \<open>TextCache\<close>
  (\<open>src/src/cache/text.rs\<close>) and \<open>SemanticCache\<close> (\<open>src/src/cache.rs\<close>) share: a
  lookup under an isolation tag returns nothing, or a result stored under that same tag;
  an insert stores at most the given result under the given tag. What a tier holds is
  abstracted to the set of its (tag, result) pairs.
\<close>

datatype 'k tier_op = TLookup 'k string | TInsert 'k classification_result string

locale approx_tier =
  fixes lookup :: "'k \<Rightarrow> string \<Rightarrow> 's \<Rightarrow> classification_result option \<times> 's"
    and insert_entry :: "'k \<Rightarrow> classification_result \<Rightarrow> string \<Rightarrow> 's \<Rightarrow> 's"
    and contents :: "'s \<Rightarrow> (string \<times> classification_result) set"
    and tier_inv :: "'s \<Rightarrow> bool"
  assumes lookup_sound: "tier_inv s \<Longrightarrow> lookup k tag s = (Some r, s') \<Longrightarrow> (tag, r) \<in> contents s"
    and lookup_contents: "tier_inv s \<Longrightarrow> contents (snd (lookup k tag s)) \<subseteq> contents s"
    and lookup_inv: "tier_inv s \<Longrightarrow> tier_inv (snd (lookup k tag s))"
    and insert_contents:
      "tier_inv s \<Longrightarrow> contents (insert_entry k r tag s) \<subseteq> insert (tag, r) (contents s)"
    and insert_inv: "tier_inv s \<Longrightarrow> tier_inv (insert_entry k r tag s)"
begin

primrec tier_step :: "'k tier_op \<Rightarrow> 's \<Rightarrow> classification_result option \<times> 's" where
  "tier_step (TLookup k tag) s = lookup k tag s"
| "tier_step (TInsert k r tag) s = (None, insert_entry k r tag s)"

fun tier_run :: "'k tier_op list \<Rightarrow> 's \<Rightarrow> 's" where
  "tier_run [] s = s"
| "tier_run (op # ops) s = tier_run ops (snd (tier_step op s))"

definition inserted :: "'k tier_op list \<Rightarrow> (string \<times> classification_result) set" where
  "inserted ops = {(tag, r). \<exists>k. TInsert k r tag \<in> set ops}"

lemma tier_run_inv: "tier_inv s \<Longrightarrow> tier_inv (tier_run ops s)"
proof (induction ops arbitrary: s)
  case (Cons op ops)
  then show ?case by (cases op) (auto simp: lookup_inv insert_inv)
qed simp

lemma tier_run_contents:
  "tier_inv s \<Longrightarrow> contents (tier_run ops s) \<subseteq> contents s \<union> inserted ops"
proof (induction ops arbitrary: s)
  case (Cons op ops)
  show ?case
  proof (cases op)
    case (TLookup k tag)
    then show ?thesis
      using Cons.IH [OF lookup_inv [OF Cons.prems], of k tag] lookup_contents [OF Cons.prems, of k tag]
      by (auto simp: inserted_def)
  next
    case (TInsert k r tag)
    then show ?thesis
      using Cons.IH [OF insert_inv [OF Cons.prems], of k r tag] insert_contents [OF Cons.prems, of k r tag]
      by (auto simp: inserted_def)
  qed
qed simp

text \<open>A tier never serves across tags, whatever was stored in it.\<close>

lemma served_was_stored:
  assumes "tier_inv s" and "lookup k tag (tier_run ops s) = (Some r, s')"
  shows "(tag, r) \<in> contents s \<union> inserted ops"
  using lookup_sound [OF tier_run_inv [OF assms(1)] assms(2)] tier_run_contents [OF assms(1)]
  by blast

end

end
