(* ===== verification/Prefilter.thy ===== *)
theory Prefilter
  imports Floats "HOL-Library.Word"
begin

text \<open>
  The text keys of \<open>src/src/prefilter.rs\<close>: MinHash signatures over token shingles and
  their LSH bands. The hash of the standard library (\<open>DefaultHasher\<close>, whose algorithm
  its documentation leaves unspecified) is a parameter, \<open>hstr\<close> on strings and
  \<open>hband\<close> on a numbered band, and so is Unicode lower-casing, \<open>lower\<close>.
\<close>

unbundle bit_operations_syntax

type_synonym u64 = "64 word"

definition SHINGLE :: nat where "SHINGLE = 3"

definition K :: nat where "K = 128"

section \<open>Definitions\<close>

datatype signature = Signature "u64 list"

primrec sig_slots :: "signature \<Rightarrow> u64 list" where
  "sig_slots (Signature xs) = xs"

definition jaccard :: "signature \<Rightarrow> signature \<Rightarrow> flt" where
  "jaccard a b =
     (if sig_slots a = [] \<or> length (sig_slots a) \<noteq> length (sig_slots b) then Fin 0
      else (let same = length (filter (\<lambda>(x, y). x = y) (zip (sig_slots a) (sig_slots b)))
            in fdiv round64 (nat_as_f64 same) (nat_as_f64 (length (sig_slots a)))))"

text \<open>\<open>str::split_whitespace\<close>: the maximal runs between white-space characters.\<close>

fun word_len :: "string \<Rightarrow> nat" where
  "word_len [] = 0"
| "word_len (c # cs) = (if ws_at (c # cs) \<noteq> 0 then 0 else 1 + word_len cs)"

lemma length_trim_start: "length (trim_start s) \<le> length s"
proof (induction s rule: trim_start.induct)
  case (1 s)
  then show ?case by (cases "ws_at s = 0") (simp_all add: trim_start.simps [of s])
qed

function split_whitespace :: "string \<Rightarrow> string list" where
  "split_whitespace s =
     (let t = trim_start s
      in if t = [] then []
         else take (word_len t) t # split_whitespace (drop (word_len t) t))"
  by pat_completeness auto
termination
proof (relation "measure length")
  fix s t
  assume t: "t = trim_start s" "t \<noteq> []"
  then obtain c cs where cs: "t = c # cs" by (meson neq_Nil_conv)
  have "ws_at t = 0" using t by simp
  then have "0 < word_len t" using cs by simp
  moreover have "length t \<le> length s" using length_trim_start t(1) by simp
  ultimately show "(drop (word_len t) t, s) \<in> measure length" using cs by simp
qed simp

declare split_whitespace.simps [simp del]

definition normalize :: "(string \<Rightarrow> string) \<Rightarrow> string \<Rightarrow> string list" where
  "normalize lower text = filter (\<lambda>w. w \<noteq> []) (List.map lower (split_whitespace text))"

text \<open>\<open>join(" ")\<close> and \<open>slice::windows\<close>.\<close>

fun join_space :: "string list \<Rightarrow> string" where
  "join_space [] = []"
| "join_space [w] = w"
| "join_space (w # ws) = w @ '' '' @ join_space ws"

fun windows :: "nat \<Rightarrow> 'a list \<Rightarrow> 'a list list" where
  "windows n [] = []"
| "windows n (x # xs) = (if length (x # xs) < n then [] else take n (x # xs) # windows n xs)"

definition shingles :: "(string \<Rightarrow> u64) \<Rightarrow> (string \<Rightarrow> string) \<Rightarrow> string \<Rightarrow> u64 list" where
  "shingles hstr lower text =
     (let tokens = normalize lower text
      in if tokens = [] then []
         else if length tokens < SHINGLE then [hstr (join_space tokens)]
         else remdups_adj (sort (List.map (\<lambda>w. hstr (join_space w)) (windows SHINGLE tokens))))"

text \<open>The permutation of index \<open>i\<close>; \<open>wrapping_mul\<close> is word multiplication.\<close>

definition mix :: "nat \<Rightarrow> u64 \<Rightarrow> u64" where
  "mix i h =
     (let mixed = (h XOR (of_nat i * 0x9E3779B97F4A7C15)) * 0xBF58476D1CE4E5B9
      in mixed XOR drop_bit 31 mixed)"

definition update_slots :: "u64 \<Rightarrow> u64 list \<Rightarrow> u64 list" where
  "update_slots h sig =
     List.map (\<lambda>(i, slot). let mixed = mix i h in if mixed < slot then mixed else slot)
       (enumerate 0 sig)"

definition signature_of :: "(string \<Rightarrow> u64) \<Rightarrow> (string \<Rightarrow> string) \<Rightarrow> string \<Rightarrow> signature" where
  "signature_of hstr lower text =
     (let sh = shingles hstr lower text
      in if sh = [] then Signature (replicate K 0)
         else Signature (fold update_slots sh (replicate K (- 1))))"

definition clamp :: "nat \<Rightarrow> nat \<Rightarrow> nat \<Rightarrow> nat" where
  "clamp lo hi n = (if n < lo then lo else if hi < n then hi else n)"

definition bands :: "(nat \<Rightarrow> u64 list \<Rightarrow> u64) \<Rightarrow> signature \<Rightarrow> nat \<Rightarrow> u64 list" where
  "bands hband sig n =
     (let bs = clamp 1 (max (length (sig_slots sig)) 1) n;
          rows = length (sig_slots sig) div bs
      in if rows = 0 then []
         else List.map (\<lambda>b. hband b (take rows (drop (b * rows) (sig_slots sig)))) [0..<bs])"

section \<open>The permutations\<close>

lemma odd_mult_inj:
  fixes a b c c' :: u64
  assumes "c * c' = 1" and "a * c = b * c"
  shows "a = b"
proof -
  have "a * c * c' = b * c * c'" using assms(2) by simp
  then show ?thesis using assms(1) by (simp add: mult.assoc)
qed

lemma mixer_inverse: "0xBF58476D1CE4E5B9 * 0x96de1b173f119089 = (1 :: u64)"
  and golden_inverse: "0x9E3779B97F4A7C15 * 0xf1de83e19937733d = (1 :: u64)"
  by simp_all

lemma xor_cancel:
  fixes a b c :: u64
  shows "a XOR c = b XOR c \<longleftrightarrow> a = b" and "c XOR a = c XOR b \<longleftrightarrow> a = b"
  by (simp add: bit_eq_iff bit_xor_iff, blast)+

lemma xorshift_inverse:
  fixes z :: u64
  defines "y \<equiv> z XOR drop_bit 31 z"
  shows "y XOR drop_bit 31 y XOR drop_bit 62 y = z"
proof (rule bit_word_eqI)
  fix n
  have "\<not> bit z (31 + (62 + n))"
    using bit_imp_le_length [of z "31 + (62 + n)"] by auto
  then show "bit (y XOR drop_bit 31 y XOR drop_bit 62 y) n \<longleftrightarrow> bit z n"
    by (simp add: y_def bit_xor_iff bit_drop_bit_eq) (auto simp: ac_simps)
qed

lemma xorshift_inj:
  fixes x y :: u64
  assumes "x XOR drop_bit 31 x = y XOR drop_bit 31 y"
  shows "x = y"
  using xorshift_inverse [of x] xorshift_inverse [of y] unfolding assms by (rule trans [OF sym])

lemma mix_eqD:
  assumes "mix i x = mix j y"
  shows "x XOR (of_nat i * 0x9E3779B97F4A7C15) = y XOR (of_nat j * 0x9E3779B97F4A7C15)"
  using assms unfolding mix_def Let_def
  by (rule odd_mult_inj [OF mixer_inverse xorshift_inj])

lemma mix_inj: "inj (mix i)"
  by (rule injI) (drule mix_eqD, simp only: xor_cancel)

lemma mix_index_inj:
  assumes "i < 2 ^ 64" and "j < 2 ^ 64" and "mix i h = mix j h"
  shows "i = j"
proof -
  have "of_nat i * 0x9E3779B97F4A7C15 = (of_nat j * 0x9E3779B97F4A7C15 :: u64)"
    using mix_eqD [OF assms(3)] by (simp only: xor_cancel)
  then have "(of_nat i :: u64) = of_nat j" by (rule odd_mult_inj [OF golden_inverse])
  then have "unat (of_nat i :: u64) = unat (of_nat j :: u64)" by simp
  then show "i = j" using assms(1,2) by (simp add: unsigned_of_nat take_bit_nat_eq_self)
qed

text \<open>
  Every index simulates a permutation of the 64-bit hashes, and two indices below \<open>2
  ^ 64\<close> never agree on any hash.
\<close>

theorem mix_permutation:
  "bij (mix i) \<and> (\<forall>j < 2 ^ 64. i < 2 ^ 64 \<longrightarrow> j \<noteq> i \<longrightarrow> (\<forall>h. mix i h \<noteq> mix j h))"
proof -
  have "surj (mix i)" by (rule finite_UNIV_inj_surj [OF _ mix_inj]) simp
  then show ?thesis using mix_inj mix_index_inj unfolding bij_def by metis
qed

theorem mix_permutation_witness: "mix 3 (mix 0 5) \<noteq> mix 7 (mix 0 5) \<and> bij (mix 3)"
  using mix_permutation [of 3] by (auto dest!: spec [of _ 7])

section \<open>What a signature is\<close>

lemma length_update_slots [simp]: "length (update_slots h sig) = length sig"
  by (simp add: update_slots_def)

lemma update_slots_nth: "i < length sig \<Longrightarrow> update_slots h sig ! i = min (mix i h) (sig ! i)"
  by (auto simp: update_slots_def Let_def nth_enumerate_eq min_def)

lemma length_fold_update [simp]: "length (fold update_slots hs sig) = length sig"
  by (induction hs arbitrary: sig) simp_all

lemma fold_update_nth:
  "i < length sig \<Longrightarrow>
     fold update_slots hs sig ! i = Min (insert (sig ! i) (mix i ` set hs))"
proof (induction hs arbitrary: sig)
  case (Cons h hs)
  then show ?case
    by (cases "hs = []")
      (simp_all add: update_slots_nth Min_insert min.assoc min.commute min.left_commute)
qed simp

lemma length_signature [simp]: "length (sig_slots (signature_of hstr lower text)) = K"
  by (simp add: signature_of_def Let_def)

text \<open>
  The signature of a text with at least one shingle holds, for each index, the least value
  the index's permutation takes on the shingle set; it depends on the set only. A text
  without shingles (only white space) has the all-zero signature.
\<close>

theorem signature_minhash:
  "sig_slots (signature_of hstr lower text) =
     (if shingles hstr lower text = [] then replicate K 0
      else List.map (\<lambda>i. Min (mix i ` set (shingles hstr lower text))) [0..<K])"
proof -
  have "Min (insert (- 1) (mix i ` A)) = Min (mix i ` A)"
    if "finite A" "A \<noteq> {}" for i and A :: "u64 set"
  proof -
    have "Min (insert (- 1) (mix i ` A)) = min (- 1) (Min (mix i ` A))"
      using that by (simp add: Min_insert)
    then show ?thesis by (simp add: min_absorb2)
  qed
  then have "fold update_slots hs (replicate K (- 1)) = List.map (\<lambda>i. Min (mix i ` set hs)) [0..<K]"
    if "hs \<noteq> []" for hs
    using that by (intro nth_equalityI) (simp_all add: fold_update_nth)
  then show ?thesis by (simp add: signature_of_def Let_def)
qed

section \<open>The estimate\<close>

definition agreeing :: "u64 list \<Rightarrow> u64 list \<Rightarrow> nat" where
  "agreeing xs ys = length (filter (\<lambda>(x, y). x = y) (zip xs ys))"

lemma agreeing_le: "length xs = length ys \<Longrightarrow> agreeing xs ys \<le> length xs"
  unfolding agreeing_def by (rule order_trans [OF length_filter_le]) simp

lemma agreeing_sym: "agreeing xs ys = agreeing ys xs"
proof (induction xs arbitrary: ys)
  case (Cons x xs)
  then show ?case by (cases ys) (auto simp: agreeing_def)
qed (simp add: agreeing_def)

lemma agreeing_all_iff: "length xs = length ys \<Longrightarrow> agreeing xs ys = length xs \<longleftrightarrow> xs = ys"
proof (induction xs ys rule: list_induct2)
  case (Cons x xs y ys)
  have "agreeing xs ys \<le> length xs" using Cons.hyps by (rule agreeing_le)
  then show ?case using Cons.IH by (auto simp: agreeing_def)
qed (simp add: agreeing_def)

lemma jaccard_K:
  assumes "length (sig_slots a) = K" and "length (sig_slots b) = K"
  shows "jaccard a b = Fin (real (agreeing (sig_slots a) (sig_slots b)) / 128)"
proof -
  define n where "n = agreeing (sig_slots a) (sig_slots b)"
  have n: "n \<le> 128" using agreeing_le [of "sig_slots a" "sig_slots b"] assms by (simp add: n_def K_def)
  have "nat_as_f64 n = Fin (real n)" "nat_as_f64 128 = Fin 128"
    using n f64.rnd_nat [of n] f64.rnd_nat [of 128] by (simp_all add: nat_as_f64_def)
  moreover have "round64 (real n / 128) = Fin (real n / 128)"
    using round64_dyadic [of n 7] n by simp
  ultimately show ?thesis
    using assms by (auto simp: jaccard_def Let_def K_def simp flip: agreeing_def n_def)
qed

text \<open>
  On signatures of \<open>K\<close> slots the estimate is exactly the fraction of agreeing
  slots, computed without rounding error; it is symmetric and is 1 exactly on equal
  signatures.
\<close>

theorem jaccard_estimate:
  assumes "length (sig_slots a) = K" and "length (sig_slots b) = K"
  shows "jaccard a b = Fin (real (agreeing (sig_slots a) (sig_slots b)) / 128) \<and>
    jaccard b a = jaccard a b \<and> flt_le (Fin 0) (jaccard a b) \<and> flt_le (jaccard a b) (Fin 1) \<and>
    (jaccard a b = Fin 1 \<longleftrightarrow> a = b)"
proof -
  have "agreeing (sig_slots a) (sig_slots b) \<le> 128"
    using agreeing_le [of "sig_slots a" "sig_slots b"] assms by (simp add: K_def)
  moreover have "a = b \<longleftrightarrow> sig_slots a = sig_slots b" by (cases a; cases b) simp
  ultimately show ?thesis
    using assms agreeing_all_iff [of "sig_slots a" "sig_slots b"]
    by (auto simp: jaccard_K agreeing_sym K_def)
qed

theorem jaccard_estimate_witness:
  "jaccard (Signature (replicate K 0)) (Signature (replicate K 0)) = Fin 1"
proof -
  have len: "length (sig_slots (Signature (replicate K 0))) = K" by simp
  from jaccard_estimate [OF len len] show ?thesis by blast
qed

section \<open>Retrieval\<close>

definition differing :: "u64 list \<Rightarrow> u64 list \<Rightarrow> nat set" where
  "differing xs ys = {i. i < length xs \<and> xs ! i \<noteq> ys ! i}"

lemma card_differing:
  assumes "length xs = length ys"
  shows "card (differing xs ys) + agreeing xs ys = length xs"
proof -
  have "agreeing xs ys = card {i. i < length xs \<and> xs ! i = ys ! i}"
    using assms unfolding agreeing_def by (auto simp: length_filter_conv_card intro!: arg_cong [of _ _ card])
  moreover have "card (differing xs ys) + card {i. i < length xs \<and> xs ! i = ys ! i}
      = card (differing xs ys \<union> {i. i < length xs \<and> xs ! i = ys ! i})"
    by (rule card_Un_disjoint [symmetric]) (auto simp: differing_def)
  moreover have "differing xs ys \<union> {i. i < length xs \<and> xs ! i = ys ! i} = {..<length xs}"
    by (auto simp: differing_def)
  ultimately show ?thesis by simp
qed

lemma bands_clamp:
  assumes "sig_slots s \<noteq> []"
  shows "1 \<le> clamp 1 (max (length (sig_slots s)) 1) n"
    and "clamp 1 (max (length (sig_slots s)) 1) n \<le> length (sig_slots s)"
  using assms by (cases "sig_slots s"; simp add: clamp_def)+

text \<open>
  Two signatures of the same length that differ in fewer slots than there are bands agree
  on some band, so each is retrieved for the other.
\<close>

theorem bands_pigeonhole:
  assumes "length (sig_slots a) = length (sig_slots b)" and "sig_slots a \<noteq> []"
    and "1 \<le> n" and "n \<le> length (sig_slots a)"
    and "card (differing (sig_slots a) (sig_slots b)) < n"
  shows "\<exists>key. key \<in> set (bands hband a n) \<and> key \<in> set (bands hband b n)"
proof -
  define xs ys L where "xs = sig_slots a" and "ys = sig_slots b" and "L = length xs"
  define rows where "rows = L div n"
  have len: "length ys = L" using assms(1) by (simp add: xs_def ys_def L_def)
  have clamp: "clamp 1 (max L 1) n = n" using assms(3,4) by (simp add: clamp_def xs_def L_def)
  have rows: "0 < rows" "n * rows \<le> L"
    using assms(3,4) by (simp_all add: rows_def L_def xs_def div_greater_zero_iff)
  have "\<exists>k<n. take rows (drop (k * rows) xs) = take rows (drop (k * rows) ys)"
  proof (rule ccontr)
    assume neg: "\<not> ?thesis"
    have "k \<in> (\<lambda>i. i div rows) ` differing xs ys" if k: "k < n" for k
    proof -
      have "(k + 1) * rows \<le> n * rows" using k by (intro mult_le_mono1) simp
      then have le: "k * rows + rows \<le> L" using rows by simp
      from neg k have "take rows (drop (k * rows) xs) \<noteq> take rows (drop (k * rows) ys)" by blast
      then obtain j where j: "j < rows" "xs ! (k * rows + j) \<noteq> ys ! (k * rows + j)"
        using le len by (auto simp: list_eq_iff_nth_eq L_def)
      then have "k * rows + j \<in> differing xs ys" using le by (simp add: differing_def L_def [symmetric])
      moreover have "(k * rows + j) div rows = k" using j rows by simp
      ultimately show ?thesis by force
    qed
    then have "{..<n} \<subseteq> (\<lambda>i. i div rows) ` differing xs ys" by auto
    moreover have "finite (differing xs ys)" by (simp add: differing_def)
    ultimately have "n \<le> card (differing xs ys)"
      by (metis card_image_le card_lessThan card_mono finite_imageI le_trans)
    with assms(5) show False by (simp add: xs_def ys_def)
  qed
  then obtain k where "k < n" "take rows (drop (k * rows) xs) = take rows (drop (k * rows) ys)" by blast
  moreover have "bands hband a n = List.map (\<lambda>k. hband k (take rows (drop (k * rows) xs))) [0..<n]"
    "bands hband b n = List.map (\<lambda>k. hband k (take rows (drop (k * rows) ys))) [0..<n]"
    unfolding bands_def Let_def xs_def [symmetric] ys_def [symmetric] len L_def [symmetric] clamp
      rows_def [symmetric]
    using rows by simp_all
  ultimately have "hband k (take rows (drop (k * rows) xs)) \<in> set (bands hband a n)"
    "hband k (take rows (drop (k * rows) xs)) \<in> set (bands hband b n)"
    by (metis (no_types, lifting) atLeastLessThan_iff image_eqI le0 list.set_map set_upt)+
  then show ?thesis by blast
qed

theorem bands_pigeonhole_witness:
  "\<exists>key. key \<in> set (bands (\<lambda>b xs. of_nat b + sum_list xs) (Signature [1, 2, 3, 4]) 2) \<and>
     key \<in> set (bands (\<lambda>b xs. of_nat b + sum_list xs) (Signature [1, 2, 3, 5]) 2)"
proof -
  have "differing [1, 2, 3, 4] [1, 2, 3, 5 :: u64] \<subseteq> {3}"
  proof
    fix i
    assume "i \<in> differing [1, 2, 3, 4] [1, 2, 3, 5 :: u64]"
    then have "i < 4" "[1, 2, 3, 4] ! i \<noteq> ([1, 2, 3, 5 :: u64] ! i)" by (simp_all add: differing_def)
    then show "i \<in> {3}" by (auto simp: less_Suc_eq numeral_eq_Suc)
  qed
  then have "card (differing [1, 2, 3, 4] [1, 2, 3, 5 :: u64]) \<le> card {3 :: nat}"
    by (rule card_mono [rotated]) simp
  then show ?thesis
    using bands_pigeonhole [of "Signature [1, 2, 3, 4]" "Signature [1, 2, 3, 5]" 2
        "\<lambda>b xs. of_nat b + sum_list xs"] by simp
qed

end
