(* ===== verification/TextCache.thy ===== *)
theory TextCache
  imports Tier Prefilter
begin

text \<open>
  The L0 tier of \<open>src/src/cache/text.rs\<close>: the contract of a text cache, the no-op tier,
  and the in-process cache with its band index and ring of entries. Each method is one
  atomic step on the state; \<open>TextLocks\<close> models the mutexes it takes to be so.
\<close>

section \<open>Definitions\<close>

definition BANDS :: nat where "BANDS = 32"

record text_entry =
  te_sig :: signature
  te_identity :: string
  te_result :: classification_result

record text_cache =
  tc_index :: "u64 \<rightharpoonup> nat list"
  tc_entries :: "text_entry list"
  tc_capacity :: nat
  tc_threshold :: flt
  tc_cursor :: nat

text \<open>\<open>f64::clamp\<close>; a NaN stays NaN.\<close>

definition flt_clamp :: "flt \<Rightarrow> flt \<Rightarrow> flt \<Rightarrow> flt" where
  "flt_clamp lo hi x = (if flt_lt x lo then lo else if flt_lt hi x then hi else x)"

definition text_cache_new :: "nat \<Rightarrow> flt \<Rightarrow> text_cache" where
  "text_cache_new capacity threshold =
     \<lparr>tc_index = Map.empty, tc_entries = [], tc_capacity = max capacity 1,
      tc_threshold = flt_clamp (Fin 0) (Fin 1) threshold, tc_cursor = 0\<rparr>"

definition index_get :: "(u64 \<rightharpoonup> nat list) \<Rightarrow> u64 \<Rightarrow> nat list" where
  "index_get index k = (case index k of None \<Rightarrow> [] | Some ids \<Rightarrow> ids)"

text \<open>One candidate of the loop of \<open>lookup\<close>.\<close>

definition best_step ::
  "signature \<Rightarrow> string \<Rightarrow> text_entry list \<Rightarrow> nat \<Rightarrow> (flt \<times> text_entry) option \<Rightarrow> (flt \<times> text_entry) option" where
  "best_step sig identity es slot best =
     (if length es \<le> slot then best
      else if te_identity (es ! slot) \<noteq> identity then best
      else (let j = jaccard sig (te_sig (es ! slot))
            in case best of
                 None \<Rightarrow> Some (j, es ! slot)
               | Some (bj, _) \<Rightarrow> if flt_lt bj j then Some (j, es ! slot) else best))"

definition text_lookup ::
  "(nat \<Rightarrow> u64 list \<Rightarrow> u64) \<Rightarrow> signature \<Rightarrow> string \<Rightarrow> text_cache \<Rightarrow> classification_result option" where
  "text_lookup hband sig identity c =
     (let keys = bands hband sig BANDS;
          best = fold (best_step sig identity (tc_entries c))
                   (concat (List.map (index_get (tc_index c)) keys)) None
      in case best of
           Some (j, e) \<Rightarrow> if flt_le (tc_threshold c) j then Some (te_result e) else None
         | None \<Rightarrow> None)"

definition index_remove :: "nat \<Rightarrow> u64 \<Rightarrow> (u64 \<rightharpoonup> nat list) \<Rightarrow> (u64 \<rightharpoonup> nat list)" where
  "index_remove slot k index =
     (case index k of None \<Rightarrow> index | Some v \<Rightarrow> index(k \<mapsto> filter (\<lambda>x. x \<noteq> slot) v))"

definition index_push :: "nat \<Rightarrow> u64 \<Rightarrow> (u64 \<rightharpoonup> nat list) \<Rightarrow> (u64 \<rightharpoonup> nat list)" where
  "index_push slot k index = index(k \<mapsto> index_get index k @ [slot])"

definition text_insert ::
  "(nat \<Rightarrow> u64 list \<Rightarrow> u64) \<Rightarrow> signature \<Rightarrow> classification_result \<Rightarrow> string \<Rightarrow> text_cache \<Rightarrow> text_cache" where
  "text_insert hband sig result identity c =
     (let e = \<lparr>te_sig = sig, te_identity = identity, te_result = result\<rparr>;
          (slot, c') =
            (if length (tc_entries c) < tc_capacity c
             then (length (tc_entries c), c\<lparr>tc_entries := tc_entries c @ [e]\<rparr>)
             else (let slot = tc_cursor c mod tc_capacity c;
                       old_keys = bands hband (te_sig (tc_entries c ! slot)) BANDS
                   in (slot, c\<lparr>tc_cursor := (tc_cursor c + 1) mod tc_capacity c,
                             tc_index := fold (index_remove slot) old_keys (tc_index c),
                             tc_entries := (tc_entries c)[slot := e]\<rparr>)))
      in c'\<lparr>tc_index := fold (index_push slot) (bands hband sig BANDS) (tc_index c')\<rparr>)"

text \<open>The tier that never serves and never stores.\<close>

definition noop_text_lookup :: "signature \<Rightarrow> string \<Rightarrow> unit \<Rightarrow> classification_result option" where
  "noop_text_lookup sig identity c = None"

definition noop_text_insert :: "signature \<Rightarrow> classification_result \<Rightarrow> string \<Rightarrow> unit \<Rightarrow> unit" where
  "noop_text_insert sig result identity c = c"

section \<open>The index and the ring\<close>

lemma index_get_remove:
  "index_get (index_remove slot k index) k' =
     (if k' = k then filter (\<lambda>x. x \<noteq> slot) (index_get index k) else index_get index k')"
  by (simp add: index_get_def index_remove_def split: option.split)

lemma index_get_push:
  "index_get (index_push slot k index) k' =
     (if k' = k then index_get index k @ [slot] else index_get index k')"
  by (simp add: index_get_def index_push_def)

lemma index_get_fold_remove:
  "index_get (fold (index_remove slot) ks index) k =
     (if k \<in> set ks then filter (\<lambda>x. x \<noteq> slot) (index_get index k) else index_get index k)"
  by (induction ks arbitrary: index) (auto simp: index_get_remove)

lemma index_get_fold_push:
  "count_list (index_get (fold (index_push slot) ks index) k) x =
     count_list (index_get index k) x + (if x = slot then count_list ks k else 0)"
  by (induction ks arbitrary: index) (auto simp: index_get_push)

text \<open>
  The index lists an entry under a key exactly as often as the key is one of the bands
  of the entry's signature, and lists nothing else.
\<close>

definition tc_inv :: "(nat \<Rightarrow> u64 list \<Rightarrow> u64) \<Rightarrow> text_cache \<Rightarrow> bool" where
  "tc_inv hband c \<longleftrightarrow>
     1 \<le> tc_capacity c \<and> length (tc_entries c) \<le> tc_capacity c \<and>
     tc_cursor c < tc_capacity c \<and>
     (length (tc_entries c) < tc_capacity c \<longrightarrow> tc_cursor c = 0) \<and>
     (\<forall>k slot. count_list (index_get (tc_index c) k) slot =
        (if slot < length (tc_entries c)
         then count_list (bands hband (te_sig (tc_entries c ! slot)) BANDS) k else 0))"

lemma tc_inv_new: "tc_inv hband (text_cache_new capacity threshold)"
  by (simp add: tc_inv_def text_cache_new_def index_get_def)

lemma count_list_filter_neq:
  "count_list (filter (\<lambda>x. x \<noteq> a) xs) b = (if b = a then 0 else count_list xs b)"
  by (induction xs) auto

lemma tc_inv_insert:
  assumes "tc_inv hband c"
  shows "tc_inv hband (text_insert hband sig result identity c)"
proof (cases "length (tc_entries c) < tc_capacity c")
  case True
  with assms show ?thesis
    by (auto simp: tc_inv_def text_insert_def Let_def index_get_fold_push nth_append)
next
  case False
  define slot where "slot = tc_cursor c mod tc_capacity c"
  from assms False have len: "length (tc_entries c) = tc_capacity c" "slot < tc_capacity c"
    and cnt: "\<And>k i. count_list (index_get (tc_index c) k) i = (if i < length (tc_entries c)
         then count_list (bands hband (te_sig (tc_entries c ! i)) BANDS) k else 0)"
    by (auto simp: tc_inv_def slot_def)
  have "count_list (index_get (fold (index_remove slot)
      (bands hband (te_sig (tc_entries c ! slot)) BANDS) (tc_index c)) k) i
    = (if i = slot then 0 else count_list (index_get (tc_index c) k) i)" for k i
    using cnt [of k slot] len
    by (auto simp: index_get_fold_remove count_list_filter_neq count_list_0_iff)
  with assms False len show ?thesis
    by (auto simp: tc_inv_def text_insert_def Let_def slot_def [symmetric] index_get_fold_push cnt
        nth_list_update split: if_splits)
qed

interpretation tcb: bounded_store "\<lambda>c. length (tc_entries c)" tc_capacity "tc_inv hband"
  "\<lambda>(sig, result, identity) c. text_insert hband sig result identity c"
  by unfold_locales
    (auto simp: tc_inv_insert, auto simp: text_insert_def Let_def tc_inv_def)

text \<open>The abstract contents of the ring: the entries in the order they were inserted.\<close>

definition tc_abs :: "text_cache \<Rightarrow> text_entry list" where
  "tc_abs c = drop (tc_cursor c) (tc_entries c) @ take (tc_cursor c) (tc_entries c)"

lemma set_tc_abs: "set (tc_abs c) = set (tc_entries c)"
  unfolding tc_abs_def set_append by (metis append_take_drop_id set_append sup_commute)

lemma tc_abs_insert:
  assumes "tc_inv hband c"
  shows "tc_abs (text_insert hband sig result identity c) =
    drop (length (tc_entries c) + 1 - tc_capacity c)
      (tc_abs c @ [\<lparr>te_sig = sig, te_identity = identity, te_result = result\<rparr>])"
proof (cases "length (tc_entries c) < tc_capacity c")
  case True
  with assms show ?thesis by (auto simp: tc_inv_def text_insert_def Let_def tc_abs_def)
next
  case False
  define e where "e = \<lparr>te_sig = sig, te_identity = identity, te_result = result\<rparr>"
  define n where "n = tc_cursor c"
  define xs where "xs = tc_entries c"
  from assms False have n: "length xs = tc_capacity c" "n < length xs" "n mod tc_capacity c = n"
    by (auto simp: tc_inv_def n_def xs_def)
  have old: "drop n xs = xs ! n # drop (Suc n) xs" using n(2) by (rule Cons_nth_drop_Suc [symmetric])
  have "tc_abs (text_insert hband sig result identity c) =
      drop (Suc n mod length xs) (xs[n := e]) @ take (Suc n mod length xs) (xs[n := e])"
    using False n by (simp add: text_insert_def Let_def tc_abs_def e_def n_def xs_def)
  also have "\<dots> = drop (Suc n) xs @ take n xs @ [e]"
  proof (cases "Suc n = length xs")
    case True
    then show ?thesis by (simp add: upd_conv_take_nth_drop)
  next
    case False
    with n have "Suc n mod length xs = Suc n" by simp
    then show ?thesis using n(2) by (simp add: take_Suc_conv_app_nth drop_update_cancel)
  qed
  finally show ?thesis using n old by (simp add: tc_abs_def e_def n_def xs_def)
qed

section \<open>What a lookup returns\<close>

text \<open>The candidates of a lookup: same identity, and a band in common.\<close>

definition candidate ::
  "(nat \<Rightarrow> u64 list \<Rightarrow> u64) \<Rightarrow> signature \<Rightarrow> string \<Rightarrow> text_cache \<Rightarrow> text_entry \<Rightarrow> bool" where
  "candidate hband sig identity c e \<longleftrightarrow>
     e \<in> set (tc_entries c) \<and> te_identity e = identity \<and>
     (\<exists>k. k \<in> set (bands hband sig BANDS) \<and> k \<in> set (bands hband (te_sig e) BANDS))"

definition pick_best :: "signature \<Rightarrow> text_entry \<Rightarrow> (flt \<times> text_entry) option \<Rightarrow> (flt \<times> text_entry) option" where
  "pick_best sig e best =
     (let j = jaccard sig (te_sig e)
      in case best of
           None \<Rightarrow> Some (j, e)
         | Some (bj, _) \<Rightarrow> if flt_lt bj j then Some (j, e) else best)"

lemma pick_best_simps:
  "pick_best sig e None = Some (jaccard sig (te_sig e), e)"
  "pick_best sig e (Some (bj, b)) =
     (if flt_lt bj (jaccard sig (te_sig e)) then Some (jaccard sig (te_sig e), e) else Some (bj, b))"
  by (simp_all add: pick_best_def Let_def)

lemma best_fold_filter:
  "fold (best_step sig identity es) slots best =
     fold (pick_best sig)
       (List.map (nth es) (filter (\<lambda>i. i < length es \<and> te_identity (es ! i) = identity) slots)) best"
  by (induction slots arbitrary: best) (auto simp: best_step_def pick_best_def Let_def)

lemma flt_not_lt: "a \<noteq> NaN \<Longrightarrow> b \<noteq> NaN \<Longrightarrow> \<not> flt_lt a b \<Longrightarrow> flt_le b a"
  by (cases a; cases b) (auto simp: flt_lt_def flt_le_def cmp_ord_def split: if_splits)

lemma flt_lt_le: "flt_lt a b \<Longrightarrow> flt_le a b"
  by (simp add: flt_lt_def flt_le_def)

lemma pick_best_fold:
  assumes "\<And>s. jaccard sig s \<noteq> NaN"
  shows "case fold (pick_best sig) xs None of
      None \<Rightarrow> xs = []
    | Some (j, e) \<Rightarrow> j = jaccard sig (te_sig e) \<and> e \<in> set xs \<and>
        (\<forall>x\<in>set xs. flt_le (jaccard sig (te_sig x)) j)"
proof (induction xs rule: rev_induct)
  case (snoc x xs)
  have refl: "flt_le (jaccard sig s) (jaccard sig s)" for s by (rule flt_le_refl [OF assms])
  show ?case
  proof (cases "fold (pick_best sig) xs None")
    case None
    with snoc refl show ?thesis by (simp add: pick_best_simps)
  next
    case (Some p)
    then obtain j e where p: "fold (pick_best sig) xs None = Some (j, e)" by (cases p) auto
    show ?thesis
    proof (cases "flt_lt j (jaccard sig (te_sig x))")
      case True
      with snoc p refl show ?thesis
        by (auto simp: pick_best_simps dest: flt_lt_le intro: flt_le_trans)
    next
      case False
      then have "flt_le (jaccard sig (te_sig x)) j"
        using flt_not_lt [of j "jaccard sig (te_sig x)"] snoc p assms by auto
      with False snoc p show ?thesis by (auto simp: pick_best_simps)
    qed
  qed
qed simp

lemma jaccard_not_NaN: "length (sig_slots a) = K \<Longrightarrow> jaccard a b \<noteq> NaN"
  by (cases "length (sig_slots b) = K") (simp_all add: jaccard_K, simp add: jaccard_def)

lemma mem_index_iff:
  assumes "tc_inv hband c"
  shows "i \<in> set (index_get (tc_index c) k) \<longleftrightarrow>
    i < length (tc_entries c) \<and> k \<in> set (bands hband (te_sig (tc_entries c ! i)) BANDS)"
proof -
  have "count_list (index_get (tc_index c) k) i = (if i < length (tc_entries c)
         then count_list (bands hband (te_sig (tc_entries c ! i)) BANDS) k else 0)"
    using assms by (simp add: tc_inv_def)
  then show ?thesis by (metis count_list_0_iff)
qed

lemma set_candidates:
  assumes "tc_inv hband c"
  shows "set (List.map (nth (tc_entries c))
      (filter (\<lambda>i. i < length (tc_entries c) \<and> te_identity (tc_entries c ! i) = identity)
        (concat (List.map (index_get (tc_index c)) (bands hband sig BANDS)))))
    = {e. candidate hband sig identity c e}"
  by (auto simp: mem_index_iff [OF assms] candidate_def in_set_conv_nth [of _ "tc_entries c"] image_iff)

text \<open>
  C12. A lookup serves the best of the entries that share a band and the identity,
  provided its verified similarity reaches the threshold; if it serves nothing, no such
  entry reaches the threshold.
\<close>

theorem text_lookup_best:
  assumes "tc_inv hband c" and "length (sig_slots sig) = K"
  shows "case text_lookup hband sig identity c of
      None \<Rightarrow> \<not> (\<exists>e. candidate hband sig identity c e \<and>
                 flt_le (tc_threshold c) (jaccard sig (te_sig e)))
    | Some r \<Rightarrow> (\<exists>e. candidate hband sig identity c e \<and> r = te_result e \<and>
         flt_le (tc_threshold c) (jaccard sig (te_sig e)) \<and>
         {e'. candidate hband sig identity c e'} \<subseteq>
           {e'. flt_le (jaccard sig (te_sig e')) (jaccard sig (te_sig e))})"
proof -
  define xs where "xs = List.map (nth (tc_entries c))
      (filter (\<lambda>i. i < length (tc_entries c) \<and> te_identity (tc_entries c ! i) = identity)
        (concat (List.map (index_get (tc_index c)) (bands hband sig BANDS))))"
  have mem: "e \<in> set xs \<longleftrightarrow> candidate hband sig identity c e" for e
    using set_candidates [OF assms(1), of identity sig] unfolding xs_def by blast
  have lookup: "text_lookup hband sig identity c =
      (case fold (pick_best sig) xs None of
         Some (j, e) \<Rightarrow> if flt_le (tc_threshold c) j then Some (te_result e) else None
       | None \<Rightarrow> None)"
    unfolding text_lookup_def Let_def best_fold_filter xs_def ..
  note spec = pick_best_fold [of sig xs, OF jaccard_not_NaN [OF assms(2)]]
  show ?thesis
  proof (cases "fold (pick_best sig) xs None")
    case None
    with spec have "xs = []" by simp
    then show ?thesis using mem None by (auto simp: lookup)
  next
    case (Some p)
    then obtain j e where p: "fold (pick_best sig) xs None = Some (j, e)" by (cases p) auto
    with spec have j: "j = jaccard sig (te_sig e)" "e \<in> set xs"
      "\<And>x. x \<in> set xs \<Longrightarrow> flt_le (jaccard sig (te_sig x)) j" by auto
    show ?thesis
    proof (cases "flt_le (tc_threshold c) j")
      case True
      then show ?thesis using p j mem by (auto simp: lookup)
    next
      case False
      then show ?thesis using p j mem flt_le_trans by (auto simp: lookup)
    qed
  qed
qed

text \<open>Only entries of the queried identity are served; an insert adds only its own entry.\<close>

definition tc_contents :: "text_cache \<Rightarrow> (string \<times> classification_result) set" where
  "tc_contents c = (\<lambda>e. (te_identity e, te_result e)) ` set (tc_entries c)"

lemma text_lookup_contents:
  assumes "text_lookup hband sig identity c = Some r"
  shows "(identity, r) \<in> tc_contents c"
proof -
  define xs where "xs = List.map (nth (tc_entries c))
      (filter (\<lambda>i. i < length (tc_entries c) \<and> te_identity (tc_entries c ! i) = identity)
        (concat (List.map (index_get (tc_index c)) (bands hband sig BANDS))))"
  have sub: "e \<in> set xs" if "fold (pick_best sig) xs best = Some (j, e)" "best = None \<or> (\<exists>j e. best = Some (j, e) \<and> e \<in> set xs)"
    for j e and best
  proof -
    have "\<forall>j e. fold (pick_best sig) ys best = Some (j, e) \<longrightarrow> e \<in> set ys \<or> (\<exists>j. best = Some (j, e))" for ys
      by (induction ys arbitrary: best)
        (auto simp: pick_best_def Let_def split: option.splits if_splits)
    with that show ?thesis by blast
  qed
  from assms obtain j e where "fold (pick_best sig) xs None = Some (j, e)" "r = te_result e"
    unfolding text_lookup_def Let_def best_fold_filter xs_def [symmetric]
    by (auto split: option.splits if_splits)
  with sub [of None] have "e \<in> set xs" "r = te_result e" by auto
  then show ?thesis by (auto simp: xs_def tc_contents_def)
qed

lemma text_insert_contents:
  "tc_contents (text_insert hband sig r identity c) \<subseteq> insert (identity, r) (tc_contents c)"
proof -
  have "set (tc_entries (text_insert hband sig r identity c)) \<subseteq>
      insert \<lparr>te_sig = sig, te_identity = identity, te_result = r\<rparr> (set (tc_entries c))"
    using set_update_subset_insert by (auto simp: text_insert_def Let_def split: if_splits) fastforce
  then show ?thesis unfolding tc_contents_def by (auto simp: image_iff)
qed

interpretation noop_text: approx_tier
  "\<lambda>sig tag c. (noop_text_lookup sig tag c, c)" noop_text_insert "\<lambda>_. {}" "\<lambda>_. True"
  by unfold_locales (simp_all add: noop_text_lookup_def)

interpretation memory_text: approx_tier
  "\<lambda>sig tag c. (text_lookup hband sig tag c, c)" "text_insert hband" tc_contents "tc_inv hband"
  by unfold_locales
    (auto simp: text_lookup_contents tc_inv_insert dest: subsetD [OF text_insert_contents])

text \<open>A witness that serves: one stored entry, looked up under its own signature.\<close>

definition zero_sig :: signature where "zero_sig = Signature (replicate K 0)"

definition demo_result :: classification_result where
  "demo_result = \<lparr>res_classifier_id = ''c'', res_model_revision = ''m'',
     res_tokenizer_revision = ''t'', res_taxonomy_revision = ''x'', res_status = Ok, res_ranked = []\<rparr>"

theorem text_lookup_best_witness:
  "text_lookup (\<lambda>b _. of_nat b) zero_sig ''tag''
     (text_insert (\<lambda>b _. of_nat b) zero_sig demo_result ''tag'' (text_cache_new 4 (Fin 1)))
   = Some demo_result"
proof -
  define c where "c = text_insert (\<lambda>b _. of_nat b) zero_sig demo_result ''tag'' (text_cache_new 4 (Fin 1))"
  have inv: "tc_inv (\<lambda>b _. of_nat b) c" unfolding c_def by (intro tc_inv_insert tc_inv_new)
  have len: "length (sig_slots zero_sig) = K" by (simp add: zero_sig_def)
  have es: "tc_entries c = [\<lparr>te_sig = zero_sig, te_identity = ''tag'', te_result = demo_result\<rparr>]"
    and thr: "tc_threshold c = Fin 1"
    by (simp_all add: c_def text_insert_def text_cache_new_def Let_def flt_clamp_def)
  have "bands (\<lambda>b _. of_nat b) zero_sig BANDS = (0 :: u64) # List.map of_nat [1..<32]"
    by (simp add: bands_def Let_def zero_sig_def K_def BANDS_def clamp_def upt_conv_Cons)
  then have "candidate (\<lambda>b _. of_nat b) zero_sig ''tag'' c (hd (tc_entries c))"
    by (auto simp: candidate_def es)
  moreover have "jaccard zero_sig zero_sig = Fin 1"
    using len by (simp add: jaccard_K agreeing_all_iff zero_sig_def K_def agreeing_def)
  ultimately show ?thesis
    using text_lookup_best [OF inv len, of "''tag''"] thr es
    by (auto simp: c_def [symmetric] candidate_def split: option.splits)
qed

text \<open>
  C11. Right after a result is stored, every text whose signature differs from the stored
  one in at most 31 of its 128 slots is served, as long as the agreement reaches the
  threshold: retrieval by bands loses no such neighbour.
\<close>

theorem text_cache_recall:
  assumes "tc_inv hband c" and "length (sig_slots sig) = K" and "length (sig_slots sig') = K"
    and "97 \<le> agreeing (sig_slots sig) (sig_slots sig')"
    and "flt_le (tc_threshold c) (Fin (real (agreeing (sig_slots sig) (sig_slots sig')) / 128))"
  shows "text_lookup hband sig identity (text_insert hband sig' result identity c) \<noteq> None"
proof -
  define c' where "c' = text_insert hband sig' result identity c"
  define e where "e = \<lparr>te_sig = sig', te_identity = identity, te_result = result\<rparr>"
  have inv: "tc_inv hband c'" unfolding c'_def by (rule tc_inv_insert [OF assms(1)])
  have "e \<in> set (tc_entries c')"
    using assms(1) by (auto simp: c'_def e_def text_insert_def Let_def tc_inv_def intro!: set_update_memI)
  moreover have "card (differing (sig_slots sig) (sig_slots sig')) < BANDS"
    using card_differing [of "sig_slots sig" "sig_slots sig'"] assms(2-4)
    by (simp add: K_def BANDS_def)
  then have "\<exists>key. key \<in> set (bands hband sig BANDS) \<and> key \<in> set (bands hband sig' BANDS)"
    using assms(2,3) by (intro bands_pigeonhole) (auto simp: K_def BANDS_def)
  ultimately have "candidate hband sig identity c' e" by (auto simp: candidate_def e_def)
  moreover have "tc_threshold c' = tc_threshold c"
    by (simp add: c'_def text_insert_def Let_def)
  then have "flt_le (tc_threshold c') (jaccard sig (te_sig e))"
    using assms(2,3,5) by (simp add: e_def jaccard_K)
  ultimately show ?thesis
    using text_lookup_best [OF inv assms(2), of identity] unfolding c'_def [symmetric]
    by (auto split: option.splits)
qed

theorem text_cache_recall_witness:
  "text_lookup (\<lambda>b xs. of_nat b + sum_list xs) (Signature (replicate 128 7)) ''tag''
     (text_insert (\<lambda>b xs. of_nat b + sum_list xs) (Signature (replicate 31 8 @ replicate 97 7)) demo_result ''tag''
       (text_cache_new 64 (Fin (1 / 2)))) \<noteq> None"
proof -
  have "zip (replicate 128 7) (replicate 31 8 @ replicate 97 7) =
      replicate 31 (7, 8) @ replicate 97 (7 :: u64, 7 :: u64)"
    using zip_append2 [of "replicate 128 7" "replicate 31 8" "replicate 97 (7 :: u64)"]
    by (simp add: zip_replicate)
  then have "agreeing (replicate 128 7) (replicate 31 8 @ replicate 97 7) = 97"
    unfolding agreeing_def by simp
  then show ?thesis
    by (intro text_cache_recall tc_inv_new)
      (simp_all add: K_def text_cache_new_def flt_clamp_def)
qed

definition insert_all :: "(nat \<Rightarrow> u64 list \<Rightarrow> u64) \<Rightarrow> text_entry list \<Rightarrow> text_cache \<Rightarrow> text_cache" where
  "insert_all hband es c =
     fold (\<lambda>e. text_insert hband (te_sig e) (te_result e) (te_identity e)) es c"

lemma insert_all_inv: "tc_inv hband c \<Longrightarrow> tc_inv hband (insert_all hband es c)"
  unfolding insert_all_def by (induction es arbitrary: c) (simp_all add: tc_inv_insert)

text \<open>
  After any inserts into a new cache, the ring holds exactly the last \<open>max capacity
  1\<close> of them, in order: nothing else can be served, and nothing within the capacity
  is lost.
\<close>

theorem text_ring_contents:
  "tc_abs (insert_all hband es (text_cache_new capacity threshold)) =
     drop (length es - max capacity 1) es \<and>
   {e. candidate hband sig identity (insert_all hband es (text_cache_new capacity threshold)) e}
     \<subseteq> set (drop (length es - max capacity 1) es)"
proof -
  define c0 where "c0 = text_cache_new capacity threshold"
  have cap: "tc_capacity (insert_all hband es c0) = max capacity 1" for es
  proof (induction es rule: rev_induct)
    case Nil
    show ?case by (simp add: insert_all_def c0_def text_cache_new_def)
  next
    case (snoc e es)
    then show ?case by (simp add: insert_all_def text_insert_def Let_def)
  qed
  have inv: "tc_inv hband (insert_all hband es c0)" for es
    unfolding c0_def by (rule insert_all_inv [OF tc_inv_new])
  have len: "length (tc_abs c) = length (tc_entries c)" for c
    by (simp add: tc_abs_def)
  have abs: "tc_abs (insert_all hband es c0) = drop (length es - max capacity 1) es" for es
  proof (induction es rule: rev_induct)
    case Nil
    show ?case by (simp add: insert_all_def c0_def text_cache_new_def tc_abs_def)
  next
    case (snoc e es)
    define m where "m = max capacity 1"
    have m: "1 \<le> m" by (simp add: m_def)
    have n: "length (tc_entries (insert_all hband es c0)) = length es - (length es - m)"
      using arg_cong [OF snoc, of length] by (simp add: len m_def)
    have "tc_abs (insert_all hband (es @ [e]) c0) =
        drop (length es - (length es - m) + 1 - m) (drop (length es - m) es @ [e])"
      using tc_abs_insert [OF inv, of "te_sig e" "te_result e" "te_identity e" es] snoc n cap [of es]
      by (simp add: insert_all_def m_def)
    also have "\<dots> = drop (length (es @ [e]) - m) (es @ [e])"
      using m by (cases "length es < m") (auto simp: Suc_diff_le not_less)
    finally show ?case by (simp add: m_def)
  qed
  then have "set (tc_entries (insert_all hband es c0)) = set (drop (length es - max capacity 1) es)"
    by (metis set_tc_abs)
  then show ?thesis using abs by (auto simp: c0_def candidate_def)
qed

end
