(* ===== verification/ServiceCore.thy ===== *)
theory ServiceCore
  imports CacheKey ExactCache TextCache Metrics
begin

text \<open>
  The service core of \<open>src/src/classify.rs\<close> (\<open>ServiceCore\<close>): delta abstention, the exact
  cache, and on a miss the text tier, the embedding, the semantic tier and the ranking.
  The trait objects it holds are records of functions: \<open>runtime_ops\<close> for
  \<open>ClassifierRuntime\<close> and \<open>tier_ops\<close> for \<open>TextCache\<close> and \<open>SemanticCache\<close>. The backend and
  the semantic tier record into the metrics registry the core shares with them, so they
  take and return it.

  A call is modelled for a caller that no other thread interferes with
  (\<open>classify_concurrent\<close>); \<open>SingleFlight\<close> relates that function to the interleaved system.
\<close>

section \<open>Definitions\<close>

record 'r runtime_ops =
  op_metadata :: runtime_metadata
  op_embed :: "classification_input \<Rightarrow> 'r \<times> metrics \<Rightarrow> (classify_error + embedding) \<times> 'r \<times> metrics"
  op_rank :: "embedding \<Rightarrow> classification_input \<Rightarrow> 'r \<times> metrics \<Rightarrow> outcome \<times> 'r \<times> metrics"

text \<open>The trait's own \<open>classify\<close>: embed once, then rank.\<close>

definition runtime_classify :: "'r runtime_ops \<Rightarrow> classification_input \<Rightarrow> 'r \<times> metrics \<Rightarrow> outcome \<times> 'r \<times> metrics" where
  "runtime_classify rt inp st =
     (case op_embed rt inp st of
        (Inl e, st') \<Rightarrow> (Inl e, st')
      | (Inr emb, st') \<Rightarrow> op_rank rt emb inp st')"

record ('k, 's) tier_ops =
  tier_lookup :: "'k \<Rightarrow> string \<Rightarrow> 's \<Rightarrow> classification_result option \<times> 's"
  tier_insert :: "'k \<Rightarrow> classification_result \<Rightarrow> string \<Rightarrow> 's \<Rightarrow> 's"

record ('r, 'a, 'b) core_env =
  ce_runtime :: "'r runtime_ops"
  ce_prefilter :: "(signature, 'a) tier_ops"
  ce_semantic :: "(embedding, 'b \<times> metrics) tier_ops"
  ce_signature :: "string \<Rightarrow> signature"
  ce_blake3 :: "string \<Rightarrow> string"

record ('r, 'a, 'b) world =
  w_runtime :: 'r
  w_prefilter :: 'a
  w_semantic :: 'b
  w_metrics :: metrics

record ('r, 'a, 'b) service_core =
  core_cache :: "(cache_key, classification_result) exact_cache"
  core_world :: "('r, 'a, 'b) world"

text \<open>The forward closure, in the order of the code; each \<open>?\<close> is an early return.\<close>

definition core_forward ::
  "('r, 'a, 'b) core_env \<Rightarrow> string \<Rightarrow> classification_input \<Rightarrow> ('r, 'a, 'b) world \<Rightarrow> outcome \<times> ('r, 'a, 'b) world" where
  "core_forward env tag inp w =
     (let sig = ce_signature env (in_text inp);
          (text_hit, a1) = tier_lookup (ce_prefilter env) sig tag (w_prefilter w);
          w1 = w\<lparr>w_prefilter := a1\<rparr>
      in case text_hit of
           Some hit \<Rightarrow> (Inr hit, w1)
         | None \<Rightarrow>
             (let (embedded, r1, m1) = op_embed (ce_runtime env) inp (w_runtime w1, w_metrics w1);
                  w2 = w1\<lparr>w_runtime := r1, w_metrics := m1\<rparr>
              in case embedded of
                   Inl e \<Rightarrow> (Inl e, w2)
                 | Inr emb \<Rightarrow>
                     (let (sem_hit, b1, m2) = tier_lookup (ce_semantic env) emb tag (w_semantic w2, w_metrics w2);
                          w3 = w2\<lparr>w_semantic := b1, w_metrics := m2\<rparr>
                      in case sem_hit of
                           Some hit \<Rightarrow> (Inr hit, w3)
                         | None \<Rightarrow>
                             (let (ranked, r2, m3) = op_rank (ce_runtime env) emb inp (w_runtime w3, w_metrics w3);
                                  w4 = w3\<lparr>w_runtime := r2, w_metrics := m3\<rparr>
                              in case ranked of
                                   Inl e \<Rightarrow> (Inl e, w4)
                                 | Inr result \<Rightarrow>
                                     (let (b2, m4) = tier_insert (ce_semantic env) emb result tag (w_semantic w4, w_metrics w4);
                                          a2 = tier_insert (ce_prefilter env) sig result tag (w_prefilter w4)
                                      in (Inr result, w4\<lparr>w_semantic := b2, w_metrics := m4, w_prefilter := a2\<rparr>))))))"

definition record_path :: "cache_path \<Rightarrow> metrics \<Rightarrow> metrics" where
  "record_path p m =
     (case p of Hit \<Rightarrow> record_cache_hit m | Miss \<Rightarrow> record_cache_miss m
      | Coalesced \<Rightarrow> record_cache_coalesced m)"

definition core_key :: "('r, 'a, 'b) core_env \<Rightarrow> string \<Rightarrow> cache_key" where
  "core_key env normalized =
     (case cache_identity (op_metadata (ce_runtime env)) of
        (cid, mrev, krev, xrev, digest) \<Rightarrow>
          cache_key_new_with_artifact_digest (ce_blake3 env) cid mrev krev xrev normalized digest)"

definition core_classify ::
  "('r, 'a, 'b) core_env \<Rightarrow> classification_input \<Rightarrow> ('r, 'a, 'b) service_core \<Rightarrow> outcome \<times> ('r, 'a, 'b) service_core" where
  "core_classify env inp c =
     (if completeness inp = Delta
      then (Inr (insufficient_context_abstention (op_metadata (ce_runtime env))), c)
      else (let normalized = trim (in_text inp);
                key = core_key env normalized;
                tag = identity_tag (cache_identity (op_metadata (ce_runtime env)));
                ((result, path), cache', w') =
                  classify_concurrent key (core_forward env tag (inp\<lparr>in_text := normalized\<rparr>))
                    (core_cache c) (core_world c)
            in (result, \<lparr>core_cache = cache', core_world = w'\<lparr>w_metrics := record_path path (w_metrics w')\<rparr>\<rparr>)))"

definition core_new :: "'r \<Rightarrow> 'a \<Rightarrow> 'b \<Rightarrow> metrics \<Rightarrow> ('r, 'a, 'b) service_core" where
  "core_new r a b m =
     \<lparr>core_cache = ec_new,
      core_world = \<lparr>w_runtime = r, w_prefilter = a, w_semantic = b, w_metrics = m\<rparr>\<rparr>"

definition core_forward_count :: "('r, 'a, 'b) service_core \<Rightarrow> nat" where
  "core_forward_count c = ec_forward_count (core_cache c)"

section \<open>Hits, misses and abstentions\<close>

text \<open>
  A delta-only request is answered by an abstention that carries the runtime's identity
  and no label, and changes nothing: no cache, counter or backend state.
\<close>

theorem delta_abstains:
  assumes "completeness inp = Delta"
  shows "core_classify env inp c = (Inr (insufficient_context_abstention (op_metadata (ce_runtime env))), c) \<and>
    res_ranked (insufficient_context_abstention (op_metadata (ce_runtime env))) = [] \<and>
    result_revisions (insufficient_context_abstention (op_metadata (ce_runtime env)))
      = meta_revisions (op_metadata (ce_runtime env))"
  using assms by (simp add: core_classify_def)

lemma core_hit:
  assumes "completeness inp \<noteq> Delta"
    and "ec_cached_value (core_key env (trim (in_text inp))) (core_cache c) = Some r"
  shows "core_classify env inp c =
    (Inr r, c\<lparr>core_world := (core_world c)\<lparr>w_metrics := record_cache_hit (w_metrics (core_world c))\<rparr>\<rparr>)"
  using assms by (simp add: core_classify_def classify_concurrent_def Let_def record_path_def)

text \<open>
  An exact-cache hit returns the cached result and touches nothing but the hit counter:
  neither the backend, nor a tier, nor the cache itself.
\<close>

theorem exact_hit_bypasses_backend:
  assumes "completeness inp \<noteq> Delta"
    and "ec_cached_value (core_key env (trim (in_text inp))) (core_cache c) = Some r"
  shows "core_classify env inp c =
    (Inr r, c\<lparr>core_world := (core_world c)\<lparr>w_metrics := record_cache_hit (w_metrics (core_world c))\<rparr>\<rparr>)"
  using assms by (rule core_hit)

lemma core_miss:
  assumes "completeness inp \<noteq> Delta"
    and "ec_cached_value (core_key env (trim (in_text inp))) (core_cache c) = None"
    and "core_forward env (identity_tag (cache_identity (op_metadata (ce_runtime env))))
           (inp\<lparr>in_text := trim (in_text inp)\<rparr>) (core_world c) = (result, w')"
  shows "core_classify env inp c =
    (result,
     \<lparr>core_cache = (case result of Inr v \<Rightarrow> ec_store_after_forward (core_key env (trim (in_text inp))) v (core_cache c)
                    | Inl e \<Rightarrow> core_cache c),
      core_world = w'\<lparr>w_metrics := record_cache_miss (w_metrics w')\<rparr>\<rparr>)"
  using assms by (simp add: core_classify_def classify_concurrent_def Let_def record_path_def split: sum.split)

text \<open>
  When the forward fails, the caller gets that very error, and the cache keeps exactly
  what it had: no failure is cached and no label is made up.
\<close>

theorem failures_are_not_cached:
  assumes "core_classify env inp c = (Inl e, c')"
  shows "core_cache c' = core_cache c \<and>
    (\<exists>w'. core_forward env (identity_tag (cache_identity (op_metadata (ce_runtime env))))
      (inp\<lparr>in_text := trim (in_text inp)\<rparr>) (core_world c) = (Inl e, w'))"
proof -
  have nd: "completeness inp \<noteq> Delta" using assms by (auto simp: core_classify_def)
  obtain result w' where fw: "core_forward env (identity_tag (cache_identity (op_metadata (ce_runtime env))))
      (inp\<lparr>in_text := trim (in_text inp)\<rparr>) (core_world c) = (result, w')" by fastforce
  show ?thesis
  proof (cases "ec_cached_value (core_key env (trim (in_text inp))) (core_cache c)")
    case None
    from core_miss [OF nd this fw] assms fw show ?thesis by auto
  next
    case (Some r)
    from core_hit [OF nd this] assms show ?thesis by simp
  qed
qed

lemma ec_store_cached: "ec_inv c \<Longrightarrow> ec_cached_value k (ec_store_after_forward k v c) = Some v"
  by (simp add: ec_store_after_forward_def ec_cached_store_same ec_inv_def)

text \<open>
  After a request succeeded, a request with the same text up to surrounding white space is
  answered from the cache with the very same result, whatever its signals, session and
  completeness, without any backend work.
\<close>

theorem repeated_request_hits:
  assumes "ec_inv (core_cache c)" and "completeness inp \<noteq> Delta" and "completeness inp' \<noteq> Delta"
    and "trim (in_text inp') = trim (in_text inp)" and "core_classify env inp c = (Inr r, c')"
  shows "core_classify env inp' c' =
    (Inr r, c'\<lparr>core_world := (core_world c')\<lparr>w_metrics := record_cache_hit (w_metrics (core_world c'))\<rparr>\<rparr>)"
proof -
  obtain result w' where fw: "core_forward env (identity_tag (cache_identity (op_metadata (ce_runtime env))))
      (inp\<lparr>in_text := trim (in_text inp)\<rparr>) (core_world c) = (result, w')" by fastforce
  have "ec_cached_value (core_key env (trim (in_text inp))) (core_cache c') = Some r"
  proof (cases "ec_cached_value (core_key env (trim (in_text inp))) (core_cache c)")
    case None
    from core_miss [OF assms(2) this fw] assms(5)
    have "core_cache c' = ec_store_after_forward (core_key env (trim (in_text inp))) r (core_cache c)" by auto
    then show ?thesis using assms(1) by (simp add: ec_store_cached)
  next
    case (Some v)
    from core_hit [OF assms(2) this] assms(5) Some show ?thesis by auto
  qed
  then show ?thesis using assms(3,4) by (intro core_hit) simp_all
qed

end
