(* ===== verification/Executor.thy ===== *)
theory Executor
  imports Handoff ServiceCore
begin

text \<open>
  The inference executor of \<open>src/src/handoff.rs\<close> as the gRPC handler sees it for one request:
  what a worker does with a job it took at time \<open>td\<close> that was queued at time \<open>tq\<close>, on the
  service core whose metrics registry the executor shares. The lemma \<open>lone_request_refines\<close>
  shows that the interleaved system of \<open>Handoff\<close>, running one request alone, does just this.
\<close>

section \<open>One job\<close>

definition map_metrics :: "(metrics \<Rightarrow> metrics) \<Rightarrow> ('r, 'a, 'b) service_core \<Rightarrow> ('r, 'a, 'b) service_core" where
  "map_metrics f c = c\<lparr>core_world := (core_world c)\<lparr>w_metrics := f (w_metrics (core_world c))\<rparr>\<rparr>"

definition deadline_passed :: "nat \<Rightarrow> nat option \<Rightarrow> bool" where
  "deadline_passed now deadline = (case deadline of None \<Rightarrow> False | Some d \<Rightarrow> d \<le> now)"

definition executor_serve ::
  "('r, 'a, 'b) core_env \<Rightarrow> nat \<Rightarrow> nat \<Rightarrow> classification_input \<Rightarrow> nat option \<Rightarrow> ('r, 'a, 'b) service_core \<Rightarrow>
     outcome \<times> ('r, 'a, 'b) service_core" where
  "executor_serve env tq td inp deadline c =
     (if deadline_passed td deadline then (Inl RequestExpired, map_metrics record_queued_expired c)
      else core_classify env inp (map_metrics (record_stage StageQueue (td - tq)) c))"

text \<open>
  How the handoff treats one call: refused for want of a permit, dropped by an executor that
  stopped, or run, with the times of queueing and of the worker's decision.
\<close>

datatype fate = FQueueFull | FStopped | FRun nat nat

lemma map_metrics_sel [simp]:
  "core_cache (map_metrics f c) = core_cache c"
  "w_metrics (core_world (map_metrics f c)) = f (w_metrics (core_world c))"
  "w_runtime (core_world (map_metrics f c)) = w_runtime (core_world c)"
  "w_prefilter (core_world (map_metrics f c)) = w_prefilter (core_world c)"
  "w_semantic (core_world (map_metrics f c)) = w_semantic (core_world c)"
  by (simp_all add: map_metrics_def)

section \<open>Refinement\<close>

definition idle_at :: "nat \<Rightarrow> nat \<Rightarrow> handoff \<Rightarrow> bool" where
  "idle_at h w s \<longleftrightarrow>
     h < length (ho_handlers s) \<and> ho_handlers s ! h = HIdle \<and>
     w < length (ho_workers s) \<and> ho_workers s ! w = WIdle \<and>
     ho_channel s = [] \<and> 0 < ho_permits s \<and> 0 < ho_bound s"

definition admit_events :: "nat \<Rightarrow> nat \<Rightarrow> nat \<Rightarrow> nat \<Rightarrow> classification_input \<Rightarrow> nat option \<Rightarrow> handoff_event list" where
  "admit_events h w tq td inp deadline =
     [Enqueue h inp deadline, Handler h tq, Handler h tq, Handler h tq, Recv w, Decide w td]"

definition serve_events :: "nat \<Rightarrow> nat \<Rightarrow> nat \<Rightarrow> nat \<Rightarrow> classification_input \<Rightarrow> nat option \<Rightarrow> outcome \<Rightarrow> handoff_event list" where
  "serve_events h w tq td inp deadline r =
     admit_events h w tq td inp deadline @
     (if deadline_passed td deadline then [Leave w, Leave w, Leave w, Release w] else [Finish w r, Decrement w, Release w])"

lemma job_expired_passed: "job_expired now j = deadline_passed now (job_deadline j)"
  by (simp add: job_expired_def deadline_passed_def)

lemmas handoff_steps = admit_events_def serve_events_def idle_at_def try_enqueue_step_def handler_step_def
  decide_step_def leave_step_def Let_def job_closed_def job_expired_passed

text \<open>
  C13. One request that finds a free permit, a free worker and an empty channel is served
  by the interleaved executor exactly as by \<open>executor_serve\<close>: the handler is
  answered with the same outcome, the registry has the same queue statistics when the
  forward starts, and permit, counter, channel and worker are back where they were.
\<close>

theorem lone_request_refines:
  assumes "idle_at h w s" and "w_metrics (core_world c) = ho_metrics s"
    and "executor_serve env tq td inp deadline c = (r, c')"
  shows "\<exists>s'. ho_run (serve_events h w tq td inp deadline r) s = Some s' \<and>
    ho_handlers s' ! h = HAnswered r \<and> ho_workers s' = ho_workers s \<and> ho_channel s' = [] \<and>
    ho_permits s' = ho_permits s \<and> ho_current s' = ho_current s \<and>
    (if deadline_passed td deadline
     then r = Inl RequestExpired \<and> ho_metrics s' = w_metrics (core_world c') \<and> ho_ran s' = ho_ran s
     else core_classify env inp (map_metrics (\<lambda>_. ho_metrics s') c) = (r, c') \<and> length (ho_ran s') = length (ho_ran s) + 1)"
proof (cases "deadline_passed td deadline")
  case True
  then have r: "r = Inl RequestExpired" "c' = map_metrics record_queued_expired c"
    using assms(3) by (auto simp: executor_serve_def)
  have "(ho_workers s)[w := WIdle] = ho_workers s"
    using assms(1) by (metis idle_at_def list_update_id)
  with assms(1) True show ?thesis
    by (auto simp: handoff_steps r assms(2))
next
  case False
  have m: "map_metrics (\<lambda>_. record_stage StageQueue (td - tq) (ho_metrics s)) c =
      map_metrics (record_stage StageQueue (td - tq)) c"
    by (simp add: map_metrics_def assms(2))
  have "core_classify env inp (map_metrics (record_stage StageQueue (td - tq)) c) = (r, c')"
    using assms(3) False by (simp add: executor_serve_def)
  moreover have "(ho_workers s)[w := WIdle] = ho_workers s"
    using assms(1) by (metis idle_at_def list_update_id)
  ultimately show ?thesis using assms(1) False
    by (auto simp: handoff_steps m simp del: record_stage.simps)
qed

theorem lone_request_refines_witness:
  "\<forall>env inp. \<exists>r c' s'. executor_serve env 5 9 inp (Some 9) (core_new () () () metrics_new) = (r, c') \<and>
     ho_run (serve_events 1 0 5 9 inp (Some 9) r) (spawn_with_workers 4 1 2 metrics_new) = Some s' \<and>
     ho_handlers s' ! 1 = HAnswered (Inl RequestExpired) \<and> ho_permits s' = 4"
proof (intro allI)
  fix env :: "(unit, unit, unit) core_env" and inp
  have idle: "idle_at 1 0 (spawn_with_workers 4 1 2 metrics_new)"
    by (simp add: idle_at_def spawn_with_workers_def)
  have m: "w_metrics (core_world (core_new () () () metrics_new)) = ho_metrics (spawn_with_workers 4 1 2 metrics_new)"
    by (simp add: core_new_def spawn_with_workers_def)
  obtain r c' where e: "executor_serve env 5 9 inp (Some 9) (core_new () () () metrics_new) = (r, c')" by fastforce
  from lone_request_refines [OF idle m e] e
  show "\<exists>r c' s'. executor_serve env 5 9 inp (Some 9) (core_new () () () metrics_new) = (r, c') \<and>
     ho_run (serve_events 1 0 5 9 inp (Some 9) r) (spawn_with_workers 4 1 2 metrics_new) = Some s' \<and>
     ho_handlers s' ! 1 = HAnswered (Inl RequestExpired) \<and> ho_permits s' = 4"
    by (auto simp: deadline_passed_def) (simp add: spawn_with_workers_def)
qed

end
