(* ===== verification/Ranker.thy ===== *)
theory Ranker
  imports ClassifyTypes
begin

text \<open>
  The ranking rules: cosine similarity and anchor ranking of \<open>src/src/ranker.rs\<close>, and the
  label map and softmax of \<open>src/src/head.rs\<close>. Sorting with a comparator is \<open>sort_by\<close>,
  whose \<open>None\<close> stands for a comparator that is not a total order on the list (a NaN
  score compares \<open>Equal\<close> to everything), where the library promises no order.
\<close>

section \<open>Cosine similarity\<close>

record prototype =
  proto_id :: string
  proto_vector :: "flt list"

record anchor_set =
  anchor_label :: string
  anchor_vectors :: "flt list list"

definition prototype_new :: "string \<Rightarrow> flt list \<Rightarrow> prototype" where
  "prototype_new pid v = \<lparr>proto_id = pid, proto_vector = v\<rparr>"

text \<open>\<open>f64::from\<close> of an \<open>f32\<close> is exact, so the widened value is the value itself.\<close>

definition norm64 :: "flt list \<Rightarrow> flt" where
  "norm64 a = fsqrt round64 (fsum round64 (List.map (\<lambda>x. fmul round64 x x) a))"

definition cosine_similarity :: "flt list \<Rightarrow> flt list \<Rightarrow> flt" where
  "cosine_similarity a b =
     (let dot = fsum round64 (List.map (\<lambda>(x, y). fmul round64 x y) (zip a b));
          na = norm64 a;
          nb = norm64 b
      in if flt_eq na (Fin 0) \<or> flt_eq nb (Fin 0) then Fin 0
         else fdiv round64 dot (fmul round64 na nb))"

text \<open>The comparator of the rankings: score descending, then label ascending.\<close>

definition partial_or_equal :: "flt \<Rightarrow> flt \<Rightarrow> ordering" where
  "partial_or_equal a b = (case flt_partial_cmp a b of None \<Rightarrow> Equal | Some r \<Rightarrow> r)"

definition rank_cmp :: "string \<times> flt \<Rightarrow> string \<times> flt \<Rightarrow> ordering" where
  "rank_cmp a b = then_with (partial_or_equal (snd b) (snd a)) (cmp_ord (fst a) (fst b))"

definition cosine_rank :: "flt list \<Rightarrow> prototype list \<Rightarrow> (string \<times> flt) list option" where
  "cosine_rank emb ps =
     sort_by rank_cmp (List.map (\<lambda>p. (proto_id p, cosine_similarity emb (proto_vector p))) ps)"

text \<open>The score of one label: the mean of its \<open>top_k\<close> best similarities.\<close>

definition clamp_nat :: "nat \<Rightarrow> nat \<Rightarrow> nat \<Rightarrow> nat" where
  "clamp_nat lo hi n = (if n < lo then lo else if hi < n then hi else n)"

definition anchor_score :: "flt list \<Rightarrow> flt list list \<Rightarrow> nat \<Rightarrow> flt option" where
  "anchor_score emb vectors top_k =
     (case sort_by (\<lambda>a b. partial_or_equal b a) (List.map (cosine_similarity emb) vectors) of
        None \<Rightarrow> None
      | Some sims \<Rightarrow>
          (let k = clamp_nat 1 (max (length sims) 1) top_k
           in Some (if sims = [] then Fin 0
                    else fdiv round64 (fsum round64 (take (min k (length sims)) sims))
                           (nat_as_f64 (min k (length sims))))))"

fun collect_opt :: "'a option list \<Rightarrow> 'a list option" where
  "collect_opt [] = Some []"
| "collect_opt (None # xs) = None"
| "collect_opt (Some x # xs) = map_option ((#) x) (collect_opt xs)"

definition anchor_rank :: "flt list \<Rightarrow> anchor_set list \<Rightarrow> nat \<Rightarrow> (string \<times> flt) list option" where
  "anchor_rank emb anchors top_k =
     (case collect_opt (List.map (\<lambda>set. map_option (Pair (anchor_label set))
             (anchor_score emb (anchor_vectors set) top_k)) anchors) of
        None \<Rightarrow> None
      | Some ranked \<Rightarrow> sort_by rank_cmp ranked)"

section \<open>The order of a ranking\<close>

lemma partial_or_equal_flip: "partial_or_equal b a = flip_ord (partial_or_equal a b)"
  by (simp add: partial_or_equal_def flt_partial_cmp_flip [of b a] split: option.split)

lemma rank_cmp_flip: "rank_cmp b a = flip_ord (rank_cmp a b)"
  unfolding rank_cmp_def flip_then_with
  by (simp add: flip_cmp_ord partial_or_equal_flip [of "snd a" "snd b"])

lemma partial_or_equal_iff:
  assumes "a \<noteq> NaN" and "b \<noteq> NaN"
  shows "partial_or_equal a b \<noteq> Greater \<longleftrightarrow> flt_le a b"
    and "partial_or_equal a b = Less \<longleftrightarrow> flt_lt a b"
    and "partial_or_equal a b = Equal \<longleftrightarrow> a = b"
    and "partial_or_equal a b = Greater \<longleftrightarrow> flt_lt b a"
  using assms
  by (cases a; cases b; simp add: partial_or_equal_def flt_le_def flt_lt_def cmp_ord_def)+

lemma flt_lt_irrefl [simp]: "\<not> flt_lt a a"
  by (cases a) (simp_all add: flt_lt_def)

lemma flt_lt_trans: "flt_lt a b \<Longrightarrow> flt_lt b c \<Longrightarrow> flt_lt a c"
  by (cases a; cases b; cases c) (auto simp: flt_lt_def cmp_ord_def split: if_splits)

lemma flt_le_iff: "flt_le a b \<longleftrightarrow> flt_lt a b \<or> (a = b \<and> a \<noteq> NaN)"
  by (cases a; cases b) (auto simp: flt_lt_def flt_le_def cmp_ord_def split: if_splits)

lemma rank_cmp_le_iff:
  assumes "snd a \<noteq> NaN" and "snd b \<noteq> NaN"
  shows "rank_cmp a b \<noteq> Greater \<longleftrightarrow>
    flt_lt (snd b) (snd a) \<or> (snd a = snd b \<and> fst a \<le> fst b)"
  using partial_or_equal_iff [OF assms(2,1)]
  by (cases "partial_or_equal (snd b) (snd a)")
    (auto simp: rank_cmp_def not_less flt_le_iff dest: flt_lt_trans)

lemma rank_cmp_total:
  assumes "\<forall>p\<in>set xs. snd p \<noteq> NaN"
  shows "cmp_total_on rank_cmp xs"
  unfolding cmp_total_on_def
proof (intro conjI ballI impI)
  fix x y z
  assume x: "x \<in> set xs" and y: "y \<in> set xs" and z: "z \<in> set xs"
    and "rank_cmp x y \<noteq> Greater" "rank_cmp y z \<noteq> Greater"
  with assms show "rank_cmp x z \<noteq> Greater"
    by (auto simp: rank_cmp_le_iff intro: flt_lt_trans)
qed (rule rank_cmp_flip)

lemma partial_desc_total:
  assumes "NaN \<notin> set xs"
  shows "cmp_total_on (\<lambda>a b. partial_or_equal b a) xs"
  unfolding cmp_total_on_def
proof (intro conjI ballI impI)
  fix x y z
  assume x: "x \<in> set xs" and y: "y \<in> set xs" and z: "z \<in> set xs"
    and le: "partial_or_equal y x \<noteq> Greater" "partial_or_equal z y \<noteq> Greater"
  have "x \<noteq> NaN" "y \<noteq> NaN" "z \<noteq> NaN" using assms x y z by auto
  with le show "partial_or_equal z x \<noteq> Greater"
    by (auto simp: partial_or_equal_iff(1) intro: flt_le_trans)
qed (rule partial_or_equal_flip)

lemma sort_by_permute:
  assumes "mset xs = mset ys" and "cmp_total_on cmp xs"
    and "\<And>x y. x \<in> set xs \<Longrightarrow> y \<in> set xs \<Longrightarrow>
       cmp x y \<noteq> Greater \<Longrightarrow> cmp y x \<noteq> Greater \<Longrightarrow> x = y"
  shows "sort_by cmp xs = sort_by cmp ys"
proof -
  have sets: "set xs = set ys" using assms(1) by (metis set_mset_mset)
  have tot: "cmp_total_on cmp ys" by (rule cmp_total_on_subset [OF assms(2)]) (simp add: sets)
  have "stable_sort cmp xs = stable_sort cmp ys"
    by (rule sorted_by_unique [OF sorted_stable_sort [OF assms(2)] sorted_stable_sort [OF tot]])
      (simp_all add: assms(1,3))
  then show ?thesis using assms(2) tot by (simp add: sort_by_def)
qed

lemma rank_cmp_antisym:
  assumes "snd a \<noteq> NaN" and "snd b \<noteq> NaN" and "rank_cmp a b \<noteq> Greater" and "rank_cmp b a \<noteq> Greater"
  shows "a = b"
proof -
  have "flt_lt (snd b) (snd a) \<or> (snd a = snd b \<and> fst a \<le> fst b)"
    using assms rank_cmp_le_iff by blast
  moreover have "flt_lt (snd a) (snd b) \<or> (snd b = snd a \<and> fst b \<le> fst a)"
    using assms rank_cmp_le_iff by blast
  moreover have "\<not> (flt_lt (snd a) (snd b) \<and> flt_lt (snd b) (snd a))"
    using flt_lt_trans flt_lt_irrefl by blast
  ultimately have "snd a = snd b" "fst a = fst b"
    using flt_lt_irrefl by (metis order_antisym)+
  then show ?thesis by (simp add: prod_eq_iff)
qed

lemma rank_sort_permute:
  assumes "mset xs = mset ys" and "\<forall>p\<in>set xs. snd p \<noteq> NaN"
  shows "sort_by rank_cmp xs = sort_by rank_cmp ys"
proof (rule sort_by_permute [OF assms(1) rank_cmp_total [OF assms(2)]])
  fix x y
  assume "x \<in> set xs" "y \<in> set xs" "rank_cmp x y \<noteq> Greater" "rank_cmp y x \<noteq> Greater"
  with assms(2) show "x = y" by (intro rank_cmp_antisym) blast+
qed

text \<open>The documented order: scores descend, and equal scores are in label order.\<close>

definition rank_ordered :: "(string \<times> flt) list \<Rightarrow> bool" where
  "rank_ordered xs \<longleftrightarrow>
     sorted_wrt (\<lambda>a b. flt_lt (snd b) (snd a) \<or> (snd a = snd b \<and> fst a \<le> fst b)) xs"

lemma rank_sort_ordered:
  assumes "\<forall>p\<in>set xs. snd p \<noteq> NaN"
  shows "\<exists>ys. sort_by rank_cmp xs = Some ys \<and> mset ys = mset xs \<and> rank_ordered ys"
proof -
  have some: "sort_by rank_cmp xs = Some (stable_sort rank_cmp xs)"
    using rank_cmp_total [OF assms] by (simp add: sort_by_def)
  note sorted = sort_by_SomeD [OF some]
  have "rank_ordered (stable_sort rank_cmp xs)"
    unfolding rank_ordered_def using sorted(2) assms rank_cmp_le_iff
    by (elim sorted_wrt_mono_rel [rotated]) auto
  with some sorted(1) show ?thesis by blast
qed

text \<open>
  When no similarity is NaN, ranking returns every prototype once with its similarity, in
  the documented order, and the result does not depend on the order in which the
  prototypes were given.
\<close>

theorem cosine_rank_deterministic:
  assumes "\<And>p. p \<in> set ps \<Longrightarrow> cosine_similarity emb (proto_vector p) \<noteq> NaN"
    and "mset qs = mset ps"
  shows "\<exists>r. cosine_rank emb ps = Some r \<and> cosine_rank emb qs = Some r \<and> rank_ordered r \<and>
    mset r = image_mset (\<lambda>p. (proto_id p, cosine_similarity emb (proto_vector p))) (mset ps)"
proof -
  define f where "f p = (proto_id p, cosine_similarity emb (proto_vector p))" for p :: prototype
  have nan: "\<forall>p\<in>set (List.map f ps). snd p \<noteq> NaN" using assms(1) by (auto simp: f_def)
  have "sort_by rank_cmp (List.map f ps) = sort_by rank_cmp (List.map f qs)"
    using assms(2) nan by (intro rank_sort_permute) simp_all
  moreover have "f = (\<lambda>p. (proto_id p, cosine_similarity emb (proto_vector p)))"
    by (rule ext) (simp add: f_def)
  ultimately show ?thesis
    using rank_sort_ordered [OF nan] unfolding cosine_rank_def by auto
qed

theorem cosine_rank_deterministic_witness:
  "\<exists>r. cosine_rank [Fin 0] [prototype_new ''b'' [Fin 1], prototype_new ''a'' [Fin 1]] = Some r \<and>
     cosine_rank [Fin 0] [prototype_new ''a'' [Fin 1], prototype_new ''b'' [Fin 1]] = Some r"
proof -
  have "cosine_similarity [Fin 0] (proto_vector p) \<noteq> NaN" for p
    by (simp add: cosine_similarity_def norm64_def fsum_def)
  from cosine_rank_deterministic [OF this, where ps = "[prototype_new ''b'' [Fin 1], prototype_new ''a'' [Fin 1]]"
      and qs = "[prototype_new ''a'' [Fin 1], prototype_new ''b'' [Fin 1]]"]
  show ?thesis by (auto simp: add_mset_commute)
qed

text \<open>The anchors of a label count as a set of similarities: their order is irrelevant.\<close>

lemma anchor_score_permute:
  assumes "mset us = mset vs" and "\<And>v. v \<in> set vs \<Longrightarrow> cosine_similarity emb v \<noteq> NaN"
  shows "anchor_score emb us k = anchor_score emb vs k"
proof -
  have sets: "set us = set vs" using assms(1) by (metis set_mset_mset)
  have nan: "NaN \<notin> set (List.map (cosine_similarity emb) us)" using assms(2) sets by (simp add: image_iff) metis
  have "sort_by (\<lambda>a b. partial_or_equal b a) (List.map (cosine_similarity emb) us)
      = sort_by (\<lambda>a b. partial_or_equal b a) (List.map (cosine_similarity emb) vs)"
  proof (rule sort_by_permute [OF _ partial_desc_total [OF nan]])
    fix x y
    assume "x \<in> set (List.map (cosine_similarity emb) us)" "y \<in> set (List.map (cosine_similarity emb) us)"
      and "partial_or_equal y x \<noteq> Greater" "partial_or_equal x y \<noteq> Greater"
    with nan show "x = y"
      by (metis flt_le_iff flt_lt_irrefl flt_lt_trans partial_or_equal_iff(1))
  qed (simp add: assms(1))
  then show ?thesis by (simp add: anchor_score_def)
qed

text \<open>
  A label is scored by the mean of its \<open>min (max top_k 1) n\<close> largest
  similarities, \<open>n\<close> being the number of its anchors; a label without anchors
  scores 0.
\<close>

theorem anchor_score_top_k:
  assumes "\<And>v. v \<in> set vs \<Longrightarrow> cosine_similarity emb v \<noteq> NaN"
  shows "\<exists>sims. mset sims = image_mset (cosine_similarity emb) (mset vs) \<and>
    sorted_wrt (\<lambda>a b. flt_le b a) sims \<and>
    anchor_score emb vs top_k =
      Some (if vs = [] then Fin 0
            else fdiv round64 (fsum round64 (take (max top_k 1) sims))
                   (nat_as_f64 (min (max top_k 1) (length vs))))"
proof -
  define xs where "xs = List.map (cosine_similarity emb) vs"
  have nan: "NaN \<notin> set xs" using assms by (simp add: xs_def image_iff) metis
  have some: "sort_by (\<lambda>a b. partial_or_equal b a) xs = Some (stable_sort (\<lambda>a b. partial_or_equal b a) xs)"
    using partial_desc_total [OF nan] by (simp add: sort_by_def)
  define sims where "sims = stable_sort (\<lambda>a b. partial_or_equal b a) xs"
  note sorted = sort_by_SomeD [OF some, folded sims_def]
  have len: "length sims = length vs" by (simp add: sims_def xs_def)
  have set: "set sims = set xs" using sorted(1) by (metis set_mset_mset)
  have "sorted_wrt (\<lambda>a b. flt_le b a) sims"
    using sorted(2) nan set partial_or_equal_iff(1)
    by (elim sorted_wrt_mono_rel [rotated]) metis
  moreover have "mset sims = image_mset (cosine_similarity emb) (mset vs)"
    using sorted(1) by (simp add: xs_def)
  moreover have k: "min (clamp_nat (Suc 0) (max n (Suc 0)) top_k) n = min (max top_k (Suc 0)) n" for n
    by (auto simp: clamp_nat_def)
  have "take (min (max top_k 1) (length sims)) sims = take (max top_k 1) sims"
    by (metis min.commute take_all_iff take_take order_refl)
  then have "anchor_score emb vs top_k =
      Some (if vs = [] then Fin 0
            else fdiv round64 (fsum round64 (take (max top_k 1) sims))
                   (nat_as_f64 (min (max top_k 1) (length vs))))"
    using some len unfolding anchor_score_def xs_def [symmetric] sims_def [symmetric]
    by (auto simp: Let_def k)
  ultimately show ?thesis by blast
qed

theorem anchor_score_top_k_witness:
  "\<exists>sims. mset sims = image_mset (cosine_similarity [Fin 0]) (mset [[Fin 1], [Fin 2]]) \<and>
    sorted_wrt (\<lambda>a b. flt_le b a) sims \<and>
    anchor_score [Fin 0] [[Fin 1], [Fin 2]] 5 =
      Some (fdiv round64 (fsum round64 (take 5 sims)) (nat_as_f64 2))"
proof -
  have "cosine_similarity [Fin 0] v \<noteq> NaN" for v
    by (simp add: cosine_similarity_def norm64_def fsum_def)
  from anchor_score_top_k [OF this, of "[[Fin 1], [Fin 2]]" 5] show ?thesis by (simp add: numeral_2_eq_2)
qed

end
