(* ===== verification/Head.thy ===== *)
theory Head
  imports Ranker Parsing
begin

text \<open>
  The label map and the softmax of the trained head (\<open>src/src/head.rs\<close>). Parsing the
  configuration as JSON is the work of a library: the model starts from the decoded
  \<open>id2label\<close> object, the list of its members in key order (a \<open>BTreeMap\<close>).
  \<open>f32::exp\<close>, whose precision the standard library leaves to the platform, is a
  parameter.
\<close>

section \<open>The label map\<close>

definition label_pairs :: "(string \<times> string) list \<Rightarrow> (nat \<times> string) list" where
  "label_pairs m =
     sort_key fst (List.map_filter (\<lambda>(k, v). map_option (\<lambda>i. (i, v)) (parse_usize k)) m)"

text \<open>\<open>None\<close> as the argument is a document without \<open>id2label\<close>, or one that is not JSON.\<close>

definition label_map_from_config :: "(string \<times> string) list option \<Rightarrow> string list option" where
  "label_map_from_config id2label =
     (case id2label of
        None \<Rightarrow> None
      | Some m \<Rightarrow>
          (let pairs = label_pairs m
           in if pairs = [] \<or> list_ex (\<lambda>(n, (i, v)). n \<noteq> i) (enumerate 0 pairs) then None
              else Some (List.map snd pairs)))"

definition label_map_len :: "string list \<Rightarrow> nat" where
  "label_map_len labels = length labels"

definition numeric_pairs :: "(string \<times> string) list \<Rightarrow> (nat \<times> string) list" where
  "numeric_pairs m = List.map_filter (\<lambda>(k, v). map_option (\<lambda>i. (i, v)) (parse_usize k)) m"

lemma set_numeric_pairs:
  "(i, v) \<in> set (numeric_pairs m) \<longleftrightarrow> (\<exists>k. (k, v) \<in> set m \<and> parse_usize k = Some i)"
  by (induction m) (auto simp: numeric_pairs_def map_filter_simps split: option.splits)

lemma map_fst_sort_key: "List.map fst (sort_key fst xs) = sort (List.map fst xs)"
  by (rule properties_for_sort [symmetric]) simp_all

lemma contiguous_iff:
  "list_ex (\<lambda>(n, (i, v)). n \<noteq> i) (enumerate k xs) \<longleftrightarrow> List.map fst xs \<noteq> [k..<k + length xs]"
proof (induction xs arbitrary: k)
  case (Cons x xs)
  show ?case using Cons.IH [of "Suc k"] by (cases x) (auto simp: upt_rec [of k] split: if_splits)
qed simp

lemma sort_eq_upt_iff: "sort ns = [0..<length ns] \<longleftrightarrow> mset ns = mset [0..<length ns]"
  by (metis mset_sort properties_for_sort sorted_upt)

text \<open>
  A label map is accepted exactly when the keys that are numbers are 0, 1, ..., n-1, each
  once and at least one of them; then the label of column \<open>i\<close> is the one
  whose key denotes \<open>i\<close>, whatever the order of the document.
\<close>

theorem label_map_by_index:
  "(label_map_from_config (Some m) \<noteq> None) =
     (numeric_pairs m \<noteq> [] \<and>
      mset (List.map fst (numeric_pairs m)) = mset [0..<length (numeric_pairs m)]) \<and>
   (case label_map_from_config (Some m) of
      None \<Rightarrow> True
    | Some labels \<Rightarrow> labels \<noteq> [] \<and>
        {(i, v). \<exists>k. (k, v) \<in> set m \<and> parse_usize k = Some i} = set (enumerate 0 labels))"
proof -
  define ps where "ps = sort_key fst (numeric_pairs m)"
  have ps: "label_pairs m = ps" by (simp add: label_pairs_def ps_def numeric_pairs_def)
  have len: "length ps = length (numeric_pairs m)" by (simp add: ps_def)
  have fst: "List.map fst ps = sort (List.map fst (numeric_pairs m))"
    unfolding ps_def by (rule map_fst_sort_key)
  have config: "label_map_from_config (Some m) =
      (if ps = [] \<or> List.map fst ps \<noteq> [0..<length ps] then None else Some (List.map snd ps))"
    by (simp add: label_map_from_config_def ps Let_def contiguous_iff)
  have accept: "List.map fst ps = [0..<length ps] \<longleftrightarrow>
      mset (List.map fst (numeric_pairs m)) = mset [0..<length (numeric_pairs m)]"
    unfolding fst len using sort_eq_upt_iff [of "List.map fst (numeric_pairs m)"] by simp
  have nil: "ps = [] \<longleftrightarrow> numeric_pairs m = []" by (metis len length_0_conv)
  have enum: "enumerate 0 (List.map snd ps) = ps" if "List.map fst ps = [0..<length ps]"
    using that by (simp add: enumerate_eq_zip zip_map_fst_snd flip: that)
  have set: "set ps = {(i, v). \<exists>k. (k, v) \<in> set m \<and> parse_usize k = Some i}"
    by (auto simp: ps_def set_numeric_pairs)
  show ?thesis
  proof (cases "ps = [] \<or> List.map fst ps \<noteq> [0..<length ps]")
    case True
    then show ?thesis using accept nil by (auto simp: config)
  next
    case False
    then have "set (enumerate 0 (List.map snd ps)) = {(i, v). \<exists>k. (k, v) \<in> set m \<and> parse_usize k = Some i}"
      using enum set by simp
    then show ?thesis using False accept nil by (auto simp: config)
  qed
qed

section \<open>Softmax\<close>

definition softmax :: "(flt \<Rightarrow> flt) \<Rightarrow> flt list \<Rightarrow> flt list" where
  "softmax fexp ls =
     (let mx = foldl fmax NInf ls
      in if \<not> is_finite mx then replicate (length ls) (Fin 0)
         else (let es = List.map (\<lambda>l. fexp (fsub round32 l mx)) ls;
                   total = fsum round32 es
               in if flt_le total (Fin 0) then replicate (length ls) (Fin 0)
                  else List.map (\<lambda>e. fdiv round32 e total) es))"

text \<open>
  What is used of the platform's exponential: it is monotone, exact at zero, and never
  negative. \<open>exp_ieee\<close>, the exponential rounded to nearest, is such a function.
\<close>

locale exponential =
  fixes fexp :: "flt \<Rightarrow> flt"
  assumes exp_mono: "flt_le a b \<Longrightarrow> flt_le (fexp a) (fexp b)"
    and exp_zero: "fexp (Fin 0) = Fin 1"
    and exp_nonneg: "a \<noteq> NaN \<Longrightarrow> flt_le (Fin 0) (fexp a)"

primrec exp_ieee :: "flt \<Rightarrow> flt" where
  "exp_ieee NaN = NaN"
| "exp_ieee NInf = Fin 0"
| "exp_ieee PInf = PInf"
| "exp_ieee (Fin x) = round32 (exp x)"

lemma round32_nonneg: "0 \<le> x \<Longrightarrow> flt_le (Fin 0) (round32 x)"
  by (rule f32.rnd_nonneg)

interpretation ieee: exponential exp_ieee
proof unfold_locales
  fix a b
  assume le: "flt_le a b"
  show "flt_le (exp_ieee a) (exp_ieee b)"
    using le by (cases a; cases b) (auto simp: f32.rnd_mono round32_nonneg flt_le_refl f32.rnd_not_NaN)
next
  show "flt_le (Fin 0) (exp_ieee a)" if "a \<noteq> NaN" for a
    using that by (cases a) (auto simp: round32_nonneg)
qed simp

context exponential
begin

text \<open>One term: below the maximum, it lies between 0 and 1.\<close>

lemma exp_term:
  assumes "x \<le> m"
  shows "\<exists>z. fexp (fsub round32 (Fin x) (Fin m)) = Fin z \<and> 0 \<le> z \<and> z \<le> 1"
proof -
  have "flt_le (round32 (x - m)) (Fin 0)" using f32.rnd_mono [of "x - m" 0] assms by simp
  then have "flt_le (fexp (round32 (x - m))) (Fin 1)" using exp_mono exp_zero by metis
  moreover have "flt_le (Fin 0) (fexp (round32 (x - m)))" by (rule exp_nonneg) simp
  ultimately show ?thesis by (auto simp: fsub_def dest: flt_le_betweenD)
qed

lemma exp_term_mono:
  "x \<le> y \<Longrightarrow> flt_le (fexp (fsub round32 (Fin x) (Fin m))) (fexp (fsub round32 (Fin y) (Fin m)))"
  by (auto simp: fsub_def intro!: exp_mono f32.rnd_mono)

end

lemma foldl_fmax_Fin:
  "foldl fmax (Fin m) (List.map Fin xs) = Fin (foldl max m xs)"
  by (induction xs arbitrary: m) (auto simp: max_def)

lemma foldl_max_bounds:
  fixes m :: real
  shows "m \<le> foldl max m xs" and "\<forall>x\<in>set xs. x \<le> foldl max m xs" and "foldl max m xs \<in> set (m # xs)"
proof (induction xs arbitrary: m)
  case (Cons x xs)
  {
    case 1
    show ?case using Cons(1) [of "max m x"] by simp
  next
    case 2
    show ?case using Cons(1,2) [of "max m x"] by auto
  next
    case 3
    show ?case using Cons(3) [of "max m x"] by (auto simp: max_def split: if_splits)
  }
qed simp_all

text \<open>The sum of at most \<open>2 ^ 24\<close> terms in the unit interval neither overflows nor falls below one of them.\<close>

lemma fsum_unit:
  assumes "\<forall>x\<in>set xs. 0 \<le> x \<and> x \<le> 1" and "length xs \<le> 2 ^ 24"
  shows "\<exists>s. fsum round32 (List.map Fin xs) = Fin s \<and> s \<le> real (length xs) \<and> 0 \<le> s \<and> (1 \<in> set xs \<longrightarrow> 1 \<le> s)"
  using assms
proof (induction xs rule: rev_induct)
  case Nil
  then show ?case by (simp add: fsum_def)
next
  case (snoc x xs)
  then obtain s where s: "fsum round32 (List.map Fin xs) = Fin s" "s \<le> real (length xs)" "0 \<le> s"
    "1 \<in> set xs \<longrightarrow> 1 \<le> s" by auto
  have x: "0 \<le> x" "x \<le> 1" using snoc.prems(1) by auto
  have "0 \<le> s + x" "s + x \<le> real (length (xs @ [x]))" using s x by simp_all
  from f32.rnd_upto [OF this snoc.prems(2)] obtain z
    where z: "round32 (s + x) = Fin z" "0 \<le> z" "z \<le> real (length (xs @ [x]))" .
  have "1 \<le> z" if "1 \<in> set (xs @ [x])"
    using f32.rnd_ge_nat [of 1 "s + x" z] that s x z(1) by auto
  then show ?case using s(1) z by (simp add: fsum_def)
qed

context exponential
begin

definition term_val :: "real \<Rightarrow> real \<Rightarrow> real" where
  "term_val m x = (case fexp (fsub round32 (Fin x) (Fin m)) of Fin z \<Rightarrow> z | _ \<Rightarrow> 0)"

lemma term_val:
  assumes "x \<le> m"
  shows "fexp (fsub round32 (Fin x) (Fin m)) = Fin (term_val m x)"
    and "0 \<le> term_val m x" and "term_val m x \<le> 1"
  using exp_term [OF assms] by (auto simp: term_val_def)

lemma term_val_max: "term_val m m = 1"
  by (simp add: term_val_def fsub_def exp_zero)

text \<open>The shape of the softmax of finite values.\<close>

lemma softmax_finite:
  assumes "xs \<noteq> []" and "length xs \<le> 2 ^ 24"
  obtains m total where "m \<in> set xs" "\<forall>x\<in>set xs. x \<le> m" "1 \<le> total" "total \<le> real (length xs)"
    "softmax fexp (List.map Fin xs) =
       List.map (\<lambda>x. round32 (term_val m x / total)) xs"
proof -
  obtain y ys where xs: "xs = y # ys" using assms(1) by (cases xs) auto
  define m where "m = foldl max y ys"
  have mx: "foldl fmax NInf (List.map Fin xs) = Fin m"
    by (simp add: xs m_def foldl_fmax_Fin)
  have m: "m \<in> set xs" "\<forall>x\<in>set xs. x \<le> m"
    using foldl_max_bounds [where m = y and xs = ys] by (auto simp: xs m_def)
  define es where "es = List.map (term_val m) xs"
  have es: "List.map (\<lambda>l. fexp (fsub round32 l (Fin m))) (List.map Fin xs) = List.map Fin es"
    using m(2) by (simp add: es_def term_val(1))
  have unit: "\<forall>e\<in>set es. 0 \<le> e \<and> e \<le> 1"
    using m(2) term_val by (auto simp: es_def)
  have "1 \<in> set es" using m(1) term_val_max [of m] by (force simp: es_def)
  with fsum_unit [OF unit] assms(2) obtain total
    where total: "fsum round32 (List.map Fin es) = Fin total" "1 \<le> total" "total \<le> real (length xs)"
    by (auto simp: es_def)
  have "softmax fexp (List.map Fin xs) = List.map (\<lambda>x. round32 (term_val m x / total)) xs"
    using total(1,2) by (simp add: softmax_def mx es Let_def del: map_map) (simp add: es_def)
  with that [OF m total(2,3)] show thesis by blast
qed

lemma softmax_probabilities:
  assumes "xs \<noteq> []" and "length xs \<le> 2 ^ 24"
  shows "\<exists>ps. softmax fexp (List.map Fin xs) = List.map Fin ps \<and> length ps = length xs \<and>
    set ps \<subseteq> {0..1}"
proof -
  from softmax_finite [OF assms] obtain m total
    where m: "\<forall>x\<in>set xs. x \<le> m" "1 \<le> total" and
      sm: "softmax fexp (List.map Fin xs) = List.map (\<lambda>x. round32 (term_val m x / total)) xs"
    by metis
  have "\<exists>z. round32 (term_val m x / total) = Fin z \<and> 0 \<le> z \<and> z \<le> 1" if "x \<in> set xs" for x
  proof -
    have "0 \<le> term_val m x" "term_val m x \<le> total"
      using term_val(2,3) [of x m] m that by auto
    then have "0 \<le> term_val m x / total" "term_val m x / total \<le> 1"
      using m(2) by (simp_all add: divide_le_eq)
    from f32.rnd_unit [OF this] show ?thesis by blast
  qed
  then obtain f where f: "\<forall>x\<in>set xs. round32 (term_val m x / total) = Fin (f x) \<and> 0 \<le> f x \<and> f x \<le> 1"
    by metis
  then show ?thesis unfolding sm by (intro exI [of _ "List.map f xs"]) auto
qed

lemma softmax_monotone:
  assumes "length xs \<le> 2 ^ 24" and "i < length xs" and "j < length xs" and "xs ! i \<le> xs ! j"
  shows "flt_le (softmax fexp (List.map Fin xs) ! i) (softmax fexp (List.map Fin xs) ! j)"
proof -
  have "xs \<noteq> []" using assms(2) by auto
  from softmax_finite [OF this assms(1)] obtain m total
    where m: "\<forall>x\<in>set xs. x \<le> m" "1 \<le> total" and
      sm: "softmax fexp (List.map Fin xs) = List.map (\<lambda>x. round32 (term_val m x / total)) xs"
    by metis
  have "term_val m (xs ! i) \<le> term_val m (xs ! j)"
    using exp_term_mono [OF assms(4), of m] term_val(1) [of "xs ! i" m] term_val(1) [of "xs ! j" m] m(1)
      assms(2,3) by auto
  then have "term_val m (xs ! i) / total \<le> term_val m (xs ! j) / total"
    using m(2) by (simp add: divide_right_mono)
  then show ?thesis using assms(2,3) by (simp add: sm f32.rnd_mono)
qed

end

text \<open>
  The scores of finite logits are probabilities: as many as logits, finite, and each
  between 0 and 1 (for up to \<open>2 ^ 24\<close> labels, with the exponential rounded to
  nearest).
\<close>

theorem softmax_scores_are_probabilities:
  assumes "xs \<noteq> []" and "length xs \<le> 2 ^ 24"
  shows "\<exists>ps. softmax exp_ieee (List.map Fin xs) = List.map Fin ps \<and> length ps = length xs \<and>
    set ps \<subseteq> {0..1}"
  using assms by (rule ieee.softmax_probabilities)

theorem softmax_scores_are_probabilities_witness:
  "\<exists>ps. softmax exp_ieee (List.map Fin [-3, 0, 7]) = List.map Fin ps \<and> length ps = length [-3, 0, 7 :: real] \<and>
    set ps \<subseteq> {0..1}"
  by (rule softmax_scores_are_probabilities) simp_all

text \<open>
  Softmax keeps the order of the logits: a label with a logit at least as high never gets
  a lower score.
\<close>

theorem softmax_keeps_order:
  assumes "length xs \<le> 2 ^ 24" and "i < length xs" and "j < length xs" and "xs ! i \<le> xs ! j"
  shows "flt_le (softmax exp_ieee (List.map Fin xs) ! i) (softmax exp_ieee (List.map Fin xs) ! j)"
  using assms by (rule ieee.softmax_monotone)

theorem softmax_keeps_order_witness:
  "flt_le (softmax exp_ieee (List.map Fin [2, 5]) ! 0) (softmax exp_ieee (List.map Fin [2, 5]) ! 1)"
  by (rule softmax_keeps_order) simp_all

text \<open>
  A NaN logit beside a finite one escapes both guards, because \<open>f32::max\<close>
  ignores it and no comparison with a NaN sum holds: every score is then NaN, not a
  probability. An infinite logit is caught and gives all zeros.
\<close>

theorem softmax_nan_logit:
  "softmax exp_ieee [NaN, Fin 0] = [NaN, NaN] \<and> softmax exp_ieee [PInf, Fin 0] = [Fin 0, Fin 0]"
  by (simp add: softmax_def Let_def fsum_def fsub_def)

end
