(* ===== verification/Taxonomy.thy ===== *)
theory Taxonomy
  imports Ranker
begin

text \<open>
  Classifier definitions (\<open>src/src/taxonomy.rs\<close>): the validation of a taxonomy, how a
  name or a path is resolved to one, and the embedding of its anchors. The JSON decoder,
  the file system and the three definitions compiled into the binary are parameters; the
  anchors are the members of a \<open>BTreeMap\<close> in key order.
\<close>

section \<open>Definitions\<close>

datatype taxonomy_error =
    UnknownClassifier string
  | TaxonomyIo string
  | TaxonomyJson string
  | InvalidDefinition string

record classifier_definition =
  cd_classifier_id :: string
  cd_signal :: string
  cd_taxonomy_revision :: string
  cd_model_repo :: string
  cd_model_revision :: string
  cd_top_k :: nat
  cd_labels :: "string list"
  cd_anchors :: "(string \<times> string list) list"

definition default_top_k :: nat where "default_top_k = 3"

definition DEFAULT_CLASSIFIER :: string where "DEFAULT_CLASSIFIER = ''complexity''"

definition built_in_names :: "string list" where
  "built_in_names = [''complexity'', ''cost'', ''sensitivity'']"

fun check_labels :: "(string \<times> string list) list \<Rightarrow> string list \<Rightarrow> taxonomy_error + unit" where
  "check_labels anchors [] = Inr ()"
| "check_labels anchors (label # ls) =
     (case map_of anchors label of
        None \<Rightarrow> Inl (InvalidDefinition (''label '' @ [CHR 0x27] @ label @ [CHR 0x27] @ '' has no anchors''))
      | Some a \<Rightarrow>
          if a = [] then
            Inl (InvalidDefinition (''label '' @ [CHR 0x27] @ label @ [CHR 0x27] @ '' has an empty anchor list''))
          else check_labels anchors ls)"

fun check_groups :: "string list \<Rightarrow> string list \<Rightarrow> taxonomy_error + unit" where
  "check_groups labels [] = Inr ()"
| "check_groups labels (key # keys) =
     (if key \<notin> set labels
      then Inl (InvalidDefinition (''anchor group '' @ [CHR 0x27] @ key @ [CHR 0x27] @ '' is not a declared label''))
      else check_groups labels keys)"

definition validate_definition :: "classifier_definition \<Rightarrow> taxonomy_error + unit" where
  "validate_definition d =
     (if cd_labels d = [] then Inl (InvalidDefinition ''no labels declared'')
      else if cd_top_k d = 0 then Inl (InvalidDefinition ''top_k must be at least 1'')
      else bind_res (check_labels (cd_anchors d) (cd_labels d))
             (\<lambda>_. check_groups (cd_labels d) (List.map fst (cd_anchors d))))"

definition parse_definition ::
  "(string \<Rightarrow> string + classifier_definition) \<Rightarrow> string \<Rightarrow> taxonomy_error + classifier_definition" where
  "parse_definition json raw =
     bind_res (map_err TaxonomyJson (json raw)) (\<lambda>d. bind_res (validate_definition d) (\<lambda>_. Inr d))"

definition load_definition ::
  "(string \<Rightarrow> string + classifier_definition) \<Rightarrow> (string \<Rightarrow> string + string) \<Rightarrow> string \<Rightarrow>
     taxonomy_error + classifier_definition" where
  "load_definition json read path =
     bind_res (map_err TaxonomyIo (read path)) (parse_definition json)"

definition built_in ::
  "(string \<Rightarrow> string + classifier_definition) \<Rightarrow> (string \<Rightarrow> string) \<Rightarrow> string \<Rightarrow>
     (taxonomy_error + classifier_definition) option" where
  "built_in json compiled name =
     (if name = ''complexity'' \<or> name = ''cost'' \<or> name = ''sensitivity''
      then Some (parse_definition json (compiled name)) else None)"

definition resolve ::
  "(string \<Rightarrow> string + classifier_definition) \<Rightarrow> (string \<Rightarrow> string) \<Rightarrow> (string \<Rightarrow> bool) \<Rightarrow>
     (string \<Rightarrow> string + string) \<Rightarrow> string \<Rightarrow> taxonomy_error + classifier_definition" where
  "resolve json compiled is_file read spec =
     (case built_in json compiled spec of
        Some r \<Rightarrow> r
      | None \<Rightarrow> if is_file spec then load_definition json read spec
                else Inl (UnknownClassifier spec))"

definition definition_from_env ::
  "(string \<Rightarrow> string + classifier_definition) \<Rightarrow> (string \<Rightarrow> string) \<Rightarrow> (string \<Rightarrow> bool) \<Rightarrow>
     (string \<Rightarrow> string + string) \<Rightarrow> string option \<Rightarrow> taxonomy_error + classifier_definition" where
  "definition_from_env json compiled is_file read var =
     resolve json compiled is_file read (case var of Some s \<Rightarrow> s | None \<Rightarrow> DEFAULT_CLASSIFIER)"

definition anchor_count :: "classifier_definition \<Rightarrow> nat" where
  "anchor_count d = sum_list (List.map (\<lambda>(k, a). length a) (cd_anchors d))"

text \<open>
  \<open>self.anchors[label]\<close> panics on a missing key, which the model records as \<open>None\<close>.
  \<open>embedder\<close> is the resident model; its error is the message it displays.
\<close>

fun embed_texts ::
  "(string \<Rightarrow> string + flt list) \<Rightarrow> string \<Rightarrow> string list \<Rightarrow> taxonomy_error + flt list list" where
  "embed_texts embedder label [] = Inr []"
| "embed_texts embedder label (t # ts) =
     (case embedder t of
        Inl e \<Rightarrow> Inl (InvalidDefinition (''failed to embed anchor for '' @ [CHR 0x27] @ label @ [CHR 0x27] @ '': '' @ e))
      | Inr v \<Rightarrow> (case embed_texts embedder label ts of Inl e \<Rightarrow> Inl e | Inr vs \<Rightarrow> Inr (v # vs)))"

fun embed_labels ::
  "(string \<Rightarrow> string + flt list) \<Rightarrow> (string \<times> string list) list \<Rightarrow> string list \<Rightarrow>
     (taxonomy_error + anchor_set list) option" where
  "embed_labels embedder anchors [] = Some (Inr [])"
| "embed_labels embedder anchors (label # ls) =
     (case map_of anchors label of
        None \<Rightarrow> None
      | Some texts \<Rightarrow>
          (case embed_texts embedder label texts of
             Inl e \<Rightarrow> Some (Inl e)
           | Inr vs \<Rightarrow>
               (case embed_labels embedder anchors ls of
                  None \<Rightarrow> None
                | Some (Inl e) \<Rightarrow> Some (Inl e)
                | Some (Inr sets) \<Rightarrow> Some (Inr (\<lparr>anchor_label = label, anchor_vectors = vs\<rparr> # sets)))))"

definition embed_anchors ::
  "(string \<Rightarrow> string + flt list) \<Rightarrow> classifier_definition \<Rightarrow> (taxonomy_error + anchor_set list) option" where
  "embed_anchors embedder d = embed_labels embedder (cd_anchors d) (cd_labels d)"

section \<open>Properties\<close>

lemma check_labels_iff:
  "check_labels anchors ls = Inr () \<longleftrightarrow> (\<forall>l\<in>set ls. \<exists>a. map_of anchors l = Some a \<and> a \<noteq> [])"
  by (induction ls) (auto split: option.splits)

lemma check_groups_iff: "check_groups labels keys = Inr () \<longleftrightarrow> set keys \<subseteq> set labels"
  by (induction keys) auto

definition valid_definition :: "classifier_definition \<Rightarrow> bool" where
  "valid_definition d \<longleftrightarrow>
     cd_labels d \<noteq> [] \<and> cd_top_k d \<noteq> 0 \<and>
     list_all (\<lambda>l. case map_of (cd_anchors d) l of None \<Rightarrow> False | Some a \<Rightarrow> a \<noteq> []) (cd_labels d) \<and>
     set (List.map fst (cd_anchors d)) \<subseteq> set (cd_labels d)"

text \<open>
  A definition is accepted exactly when it declares labels, \<open>top_k\<close> is
  positive, every label has at least one anchor and every anchor group is a label.
\<close>

theorem definition_validated_exactly:
  "(validate_definition d = Inr ()) = valid_definition d"
  by (auto simp: validate_definition_def valid_definition_def bind_res_Inr_iff check_labels_iff
      check_groups_iff list_all_iff split: option.splits)

lemma embed_texts_length: "embed_texts embedder label ts = Inr vs \<Longrightarrow> length vs = length ts"
  by (induction ts arbitrary: vs) (auto split: sum.splits)

lemma embed_labels_defined:
  "\<forall>l\<in>set ls. \<exists>a. map_of anchors l = Some a \<and> a \<noteq> [] \<Longrightarrow>
     \<exists>r. embed_labels embedder anchors ls = Some r \<and>
       (\<forall>sets. r = Inr sets \<longrightarrow> List.map anchor_label sets = ls \<and>
          list_all (\<lambda>s. length (anchor_vectors s) = length (the (map_of anchors (anchor_label s))) \<and>
                        anchor_vectors s \<noteq> []) sets)"
proof (induction ls)
  case (Cons l ls)
  then obtain a r where a: "map_of anchors l = Some a" "a \<noteq> []"
    and r: "embed_labels embedder anchors ls = Some r"
      "\<forall>sets. r = Inr sets \<longrightarrow> List.map anchor_label sets = ls \<and>
          list_all (\<lambda>s. length (anchor_vectors s) = length (the (map_of anchors (anchor_label s))) \<and>
                        anchor_vectors s \<noteq> []) sets" by auto
  show ?case
  proof (cases "embed_texts embedder l a")
    case (Inl e)
    then show ?thesis using a by simp
  next
    case (Inr vs)
    then have "length vs = length a" by (rule embed_texts_length)
    moreover from this a(2) have "vs \<noteq> []" by auto
    ultimately show ?thesis using a r Inr by (cases r) auto
  qed
qed simp

text \<open>
  For a validated definition the anchors of every label are found, so embedding them never
  panics; when the model embeds them all, the result has one set per label, in label
  order, each with one vector per anchor text and none empty.
\<close>

theorem embed_anchors_total:
  assumes "validate_definition d = Inr ()"
  shows "\<exists>r. embed_anchors embedder d = Some r \<and>
    (case r of
       Inl e \<Rightarrow> \<exists>m. e = InvalidDefinition m
     | Inr sets \<Rightarrow> List.map anchor_label sets = cd_labels d \<and>
         list_all (\<lambda>s. length (anchor_vectors s) = length (the (map_of (cd_anchors d) (anchor_label s))) \<and>
                       anchor_vectors s \<noteq> []) sets)"
proof -
  have "\<forall>l\<in>set (cd_labels d). \<exists>a. map_of (cd_anchors d) l = Some a \<and> a \<noteq> []"
    using assms by (auto simp: validate_definition_def bind_res_Inr_iff check_labels_iff split: if_splits)
  from embed_labels_defined [OF this, of embedder] obtain r where r: "embed_anchors embedder d = Some r"
    "\<forall>sets. r = Inr sets \<longrightarrow> List.map anchor_label sets = cd_labels d \<and>
          list_all (\<lambda>s. length (anchor_vectors s) = length (the (map_of (cd_anchors d) (anchor_label s))) \<and>
                        anchor_vectors s \<noteq> []) sets"
    unfolding embed_anchors_def by blast
  have texts: "\<exists>m. e = InvalidDefinition m" if "embed_texts embedder l ts = Inl e" for l ts e
    using that by (induction ts) (auto split: sum.splits)
  have "\<exists>m. e = InvalidDefinition m" if "embed_labels embedder anchors ls = Some (Inl e)" for anchors ls e
    using that by (induction ls) (auto split: sum.splits option.splits dest: texts)
  with r show ?thesis by (cases r) (auto simp: embed_anchors_def)
qed

definition demo_definition :: classifier_definition where
  "demo_definition = \<lparr>cd_classifier_id = ''c'', cd_signal = ''complexity'', cd_taxonomy_revision = ''r1'',
     cd_model_repo = ''m'', cd_model_revision = ''v1'', cd_top_k = 3, cd_labels = [''HIGH'', ''LOW''],
     cd_anchors = [(''HIGH'', [''prove it'']), (''LOW'', [''hi'', ''thanks''])]\<rparr>"

theorem embed_anchors_total_witness:
  "validate_definition demo_definition = Inr () \<and>
   (\<exists>sets. embed_anchors (\<lambda>t. Inr [Fin (real (length t))]) demo_definition = Some (Inr sets) \<and>
      List.map anchor_label sets = [''HIGH'', ''LOW''])"
proof -
  have valid: "validate_definition demo_definition = Inr ()"
    by (simp add: validate_definition_def demo_definition_def)
  obtain sets where "embed_anchors (\<lambda>t. Inr [Fin (real (length t))]) demo_definition = Some (Inr sets)"
    by (simp add: embed_anchors_def demo_definition_def)
  with embed_anchors_total [OF valid, of "\<lambda>t. Inr [Fin (real (length t))]"] valid show ?thesis
    by (auto simp: demo_definition_def)
qed

text \<open>
  A built-in name always means the compiled-in definition, even when a file of that name
  exists; any other name is a file or is rejected; whatever is returned has passed
  validation.
\<close>

theorem resolve_cases:
  "(spec \<in> set built_in_names \<longrightarrow> resolve json compiled is_file read spec = parse_definition json (compiled spec)) \<and>
   (spec \<notin> set built_in_names \<longrightarrow> \<not> is_file spec \<longrightarrow>
      resolve json compiled is_file read spec = Inl (UnknownClassifier spec)) \<and>
   (\<forall>d. resolve json compiled is_file read spec = Inr d \<longrightarrow> valid_definition d)"
proof -
  have "valid_definition d" if "parse_definition json raw = Inr d" for raw d
    using that definition_validated_exactly [of d]
    by (auto simp: parse_definition_def bind_res_Inr_iff)
  then show ?thesis
    by (auto simp: resolve_def built_in_def built_in_names_def load_definition_def bind_res_Inr_iff
        split: if_splits)
qed

theorem resolve_cases_witness:
  "resolve (\<lambda>_. Inr demo_definition) (\<lambda>_. ''{}'') (\<lambda>_. True) (\<lambda>_. Inl ''no'') ''cost''
     = parse_definition (\<lambda>_. Inr demo_definition) ''{}''"
proof -
  have "''cost'' \<in> set built_in_names" by (simp add: built_in_names_def)
  with resolve_cases [of "''cost''" "\<lambda>_. Inr demo_definition" "\<lambda>_. ''{}''" "\<lambda>_. True" "\<lambda>_. Inl ''no''"]
  show ?thesis by blast
qed

end
