(* ===== verification/Backends.thy ===== *)
theory Backends
  imports ServiceCore Ranker Head Taxonomy
begin

text \<open>
  The two implementations of \<open>ClassifierRuntime\<close> in \<open>src/src/classify.rs\<close>: the deterministic
  \<open>ClassifyService\<close> and the model-backed \<open>CandleClassifier\<close>. The tokenizer and the model
  are libraries, parameters of the records. The time a stage took is a parameter too, as
  is the order the standard library's sort leaves when the comparator is not total on the
  list (it promises none); a panic of that sort is not modelled.
\<close>

section \<open>Shared definitions\<close>

definition CLASSIFIER_ID :: string where "CLASSIFIER_ID = ''sensitivity-synthetic''"

definition MODEL_REVISION :: string where "MODEL_REVISION = ''synthetic-for-mechanics-only''"

definition TOKENIZER_REVISION :: string where "TOKENIZER_REVISION = ''tokenizer-fixture''"

definition TAXONOMY_REVISION :: string where "TAXONOMY_REVISION = ''synthetic-prototypes''"

definition SYNTHETIC_DIM :: nat where "SYNTHETIC_DIM = 384"

definition signals_of :: "(string \<times> flt) list \<Rightarrow> ranked_signal list" where
  "signals_of ranked = List.map (\<lambda>(i, s). \<lparr>sig_id = i, score = s\<rparr>) ranked"

definition sorted_or :: "(string \<times> flt) list \<Rightarrow> (string \<times> flt) list option \<Rightarrow> (string \<times> flt) list" where
  "sorted_or unspecified r = (case r of Some xs \<Rightarrow> xs | None \<Rightarrow> unspecified)"

section \<open>The deterministic service\<close>

record classify_service =
  cs_tokenize :: "string \<Rightarrow> string + nat list"
  cs_prototypes :: "prototype list"
  cs_tokenize_ns :: "string \<Rightarrow> nat"
  cs_rank_ns :: "flt list \<Rightarrow> nat"
  cs_unspecified :: "(string \<times> flt) list"

definition cs_metadata :: runtime_metadata where
  "cs_metadata =
     \<lparr>meta_classifier_id = CLASSIFIER_ID, meta_signal = ''sensitivity'',
      meta_model_revision = MODEL_REVISION, meta_tokenizer_revision = TOKENIZER_REVISION,
      meta_taxonomy_revision = TAXONOMY_REVISION, meta_artifact_digest = None,
      meta_ranking_mode = AnchorCosine\<rparr>"

definition bump :: "flt list \<Rightarrow> nat \<Rightarrow> flt list" where
  "bump v tok = v[tok mod SYNTHETIC_DIM := fadd round32 (v ! (tok mod SYNTHETIC_DIM)) (Fin 1)]"

definition token_vector :: "nat list \<Rightarrow> flt list" where
  "token_vector ids = foldl bump (replicate SYNTHETIC_DIM (Fin 0)) ids"

definition cs_embed ::
  "classify_service \<Rightarrow> classification_input \<Rightarrow> unit \<times> metrics \<Rightarrow> (classify_error + embedding) \<times> unit \<times> metrics" where
  "cs_embed cs inp st =
     (let context = trim (in_text inp)
      in case cs_tokenize cs context of
           Inl e \<Rightarrow> (Inl (TokenizerError e), st)
         | Inr ids \<Rightarrow>
             (Inr (embedding_new (token_vector ids)),
              fst st, record_stage StageTokenize (cs_tokenize_ns cs context) (snd st)))"

definition cs_rank ::
  "classify_service \<Rightarrow> embedding \<Rightarrow> classification_input \<Rightarrow> unit \<times> metrics \<Rightarrow> outcome \<times> unit \<times> metrics" where
  "cs_rank cs emb inp st =
     (let ranked = signals_of (sorted_or (cs_unspecified cs) (cosine_rank (vector emb) (cs_prototypes cs)))
      in (Inr \<lparr>res_classifier_id = CLASSIFIER_ID, res_model_revision = MODEL_REVISION,
               res_tokenizer_revision = TOKENIZER_REVISION, res_taxonomy_revision = TAXONOMY_REVISION,
               res_status = Ok, res_ranked = ranked\<rparr>,
          fst st, record_stage StageForward (cs_rank_ns cs (vector emb)) (snd st)))"

definition cs_runtime :: "classify_service \<Rightarrow> unit runtime_ops" where
  "cs_runtime cs = \<lparr>op_metadata = cs_metadata, op_embed = cs_embed cs, op_rank = cs_rank cs\<rparr>"

section \<open>The model-backed classifier\<close>

record resident_taxonomy =
  rt_classifier_id :: string
  rt_signal :: string
  rt_taxonomy_revision :: string
  rt_model_revision :: string
  rt_tokenizer_revision :: string
  rt_artifact_digest :: "string option"
  rt_top_k :: nat
  rt_anchors :: "anchor_set list"

record embedder_ops =
  em_tokenize :: "string \<Rightarrow> string + nat list"
  em_embed :: "string \<Rightarrow> string + flt list"
  em_embed_and_classify :: "nat list \<Rightarrow> string + (flt list \<times> flt list option)"
  em_labels :: "string list option"

record candle_classifier =
  cl_embedder :: embedder_ops
  cl_prototypes :: "prototype list"
  cl_taxonomy :: "resident_taxonomy option"
  cl_exp :: "flt \<Rightarrow> flt"
  cl_tokenize_ns :: "string \<Rightarrow> nat"
  cl_forward_ns :: "nat list \<Rightarrow> nat"
  cl_unspecified :: "(string \<times> flt) list"

record candle_counters =
  tokenizer_calls :: nat
  forward_calls :: nat

definition candle_new :: "embedder_ops \<Rightarrow> prototype list \<Rightarrow> (flt \<Rightarrow> flt) \<Rightarrow> candle_classifier" where
  "candle_new em protos fexp =
     \<lparr>cl_embedder = em, cl_prototypes = protos, cl_taxonomy = None, cl_exp = fexp,
      cl_tokenize_ns = (\<lambda>_. 0), cl_forward_ns = (\<lambda>_. 0), cl_unspecified = []\<rparr>"

definition show_taxonomy_error :: "taxonomy_error \<Rightarrow> string" where
  "show_taxonomy_error e =
     (case e of
        UnknownClassifier n \<Rightarrow>
          ''unknown classifier '' @ [CHR 0x27] @ n @ [CHR 0x27] @
          '': expected one of complexity, cost, sensitivity or a path to a definition JSON''
      | TaxonomyIo m \<Rightarrow> ''classifier definition io error: '' @ m
      | TaxonomyJson m \<Rightarrow> ''classifier definition json error: '' @ m
      | InvalidDefinition m \<Rightarrow> ''invalid classifier definition: '' @ m)"

text \<open>
  The anchors are embedded with \<open>Embedder::embed\<close>; \<open>None\<close> is the panic of a missing
  anchor group, which validation rules out.
\<close>

definition candle_with_taxonomy ::
  "embedder_ops \<Rightarrow> classifier_definition \<Rightarrow> (flt \<Rightarrow> flt) \<Rightarrow> string option \<Rightarrow>
     (classify_error + candle_classifier) option" where
  "candle_with_taxonomy em d fexp digest =
     (case embed_anchors (em_embed em) d of
        None \<Rightarrow> None
      | Some (Inl e) \<Rightarrow> Some (Inl (EmbeddingFailed (show_taxonomy_error e)))
      | Some (Inr anchors) \<Rightarrow>
          Some (Inr ((candle_new em [] fexp)\<lparr>cl_taxonomy :=
            Some \<lparr>rt_classifier_id = cd_classifier_id d, rt_signal = cd_signal d,
                  rt_taxonomy_revision = cd_taxonomy_revision d, rt_model_revision = cd_model_revision d,
                  rt_tokenizer_revision = cd_model_revision d, rt_artifact_digest = digest,
                  rt_top_k = cd_top_k d, rt_anchors = anchors\<rparr>\<rparr>)))"

definition candle_ranking_mode :: "candle_classifier \<Rightarrow> ranking_mode" where
  "candle_ranking_mode cl = (case em_labels (cl_embedder cl) of Some _ \<Rightarrow> TrainedHead | None \<Rightarrow> AnchorCosine)"

definition candle_metadata :: "candle_classifier \<Rightarrow> runtime_metadata" where
  "candle_metadata cl =
     (case cl_taxonomy cl of
        Some t \<Rightarrow>
          \<lparr>meta_classifier_id = rt_classifier_id t, meta_signal = rt_signal t,
           meta_model_revision = rt_model_revision t, meta_tokenizer_revision = rt_tokenizer_revision t,
           meta_taxonomy_revision = rt_taxonomy_revision t, meta_artifact_digest = rt_artifact_digest t,
           meta_ranking_mode = candle_ranking_mode cl\<rparr>
      | None \<Rightarrow> cs_metadata)"

definition candle_embed ::
  "candle_classifier \<Rightarrow> classification_input \<Rightarrow> candle_counters \<times> metrics \<Rightarrow>
     (classify_error + embedding) \<times> candle_counters \<times> metrics" where
  "candle_embed cl inp st =
     (let text = trim (in_text inp);
          n1 = (fst st)\<lparr>tokenizer_calls := tokenizer_calls (fst st) + 1\<rparr>
      in case em_tokenize (cl_embedder cl) text of
           Inl e \<Rightarrow> (Inl (EmbeddingFailed e), n1, snd st)
         | Inr ids \<Rightarrow>
             (let m1 = record_stage StageTokenize (cl_tokenize_ns cl text) (snd st);
                  n2 = n1\<lparr>forward_calls := forward_calls n1 + 1\<rparr>
              in case em_embed_and_classify (cl_embedder cl) ids of
                   Inl e \<Rightarrow> (Inl (EmbeddingFailed e), n2, m1)
                 | Inr (v, ls) \<Rightarrow>
                     (Inr (embedding_with_logits v ls), n2,
                      record_stage StageForward (cl_forward_ns cl ids) m1)))"

text \<open>The identity a result of this classifier carries.\<close>

definition candle_identity :: "candle_classifier \<Rightarrow> string \<times> string \<times> string \<times> string" where
  "candle_identity cl =
     (case cl_taxonomy cl of
        Some t \<Rightarrow> (rt_classifier_id t, rt_model_revision t, rt_tokenizer_revision t, rt_taxonomy_revision t)
      | None \<Rightarrow> (CLASSIFIER_ID, MODEL_REVISION, TOKENIZER_REVISION, TAXONOMY_REVISION))"

definition candle_result :: "candle_classifier \<Rightarrow> (string \<times> flt) list \<Rightarrow> classification_result" where
  "candle_result cl ranked =
     (case candle_identity cl of (cid, mrev, krev, xrev) \<Rightarrow>
        \<lparr>res_classifier_id = cid, res_model_revision = mrev, res_tokenizer_revision = krev,
         res_taxonomy_revision = xrev, res_status = Ok, res_ranked = signals_of ranked\<rparr>)"

definition truncate_top :: "candle_classifier \<Rightarrow> 'a list \<Rightarrow> 'a list" where
  "truncate_top cl xs =
     (case cl_taxonomy cl of
        Some t \<Rightarrow> if 0 < rt_top_k t \<and> rt_top_k t < length xs then take (rt_top_k t) xs else xs
      | None \<Rightarrow> xs)"

definition rank_from_head :: "candle_classifier \<Rightarrow> flt list \<Rightarrow> string list \<Rightarrow> classification_result" where
  "rank_from_head cl ls labels =
     (let probs = softmax (cl_exp cl) ls;
          ranked = sorted_or (cl_unspecified cl) (sort_by rank_cmp (zip labels probs))
      in candle_result cl (truncate_top cl ranked))"

definition rank_from_anchors :: "candle_classifier \<Rightarrow> flt list \<Rightarrow> classification_result" where
  "rank_from_anchors cl v =
     candle_result cl (sorted_or (cl_unspecified cl)
       (case cl_taxonomy cl of
          Some t \<Rightarrow> anchor_rank v (rt_anchors t) (rt_top_k t)
        | None \<Rightarrow> cosine_rank v (cl_prototypes cl)))"

definition candle_rank_result :: "candle_classifier \<Rightarrow> embedding \<Rightarrow> classification_result" where
  "candle_rank_result cl emb =
     (case (logits emb, em_labels (cl_embedder cl)) of
        (Some ls, Some labels) \<Rightarrow>
          if length ls = length labels then rank_from_head cl ls labels
          else rank_from_anchors cl (vector emb)
      | _ \<Rightarrow> rank_from_anchors cl (vector emb))"

definition candle_rank ::
  "candle_classifier \<Rightarrow> embedding \<Rightarrow> classification_input \<Rightarrow> candle_counters \<times> metrics \<Rightarrow>
     outcome \<times> candle_counters \<times> metrics" where
  "candle_rank cl emb inp st = (Inr (candle_rank_result cl emb), st)"

definition candle_runtime :: "candle_classifier \<Rightarrow> candle_counters runtime_ops" where
  "candle_runtime cl = \<lparr>op_metadata = candle_metadata cl, op_embed = candle_embed cl, op_rank = candle_rank cl\<rparr>"

section \<open>Provenance of results\<close>

lemma candle_result_simps [simp]:
  "result_revisions (candle_result cl ranked) = meta_revisions (candle_metadata cl)"
  "res_status (candle_result cl ranked) = Ok"
  "res_ranked (candle_result cl ranked) = signals_of ranked"
  by (simp_all add: candle_result_def candle_identity_def candle_metadata_def result_revisions_def
      meta_revisions_def cs_metadata_def split: option.split prod.split)

lemma candle_rank_revisions:
  "result_revisions (candle_rank_result cl emb) = meta_revisions (candle_metadata cl)"
  by (simp add: candle_rank_result_def rank_from_head_def rank_from_anchors_def Let_def split: option.split)

lemma cs_rank_revisions:
  "cs_rank cs emb inp st = (Inr r, st') \<Longrightarrow> result_revisions r = meta_revisions cs_metadata"
  by (auto simp: cs_rank_def Let_def result_revisions_def meta_revisions_def cs_metadata_def)

text \<open>
  Every result of either backend reports the identity of the runtime that computed it,
  whichever decision rule ranked it.
\<close>

theorem backend_results_carry_identity:
  "(op_rank (candle_runtime cl) emb inp st = (Inr r, st') \<longrightarrow>
      result_revisions r = meta_revisions (op_metadata (candle_runtime cl))) \<and>
   (op_rank (cs_runtime cs) emb inp st2 = (Inr r, st2') \<longrightarrow>
      result_revisions r = meta_revisions (op_metadata (cs_runtime cs)))"
  using candle_rank_revisions [of cl emb] cs_rank_revisions
  by (auto simp: candle_runtime_def candle_rank_def cs_runtime_def)

definition demo_service :: classify_service where
  "demo_service = \<lparr>cs_tokenize = (\<lambda>s. Inr [length s]), cs_prototypes = [], cs_tokenize_ns = (\<lambda>_. 5),
     cs_rank_ns = (\<lambda>_. 7), cs_unspecified = []\<rparr>"

definition demo_embedder :: embedder_ops where
  "demo_embedder = \<lparr>em_tokenize = (\<lambda>s. Inr [length s]), em_embed = (\<lambda>_. Inr [Fin 0]), em_embed_and_classify = (\<lambda>_. Inr ([Fin 0], Some [NInf, Fin 0])),
     em_labels = Some [''a'', ''b'']\<rparr>"

definition demo_request :: classification_input where
  "demo_request = \<lparr>in_text = '' hi '', requested_signals = [], session_metadata = Map.empty, completeness = Full\<rparr>"

theorem backend_results_carry_identity_witness:
  "\<exists>r st'. op_rank (cs_runtime demo_service) (embedding_new [Fin 0]) demo_request ((), metrics_new) = (Inr r, st') \<and>
     result_revisions r = meta_revisions cs_metadata"
proof -
  obtain r st' where r: "op_rank (cs_runtime demo_service) (embedding_new [Fin 0]) demo_request ((), metrics_new) = (Inr r, st')"
    by (simp add: cs_runtime_def cs_rank_def Let_def)
  have "result_revisions r = meta_revisions (op_metadata (cs_runtime demo_service))"
    using backend_results_carry_identity [where cl = "candle_new demo_embedder [] exp_ieee"
        and emb = "embedding_new [Fin 0]" and inp = demo_request and cs = demo_service
        and ?st2.0 = "((), metrics_new)" and st2' = st' and r = r] r by blast
  then have "result_revisions r = meta_revisions cs_metadata" by (simp add: cs_runtime_def)
  with r show ?thesis by blast
qed

section \<open>The synthetic embedding\<close>

lemma length_token_vector [simp]: "length (foldl bump v ids) = length v"
  by (induction ids arbitrary: v) (simp_all add: bump_def)

text \<open>
  The synthetic embedding has 384 components, and component \<open>i\<close> is exactly
  the number of token ids congruent to \<open>i\<close> modulo 384 (up to \<open>2 ^
  24\<close> tokens, where a float still counts exactly); the order of the tokens is
  irrelevant.
\<close>

theorem token_vector_counts:
  assumes "length ids \<le> 2 ^ 24"
  shows "token_vector ids =
    List.map (\<lambda>i. Fin (real (length (filter (\<lambda>t. t mod SYNTHETIC_DIM = i) ids)))) [0..<SYNTHETIC_DIM]"
proof -
  have len: "length (token_vector ids) = SYNTHETIC_DIM" for ids
    by (simp add: token_vector_def)
  have "token_vector ids ! i = Fin (real (length (filter (\<lambda>t. t mod SYNTHETIC_DIM = i) ids)))"
    if i: "i < SYNTHETIC_DIM" for i
    using assms
  proof (induction ids rule: rev_induct)
    case Nil
    then show ?case using i by (simp add: token_vector_def)
  next
    case (snoc t ids)
    have pos: "t mod SYNTHETIC_DIM < SYNTHETIC_DIM" by (simp add: SYNTHETIC_DIM_def)
    define n where "n = length (filter (\<lambda>t. t mod SYNTHETIC_DIM = i) ids)"
    have le: "n \<le> length ids" by (simp add: n_def)
    have "n + 1 \<le> 2 ^ 24" using le snoc.prems by simp
    then have "round32 (real n + 1) = Fin (real n + 1)"
      using f32.rnd_nat [of "n + 1"] by (simp add: add.commute)
    moreover have "token_vector (ids @ [t]) = bump (token_vector ids) t"
      by (simp add: token_vector_def)
    moreover have "token_vector ids ! i = Fin (real n)" using snoc by (simp add: n_def)
    ultimately show ?case
      using i pos len [of ids] by (auto simp: bump_def nth_list_update n_def add.commute)
  qed
  then show ?thesis by (intro nth_equalityI) (simp_all add: len)
qed

theorem token_vector_counts_witness:
  "token_vector [3, 387, 3] ! 3 = Fin 3"
  using token_vector_counts [of "[3, 387, 3]"] by (simp add: SYNTHETIC_DIM_def)

section \<open>The trained head\<close>

lemma rank_ordered_take: "rank_ordered xs \<Longrightarrow> rank_ordered (take n xs)"
  unfolding rank_ordered_def by (rule sorted_wrt_take)

text \<open>
  On finite logits, one per label, the head's ranking is a permutation of the label scores
  cut to the taxonomy's \<open>top_k\<close>: scores are probabilities in descending
  order, ties in label order.
\<close>

theorem head_ranking:
  assumes "em_labels (cl_embedder cl) = Some labels" and "logits emb = Some (List.map Fin xs)"
    and "length xs = length labels" and "xs \<noteq> []" and "length xs \<le> 2 ^ 24" and "cl_exp cl = exp_ieee"
  shows "\<exists>ps ys. set ps \<subseteq> {0..1} \<and> length ps = length labels \<and>
    mset ys = mset (zip labels (List.map Fin ps)) \<and> rank_ordered ys \<and>
    res_ranked (candle_rank_result cl emb) = signals_of (truncate_top cl ys) \<and>
    rank_ordered (truncate_top cl ys) \<and> res_status (candle_rank_result cl emb) = Ok"
proof -
  from ieee.softmax_probabilities [OF assms(4,5)] obtain ps
    where ps: "softmax exp_ieee (List.map Fin xs) = List.map Fin ps" "length ps = length xs" "set ps \<subseteq> {0..1}"
    by blast
  have "\<forall>p\<in>set (zip labels (List.map Fin ps)). snd p \<noteq> NaN"
    by (auto dest!: set_zip_rightD)
  from rank_sort_ordered [OF this] obtain ys
    where ys: "sort_by rank_cmp (zip labels (List.map Fin ps)) = Some ys"
      "mset ys = mset (zip labels (List.map Fin ps))" "rank_ordered ys" by blast
  have "candle_rank_result cl emb = candle_result cl (truncate_top cl ys)"
    unfolding candle_rank_result_def assms(1,2) using assms(3)
    by (simp add: rank_from_head_def sorted_or_def assms(6) ps(1) ys(1))
  moreover have "rank_ordered (truncate_top cl ys)"
    using ys(3) rank_ordered_take by (auto simp: truncate_top_def split: option.split)
  ultimately show ?thesis using ps(2,3) ys(2,3) assms(3) by (intro exI [of _ ps] exI [of _ ys]) (simp only: candle_result_simps)
qed

theorem head_ranking_witness:
  "\<exists>ps ys. set ps \<subseteq> {0..1} \<and> length ps = 2 \<and> mset ys = mset (zip [''a'', ''b''] (List.map Fin ps)) \<and> rank_ordered ys \<and>
    res_ranked (candle_rank_result (candle_new demo_embedder [] exp_ieee)
      (embedding_with_logits [] (Some (List.map Fin [1, 2])))) = signals_of ys"
proof -
  define cl where "cl = candle_new demo_embedder [] exp_ieee"
  have cl: "em_labels (cl_embedder cl) = Some [''a'', ''b'']" "cl_exp cl = exp_ieee" "\<And>xs. truncate_top cl xs = xs"
    by (simp_all add: cl_def candle_new_def demo_embedder_def truncate_top_def)
  have emb: "logits (embedding_with_logits [] (Some (List.map Fin [1, 2]))) = Some (List.map Fin [1, 2])"
    by (simp add: embedding_with_logits_def)
  from head_ranking [OF cl(1) emb _ _ _ cl(2)] obtain ps ys where
    "set ps \<subseteq> {0..1}" "length ps = length [''a'', ''b'']" "mset ys = mset (zip [''a'', ''b''] (List.map Fin ps))"
    "rank_ordered ys"
    "res_ranked (candle_rank_result cl (embedding_with_logits [] (Some (List.map Fin [1, 2])))) = signals_of ys"
    unfolding cl(3) by force
  then show ?thesis unfolding cl_def [symmetric] by (intro exI [of _ ps] exI [of _ ys]) simp
qed

text \<open>
  The reported decision rule follows the label map alone: a head whose width disagrees
  with its labels is ranked by anchors while the metadata still says
  \<open>trained_head\<close>.
\<close>

theorem ranking_mode_ignores_width:
  assumes "em_labels (cl_embedder cl) = Some labels" and "logits emb = Some ls"
    and "length ls \<noteq> length labels" and "cl_taxonomy cl = Some t"
  shows "meta_ranking_mode (candle_metadata cl) = TrainedHead \<and>
    candle_rank_result cl emb = rank_from_anchors cl (vector emb)"
  using assms by (simp add: candle_metadata_def candle_ranking_mode_def candle_rank_result_def)

definition demo_taxonomy :: resident_taxonomy where
  "demo_taxonomy = \<lparr>rt_classifier_id = ''complexity'', rt_signal = ''complexity'', rt_taxonomy_revision = ''t1'',
     rt_model_revision = ''m1'', rt_tokenizer_revision = ''m1'', rt_artifact_digest = None, rt_top_k = 3,
     rt_anchors = []\<rparr>"

theorem ranking_mode_ignores_width_witness:
  "meta_ranking_mode (candle_metadata ((candle_new demo_embedder [] exp_ieee)\<lparr>cl_taxonomy := Some demo_taxonomy\<rparr>)) = TrainedHead \<and>
   candle_rank_result ((candle_new demo_embedder [] exp_ieee)\<lparr>cl_taxonomy := Some demo_taxonomy\<rparr>)
     (embedding_with_logits [] (Some [Fin 1]))
   = rank_from_anchors ((candle_new demo_embedder [] exp_ieee)\<lparr>cl_taxonomy := Some demo_taxonomy\<rparr>) []"
  using ranking_mode_ignores_width [of "(candle_new demo_embedder [] exp_ieee)\<lparr>cl_taxonomy := Some demo_taxonomy\<rparr>"
      "[''a'', ''b'']" "embedding_with_logits [] (Some [Fin 1])" "[Fin 1]" demo_taxonomy]
  by (simp add: candle_new_def demo_embedder_def embedding_with_logits_def)

text \<open>
  A classifier built from a validated definition and a model that embeds every anchor
  reports the definition's id, signal and taxonomy revision, uses the model revision for
  the tokenizer as well, carries the digest, and ranks one anchor set per label.
\<close>

theorem taxonomy_classifier_identity:
  assumes "validate_definition d = Inr ()"
  shows "\<exists>r. candle_with_taxonomy em d fexp digest = Some r \<and>
    (case r of
       Inl e \<Rightarrow> \<exists>m. e = EmbeddingFailed m
     | Inr cl \<Rightarrow>
         cache_identity (candle_metadata cl) =
           (cd_classifier_id d, cd_model_revision d, cd_model_revision d, cd_taxonomy_revision d, digest) \<and>
         meta_signal (candle_metadata cl) = cd_signal d \<and>
         (\<exists>t. cl_taxonomy cl = Some t \<and> List.map anchor_label (rt_anchors t) = cd_labels d \<and> rt_top_k t \<noteq> 0))"
proof -
  have topk: "cd_top_k d \<noteq> 0" using assms by (auto simp: validate_definition_def split: if_splits)
  have found: "\<forall>l\<in>set (cd_labels d). \<exists>a. map_of (cd_anchors d) l = Some a \<and> a \<noteq> []"
    using assms by (auto simp: validate_definition_def bind_res_Inr_iff check_labels_iff split: if_splits)
  from embed_labels_defined [OF found, of "em_embed em"] obtain r
    where r: "embed_anchors (em_embed em) d = Some r"
      "\<forall>sets. r = Inr sets \<longrightarrow> List.map anchor_label sets = cd_labels d"
    unfolding embed_anchors_def by blast
  then show ?thesis
    using topk by (cases r) (simp_all add: candle_with_taxonomy_def cache_identity_def candle_metadata_def)
qed

theorem taxonomy_classifier_identity_witness:
  "\<exists>r. candle_with_taxonomy demo_embedder demo_definition exp_ieee (Some ''d'') = Some (Inr r) \<and>
     meta_signal (candle_metadata r) = ''complexity''"
proof -
  have valid: "validate_definition demo_definition = Inr ()"
    by (simp add: validate_definition_def demo_definition_def)
  obtain cl where cl: "candle_with_taxonomy demo_embedder demo_definition exp_ieee (Some ''d'') = Some (Inr cl)"
    by (simp add: candle_with_taxonomy_def embed_anchors_def demo_definition_def demo_embedder_def)
  with taxonomy_classifier_identity [OF valid, of demo_embedder exp_ieee "Some ''d''"] show ?thesis
    by (auto simp: demo_definition_def)
qed

end
