(* ===== verification/FloatRange.thy ===== *)
theory FloatRange
  imports Floats
begin

text \<open>
  Ranges of double-precision results: which values are exact, that rounding is odd and
  cannot leave a range whose ends are exact, and the bounds of sums of many terms. The
  single-precision values are those that rounding to \<open>f32\<close> leaves alone.
\<close>

section \<open>Exact values\<close>

lemma round_at_multiple:
  assumes "e' \<le> e" shows "round_at e' (of_int n * 2 powi e) = of_int n * 2 powi e"
proof -
  define m where "m = n * 2 ^ nat (e - e')"
  have "(2 :: real) powi e = 2 powi (e - e') * 2 powi e'" by (simp flip: power_int_add)
  moreover have "(2 :: real) powi (e - e') = 2 ^ nat (e - e')" using assms by (simp add: power_int_def)
  ultimately have m: "of_int n * 2 powi e = of_int m * (2 powi e' :: real)" by (simp add: m_def)
  show ?thesis unfolding m round_at_def by simp
qed

lemma log2_scaled:
  assumes "0 < n" and "n < 2 ^ 53"
  shows "\<lfloor>log 2 (real n * 2 powi e)\<rfloor> \<le> 52 + e"
proof -
  have "real n * 2 powi e < 2 ^ 53 * 2 powi e"
    using assms(2) by (intro mult_strict_right_mono) simp_all
  also have "(2 :: real) ^ 53 * 2 powi e = 2 powi (53 + e)" by (simp add: power_int_add)
  also have "\<dots> = 2 powr of_int (53 + e)"
    by (rule powr_real_of_int' [symmetric]) simp_all
  finally have "log 2 (real n * 2 powi e) < of_int (53 + e)"
    using assms(1) by (simp add: log_less_iff)
  then show ?thesis by linarith
qed

text \<open>A multiple of a power of two with at most 53 significant bits is exact.\<close>

lemma round64_scaled:
  assumes "n < 2 ^ 53" and "- 1074 \<le> e" and "e \<le> 970"
  shows "round64 (real n * 2 powi e) = Fin (real n * 2 powi e)"
proof (cases "n = 0")
  case True
  then show ?thesis by simp
next
  case False
  define x where "x = real n * 2 powi e"
  have x: "0 < x" using False by (simp add: x_def)
  have "ulp_exp 53 (- 1074) x \<le> e"
    using log2_scaled [of n e] False assms(1,2) x by (simp add: ulp_exp_def flip: x_def)
  from round_at_multiple [OF this, of "int n"] have r: "round_at (ulp_exp 53 (- 1074) x) x = x"
    by (simp add: x_def)
  have "x < 2 ^ 53 * 2 powi e" unfolding x_def using assms(1) by (intro mult_strict_right_mono) simp_all
  also have "\<dots> = 2 powi (53 + e)" by (simp add: power_int_add)
  also have "\<dots> \<le> 2 powi 1024" using assms(3) by (intro power_int_increasing) simp_all
  finally have "x < 2 ^ 1024" by simp
  moreover have "- (2 ^ 1024) < x" using x by (intro less_trans [OF _ x]) simp
  ultimately show ?thesis
    unfolding x_def [symmetric] round64_def ieee_round_def clip_range_def r by (simp add: not_le)
qed

lemmas round64_pow2 = round64_scaled [of 1, simplified]

lemma ieee_round_minus: "ieee_round p emin emax (- x) = fneg (ieee_round p emin emax x)"
proof -
  have "(0 :: real) < 2 ^ emax" by simp
  then have "\<not> (2 ^ emax \<le> y \<and> 2 ^ emax \<le> - y)" for y :: real by linarith
  then show ?thesis
    unfolding ieee_round_def ulp_exp_minus round_at_minus clip_range_def by auto
qed

lemma round64_minus: "round64 (- x) = fneg (round64 x)"
  by (simp add: round64_def ieee_round_minus)

section \<open>Ranges\<close>

definition fin_le :: "real \<Rightarrow> flt \<Rightarrow> bool" where
  "fin_le b a \<longleftrightarrow> (\<exists>x. a = Fin x \<and> \<bar>x\<bar> \<le> b)"

lemma fin_leI [intro]: "\<bar>x\<bar> \<le> b \<Longrightarrow> fin_le b (Fin x)"
  by (simp add: fin_le_def)

lemma fin_le_finite: "fin_le b a \<Longrightarrow> is_finite a"
  by (auto simp: fin_le_def)

lemma fin_le_mono: "fin_le b a \<Longrightarrow> b \<le> c \<Longrightarrow> fin_le c a"
  by (auto simp: fin_le_def)

lemma round64_range:
  assumes "\<bar>x\<bar> \<le> b" and "round64 b = Fin b"
  shows "fin_le b (round64 x)"
proof -
  have "flt_le (round64 (- b)) (round64 x)" "flt_le (round64 x) (round64 b)"
    using assms(1) by (auto intro!: f64.rnd_mono)
  then show ?thesis
    using flt_le_betweenD [of "- b" "round64 x" b] assms(2)
    by (auto simp: round64_minus fin_le_def)
qed

lemma round64_at_least:
  assumes "b \<le> x" and "round64 b = Fin b" and "round64 x = Fin y"
  shows "b \<le> y"
  using f64.rnd_mono [OF assms(1)] assms(2,3) by simp

text \<open>A sum stays within the count of its terms times their common bound.\<close>

lemma fsum64_range:
  assumes "\<forall>t\<in>set ts. fin_le (2 powi e) t" and "length ts < 2 ^ 53" and "- 1074 \<le> e" and "e \<le> 970"
  shows "fin_le (real (length ts) * 2 powi e) (fsum round64 ts)"
  using assms(1,2)
proof (induction ts rule: rev_induct)
  case Nil
  then show ?case by (simp add: fsum_def fin_leI)
next
  case (snoc t ts)
  then obtain s x where s: "fsum round64 ts = Fin s" "\<bar>s\<bar> \<le> real (length ts) * 2 powi e"
    "t = Fin x" "\<bar>x\<bar> \<le> 2 powi e"
    by (auto simp: fin_le_def)
  have "\<bar>s + x\<bar> \<le> real (length (ts @ [t])) * 2 powi e" using s(2,4) by (simp add: algebra_simps)
  from round64_range [OF this round64_scaled [OF snoc.prems(2) assms(3,4)]] show ?case
    using s(1,3) by (simp add: fsum_def)
qed

text \<open>A sum of terms that are not negative is at least an exact bound of one of them.\<close>

lemma fsum64_at_least:
  assumes "\<forall>t\<in>set ts. \<exists>x. t = Fin x \<and> 0 \<le> x" and "fsum round64 ts = Fin s"
    and "Fin x \<in> set ts" and "b \<le> x" and "round64 b = Fin b"
  shows "b \<le> s"
  using assms(1-3)
proof (induction ts arbitrary: s rule: rev_induct)
  case (snoc t ts)
  obtain y where y: "t = Fin y" "0 \<le> y" using snoc.prems(1) by auto
  obtain r where r: "fsum round64 ts = Fin r" "round64 (r + y) = Fin s"
    using snoc.prems(2) y(1) by (cases "fsum round64 ts") (auto simp: fsum_def)
  have r0: "0 \<le> r"
    using snoc.prems(1) r(1)
  proof (induction ts arbitrary: r rule: rev_induct)
    case (snoc u us)
    obtain z where z: "u = Fin z" "0 \<le> z" using snoc.prems(1) by auto
    obtain q where q: "fsum round64 us = Fin q" "round64 (q + z) = Fin r"
      using snoc.prems(2) z(1) by (cases "fsum round64 us") (auto simp: fsum_def)
    have "0 \<le> q" using snoc.IH [OF _ q(1)] snoc.prems(1) by simp
    then show ?case using round64_at_least [of 0 "q + z" r] q(2) z(2) by simp
  qed (simp add: fsum_def)
  have "b \<le> r + y"
  proof (cases "Fin x = t")
    case True
    then show ?thesis using y assms(4) r0 by simp
  next
    case False
    then have "b \<le> r" using snoc.IH [OF _ r(1)] snoc.prems(1,3) by auto
    then show ?thesis using y(2) by simp
  qed
  then show ?case by (rule round64_at_least [OF _ assms(5) r(2)])
qed simp

section \<open>Single-precision values\<close>

definition is_f32 :: "flt \<Rightarrow> bool" where
  "is_f32 a \<longleftrightarrow> (\<exists>x. a = Fin x \<and> round32 x = Fin x)"

definition f32_vec :: "flt list \<Rightarrow> bool" where
  "f32_vec v \<longleftrightarrow> list_all is_f32 v \<and> length v < 2 ^ 53"

lemma is_f32_range:
  assumes "round32 x = Fin x"
  shows "\<bar>x\<bar> \<le> 2 powi 128" and "x \<noteq> 0 \<Longrightarrow> 2 powi (- 149) \<le> \<bar>x\<bar>"
proof -
  define u where "u = ulp_exp 24 (- 149) x"
  have r: "round_at u x = x" "\<bar>x\<bar> < 2 ^ 128"
    using assms unfolding round32_def ieee_round_def clip_range_def u_def [symmetric]
    by (auto split: if_splits)
  then show "\<bar>x\<bar> \<le> 2 powi 128" by simp
  define n where "n = round_even (x / 2 powi u)"
  have x: "x = of_int n * 2 powi u" using r(1) by (simp add: round_at_def n_def)
  show "2 powi (- 149) \<le> \<bar>x\<bar>" if "x \<noteq> 0"
  proof -
    have "1 \<le> \<bar>real_of_int n\<bar>" using that x by simp
    have "(2 :: real) powi (- 149) \<le> 2 powi u"
      by (intro power_int_increasing) (simp_all add: u_def ulp_exp_def)
    also have "\<dots> = 1 * 2 powi u" by simp
    also have "\<dots> \<le> \<bar>real_of_int n\<bar> * 2 powi u"
      using \<open>1 \<le> \<bar>real_of_int n\<bar>\<close> by (intro mult_right_mono) simp_all
    also have "\<dots> = \<bar>x\<bar>" by (simp add: x abs_mult)
    finally show ?thesis .
  qed
qed

lemma is_f32_nat: "n \<le> 2 ^ 24 \<Longrightarrow> is_f32 (Fin (real n))"
  by (simp add: is_f32_def f32.rnd_nat)

end
