(* ===== verification/Similarity.thy ===== *)
theory Similarity
  imports Ranker FloatRange
begin

text \<open>
  The similarities of \<open>src/src/ranker.rs\<close> on vectors of finite \<open>f32\<close> components: widened to
  \<open>f64\<close>, no product, sum, norm or quotient overflows and no norm underflows to zero, so
  every similarity and every label score is finite and the two rankings are never left in
  the order that the library does not specify.
\<close>

section \<open>Norms and similarities\<close>

lemma f32_products:
  assumes "is_f32 a" and "is_f32 b"
  shows "fin_le (2 powi 256) (fmul round64 a b)"
proof -
  obtain x y where xy: "a = Fin x" "b = Fin y" "round32 x = Fin x" "round32 y = Fin y"
    using assms by (auto simp: is_f32_def)
  have "\<bar>x * y\<bar> \<le> 2 powi 128 * 2 powi 128"
    unfolding abs_mult using is_f32_range(1) [OF xy(3)] is_f32_range(1) [OF xy(4)]
    by (intro mult_mono) simp_all
  also have "(2 :: real) powi 128 * 2 powi 128 = 2 powi 256" by (simp flip: power_int_add)
  finally show ?thesis using round64_pow2 [of 256] by (simp add: xy(1,2) round64_range)
qed

lemma powi_double: "(2 :: real) powi (2 * k) = (2 powi k)\<^sup>2"
  using power_int_add [of "2 :: real" k k] unfolding mult_2 power2_eq_square by simp

lemma sqrt_powi_le:
  assumes "0 \<le> s" and "s \<le> 2 powi (2 * k)" shows "sqrt s \<le> 2 powi k"
proof -
  have "sqrt s \<le> sqrt (2 powi (2 * k))" using assms(2) by simp
  then show ?thesis by (simp add: powi_double)
qed

lemma sqrt_powi_ge:
  assumes "2 powi (2 * k) \<le> s" shows "2 powi k \<le> sqrt s"
proof -
  have "sqrt ((2 powi k)\<^sup>2) \<le> sqrt s" using assms by (simp flip: powi_double)
  then show ?thesis by simp
qed

text \<open>The norm is zero, or between the least single and a bound far below overflow.\<close>

lemma norm64_range:
  assumes "f32_vec v"
  shows "\<exists>n. norm64 v = Fin n \<and> 0 \<le> n \<and> n \<le> 2 powi 155 \<and> (n \<noteq> 0 \<longrightarrow> 2 powi (- 149) \<le> n)"
proof -
  define ts where "ts = List.map (\<lambda>x. fmul round64 x x) v"
  have f: "\<forall>x\<in>set v. is_f32 x" "length ts < 2 ^ 53" using assms by (auto simp: f32_vec_def ts_def list_all_iff)
  have sq: "\<exists>z. t = Fin z \<and> 0 \<le> z" if "t \<in> set ts" for t
  proof -
    obtain x where x: "x \<in> set v" "t = fmul round64 x x" using \<open>t \<in> set ts\<close> by (auto simp: ts_def)
    then obtain r where "x = Fin r" using f(1) by (auto simp: is_f32_def)
    with x(2) have t: "t = round64 (r * r)" by simp
    moreover have "flt_le (Fin 0) (round64 (r * r))" by (rule f64.rnd_nonneg) simp
    moreover have "fin_le (2 powi 256) t" using f32_products x f(1) by blast
    ultimately show ?thesis by (auto simp: fin_le_def)
  qed
  have "fin_le (real (length ts) * 2 powi 256) (fsum round64 ts)"
    using f f32_products by (intro fsum64_range) (auto simp: ts_def)
  then obtain s where s: "fsum round64 ts = Fin s" "\<bar>s\<bar> \<le> real (length ts) * 2 powi 256" by (auto simp: fin_le_def)
  have "real (length ts) \<le> 2 powi 54" using f(2) by simp
  then have "real (length ts) * 2 powi 256 \<le> 2 powi 54 * 2 powi 256" by (rule mult_right_mono) simp
  also have "\<dots> = (2 :: real) powi (2 * 155)" by (simp flip: power_int_add)
  finally have s_le: "s \<le> 2 powi (2 * 155)" using s(2) by simp
  show ?thesis
  proof (cases "\<exists>x\<in>set v. x \<noteq> Fin 0")
    case False
    then have "ts = replicate (length v) (Fin 0)" unfolding ts_def by (induction v) auto
    moreover have "foldl (fadd round64) (Fin 0) (replicate n (Fin 0)) = Fin 0" for n
      by (induction n) simp_all
    ultimately have "fsum round64 ts = Fin 0" by (simp add: fsum_def)
    then show ?thesis by (simp add: norm64_def flip: ts_def)
  next
    case True
    then obtain x r where x: "x \<in> set v" "x = Fin r" "r \<noteq> 0" "round32 r = Fin r"
      using f(1) unfolding is_f32_def by (metis)
    have mem: "fmul round64 x x \<in> set ts" using x(1) by (simp add: ts_def)
    then obtain z where z: "fmul round64 x x = Fin z" "Fin z \<in> set ts"
      using sq [OF mem] by metis
    have "2 powi (- 149) * 2 powi (- 149) \<le> \<bar>r\<bar> * \<bar>r\<bar>"
      using is_f32_range(2) [OF x(4,3)] by (intro mult_mono) simp_all
    then have "2 powi (- 298) \<le> r * r" by (simp flip: power_int_add abs_mult)
    from round64_at_least [OF this round64_pow2] z(1) x(2) have "2 powi (- 298) \<le> z" by simp
    from fsum64_at_least [OF _ s(1) z(2) this round64_pow2] sq have low: "2 powi (2 * (- 149)) \<le> s" by simp
    then have pos: "0 < s" by (rule less_le_trans [rotated]) simp
    obtain n where n: "round64 (sqrt s) = Fin n" "\<bar>n\<bar> \<le> 2 powi 155"
      using round64_range [of "sqrt s" "2 powi 155"] sqrt_powi_le [OF _ s_le] pos round64_pow2 [of 155]
      by (auto simp: fin_le_def)
    have "2 powi (- 149) \<le> n"
      by (rule round64_at_least [OF sqrt_powi_ge [OF low] round64_pow2 n(1)]) simp_all
    moreover from this have "0 \<le> n" by (rule order_trans [rotated]) simp
    ultimately show ?thesis using n pos s(1) by (simp add: norm64_def flip: ts_def)
  qed
qed

lemma cosine_finite:
  assumes "f32_vec a" and "f32_vec b"
  shows "fin_le (2 powi 608) (cosine_similarity a b)"
proof -
  obtain na nb where n: "norm64 a = Fin na" "0 \<le> na" "na \<le> 2 powi 155" "na \<noteq> 0 \<longrightarrow> 2 powi (- 149) \<le> na"
    "norm64 b = Fin nb" "0 \<le> nb" "nb \<le> 2 powi 155" "nb \<noteq> 0 \<longrightarrow> 2 powi (- 149) \<le> nb"
    using norm64_range assms by meson
  define ts where "ts = List.map (\<lambda>(x, y). fmul round64 x y) (zip a b)"
  have len: "length ts < 2 ^ 53" using assms(1) by (simp add: ts_def f32_vec_def min_less_iff_disj)
  have "\<forall>t\<in>set ts. fin_le (2 powi 256) t"
    unfolding ts_def using assms
    by (force simp: f32_vec_def list_all_iff simp del: power_int_numeral intro!: f32_products
        dest: set_zip_leftD set_zip_rightD)
  from fsum64_range [OF this len] obtain d where d: "fsum round64 ts = Fin d" "\<bar>d\<bar> \<le> real (length ts) * 2 powi 256"
    by (auto simp: fin_le_def)
  have "real (length ts) \<le> 2 powi 54" using len by simp
  then have "real (length ts) * 2 powi 256 \<le> 2 powi 54 * 2 powi 256" by (rule mult_right_mono) simp
  then have d_le: "\<bar>d\<bar> \<le> 2 powi 310" using d(2) by (simp flip: power_int_add)
  show ?thesis
  proof (cases "na = 0 \<or> nb = 0")
    case True
    then show ?thesis using n by (auto simp: cosine_similarity_def Let_def)
  next
    case False
    have "2 powi (- 149) * 2 powi (- 149) \<le> na * nb" using False n by (intro mult_mono) simp_all
    then have low: "2 powi (- 298) \<le> na * nb" by (simp flip: power_int_add)
    have "na * nb \<le> 2 powi 155 * 2 powi 155" using n by (intro mult_mono) simp_all
    then have "\<bar>na * nb\<bar> \<le> 2 powi 310" using n by (simp flip: power_int_add)
    from round64_range [OF this round64_pow2] obtain p where p: "round64 (na * nb) = Fin p" by (auto simp: fin_le_def)
    have pl: "2 powi (- 298) \<le> p" by (rule round64_at_least [OF low round64_pow2 p]) simp_all
    then have pos: "0 < p" by (rule less_le_trans [rotated]) simp
    have "\<bar>d / p\<bar> \<le> 2 powi 310 / 2 powi (- 298)"
      unfolding abs_divide using d_le pl pos by (intro frac_le) simp_all
    also have "\<dots> = 2 powi 608" by (simp flip: power_int_diff)
    finally have "fin_le (2 powi 608) (round64 (d / p))" by (rule round64_range [OF _ round64_pow2]) simp_all
    then show ?thesis using False n(1,5) p pos d(1)
      by (simp add: cosine_similarity_def Let_def flip: ts_def)
  qed
qed

section \<open>Scores and rankings\<close>

lemma partial_desc_sort:
  assumes "NaN \<notin> set xs"
  shows "sort_by (\<lambda>a b. partial_or_equal b a) xs = Some (stable_sort (\<lambda>a b. partial_or_equal b a) xs)"
  using partial_desc_total [OF assms] by (simp add: sort_by_def)

lemma anchor_score_finite:
  assumes "f32_vec emb" and "\<forall>v\<in>set vs. f32_vec v" and "length vs < 2 ^ 53"
  shows "\<exists>x. anchor_score emb vs k = Some (Fin x)"
proof -
  define sims where "sims = stable_sort (\<lambda>a b. partial_or_equal b a) (List.map (cosine_similarity emb) vs)"
  have fin: "\<forall>t\<in>set sims. fin_le (2 powi 608) t"
    using cosine_finite [OF assms(1)] assms(2) by (auto simp: sims_def simp del: power_int_numeral)
  have "NaN \<notin> set (List.map (cosine_similarity emb) vs)"
    using cosine_finite [OF assms(1)] assms(2) by (force simp: fin_le_def)
  note some = partial_desc_sort [OF this, folded sims_def]
  define n where "n = min (clamp_nat (Suc 0) (max (length sims) (Suc 0)) k) (length sims)"
  show ?thesis
  proof (cases "sims = []")
    case True
    then show ?thesis using some by (simp add: anchor_score_def Let_def)
  next
    case False
    have n: "n \<noteq> 0" "n < 2 ^ 53" "length (take n sims) = n"
      using False assms(3) by (auto simp: n_def clamp_nat_def sims_def)
    have "fin_le (real n * 2 powi 608) (fsum round64 (take n sims))"
      using fsum64_range [of "take n sims" 608] fin n(2,3) by (auto dest: in_set_takeD)
    then obtain s where s: "fsum round64 (take n sims) = Fin s" "\<bar>s\<bar> \<le> real n * 2 powi 608"
      by (auto simp: fin_le_def)
    have "\<bar>s / real n\<bar> \<le> 2 powi 608" using s(2) n(1) by (simp add: field_simps)
    from round64_range [OF this round64_pow2] obtain x where "round64 (s / real n) = Fin x"
      by (auto simp: fin_le_def)
    moreover have "round64 (real n) = Fin (real n)" using n(2) by (simp add: f64.rnd_nat)
    ultimately show ?thesis using some False s(1) n(1)
      by (simp add: anchor_score_def Let_def nat_as_f64_def flip: n_def)
  qed
qed

lemma collect_opt_map:
  "\<forall>x\<in>set xs. f x = Some (g x) \<Longrightarrow> collect_opt (List.map f xs) = Some (List.map g xs)"
  by (induction xs) simp_all

definition f32_anchors :: "anchor_set list \<Rightarrow> bool" where
  "f32_anchors as \<longleftrightarrow> (\<forall>a\<in>set as. list_all f32_vec (anchor_vectors a) \<and> length (anchor_vectors a) < 2 ^ 53)"

definition finite_scores :: "(string \<times> flt) list \<Rightarrow> bool" where
  "finite_scores xs \<longleftrightarrow> (\<forall>p\<in>set xs. is_finite (snd p))"

lemma rank_sort_finite:
  assumes "finite_scores xs"
  shows "\<exists>ys. sort_by rank_cmp xs = Some ys \<and> mset ys = mset xs \<and> rank_ordered ys \<and> finite_scores ys"
proof -
  have "\<forall>p\<in>set xs. snd p \<noteq> NaN" using assms by (auto simp: finite_scores_def)
  from rank_sort_ordered [OF this] assms show ?thesis
    by (auto simp: finite_scores_def) (metis snd_conv set_mset_mset)
qed

lemma anchor_scores_finite:
  assumes "f32_vec emb" and "f32_anchors as"
  shows "\<exists>ys. anchor_rank emb as top_k = Some ys \<and> mset (List.map fst ys) = mset (List.map anchor_label as) \<and>
    rank_ordered ys \<and> finite_scores ys \<and>
    list_all (\<lambda>a. list_all (\<lambda>v. is_finite (cosine_similarity emb v)) (anchor_vectors a)) as"
proof -
  obtain f where f: "\<forall>a\<in>set as. anchor_score emb (anchor_vectors a) top_k = Some (Fin (f a))"
  proof -
    have "\<forall>a\<in>set as. \<exists>x. anchor_score emb (anchor_vectors a) top_k = Some (Fin x)"
      using anchor_score_finite [OF assms(1)] assms(2) by (simp add: f32_anchors_def list_all_iff)
    from bchoice [OF this] show ?thesis using that by blast
  qed
  define xs where "xs = List.map (\<lambda>a. (anchor_label a, Fin (f a))) as"
  have "collect_opt (List.map (\<lambda>set. map_option (Pair (anchor_label set)) (anchor_score emb (anchor_vectors set) top_k)) as) = Some xs"
    unfolding xs_def using f by (intro collect_opt_map) simp
  moreover have "finite_scores xs" by (auto simp: finite_scores_def xs_def)
  from rank_sort_finite [OF this] obtain ys where
    ys: "sort_by rank_cmp xs = Some ys" "mset ys = mset xs" "rank_ordered ys" "finite_scores ys" by blast
  moreover have "mset (List.map fst ys) = mset (List.map fst xs)" using ys(2) by simp
  then have "mset (List.map fst ys) = mset (List.map anchor_label as)" by (simp add: xs_def comp_def)
  ultimately show ?thesis
    using cosine_finite [OF assms(1), THEN fin_le_finite] assms(2)
    by (auto simp: anchor_rank_def f32_anchors_def list_all_iff)
qed

text \<open>
  C16. On an embedding and anchors of finite single-precision components, ranking by
  anchors scores every label once, with a finite score, in descending order with ties in
  label order: nothing overflows, no division is undefined, and the sort is never handed
  an incomparable pair. The similarities themselves are finite too.
\<close>

theorem anchor_scores_are_finite:
  assumes "f32_vec emb" and "f32_anchors as"
  shows "\<exists>ys. anchor_rank emb as top_k = Some ys \<and> mset (List.map fst ys) = mset (List.map anchor_label as) \<and>
    rank_ordered ys \<and> finite_scores ys \<and>
    list_all (\<lambda>a. list_all (\<lambda>v. is_finite (cosine_similarity emb v)) (anchor_vectors a)) as"
  using assms by (rule anchor_scores_finite)

theorem anchor_scores_are_finite_witness:
  "\<exists>ys. anchor_rank [Fin 1, Fin 3] [\<lparr>anchor_label = ''a'', anchor_vectors = [[Fin 2, Fin 0]]\<rparr>] 3 = Some ys \<and> rank_ordered ys"
proof -
  have "f32_vec [Fin 1, Fin 3]" "f32_vec [Fin 2, Fin 0]"
    using is_f32_nat [of 1] is_f32_nat [of 3] is_f32_nat [of 2] is_f32_nat [of 0] by (simp_all add: f32_vec_def)
  with anchor_scores_are_finite [of "[Fin 1, Fin 3]" "[\<lparr>anchor_label = ''a'', anchor_vectors = [[Fin 2, Fin 0]]\<rparr>]" 3]
  show ?thesis by (auto simp: f32_anchors_def)
qed

lemma cosine_rank_finite:
  assumes "f32_vec emb" and "\<forall>p\<in>set ps. f32_vec (proto_vector p)"
  shows "\<exists>ys. cosine_rank emb ps = Some ys \<and> mset (List.map fst ys) = mset (List.map proto_id ps) \<and>
    rank_ordered ys \<and> finite_scores ys"
proof -
  define xs where "xs = List.map (\<lambda>p. (proto_id p, cosine_similarity emb (proto_vector p))) ps"
  have "finite_scores xs"
    using cosine_finite [OF assms(1), THEN fin_le_finite] assms(2) by (auto simp: finite_scores_def xs_def)
  from rank_sort_finite [OF this] obtain ys where
    ys: "sort_by rank_cmp xs = Some ys" "mset ys = mset xs" "rank_ordered ys" "finite_scores ys" by blast
  moreover have "mset (List.map fst ys) = mset (List.map fst xs)" using ys(2) by simp
  ultimately show ?thesis by (auto simp: cosine_rank_def xs_def comp_def)
qed

end
