(* ===== verification/WellFormed.thy ===== *)
theory WellFormed
  imports Backends Similarity
begin

text \<open>
  The shape of a classification result. \<open>well_formed\<close> says what a result of the model-backed
  classifier (\<open>CandleClassifier\<close> in \<open>src/src/classify.rs\<close>) looks like to its consumers: an
  abstention ranks nothing; a ranking lists labels of the classifier, each at most as often
  as it is declared, with finite scores in descending order and ties in label order. On a
  model whose vectors and logits are finite every result is well formed, whichever rule
  ranked it; \<open>ServedCore\<close> carries this through the caches.
\<close>

definition anchor_labels :: "candle_classifier \<Rightarrow> string list" where
  "anchor_labels cl =
     (case cl_taxonomy cl of
        Some t \<Rightarrow> List.map anchor_label (rt_anchors t)
      | None \<Rightarrow> List.map proto_id (cl_prototypes cl))"

definition head_labels :: "candle_classifier \<Rightarrow> string list" where
  "head_labels cl = (case em_labels (cl_embedder cl) of Some labels \<Rightarrow> labels | None \<Rightarrow> [])"

definition ranking_of :: "candle_classifier \<Rightarrow> (string \<times> flt) list \<Rightarrow> bool" where
  "ranking_of cl xs \<longleftrightarrow>
     rank_ordered xs \<and> finite_scores xs \<and>
     (mset (List.map fst xs) = mset (anchor_labels cl) \<or>
      mset (List.map fst xs) \<subseteq># mset (head_labels cl) \<and> list_all (\<lambda>p. flt_le (Fin 0) (snd p) \<and> flt_le (snd p) (Fin 1)) xs)"

definition well_formed :: "candle_classifier \<Rightarrow> classification_result \<Rightarrow> bool" where
  "well_formed cl r \<longleftrightarrow>
     (res_status r = Abstain \<and> res_ranked r = [] \<or>
      res_status r = Ok \<and> (\<exists>xs. res_ranked r = signals_of xs \<and> ranking_of cl xs))"

text \<open>
  What of it is left when a result went through JSON: \<open>serde_json\<close> does not promise the last
  bit of a number, so order and range are not stated.
\<close>

definition shaped :: "candle_classifier \<Rightarrow> classification_result \<Rightarrow> bool" where
  "shaped cl r \<longleftrightarrow>
     (res_status r = Abstain \<and> res_ranked r = [] \<or>
      res_status r = Ok \<and> list_all (\<lambda>s. is_finite (score s)) (res_ranked r) \<and>
      (mset (List.map sig_id (res_ranked r)) = mset (anchor_labels cl) \<or>
       mset (List.map sig_id (res_ranked r)) \<subseteq># mset (head_labels cl)))"

text \<open>
  A finite model: vectors of finite single-precision components, finite logits, and an
  exponential as \<open>Head\<close> describes it.
\<close>

definition finite_embedding :: "embedding \<Rightarrow> bool" where
  "finite_embedding emb \<longleftrightarrow>
     f32_vec (vector emb) \<and>
     (\<forall>ls. logits emb = Some ls \<longrightarrow> list_all is_finite ls \<and> length ls \<le> 2 ^ 24)"

definition finite_model :: "candle_classifier \<Rightarrow> bool" where
  "finite_model cl \<longleftrightarrow>
     exponential (cl_exp cl) \<and>
     (\<forall>ids v ls. em_embed_and_classify (cl_embedder cl) ids = Inr (v, ls) \<longrightarrow>
        finite_embedding (embedding_with_logits v ls)) \<and>
     (case cl_taxonomy cl of
        Some t \<Rightarrow> f32_anchors (rt_anchors t)
      | None \<Rightarrow> list_all (\<lambda>p. f32_vec (proto_vector p)) (cl_prototypes cl))"

section \<open>The two decision rules\<close>

lemma all_finite_Fin: "list_all is_finite ls \<Longrightarrow> \<exists>xs. ls = List.map Fin xs"
proof (induction ls)
  case (Cons l ls)
  then obtain x xs where "l = Fin x" "ls = List.map Fin xs" by (auto simp: is_finite_iff)
  then show ?case by (intro exI [of _ "x # xs"]) simp
qed simp

context exponential
begin

lemma softmax_unit:
  assumes "list_all is_finite ls" and "length ls \<le> 2 ^ 24"
  shows "\<exists>ps. softmax fexp ls = List.map Fin ps \<and> length ps = length ls \<and> set ps \<subseteq> {0..1}"
proof -
  obtain xs where xs: "ls = List.map Fin xs" using all_finite_Fin [OF assms(1)] by blast
  show ?thesis
  proof (cases "xs = []")
    case True
    then show ?thesis by (simp add: xs softmax_def)
  next
    case False
    from softmax_probabilities [OF this] assms(2) show ?thesis by (simp add: xs)
  qed
qed

end

lemma ranking_truncated:
  assumes "rank_ordered ys" and "finite_scores ys"
  shows "rank_ordered (truncate_top cl ys)" and "finite_scores (truncate_top cl ys)"
    and "mset (List.map fst (truncate_top cl ys)) \<subseteq># mset (List.map fst ys)"
    and "set (truncate_top cl ys) \<subseteq> set ys"
proof -
  have "truncate_top cl ys \<in> (\<lambda>n. take n ys) ` UNIV"
    by (auto simp: truncate_top_def intro: range_eqI [of _ _ "length ys"] split: option.split)
  then obtain n where n: "truncate_top cl ys = take n ys" by blast
  show "rank_ordered (truncate_top cl ys)" using assms(1) by (simp add: n rank_ordered_take)
  show sub: "set (truncate_top cl ys) \<subseteq> set ys" by (simp add: n set_take_subset)
  show "finite_scores (truncate_top cl ys)" using assms(2) sub by (auto simp: finite_scores_def)
  have "List.map fst ys = take n (List.map fst ys) @ drop n (List.map fst ys)" by simp
  then have "mset (List.map fst ys) = mset (take n (List.map fst ys)) + mset (drop n (List.map fst ys))"
    by (metis mset_append)
  then show "mset (List.map fst (truncate_top cl ys)) \<subseteq># mset (List.map fst ys)"
    by (simp add: n take_map)
qed

lemma head_ranking_of:
  assumes "exponential (cl_exp cl)" and "em_labels (cl_embedder cl) = Some labels"
    and "list_all is_finite ls" and "length ls = length labels" and "length ls \<le> 2 ^ 24"
  shows "\<exists>xs. rank_from_head cl ls labels = candle_result cl xs \<and> ranking_of cl xs"
proof -
  obtain ps where ps: "softmax (cl_exp cl) ls = List.map Fin ps" "length ps = length ls" "set ps \<subseteq> {0..1}"
    using exponential.softmax_unit [OF assms(1,3,5)] by blast
  define xs where "xs = zip labels (List.map Fin ps)"
  have xs: "finite_scores xs" "list_all (\<lambda>p. flt_le (Fin 0) (snd p) \<and> flt_le (snd p) (Fin 1)) xs"
    "List.map fst xs = labels"
    using ps(2) assms(4) subsetD [OF ps(3)]
    by (auto simp: xs_def finite_scores_def list_all_iff dest!: set_zip_rightD)
  from rank_sort_finite [OF xs(1)] obtain ys where
    ys: "sort_by rank_cmp xs = Some ys" "mset ys = mset xs" "rank_ordered ys" "finite_scores ys" by blast
  note cut = ranking_truncated [OF ys(3,4), of cl]
  have "mset (List.map fst ys) = mset labels" using ys(2) xs(3) by (metis mset_map)
  with cut(3) have "mset (List.map fst (truncate_top cl ys)) \<subseteq># mset (head_labels cl)"
    by (simp add: head_labels_def assms(2))
  moreover have "set (truncate_top cl ys) \<subseteq> set xs" using cut(4) ys(2) by (metis set_mset_mset)
  then have "list_all (\<lambda>p. flt_le (Fin 0) (snd p) \<and> flt_le (snd p) (Fin 1)) (truncate_top cl ys)"
    using xs(2) by (auto simp: list_all_iff)
  moreover have "rank_from_head cl ls labels = candle_result cl (truncate_top cl ys)"
    by (simp add: rank_from_head_def ps(1) ys(1) sorted_or_def flip: xs_def)
  ultimately show ?thesis using cut(1,2) unfolding ranking_of_def by blast
qed

lemma anchor_ranking_of:
  assumes "finite_model cl" and "f32_vec v"
  shows "\<exists>xs. rank_from_anchors cl v = candle_result cl xs \<and> ranking_of cl xs"
proof (cases "cl_taxonomy cl")
  case None
  with assms(1) have "\<forall>p\<in>set (cl_prototypes cl). f32_vec (proto_vector p)"
    by (simp add: finite_model_def list_all_iff)
  from cosine_rank_finite [OF assms(2) this] None show ?thesis
    by (auto simp: rank_from_anchors_def sorted_or_def ranking_of_def anchor_labels_def)
next
  case (Some t)
  with assms(1) have "f32_anchors (rt_anchors t)" by (simp add: finite_model_def)
  from anchor_scores_finite [OF assms(2) this, of "rt_top_k t"] Some show ?thesis
    by (auto simp: rank_from_anchors_def sorted_or_def ranking_of_def anchor_labels_def)
qed

lemma ranked_well_formed:
  assumes "finite_model cl" and "finite_embedding emb"
  shows "well_formed cl (candle_rank_result cl emb)"
proof -
  have vec: "f32_vec (vector emb)" using assms(2) by (simp add: finite_embedding_def)
  have "\<exists>xs. candle_rank_result cl emb = candle_result cl xs \<and> ranking_of cl xs"
  proof (cases "logits emb")
    case None
    then show ?thesis using anchor_ranking_of [OF assms(1) vec] by (simp add: candle_rank_result_def)
  next
    case (Some ls)
    then have ls: "list_all is_finite ls" "length ls \<le> 2 ^ 24" using assms(2) by (simp_all add: finite_embedding_def)
    have "exponential (cl_exp cl)" using assms(1) by (simp add: finite_model_def)
    from head_ranking_of [OF this _ ls(1) _ ls(2)] anchor_ranking_of [OF assms(1) vec] Some show ?thesis
      by (auto simp: candle_rank_result_def split: option.split)
  qed
  then show ?thesis by (auto simp: well_formed_def)
qed

lemma embedded_finite:
  "finite_model cl \<Longrightarrow> candle_embed cl inp st = (Inr emb, st') \<Longrightarrow> finite_embedding emb"
  by (auto simp: candle_embed_def Let_def finite_model_def split: sum.splits)

lemma abstention_well_formed [simp]: "well_formed cl (insufficient_context_abstention m)"
  by (simp add: well_formed_def)

text \<open>A well-formed result has the shape.\<close>

lemma signals_of_labels: "List.map sig_id (signals_of xs) = List.map fst xs"
  by (induction xs) (auto simp: signals_of_def)

lemma signals_of_finite: "finite_scores xs \<Longrightarrow> list_all (\<lambda>s. is_finite (score s)) (signals_of xs)"
  by (induction xs) (auto simp: signals_of_def finite_scores_def)

lemma well_formed_shaped:
  assumes "well_formed cl r"
  shows "shaped cl r"
proof (cases "res_status r = Abstain \<and> res_ranked r = []")
  case False
  then obtain xs where xs: "res_status r = Ok" "res_ranked r = signals_of xs" "ranking_of cl xs"
    using assms unfolding well_formed_def by blast
  then have "finite_scores xs" "mset (List.map fst xs) = mset (anchor_labels cl) \<or> mset (List.map fst xs) \<subseteq># mset (head_labels cl)"
    unfolding ranking_of_def by blast+
  then show ?thesis unfolding shaped_def xs(1,2) signals_of_labels by (simp add: signals_of_finite)
qed (simp add: shaped_def)

end
