(* ===== verification/GuardedTier.thy ===== *)
theory GuardedTier
  imports Tier
begin

text \<open>
  What the service core needs of a cache tier at the one tag it uses: while everything the
  tier holds under that tag satisfies a predicate, what a lookup returns satisfies it, and
  inserting a result that does keeps it so. A tier with the contract of \<open>Tier\<close> gives this
  for every tag and predicate; a tier that stores an encoding of the result may give it
  although a lookup returns another result than the one stored.
\<close>

locale guarded_tier =
  fixes lookup :: "'k \<Rightarrow> string \<Rightarrow> 's \<Rightarrow> classification_result option \<times> 's"
    and insert_entry :: "'k \<Rightarrow> classification_result \<Rightarrow> string \<Rightarrow> 's \<Rightarrow> 's"
    and tag :: string
    and good :: "classification_result \<Rightarrow> bool"
    and tier_ok :: "'s \<Rightarrow> bool"
  assumes lookup_good: "tier_ok s \<Longrightarrow> lookup k tag s = (Some r, s') \<Longrightarrow> good r"
    and lookup_ok: "tier_ok s \<Longrightarrow> tier_ok (snd (lookup k tag s))"
    and insert_ok: "tier_ok s \<Longrightarrow> good r \<Longrightarrow> tier_ok (insert_entry k r tag s)"

locale owned_tier = approx_tier lookup insert_entry contents tier_inv
  for lookup :: "'k \<Rightarrow> string \<Rightarrow> 's \<Rightarrow> classification_result option \<times> 's"
    and insert_entry :: "'k \<Rightarrow> classification_result \<Rightarrow> string \<Rightarrow> 's \<Rightarrow> 's"
    and contents :: "'s \<Rightarrow> (string \<times> classification_result) set"
    and tier_inv :: "'s \<Rightarrow> bool" +
  fixes tag :: string
    and good :: "classification_result \<Rightarrow> bool"
begin

definition owned :: "'s \<Rightarrow> bool" where
  "owned s \<longleftrightarrow> tier_inv s \<and> (\<forall>r. (tag, r) \<in> contents s \<longrightarrow> good r)"

lemma owned_empty: "tier_inv s \<Longrightarrow> contents s = {} \<Longrightarrow> owned s"
  by (simp add: owned_def)

end

sublocale owned_tier \<subseteq> guarded_tier lookup insert_entry tag good owned
proof unfold_locales
  show "good r" if "owned s" "lookup k tag s = (Some r, s')" for s k r s'
    using that lookup_sound [of s k tag r s'] by (simp add: owned_def)
  show "owned (snd (lookup k tag s))" if "owned s" for s k
    using that lookup_inv [of s k tag] lookup_contents [of s k tag] by (auto simp: owned_def)
  show "owned (insert_entry k r tag s)" if "owned s" "good r" for s k r
    using that insert_inv [of s k r tag] insert_contents [of s k r tag] by (auto simp: owned_def)
qed

end
