(* ===== verification/ServedCore.thy ===== *)
theory ServedCore
  imports WellFormed GuardedTier
begin

text \<open>
  What the service core guarantees from the contracts of its parts alone: the locale
  \<open>core_contract\<close> takes a backend whose results satisfy a predicate and two tiers that keep
  it under the tag the core uses (\<open>GuardedTier\<close>), and proves that every answer satisfies it
  and that the cache counters count the requests by what served them. It is interpreted on the
  deterministic service and on the model-backed classifier, with the no-op tiers of the
  default configuration and with the in-process text cache; the predicate says that a
  result carries the identity of the runtime and, on a finite model, is well formed.
\<close>

section \<open>The default tiers\<close>

definition noop_semantic_lookup ::
  "embedding \<Rightarrow> string \<Rightarrow> unit \<times> metrics \<Rightarrow> classification_result option \<times> unit \<times> metrics" where
  "noop_semantic_lookup emb tag st = (None, st)"

definition noop_semantic_insert ::
  "embedding \<Rightarrow> classification_result \<Rightarrow> string \<Rightarrow> unit \<times> metrics \<Rightarrow> unit \<times> metrics" where
  "noop_semantic_insert emb r tag st = st"

definition noop_semantic :: "(embedding, unit \<times> metrics) tier_ops" where
  "noop_semantic = \<lparr>tier_lookup = noop_semantic_lookup, tier_insert = noop_semantic_insert\<rparr>"

definition noop_text :: "(signature, unit) tier_ops" where
  "noop_text = \<lparr>tier_lookup = (\<lambda>sig tag c. (noop_text_lookup sig tag c, c)), tier_insert = noop_text_insert\<rparr>"

definition memory_text :: "(nat \<Rightarrow> u64 list \<Rightarrow> u64) \<Rightarrow> (signature, text_cache) tier_ops" where
  "memory_text hband =
     \<lparr>tier_lookup = (\<lambda>sig tag c. (text_lookup hband sig tag c, c)), tier_insert = text_insert hband\<rparr>"

section \<open>The contract\<close>

definition cache_counters :: "metrics \<Rightarrow> nat \<times> nat \<times> nat" where
  "cache_counters m = (ms_cache_hits m, ms_cache_misses m, ms_cache_coalesced m)"

definition env_tag :: "('r, 'a, 'b) core_env \<Rightarrow> string" where
  "env_tag env = identity_tag (cache_identity (op_metadata (ce_runtime env)))"

locale core_contract =
  pre: guarded_tier "tier_lookup (ce_prefilter env)" "tier_insert (ce_prefilter env)" "env_tag env" good text_ok +
  sem: guarded_tier "tier_lookup (ce_semantic env)" "tier_insert (ce_semantic env)" "env_tag env" good sem_ok
  for env :: "('r, 'a, 'b) core_env"
    and good :: "classification_result \<Rightarrow> bool"
    and emb_ok :: "embedding \<Rightarrow> bool"
    and text_ok :: "'a \<Rightarrow> bool"
    and sem_ok :: "'b \<times> metrics \<Rightarrow> bool" +
  assumes embed_ok: "op_embed (ce_runtime env) inp st = (Inr emb, st') \<Longrightarrow> emb_ok emb"
    and rank_good: "emb_ok emb \<Longrightarrow> op_rank (ce_runtime env) emb inp st = (Inr r, st') \<Longrightarrow> good r"
    and abstention_good: "good (insufficient_context_abstention (op_metadata (ce_runtime env)))"
    and sem_ok_metrics: "sem_ok (b, m) = sem_ok (b, m')"
    and embed_counters: "cache_counters (snd (snd (op_embed (ce_runtime env) inp (r0, m)))) = cache_counters m"
    and rank_counters: "cache_counters (snd (snd (op_rank (ce_runtime env) emb inp (r0, m)))) = cache_counters m"
    and lookup_counters: "cache_counters (snd (snd (tier_lookup (ce_semantic env) emb tag (b, m)))) = cache_counters m"
    and insert_counters: "cache_counters (snd (tier_insert (ce_semantic env) emb res tag (b, m))) = cache_counters m"
begin

definition world_ok :: "('r, 'a, 'b) world \<Rightarrow> bool" where
  "world_ok w \<longleftrightarrow> text_ok (w_prefilter w) \<and> sem_ok (w_semantic w, w_metrics w)"

definition core_ok :: "('r, 'a, 'b) service_core \<Rightarrow> bool" where
  "core_ok c \<longleftrightarrow>
     world_ok (core_world c) \<and> ec_inv (core_cache c) \<and>
     (\<forall>k v. ec_cached_value k (core_cache c) = Some v \<longrightarrow> good v)"

lemma world_ok_cong:
  "text_ok (w_prefilter w') \<Longrightarrow> w_semantic w' = w_semantic w \<Longrightarrow> world_ok w \<Longrightarrow> world_ok w'"
  unfolding world_ok_def using sem_ok_metrics by metis

lemma forward_ok:
  assumes ok: "world_ok w" and fw: "core_forward env (env_tag env) inp w = (res, w')"
  shows "world_ok w' \<and> (\<forall>r. res = Inr r \<longrightarrow> good r) \<and> cache_counters (w_metrics w') = cache_counters (w_metrics w)"
proof -
  define sig where "sig = ce_signature env (in_text inp)"
  have t: "text_ok (w_prefilter w)" using ok by (simp add: world_ok_def)
  obtain th a1 where th: "tier_lookup (ce_prefilter env) sig (env_tag env) (w_prefilter w) = (th, a1)" by fastforce
  define w1 where "w1 = w\<lparr>w_prefilter := a1\<rparr>"
  have a1: "text_ok a1" using pre.lookup_ok [OF t, of sig] th by simp
  have w1: "world_ok w1" using a1 ok by (intro world_ok_cong [of w1 w]) (simp_all add: w1_def)
  show ?thesis
  proof (cases th)
    case (Some hit)
    then have "good hit" using pre.lookup_good [OF t] th by simp
    then show ?thesis using fw th Some w1
      by (auto simp: core_forward_def sig_def [symmetric] Let_def w1_def)
  next
    case None
    obtain embedded r1 m1 where em: "op_embed (ce_runtime env) inp (w_runtime w1, w_metrics w1) = (embedded, r1, m1)"
      by (metis prod_cases3)
    define w2 where "w2 = w1\<lparr>w_runtime := r1, w_metrics := m1\<rparr>"
    have c2: "cache_counters m1 = cache_counters (w_metrics w)"
      using embed_counters [of inp "w_runtime w1" "w_metrics w1"] em by (simp add: w1_def)
    have w2: "world_ok w2" using w1 a1 by (intro world_ok_cong [of w2 w1]) (simp_all add: w2_def w1_def)
    show ?thesis
    proof (cases embedded)
      case (Inl e)
      then show ?thesis using fw th None em w2 c2
        by (auto simp: core_forward_def sig_def [symmetric] Let_def w1_def w2_def)
    next
      case emb: (Inr emb)
      then have emb_ok: "emb_ok emb" using embed_ok em by blast
      obtain sh b1 m2 where sh: "tier_lookup (ce_semantic env) emb (env_tag env) (w_semantic w2, w_metrics w2) = (sh, b1, m2)"
        by (metis prod_cases3)
      define w3 where "w3 = w2\<lparr>w_semantic := b1, w_metrics := m2\<rparr>"
      have s: "sem_ok (w_semantic w2, w_metrics w2)" using w2 by (simp add: world_ok_def)
      have w3: "world_ok w3"
        using sem.lookup_ok [OF s, of emb] sh a1 by (simp add: world_ok_def w3_def w2_def w1_def)
      have c3: "cache_counters m2 = cache_counters (w_metrics w)"
        using lookup_counters [of emb "env_tag env" "w_semantic w2" "w_metrics w2"] sh c2 by (simp add: w2_def)
      show ?thesis
      proof (cases sh)
        case (Some hit)
        then have "good hit" using sem.lookup_good [OF s] sh by simp
        then show ?thesis using fw th None em emb sh Some w3 c3
          by (auto simp: core_forward_def sig_def [symmetric] Let_def w1_def w2_def w3_def)
      next
        case none: None
        obtain ranked r2 m3 where rk: "op_rank (ce_runtime env) emb inp (w_runtime w3, w_metrics w3) = (ranked, r2, m3)"
          by (metis prod_cases3)
        define w4 where "w4 = w3\<lparr>w_runtime := r2, w_metrics := m3\<rparr>"
        have w4: "world_ok w4" using w3 a1 by (intro world_ok_cong [of w4 w3]) (simp_all add: w4_def w3_def w2_def w1_def)
        have c4: "cache_counters m3 = cache_counters (w_metrics w)"
          using rank_counters [of emb inp "w_runtime w3" "w_metrics w3"] rk c3 by (simp add: w3_def)
        show ?thesis
        proof (cases ranked)
          case (Inl e)
          then show ?thesis using fw th None em emb sh none rk w4 c4
            by (auto simp: core_forward_def sig_def [symmetric] Let_def w1_def w2_def w3_def w4_def)
        next
          case r: (Inr r)
          then have "good r" using rank_good [OF emb_ok] rk by simp
          obtain b2 m4 where ins: "tier_insert (ce_semantic env) emb r (env_tag env) (w_semantic w4, w_metrics w4) = (b2, m4)"
            by fastforce
          define w5 where "w5 = w4\<lparr>w_semantic := b2, w_metrics := m4,
            w_prefilter := tier_insert (ce_prefilter env) sig r (env_tag env) (w_prefilter w4)\<rparr>"
          have s4: "sem_ok (w_semantic w4, w_metrics w4)" "text_ok (w_prefilter w4)"
            using w4 by (simp_all add: world_ok_def)
          have "world_ok w5"
            using sem.insert_ok [OF s4(1) \<open>good r\<close>, of emb] pre.insert_ok [OF s4(2) \<open>good r\<close>, of sig]
            by (simp add: world_ok_def w5_def ins)
          moreover have "cache_counters m4 = cache_counters (w_metrics w)"
            using insert_counters [of emb r "env_tag env" "w_semantic w4" "w_metrics w4"] ins c4 by (simp add: w4_def)
          moreover have "(res, w') = (Inr r, w5)"
            using fw th None em emb sh none rk r ins
            by (simp add: core_forward_def sig_def [symmetric] Let_def w1_def w2_def w3_def w4_def w5_def)
          ultimately show ?thesis using \<open>good r\<close> by (auto simp: w5_def)
        qed
      qed
    qed
  qed
qed

end

section \<open>One request, and many\<close>

lemma ec_cached_store_after_forwardD:
  "ec_cached_value k' (ec_store_after_forward k v c) = Some u \<Longrightarrow> u = v \<or> ec_cached_value k' c = Some u"
  by (cases "k' = k") (auto simp: ec_store_after_forward_def ec_cached_value_def
      dest: ec_cached_store_other [unfolded ec_cached_value_def] simp flip: ec_cached_value_def)

fun core_serve ::
  "('r, 'a, 'b) core_env \<Rightarrow> classification_input list \<Rightarrow> ('r, 'a, 'b) service_core \<Rightarrow>
     outcome list \<times> ('r, 'a, 'b) service_core" where
  "core_serve env [] c = ([], c)"
| "core_serve env (i # is) c =
     (let (r, c') = core_classify env i c; (rs, c'') = core_serve env is c' in (r # rs, c''))"

definition counted_requests :: "metrics \<Rightarrow> nat" where
  "counted_requests m = ms_cache_hits m + ms_cache_misses m + ms_cache_coalesced m"

lemma counted_requests_cong: "cache_counters m = cache_counters m' \<Longrightarrow> counted_requests m = counted_requests m'"
  by (simp add: cache_counters_def counted_requests_def)

lemma counted_requests_path [simp]: "counted_requests (record_path p m) = counted_requests m + 1"
  by (cases p) (simp_all add: record_path_def counted_requests_def metrics_defs)

context core_contract
begin

lemma core_ok_metrics:
  "core_ok \<lparr>core_cache = ch, core_world = w\<lparr>w_metrics := m\<rparr>\<rparr> = core_ok \<lparr>core_cache = ch, core_world = w\<rparr>"
  using sem_ok_metrics [of "w_semantic w" m "w_metrics w"] by (simp add: core_ok_def world_ok_def)

lemma classify_ok:
  assumes ok: "core_ok c" and cl: "core_classify env inp c = (res, c')"
  shows "core_ok c' \<and> (\<forall>r. res = Inr r \<longrightarrow> good r) \<and>
    counted_requests (w_metrics (core_world c')) =
      counted_requests (w_metrics (core_world c)) + (if completeness inp = Delta then 0 else 1)"
proof (cases "completeness inp = Delta")
  case True
  then show ?thesis using ok cl abstention_good by (auto simp: core_classify_def)
next
  case nd: False
  define key where "key = core_key env (trim (in_text inp))"
  show ?thesis
  proof (cases "ec_cached_value key (core_cache c)")
    case (Some v)
    have "good v" using ok Some by (auto simp: core_ok_def)
    moreover have eq: "res = Inr v"
      "c' = \<lparr>core_cache = core_cache c, core_world = (core_world c)\<lparr>w_metrics := record_path Hit (w_metrics (core_world c))\<rparr>\<rparr>"
      using core_hit [OF nd Some [unfolded key_def]] cl by (simp_all add: record_path_def)
    moreover have "core_ok \<lparr>core_cache = core_cache c, core_world = (core_world c)\<lparr>w_metrics := m\<rparr>\<rparr>" for m
      using ok unfolding core_ok_metrics by (cases c) simp
    ultimately show ?thesis using nd by (simp add: eq)
  next
    case None
    obtain result w' where fw: "core_forward env (env_tag env) (inp\<lparr>in_text := trim (in_text inp)\<rparr>) (core_world c) = (result, w')"
      by fastforce
    have "world_ok (core_world c)" using ok by (simp add: core_ok_def)
    from forward_ok [OF this fw] have w': "world_ok w'" "\<forall>r. result = Inr r \<longrightarrow> good r"
      "cache_counters (w_metrics w') = cache_counters (w_metrics (core_world c))" by blast+
    define ch where "ch = (case result of Inr v \<Rightarrow> ec_store_after_forward key v (core_cache c) | Inl e \<Rightarrow> core_cache c)"
    have eq: "res = result" "c' = \<lparr>core_cache = ch, core_world = w'\<lparr>w_metrics := record_path Miss (w_metrics w')\<rparr>\<rparr>"
      using core_miss [OF nd None [unfolded key_def] fw [unfolded env_tag_def], folded key_def ch_def] cl
      by (simp_all add: record_path_def ch_def)
    have "ec_inv ch \<and> (\<forall>k v. ec_cached_value k ch = Some v \<longrightarrow> good v)"
    proof (cases result)
      case (Inl e)
      then show ?thesis using ok by (simp add: ch_def core_ok_def)
    next
      case (Inr v)
      then show ?thesis using ok w'(2) ec_cached_store_after_forwardD
        by (fastforce simp: ch_def core_ok_def ec_inv_store_after_forward)
    qed
    then have "core_ok \<lparr>core_cache = ch, core_world = w'\<rparr>" using w'(1) by (simp add: core_ok_def)
    then show ?thesis using w'(2) nd counted_requests_cong [OF w'(3)] by (simp add: eq core_ok_metrics)
  qed
qed

lemma serve_ok:
  assumes "core_ok c" and "core_serve env is c = (rs, c')"
  shows "core_ok c' \<and> (\<forall>r. Inr r \<in> set rs \<longrightarrow> good r) \<and>
    counted_requests (w_metrics (core_world c')) =
      counted_requests (w_metrics (core_world c)) + length (filter (\<lambda>i. completeness i \<noteq> Delta) is)"
  using assms
proof (induction "is" arbitrary: c rs c')
  case (Cons i "is")
  obtain r c1 where c1: "core_classify env i c = (r, c1)" by fastforce
  obtain rs1 c2 where c2: "core_serve env is c1 = (rs1, c2)" by fastforce
  have eq: "rs = r # rs1" "c' = c2" using Cons.prems(2) c1 c2 by auto
  from classify_ok [OF Cons.prems(1) c1] have s1: "core_ok c1" "\<forall>x. r = Inr x \<longrightarrow> good x"
    "counted_requests (w_metrics (core_world c1)) =
      counted_requests (w_metrics (core_world c)) + (if completeness i = Delta then 0 else 1)" by blast+
  from Cons.IH [OF s1(1) c2] s1(2,3) show ?case by (auto simp: eq)
qed simp

end

section \<open>What is cached and what is counted\<close>

definition cached_keys :: "('r, 'a, 'b) service_core \<Rightarrow> cache_key set" where
  "cached_keys c = fst ` set (ec_entries (core_cache c))"

definition context_key :: "('r, 'a, 'b) core_env \<Rightarrow> string \<Rightarrow> cache_key" where
  "context_key env ctx = core_key env (trim ctx)"

abbreviation core_counters :: "('r, 'a, 'b) service_core \<Rightarrow> nat \<times> nat \<times> nat" where
  "core_counters c \<equiv> cache_counters (w_metrics (core_world c))"

lemma cached_iff: "ec_cached_value k (core_cache c) \<noteq> None \<longleftrightarrow> k \<in> cached_keys c"
  by (auto simp: ec_cached_value_def cached_keys_def map_of_eq_None_iff)

lemma store_keys:
  assumes "ec_inv c" and "length (ec_entries c) < ec_capacity c"
  shows "fst ` set (ec_entries (ec_store_after_forward k v c)) = insert k (fst ` set (ec_entries c))"
    and "length (ec_entries (ec_store_after_forward k v c)) \<le> Suc (length (ec_entries c))"
  using assms
  by (cases "map_of (ec_entries c) k";
      simp add: ec_store_after_forward_def ec_store_room ec_store_present keys_update length_update_new length_update_present)+

lemma store_keys_subset:
  assumes "ec_inv c"
  shows "fst ` set (ec_entries (ec_store_after_forward k v c)) \<subseteq> insert k (fst ` set (ec_entries c))"
proof
  fix k' assume "k' \<in> fst ` set (ec_entries (ec_store_after_forward k v c))"
  then obtain u where "ec_cached_value k' (ec_store_after_forward k v c) = Some u"
    by (metis ec_cached_value_def map_of_eq_None_iff not_None_eq)
  then have "k' = k \<or> ec_cached_value k' c = Some u"
    by (cases "k' = k") (auto simp: ec_store_after_forward_def ec_cached_value_def
        dest: ec_cached_store_other [unfolded ec_cached_value_def] simp flip: ec_cached_value_def)
  then show "k' \<in> insert k (fst ` set (ec_entries c))"
    by (auto simp: ec_cached_value_def dest: map_of_SomeD intro: rev_image_eqI)
qed

context core_contract
begin

lemma classify_effect:
  assumes ok: "core_ok c" and nd: "completeness inp \<noteq> Delta" and cl: "core_classify env inp c = (res, c')"
  defines "k \<equiv> context_key env (in_text inp)"
  shows "if k \<in> cached_keys c
    then res \<noteq> Inl e \<and> core_cache c' = core_cache c \<and>
      core_counters c' = (case core_counters c of (h, m, w) \<Rightarrow> (h + 1, m, w))
    else cached_keys c' \<subseteq> insert k (cached_keys c) \<and>
      core_counters c' = (case core_counters c of (h, m, w) \<Rightarrow> (h, m + 1, w)) \<and>
      ec_capacity (core_cache c') = ec_capacity (core_cache c) \<and>
      (length (ec_entries (core_cache c)) < ec_capacity (core_cache c) \<longrightarrow>
         length (ec_entries (core_cache c')) \<le> Suc (length (ec_entries (core_cache c))) \<and>
         cached_keys c' = (case res of Inr r \<Rightarrow> insert k (cached_keys c) | Inl e \<Rightarrow> cached_keys c))"
proof (cases "ec_cached_value k (core_cache c)")
  case (Some v)
  then have "k \<in> cached_keys c" using cached_iff [of k c] by simp
  then show ?thesis using core_hit [OF nd Some [unfolded k_def context_key_def]] cl
    by (auto simp: cache_counters_def record_cache_hit_def)
next
  case None
  then have nk: "k \<notin> cached_keys c" using cached_iff [of k c] by simp
  obtain result w' where fw: "core_forward env (env_tag env) (inp\<lparr>in_text := trim (in_text inp)\<rparr>) (core_world c) = (result, w')"
    by fastforce
  have "world_ok (core_world c)" "ec_inv (core_cache c)" using ok by (simp_all add: core_ok_def)
  from forward_ok [OF this(1) fw] have cc: "cache_counters (w_metrics w') = core_counters c" by blast
  have eq: "res = result" "core_world c' = w'\<lparr>w_metrics := record_cache_miss (w_metrics w')\<rparr>"
    "core_cache c' = (case result of Inr v \<Rightarrow> ec_store_after_forward k v (core_cache c) | Inl e \<Rightarrow> core_cache c)"
    using core_miss [OF nd None [unfolded k_def context_key_def] fw [unfolded env_tag_def]] cl
    by (auto simp: k_def context_key_def split: sum.split)
  show ?thesis
    using nk cc store_keys [OF \<open>ec_inv (core_cache c)\<close>] store_keys_subset [OF \<open>ec_inv (core_cache c)\<close>]
    by (cases result) (auto simp: eq cached_keys_def cache_counters_def record_cache_miss_def ec_store_after_forward_def)
qed

end

text \<open>
  Over a run of requests with their answers: the keys that were answered, and the requests whose
  key an earlier one had answered.
\<close>

definition answered_keys :: "('r, 'a, 'b) core_env \<Rightarrow> (classification_input \<times> outcome) list \<Rightarrow> cache_key set" where
  "answered_keys env irs =
     (\<lambda>(i, r). context_key env (in_text i)) ` set (filter (\<lambda>(i, r). completeness i \<noteq> Delta \<and> \<not> isl r) irs)"

definition repeats :: "('r, 'a, 'b) core_env \<Rightarrow> (classification_input \<times> outcome) list \<Rightarrow> nat \<Rightarrow> bool" where
  "repeats env irs n \<longleftrightarrow>
     completeness (fst (irs ! n)) \<noteq> Delta \<and>
     context_key env (in_text (fst (irs ! n))) \<in> answered_keys env (take n irs)"

definition asks_anew :: "('r, 'a, 'b) core_env \<Rightarrow> (classification_input \<times> outcome) list \<Rightarrow> nat \<Rightarrow> bool" where
  "asks_anew env irs n \<longleftrightarrow>
     completeness (fst (irs ! n)) \<noteq> Delta \<and>
     context_key env (in_text (fst (irs ! n))) \<notin> answered_keys env (take n irs)"

lemma answered_keys_snoc:
  "answered_keys env (irs @ [(i, r)]) =
     (if completeness i \<noteq> Delta \<and> \<not> isl r then insert (context_key env (in_text i)) (answered_keys env irs)
      else answered_keys env irs)"
  by (auto simp: answered_keys_def)

lemma counted_snoc:
  "filter (repeats env (irs @ [x])) [0..<length irs] = filter (repeats env irs) [0..<length irs]"
  "filter (asks_anew env (irs @ [x])) [0..<length irs] = filter (asks_anew env irs) [0..<length irs]"
  by (auto simp: repeats_def asks_anew_def nth_append intro!: filter_cong)

lemma counted_last:
  "repeats env (irs @ [(i, r)]) (length irs) \<longleftrightarrow> completeness i \<noteq> Delta \<and> context_key env (in_text i) \<in> answered_keys env irs"
  "asks_anew env (irs @ [(i, r)]) (length irs) \<longleftrightarrow> completeness i \<noteq> Delta \<and> context_key env (in_text i) \<notin> answered_keys env irs"
  by (simp_all add: repeats_def asks_anew_def)

lemma core_serve_snoc:
  "core_serve env (is @ [i]) c =
     (let (rs, c1) = core_serve env is c; (r, c2) = core_classify env i c1 in (rs @ [r], c2))"
  by (induction "is" arbitrary: c) (simp_all add: Let_def split_beta)

lemma core_serve_length: "length (fst (core_serve env is c)) = length is"
  by (induction "is" arbitrary: c) (simp_all add: Let_def split_beta)

context core_contract
begin

lemma serve_counts:
  assumes "core_ok c" and "ec_entries (core_cache c) = []" and "length is \<le> ec_capacity (core_cache c)"
    and "core_serve env is c = (rs, c')"
  shows "core_ok c' \<and> ec_capacity (core_cache c') = ec_capacity (core_cache c) \<and>
    length (ec_entries (core_cache c')) \<le> length is \<and> cached_keys c' = answered_keys env (zip is rs) \<and>
    core_counters c' = (case core_counters c of (h, m, w) \<Rightarrow>
      (h + length (filter (repeats env (zip is rs)) [0..<length is]),
       m + length (filter (asks_anew env (zip is rs)) [0..<length is]), w))"
  using assms(3,4)
proof (induction "is" arbitrary: rs c' rule: rev_induct)
  case Nil
  then show ?case using assms(1,2) by (auto simp: cached_keys_def answered_keys_def)
next
  case (snoc i "is")
  obtain rs1 c1 where c1: "core_serve env is c = (rs1, c1)" by fastforce
  obtain r c2 where c2: "core_classify env i c1 = (r, c2)" by fastforce
  have eq: "rs = rs1 @ [r]" "c' = c2" using snoc.prems(2) c1 c2 by (auto simp: core_serve_snoc)
  have len: "length rs1 = length is" using core_serve_length [of env "is" c] c1 by simp
  define irs where "irs = zip is rs1"
  have z: "zip (is @ [i]) (rs1 @ [r]) = irs @ [(i, r)]" "length irs = length is" using len by (simp_all add: irs_def)
  have ih: "core_ok c1" "ec_capacity (core_cache c1) = ec_capacity (core_cache c)"
    "length (ec_entries (core_cache c1)) \<le> length is" "cached_keys c1 = answered_keys env irs"
    "core_counters c1 = (case core_counters c of (h, m, w) \<Rightarrow>
      (h + length (filter (repeats env irs) [0..<length is]), m + length (filter (asks_anew env irs) [0..<length is]), w))"
    using snoc.IH [OF _ c1] snoc.prems(1) by (simp_all add: irs_def)
  have ok: "core_ok c2" using classify_ok [OF ih(1) c2] by blast
  note counts = counted_snoc [of env irs, unfolded z(2)] counted_last [of env irs i, unfolded z(2)]
  show ?case
  proof (cases "completeness i = Delta")
    case True
    then have "c2 = c1" using c2 by (simp add: core_classify_def)
    with True ok ih show ?thesis unfolding eq z
      by (simp add: counts answered_keys_snoc split: prod.splits)
  next
    case False
    have eff: "if context_key env (in_text i) \<in> cached_keys c1
      then r \<noteq> Inl e \<and> core_cache c2 = core_cache c1 \<and> core_counters c2 = (case core_counters c1 of (h, m, w) \<Rightarrow> (h + 1, m, w))
      else core_counters c2 = (case core_counters c1 of (h, m, w) \<Rightarrow> (h, m + 1, w)) \<and>
        ec_capacity (core_cache c2) = ec_capacity (core_cache c1) \<and>
        length (ec_entries (core_cache c2)) \<le> Suc (length (ec_entries (core_cache c1))) \<and>
        cached_keys c2 = (case r of Inr v \<Rightarrow> insert (context_key env (in_text i)) (cached_keys c1) | Inl e \<Rightarrow> cached_keys c1)" for e
      using classify_effect [OF ih(1) False c2, of e] ih(2,3) snoc.prems(1) by (auto split: if_splits)
    show ?thesis
    proof (cases "context_key env (in_text i) \<in> answered_keys env irs")
      case True
      with eff ih(4) have e: "core_cache c2 = core_cache c1" "core_counters c2 = (case core_counters c1 of (h, m, w) \<Rightarrow> (h + 1, m, w))"
        by simp_all
      then have "cached_keys c2 = cached_keys c1" by (simp add: cached_keys_def)
      with e True False ok ih show ?thesis unfolding eq z
        by (auto simp: counts answered_keys_snoc split: prod.splits)
    next
      case new: False
      with eff ih(4) have e: "core_counters c2 = (case core_counters c1 of (h, m, w) \<Rightarrow> (h, m + 1, w))"
        "ec_capacity (core_cache c2) = ec_capacity (core_cache c1)"
        "length (ec_entries (core_cache c2)) \<le> Suc (length (ec_entries (core_cache c1)))"
        "cached_keys c2 = (case r of Inr v \<Rightarrow> insert (context_key env (in_text i)) (cached_keys c1) | Inl e \<Rightarrow> cached_keys c1)"
        by simp_all
      from e(1) ih(5) have "core_counters c2 = (case core_counters c of (h, m, w) \<Rightarrow>
          (h + length (filter (repeats env irs) [0..<length is]), m + length (filter (asks_anew env irs) [0..<length is]) + 1, w))"
        by (simp split: prod.splits)
      with e(2-4) new False ok ih(2-4) show ?thesis unfolding eq z
        by (cases r) (auto simp: counts answered_keys_snoc split: prod.splits)
    qed
  qed
qed

end

section \<open>The production configurations\<close>

text \<open>
  The model-backed classifier with the default no-op semantic tier and either text tier;
  the deterministic service likewise.
\<close>

definition served_env ::
  "'r runtime_ops \<Rightarrow> (signature, 'a) tier_ops \<Rightarrow> (string \<Rightarrow> signature) \<Rightarrow> (string \<Rightarrow> string) \<Rightarrow> ('r, 'a, unit) core_env" where
  "served_env rt pre sg hash =
     \<lparr>ce_runtime = rt, ce_prefilter = pre, ce_semantic = noop_semantic, ce_signature = sg, ce_blake3 = hash\<rparr>"

lemma candle_counters:
  "cache_counters (snd (snd (candle_embed cl inp (r, m)))) = cache_counters m"
  by (auto simp: candle_embed_def Let_def cache_counters_def split: sum.split)

lemma cs_counters:
  "cache_counters (snd (snd (cs_embed cs inp (r, m)))) = cache_counters m"
  "cache_counters (snd (snd (cs_rank cs emb inp (r, m)))) = cache_counters m"
  by (auto simp: cs_embed_def cs_rank_def Let_def cache_counters_def split: sum.split)

lemmas served_defs = served_env_def noop_semantic_def noop_semantic_lookup_def noop_semantic_insert_def
  noop_text_def memory_text_def noop_text_lookup_def noop_text_insert_def

text \<open>
  What every answer of a runtime satisfies: it carries the runtime's identity, and is well
  formed if the model is finite.
\<close>

definition carries_identity :: "runtime_metadata \<Rightarrow> classification_result \<Rightarrow> bool" where
  "carries_identity m r \<longleftrightarrow> result_revisions r = meta_revisions m"

definition candle_good :: "candle_classifier \<Rightarrow> classification_result \<Rightarrow> bool" where
  "candle_good cl r \<longleftrightarrow> carries_identity (candle_metadata cl) r \<and> (finite_model cl \<longrightarrow> well_formed cl r)"

definition candle_emb_ok :: "candle_classifier \<Rightarrow> embedding \<Rightarrow> bool" where
  "candle_emb_ok cl emb \<longleftrightarrow> (finite_model cl \<longrightarrow> finite_embedding emb)"

lemma candle_contract:
  "op_embed (candle_runtime cl) inp st = (Inr emb, st') \<Longrightarrow> candle_emb_ok cl emb"
  "candle_emb_ok cl emb \<Longrightarrow> op_rank (candle_runtime cl) emb inp st = (Inr r, st') \<Longrightarrow> candle_good cl r"
  "candle_good cl (insufficient_context_abstention (op_metadata (candle_runtime cl)))"
  "cache_counters (snd (snd (op_embed (candle_runtime cl) inp (r0, m)))) = cache_counters m"
  "cache_counters (snd (snd (op_rank (candle_runtime cl) emb inp (r0, m)))) = cache_counters m"
  by (auto simp: candle_runtime_def candle_emb_ok_def candle_good_def carries_identity_def embedded_finite
      candle_rank_def candle_rank_revisions ranked_well_formed candle_counters)

interpretation memory_tier: owned_tier
  "tier_lookup (memory_text hband)" "tier_insert (memory_text hband)" tc_contents "tc_inv hband" "isolation" "holds_of"
  for hband isolation holds_of
  unfolding memory_text_def by unfold_locales
    (auto simp: text_lookup_contents tc_inv_insert dest: subsetD [OF text_insert_contents])

abbreviation text_owned :: "(nat \<Rightarrow> u64 list \<Rightarrow> u64) \<Rightarrow> candle_classifier \<Rightarrow> text_cache \<Rightarrow> bool" where
  "text_owned hband cl \<equiv>
     owned_tier.owned tc_contents (tc_inv hband) (identity_tag (cache_identity (candle_metadata cl))) (candle_good cl)"

lemma candle_served_simps [simp]:
  "op_metadata (ce_runtime (served_env (candle_runtime cl) pre sg hash)) = candle_metadata cl"
  "env_tag (served_env (candle_runtime cl) pre sg hash) = identity_tag (cache_identity (candle_metadata cl))"
  "ce_runtime (served_env rt pre sg hash) = rt" "ce_prefilter (served_env rt pre sg hash) = pre"
  "ce_semantic (served_env rt pre sg hash) = noop_semantic"
  by (simp_all add: served_env_def candle_runtime_def env_tag_def)

interpretation candle_memory: core_contract
  "served_env (candle_runtime cl) (memory_text hband) sg hash" "candle_good cl" "candle_emb_ok cl"
  "text_owned hband cl" "\<lambda>_. True"
  by unfold_locales
    (auto intro: candle_contract memory_tier.lookup_good memory_tier.lookup_ok memory_tier.insert_ok
      simp: candle_contract(4,5) noop_semantic_def noop_semantic_lookup_def noop_semantic_insert_def)

interpretation candle_default: core_contract
  "served_env (candle_runtime cl) noop_text sg hash" "candle_good cl" "candle_emb_ok cl" "\<lambda>_. True" "\<lambda>_. True"
  by unfold_locales
    (auto intro: candle_contract simp: candle_contract(4,5) served_defs)

interpretation synthetic_default: core_contract
  "served_env (cs_runtime cs) noop_text sg hash" "carries_identity cs_metadata" "\<lambda>_. True" "\<lambda>_. True" "\<lambda>_. True"
  by unfold_locales (auto simp: served_defs cs_runtime_def carries_identity_def cs_rank_revisions cs_counters)

lemma fresh_cache [simp]: "ec_inv ec_new" "ec_cached_value k ec_new = None"
  by (simp_all add: ec_new_def ec_inv_new) (simp add: ec_cached_value_def ec_with_capacity_def)

lemma fresh_text [simp]: "tc_contents (text_cache_new capacity thr) = {}"
  by (simp add: tc_contents_def text_cache_new_def)

lemma candle_fresh_ok:
  "candle_memory.core_ok cl hband (core_new counters (text_cache_new capacity thr) () m)"
  by (simp add: candle_memory.core_ok_def candle_memory.world_ok_def core_new_def tc_inv_new memory_tier.owned_empty)

text \<open>
  C2. Served by the model-backed classifier with the in-process text cache from a fresh
  start, whatever the requests: every result, computed, abstained, or served from the
  exact or the text cache, carries the identity of the loaded classifier.
\<close>

theorem served_results_carry_identity:
  assumes "core_serve (served_env (candle_runtime cl) (memory_text hband) sg hash) is
             (core_new counters (text_cache_new capacity thr) () m) = (rs, c')"
  shows "{r. Inr r \<in> set rs} \<subseteq> {r. result_revisions r = meta_revisions (candle_metadata cl)}"
  using candle_memory.serve_ok [OF candle_fresh_ok assms]
  by (auto simp: candle_good_def carries_identity_def)

theorem served_results_carry_identity_witness:
  "\<exists>r c'. core_serve (served_env (candle_runtime (candle_new demo_embedder [] exp_ieee)) (memory_text (\<lambda>b _. of_nat b)) (\<lambda>_. zero_sig) (\<lambda>s. s))
     [demo_request\<lparr>completeness := Delta\<rparr>]
     (core_new \<lparr>tokenizer_calls = 0, forward_calls = 0\<rparr> (text_cache_new 4 (Fin 1)) () metrics_new) = ([Inr r], c') \<and>
   result_revisions r = meta_revisions (candle_metadata (candle_new demo_embedder [] exp_ieee))"
proof -
  define env where "env = served_env (candle_runtime (candle_new demo_embedder [] exp_ieee)) (memory_text (\<lambda>b _. of_nat b)) (\<lambda>_. zero_sig) (\<lambda>s. s)"
  define c where "c = core_new \<lparr>tokenizer_calls = 0, forward_calls = 0\<rparr> (text_cache_new 4 (Fin 1)) () metrics_new"
  obtain r where r: "core_serve env [demo_request\<lparr>completeness := Delta\<rparr>] c = ([Inr r], c)"
    by (simp add: core_classify_def)
  have "r \<in> {r. Inr r \<in> set [Inr r :: outcome]}" by simp
  with served_results_carry_identity [OF r [unfolded env_def c_def]] r show ?thesis
    by (fastforce simp: env_def c_def)
qed

text \<open>
  On a finite model every result that is served, from whichever tier, is well formed: an
  abstention ranks nothing, and a ranking lists labels of the classifier at most as often
  as they are declared, with finite scores in descending order, ties in label order, and
  scores of a trained head between 0 and 1.
\<close>

theorem served_results_are_well_formed:
  assumes "finite_model cl"
    and "core_serve (served_env (candle_runtime cl) (memory_text hband) sg hash) is
           (core_new counters (text_cache_new capacity thr) () m) = (rs, c')"
  shows "{r. Inr r \<in> set rs} \<subseteq> {r. well_formed cl r}"
  using candle_memory.serve_ok [OF candle_fresh_ok assms(2)] assms(1)
  by (auto simp: candle_good_def)

definition finite_demo :: candle_classifier where
  "finite_demo = candle_new
     \<lparr>em_tokenize = (\<lambda>s. Inr [length s]), em_embed = (\<lambda>_. Inr [Fin 1]), em_embed_and_classify = (\<lambda>_. Inr ([Fin 1], None)), em_labels = None\<rparr>
     [prototype_new ''a'' [Fin 0], prototype_new ''b'' [Fin 2]] exp_ieee"

lemma finite_demo_total:
  "\<exists>ids. em_tokenize (cl_embedder finite_demo) t = Inr ids" "\<exists>v. em_embed_and_classify (cl_embedder finite_demo) ids' = Inr v"
  by (simp_all add: finite_demo_def candle_new_def)

lemma finite_demo_model: "finite_model finite_demo"
  using is_f32_nat [of 0] is_f32_nat [of 1] is_f32_nat [of 2] ieee.exponential_axioms
  by (simp add: finite_model_def finite_demo_def candle_new_def finite_embedding_def embedding_with_logits_def f32_vec_def
      prototype_new_def)

text \<open>A classifier whose tokenizer and model never fail answers every request with a result.\<close>

lemma total_runtime_classifies:
  assumes "\<And>t. \<exists>ids. em_tokenize (cl_embedder cl) t = Inr ids"
    and "\<And>ids. \<exists>v. em_embed_and_classify (cl_embedder cl) ids = Inr v"
    and "ce_runtime env = candle_runtime cl"
  shows "\<exists>r c'. core_classify env inp c = (Inr r, c')"
proof (cases "completeness inp = Delta")
  case True
  then show ?thesis by (simp add: core_classify_def)
next
  case nd: False
  show ?thesis
  proof (cases "ec_cached_value (core_key env (trim (in_text inp))) (core_cache c)")
    case (Some v)
    from core_hit [OF nd Some] show ?thesis by blast
  next
    case None
    obtain result w' where fw: "core_forward env (identity_tag (cache_identity (op_metadata (ce_runtime env))))
        (inp\<lparr>in_text := trim (in_text inp)\<rparr>) (core_world c) = (result, w')" by fastforce
    obtain ids where ids: "em_tokenize (cl_embedder cl) (trim (trim (in_text inp))) = Inr ids" using assms(1) by blast
    obtain v where v: "em_embed_and_classify (cl_embedder cl) ids = Inr v" using assms(2) by blast
    have "\<exists>v. result = Inr v"
      using fw ids v by (auto simp: assms(3) core_forward_def candle_runtime_def candle_embed_def candle_rank_def
          Let_def split: option.splits prod.splits)
    with core_miss [OF nd None fw] show ?thesis by auto
  qed
qed

lemmas total_model_classifies = total_runtime_classifies [OF _ _ candle_served_simps(3)]

theorem served_results_are_well_formed_witness:
  "\<exists>r c'. core_serve (served_env (candle_runtime finite_demo) (memory_text (\<lambda>b _. of_nat b)) (\<lambda>_. zero_sig) (\<lambda>s. s)) [demo_request]
     (core_new \<lparr>tokenizer_calls = 0, forward_calls = 0\<rparr> (text_cache_new 4 (Fin 1)) () metrics_new) = ([Inr r], c') \<and>
     well_formed finite_demo r"
proof -
  define env where "env = served_env (candle_runtime finite_demo) (memory_text (\<lambda>b _. of_nat b)) (\<lambda>_. zero_sig) (\<lambda>s. s)"
  define c where "c = core_new \<lparr>tokenizer_calls = 0, forward_calls = 0\<rparr> (text_cache_new 4 (Fin 1)) () metrics_new"
  obtain r c' where "core_classify env demo_request c = (Inr r, c')"
    unfolding env_def using total_model_classifies [of finite_demo]
    by (metis finite_demo_total)
  then have "core_serve env [demo_request] c = ([Inr r], c')" by simp
  with served_results_are_well_formed [OF finite_demo_model this [unfolded env_def c_def]] show ?thesis
    unfolding env_def c_def by auto
qed

text \<open>
  C32. The cache counters say what happened. Over a run of requests one after the other,
  from a fresh start and with no more requests than the exact cache holds, the hits are
  exactly the requests whose cache key an earlier request of the run had been answered
  for, the misses are exactly the others that have a context (a failure is not cached:
  asking again is a miss again), and delta-only requests are not counted; nothing is
  coalesced, as no two requests overlap.
\<close>

theorem cache_counters_partition:
  assumes "core_serve (served_env (candle_runtime cl) noop_text sg hash) is (core_new counters () () m) = (rs, c')"
    and "length is \<le> DEFAULT_CAPACITY"
  shows "ms_cache_hits (w_metrics (core_world c')) =
      ms_cache_hits m + length (filter (repeats (served_env (candle_runtime cl) noop_text sg hash) (zip is rs)) [0..<length is]) \<and>
    ms_cache_misses (w_metrics (core_world c')) =
      ms_cache_misses m + length (filter (asks_anew (served_env (candle_runtime cl) noop_text sg hash) (zip is rs)) [0..<length is]) \<and>
    ms_cache_coalesced (w_metrics (core_world c')) = ms_cache_coalesced m"
proof -
  have ok: "candle_default.core_ok cl (core_new counters () () m)"
    by (simp add: candle_default.core_ok_def candle_default.world_ok_def core_new_def)
  have cap: "ec_capacity (core_cache (core_new counters () () m)) = DEFAULT_CAPACITY"
    "ec_entries (core_cache (core_new counters () () m)) = []"
    by (simp_all add: core_new_def ec_new_def ec_with_capacity_def DEFAULT_CAPACITY_def)
  from candle_default.serve_counts [OF ok cap(2) _ assms(1)] assms(2) cap(1) show ?thesis
    by (simp add: cache_counters_def core_new_def)
qed

text \<open>The same text twice, with other white space, and a delta-only request: a miss and a hit.\<close>

theorem cache_counters_partition_witness:
  "\<exists>rs c'. core_serve (served_env (candle_runtime (candle_new demo_embedder [] exp_ieee)) noop_text (\<lambda>_. zero_sig) (\<lambda>s. s))
      [demo_request, demo_request\<lparr>completeness := Delta\<rparr>, demo_request\<lparr>in_text := ''hi''\<rparr>]
      (core_new \<lparr>tokenizer_calls = 0, forward_calls = 0\<rparr> () () metrics_new) = (rs, c') \<and>
    ms_cache_hits (w_metrics (core_world c')) = 1 \<and> ms_cache_misses (w_metrics (core_world c')) = 1"
proof -
  let ?env = "served_env (candle_runtime (candle_new demo_embedder [] exp_ieee)) noop_text (\<lambda>_. zero_sig) (\<lambda>s. s)"
  let ?c = "core_new \<lparr>tokenizer_calls = 0, forward_calls = 0\<rparr> () () metrics_new"
  have total: "\<exists>r c'. core_classify ?env i c = (Inr r, c')" for i c
    by (rule total_model_classifies) (simp_all add: candle_new_def demo_embedder_def)
  obtain r1 c1 where c1: "core_classify ?env demo_request ?c = (Inr r1, c1)" using total by blast
  obtain r3 c3 where c3: "core_classify ?env (demo_request\<lparr>in_text := ''hi''\<rparr>) c1 = (Inr r3, c3)" using total by blast
  obtain r2 where c2: "core_classify ?env (demo_request\<lparr>completeness := Delta\<rparr>) c1 = (Inr r2, c1)"
    by (simp add: core_classify_def)
  have run: "core_serve ?env [demo_request, demo_request\<lparr>completeness := Delta\<rparr>, demo_request\<lparr>in_text := ''hi''\<rparr>] ?c
      = ([Inr r1, Inr r2, Inr r3], c3)"
    by (simp add: c1 c2 c3)
  have key: "context_key ?env (in_text demo_request) = context_key ?env ''hi''"
  proof -
    have "trim (in_text demo_request) = trim ''hi''" unfolding demo_request_def by code_simp
    then show ?thesis by (simp add: context_key_def)
  qed
  have full: "completeness demo_request = Full" by (simp add: demo_request_def)
  have counts: "[0..<3] = [0, 1, 2]" by (simp add: upt_rec)
  have "3 \<le> DEFAULT_CAPACITY" by (simp add: DEFAULT_CAPACITY_def)
  with cache_counters_partition [OF run] run show ?thesis
    by (simp add: counts repeats_def asks_anew_def answered_keys_def key full metrics_new_def numeral_2_eq_2)
qed

section \<open>What a miss costs\<close>

lemma candle_embed_calls:
  "forward_calls (fst (snd (candle_embed cl inp st))) \<le> forward_calls (fst st) + 1"
  by (auto simp: candle_embed_def Let_def split: sum.split)

text \<open>
  A request runs the model at most once, and not at all when the exact cache, the text
  tier or the delta check answers it.
\<close>

theorem model_runs_at_most_once:
  assumes "ce_runtime env = candle_runtime cl" and "core_classify env inp c = (res, c')"
  shows "forward_calls (w_runtime (core_world c')) \<le> forward_calls (w_runtime (core_world c)) + 1 \<and>
    (completeness inp = Delta \<or>
     ec_cached_value (core_key env (trim (in_text inp))) (core_cache c) \<noteq> None \<or>
     fst (tier_lookup (ce_prefilter env) (ce_signature env (trim (in_text inp)))
       (identity_tag (cache_identity (op_metadata (ce_runtime env)))) (w_prefilter (core_world c))) \<noteq> None
     \<longrightarrow> w_runtime (core_world c') = w_runtime (core_world c))"
proof (cases "completeness inp = Delta \<or> ec_cached_value (core_key env (trim (in_text inp))) (core_cache c) \<noteq> None")
  case True
  then have "w_runtime (core_world c') = w_runtime (core_world c)"
  proof (cases "completeness inp = Delta")
    case True
    then show ?thesis using assms(2) by (auto simp: core_classify_def)
  next
    case False
    with True obtain r where "ec_cached_value (core_key env (trim (in_text inp))) (core_cache c) = Some r" by auto
    from core_hit [OF False this] assms(2) show ?thesis by auto
  qed
  then show ?thesis by simp
next
  case False
  define tag where "tag = identity_tag (cache_identity (op_metadata (ce_runtime env)))"
  obtain result w' where fw: "core_forward env tag (inp\<lparr>in_text := trim (in_text inp)\<rparr>) (core_world c) = (result, w')"
    by fastforce
  from core_miss [of inp env c] False fw assms(2)
  have w: "w_runtime (core_world c') = w_runtime w'" by (auto simp: tag_def)
  obtain th a1 where th: "tier_lookup (ce_prefilter env) (ce_signature env (trim (in_text inp))) tag
      (w_prefilter (core_world c)) = (th, a1)" by fastforce
  show ?thesis
  proof (cases th)
    case (Some hit)
    then have "w_runtime w' = w_runtime (core_world c)" using fw th by (auto simp: core_forward_def Let_def)
    then show ?thesis by (simp add: w)
  next
    case None
    obtain embedded r1 m1 where em: "candle_embed cl (inp\<lparr>in_text := trim (in_text inp)\<rparr>)
        (w_runtime (core_world c), w_metrics (core_world c)) = (embedded, r1, m1)" by (metis prod_cases3)
    have le: "forward_calls r1 \<le> forward_calls (w_runtime (core_world c)) + 1"
      using candle_embed_calls [of cl "inp\<lparr>in_text := trim (in_text inp)\<rparr>"
          "(w_runtime (core_world c), w_metrics (core_world c))"] em by simp
    have "w_runtime w' = r1"
      using fw th None em assms(1)
      by (auto simp: core_forward_def Let_def candle_runtime_def candle_rank_def split: sum.splits option.splits prod.splits)
    then show ?thesis using le False th None by (simp add: w tag_def)
  qed
qed

theorem model_runs_at_most_once_witness:
  "\<exists>res c'. core_classify (served_env (candle_runtime (candle_new demo_embedder [] exp_ieee)) noop_text (\<lambda>_. zero_sig) (\<lambda>s. s))
      demo_request (core_new \<lparr>tokenizer_calls = 0, forward_calls = 0\<rparr> () () metrics_new) = (res, c') \<and>
     forward_calls (w_runtime (core_world c')) \<le> 1"
proof -
  obtain res c' where c: "core_classify (served_env (candle_runtime (candle_new demo_embedder [] exp_ieee)) noop_text (\<lambda>_. zero_sig) (\<lambda>s. s))
      demo_request (core_new \<lparr>tokenizer_calls = 0, forward_calls = 0\<rparr> () () metrics_new) = (res, c')" by fastforce
  from model_runs_at_most_once [OF _ c, of "candle_new demo_embedder [] exp_ieee"] c show ?thesis
    by (auto simp: served_env_def core_new_def)
qed

text \<open>
  A request that the text tier answers runs no forward at all, and yet it is counted as a
  cache miss and in \<open>forward_count\<close>, which are documented to count real
  forwards.
\<close>

theorem text_hit_counts_as_forward:
  assumes "completeness inp \<noteq> Delta"
    and "ec_cached_value (core_key env (trim (in_text inp))) (core_cache c) = None"
    and "tier_lookup (ce_prefilter env) (ce_signature env (trim (in_text inp)))
           (identity_tag (cache_identity (op_metadata (ce_runtime env)))) (w_prefilter (core_world c)) = (Some hit, tier')"
    and "core_classify env inp c = (res, c')"
  shows "res = Inr hit \<and> w_runtime (core_world c') = w_runtime (core_world c) \<and>
    core_forward_count c' = core_forward_count c + 1 \<and>
    ms_cache_misses (w_metrics (core_world c')) = ms_cache_misses (w_metrics (core_world c)) + 1"
proof -
  have fw: "core_forward env (identity_tag (cache_identity (op_metadata (ce_runtime env))))
      (inp\<lparr>in_text := trim (in_text inp)\<rparr>) (core_world c) = (Inr hit, (core_world c)\<lparr>w_prefilter := tier'\<rparr>)"
    using assms(3) by (simp add: core_forward_def Let_def)
  from core_miss [OF assms(1,2) fw] assms(4) show ?thesis
    by (auto simp: core_forward_count_def ec_store_after_forward_def ec_store_def split_beta Let_def
        record_cache_miss_def)
qed

theorem text_hit_counts_as_forward_witness:
  "\<exists>c'. core_classify (served_env (candle_runtime (candle_new demo_embedder [] exp_ieee))
        \<lparr>tier_lookup = (\<lambda>s t a. (Some demo_result, a)), tier_insert = (\<lambda>s r t a. a)\<rparr> (\<lambda>_. zero_sig) (\<lambda>s. s))
      demo_request (core_new \<lparr>tokenizer_calls = 0, forward_calls = 0\<rparr> () () metrics_new) = (Inr demo_result, c') \<and>
     forward_calls (w_runtime (core_world c')) = 0 \<and> core_forward_count c' = 1"
proof -
  define env :: "(candle_counters, unit, unit) core_env" where "env = served_env (candle_runtime (candle_new demo_embedder [] exp_ieee))
        \<lparr>tier_lookup = (\<lambda>s t a. (Some demo_result, a)), tier_insert = (\<lambda>s r t a. a)\<rparr> (\<lambda>_. zero_sig) (\<lambda>s. s)"
  define c where "c = core_new \<lparr>tokenizer_calls = 0, forward_calls = 0\<rparr> () () metrics_new"
  obtain res c' where cl: "core_classify env demo_request c = (res, c')" by fastforce
  have "res = Inr demo_result \<and> w_runtime (core_world c') = w_runtime (core_world c) \<and>
    core_forward_count c' = core_forward_count c + 1 \<and>
    ms_cache_misses (w_metrics (core_world c')) = ms_cache_misses (w_metrics (core_world c)) + 1"
    by (rule text_hit_counts_as_forward [where tier' = "()" and hit = demo_result, OF _ _ _ cl])
      (simp_all add: demo_request_def env_def served_env_def c_def core_new_def ec_new_def ec_with_capacity_def
        ec_cached_value_def)
  with cl show ?thesis
    by (auto simp: env_def c_def core_new_def core_forward_count_def ec_new_def ec_with_capacity_def)
qed

section \<open>The service core on the deterministic service\<close>

text \<open>A served request and a failing one, on which the properties of \<open>ServiceCore\<close> are evaluated.\<close>

definition demo_core_env :: "classify_service \<Rightarrow> (unit, unit, unit) core_env" where
  "demo_core_env cs = served_env (cs_runtime cs) noop_text (\<lambda>_. zero_sig) (\<lambda>s. s)"

definition demo_core :: "(unit, unit, unit) service_core" where
  "demo_core = core_new () () () metrics_new"

definition failing_service :: classify_service where
  "failing_service = demo_service\<lparr>cs_tokenize := (\<lambda>_. Inl ''bad token'')\<rparr>"

lemmas demo_core_simps = demo_core_env_def demo_core_def core_new_def core_forward_def Let_def
  cs_runtime_def cs_embed_def cs_rank_def served_defs

lemma demo_core_empty [simp]: "ec_cached_value k (core_cache demo_core) = None" "ec_inv (core_cache demo_core)"
  by (simp_all add: demo_core_def core_new_def)

lemma demo_request_full [simp]: "completeness demo_request = Full"
  by (simp add: demo_request_def)

lemma demo_core_answers:
  obtains r c' where "core_classify (demo_core_env demo_service) demo_request demo_core = (Inr r, c')"
proof -
  obtain r w' where fw: "core_forward (demo_core_env demo_service)
      (identity_tag (cache_identity (op_metadata (ce_runtime (demo_core_env demo_service)))))
      (demo_request\<lparr>in_text := trim (in_text demo_request)\<rparr>) (core_world demo_core) = (Inr r, w')"
    by (simp add: demo_core_simps demo_service_def)
  show ?thesis by (rule that, rule core_miss [OF _ _ fw]) simp_all
qed

theorem delta_abstains_witness:
  "core_classify (demo_core_env demo_service) (demo_request\<lparr>completeness := Delta\<rparr>) demo_core =
     (Inr (insufficient_context_abstention (op_metadata (ce_runtime (demo_core_env demo_service)))), demo_core)"
  using delta_abstains [of "demo_request\<lparr>completeness := Delta\<rparr>"] by simp

theorem exact_hit_bypasses_backend_witness:
  "\<exists>r c'. ec_cached_value (core_key (demo_core_env demo_service) (trim (in_text demo_request))) (core_cache c') = Some r \<and>
     core_classify (demo_core_env failing_service) demo_request c' =
       (Inr r, c'\<lparr>core_world := (core_world c')\<lparr>w_metrics := record_cache_hit (w_metrics (core_world c'))\<rparr>\<rparr>)"
proof -
  obtain r :: classification_result where True by simp
  define k where "k = core_key (demo_core_env demo_service) (trim (in_text demo_request))"
  define c' where "c' = demo_core\<lparr>core_cache := ec_store_after_forward k r (core_cache demo_core)\<rparr>"
  have key: "core_key (demo_core_env failing_service) (trim (in_text demo_request)) = k"
    by (simp add: k_def core_key_def demo_core_env_def served_env_def cs_runtime_def)
  have hit: "ec_cached_value k (core_cache c') = Some r" by (simp add: c'_def ec_store_cached)
  from exact_hit_bypasses_backend [of demo_request "demo_core_env failing_service" c' r] hit key
  show ?thesis unfolding k_def by auto
qed

theorem failures_are_not_cached_witness:
  "\<exists>c'. core_classify (demo_core_env failing_service) demo_request demo_core =
       (Inl (TokenizerError ''bad token''), c') \<and> core_cache c' = core_cache demo_core"
proof -
  obtain w' where fw: "core_forward (demo_core_env failing_service)
      (identity_tag (cache_identity (op_metadata (ce_runtime (demo_core_env failing_service)))))
      (demo_request\<lparr>in_text := trim (in_text demo_request)\<rparr>) (core_world demo_core)
      = (Inl (TokenizerError ''bad token''), w')"
    by (simp add: demo_core_simps failing_service_def)
  obtain c' where c': "core_classify (demo_core_env failing_service) demo_request demo_core =
      (Inl (TokenizerError ''bad token''), c')"
    using core_miss [OF _ _ fw] by simp
  from failures_are_not_cached [OF c'] c' show ?thesis by blast
qed

theorem repeated_request_hits_witness:
  "\<exists>r c'. core_classify (demo_core_env demo_service) demo_request demo_core = (Inr r, c') \<and>
     core_classify (demo_core_env demo_service) (demo_request\<lparr>in_text := ''hi''\<rparr>) c' =
       (Inr r, c'\<lparr>core_world := (core_world c')\<lparr>w_metrics := record_cache_hit (w_metrics (core_world c'))\<rparr>\<rparr>)"
proof -
  obtain r c' where c': "core_classify (demo_core_env demo_service) demo_request demo_core = (Inr r, c')"
    by (rule demo_core_answers)
  have "trim (in_text (demo_request\<lparr>in_text := ''hi''\<rparr>)) = trim (in_text demo_request)"
    unfolding demo_request_def by code_simp
  from repeated_request_hits [OF _ _ _ this c'] c' show ?thesis by auto
qed

end
