(* ===== verification/RedisCodec.thy ===== *)
theory RedisCodec
  imports ClassifyTypes Parsing
begin

text \<open>
  The codec of the Redis-backed tiers (\<open>src/src/cache/redis_codec.rs\<close> and the reply
  handling of \<open>src/src/cache/redis.rs\<close>, repeated in \<open>response.rs\<close>): vector blobs, the
  escaping of tag values, the search query and the parsing of a search reply. The four
  bytes of an \<open>f32\<close> are a parameter, since the model does not represent bit patterns.
\<close>

section \<open>Lossy decoding of bytes\<close>

text \<open>
  \<open>String::from_utf8_lossy\<close>: each maximal prefix of an ill-formed sequence becomes
  U+FFFD. \<open>utf8_step\<close> says whether a well-formed character starts here and how many bytes
  are consumed.
\<close>

definition in_range :: "nat \<Rightarrow> nat \<Rightarrow> string \<Rightarrow> nat \<Rightarrow> bool" where
  "in_range lo hi s i \<longleftrightarrow> i < length s \<and> lo \<le> byte (s ! i) \<and> byte (s ! i) \<le> hi"

definition utf8_step :: "string \<Rightarrow> bool \<times> nat" where
  "utf8_step s =
     (let b = byte (s ! 0); cont = in_range 0x80 0xBF s;
          tail3 = (\<lambda>lo hi. if \<not> in_range lo hi s 1 then (False, 1) else if \<not> cont 2 then (False, 2) else (True, 3));
          tail4 = (\<lambda>lo hi. if \<not> in_range lo hi s 1 then (False, 1) else if \<not> cont 2 then (False, 2)
                     else if \<not> cont 3 then (False, 3) else (True, 4))
      in if b < 0x80 then (True, 1)
         else if 0xC2 \<le> b \<and> b \<le> 0xDF then (if cont 1 then (True, 2) else (False, 1))
         else if b = 0xE0 then tail3 0xA0 0xBF
         else if b = 0xED then tail3 0x80 0x9F
         else if 0xE1 \<le> b \<and> b \<le> 0xEF then tail3 0x80 0xBF
         else if b = 0xF0 then tail4 0x90 0xBF
         else if 0xF1 \<le> b \<and> b \<le> 0xF3 then tail4 0x80 0xBF
         else if b = 0xF4 then tail4 0x80 0x8F
         else (False, 1))"

lemma utf8_step_pos: "0 < snd (utf8_step s)"
  by (simp add: utf8_step_def Let_def)

definition replacement_char :: string where
  "replacement_char = [CHR 0xEF, CHR 0xBF, CHR 0xBD]"

function from_utf8_lossy :: "string \<Rightarrow> string" where
  "from_utf8_lossy s =
     (if s = [] then []
      else (if fst (utf8_step s) then take (snd (utf8_step s)) s else replacement_char)
           @ from_utf8_lossy (drop (snd (utf8_step s)) s))"
  by pat_completeness auto
termination
proof (relation "measure length")
  fix s :: string assume "s \<noteq> []"
  then show "(drop (snd (utf8_step s)) s, s) \<in> measure length"
    using utf8_step_pos [of s] by simp
qed simp

declare from_utf8_lossy.simps [simp del]

lemma lossy_Nil [simp]: "from_utf8_lossy [] = []"
  by (simp add: from_utf8_lossy.simps)

lemma lossy_ascii: "\<forall>c\<in>set s. byte c < 128 \<Longrightarrow> from_utf8_lossy s = s"
  by (induction s) (simp_all add: from_utf8_lossy.simps [of "c # s" for c s] utf8_step_def Let_def)

section \<open>Encoding\<close>

definition index_name :: string where "index_name = ''sc_semantic_idx''"

definition resp_index_name :: string where "resp_index_name = ''resp_semantic_idx''"

definition vector_to_bytes :: "(flt \<Rightarrow> string) \<Rightarrow> flt list \<Rightarrow> string" where
  "vector_to_bytes f32_bytes v = concat (List.map f32_bytes v)"

definition cosine_score_from_distance :: "flt \<Rightarrow> flt" where
  "cosine_score_from_distance d = fsub round32 (Fin 1) d"

definition is_ascii_alnum :: "char \<Rightarrow> bool" where
  "is_ascii_alnum c \<longleftrightarrow>
     (48 \<le> byte c \<and> byte c \<le> 57) \<or> (65 \<le> byte c \<and> byte c \<le> 90) \<or> (97 \<le> byte c \<and> byte c \<le> 122)"

text \<open>
  Over the bytes of a UTF-8 string: a character other than an ASCII letter, digit or
  underscore gets a backslash before its first byte.
\<close>

definition escape_char :: "char \<Rightarrow> string" where
  "escape_char c = (if is_ascii_alnum c \<or> c = CHR ''_'' \<or> is_cont_byte c then [c] else [CHR 0x5C, c])"

definition escape_tag_value :: "string \<Rightarrow> string" where
  "escape_tag_value s = concat (List.map escape_char s)"

definition knn_query :: "string \<Rightarrow> string \<Rightarrow> string" where
  "knn_query field tag = ''(@'' @ field @ '':{'' @ escape_tag_value tag @ ''})=>[KNN 1 @vec $BLOB AS dist]''"

definition semantic_key :: "(string \<Rightarrow> string) \<Rightarrow> string \<Rightarrow> string \<Rightarrow> string" where
  "semantic_key hex identity blob = ''sc:'' @ identity @ '':'' @ hex blob"

definition response_key :: "(string \<Rightarrow> string) \<Rightarrow> string \<Rightarrow> string \<Rightarrow> string" where
  "response_key hex model blob = ''resp:'' @ model @ '':'' @ hex blob"

section \<open>Replies\<close>

text \<open>The shapes of a reply the code distinguishes.\<close>

datatype redis_value = RArray "redis_value list" | RBulk string | RSimple string | ROther

fun as_string :: "redis_value \<Rightarrow> string option" where
  "as_string (RBulk bytes) = Some (from_utf8_lossy bytes)"
| "as_string (RSimple s) = Some s"
| "as_string _ = None"

fun knn_fields :: "redis_value list \<Rightarrow> flt option \<times> string option \<Rightarrow> flt option \<times> string option" where
  "knn_fields (n # v # fds) (dst, payload) =
     knn_fields fds
       (if as_string n = Some ''dist'' then (Option.bind (as_string v) parse_f32, payload)
        else if as_string n = Some ''payload'' then (dst, as_string v)
        else (dst, payload))"
| "knn_fields _ acc = acc"

definition parse_knn_reply :: "redis_value \<Rightarrow> (flt \<times> string) option" where
  "parse_knn_reply reply =
     (case reply of
        RArray items \<Rightarrow>
          (if 2 < length items then
             (case items ! 2 of
                RArray fds \<Rightarrow>
                  (case knn_fields fds (None, None) of
                     (Some d, Some p) \<Rightarrow> Some (d, p)
                   | _ \<Rightarrow> None)
              | _ \<Rightarrow> None)
           else None)
      | _ \<Rightarrow> None)"

section \<open>Properties\<close>

text \<open>Reading an escaped value back, and a blob of four-byte floats.\<close>

fun unescape :: "string \<Rightarrow> string" where
  "unescape [] = []"
| "unescape [c] = [c]"
| "unescape (c # d # s) = (if c = CHR 0x5C then d # unescape s else c # unescape (d # s))"

lemma unescape_plain: "c \<noteq> CHR 0x5C \<Longrightarrow> unescape (c # s) = c # unescape s"
  by (cases s) simp_all

lemma escape_char_cases:
  "escape_char c = [c] \<and> c \<noteq> CHR 0x5C \<or> escape_char c = [CHR 0x5C, c]"
  by (auto simp: escape_char_def is_ascii_alnum_def is_cont_byte_def)

lemma unescape_escape: "unescape (escape_tag_value s) = s"
proof (induction s)
  case (Cons c s)
  then show ?case
    using escape_char_cases [of c] by (auto simp: escape_tag_value_def unescape_plain)
qed (simp add: escape_tag_value_def)

text \<open>
  How the server reads the tag of a query: a backslash takes the next character as it is, an
  unescaped brace closes the tag, and an unescaped special character makes it something other
  than one exact tag. The special characters are a parameter; the documentation keeps them
  among the ASCII characters that are not letters, digits or underscores.
\<close>

fun read_tag :: "(char \<Rightarrow> bool) \<Rightarrow> string \<Rightarrow> (string \<times> string) option" where
  "read_tag special [] = None"
| "read_tag special (c # s) =
     (if c = CHR 0x5C then
        (case s of [] \<Rightarrow> None | d # s' \<Rightarrow> map_option (apfst ((#) d)) (read_tag special s'))
      else if c = CHR ''}'' then Some ([], s)
      else if special c then None
      else map_option (apfst ((#) c)) (read_tag special s))"

definition read_query :: "(char \<Rightarrow> bool) \<Rightarrow> string \<Rightarrow> string \<Rightarrow> (string \<times> string) option" where
  "read_query special field q =
     (let pre = ''(@'' @ field @ '':{''
      in if take (length pre) q = pre then read_tag special (drop (length pre) q) else None)"

definition query_specials :: "(char \<Rightarrow> bool) \<Rightarrow> bool" where
  "query_specials special \<longleftrightarrow> (\<forall>c. special c \<longrightarrow> byte c < 128 \<and> \<not> is_ascii_alnum c \<and> c \<noteq> CHR ''_'')"

definition documented_specials :: string where
  "documented_specials = '',.<>{}[]:;!@#$%^&*()-+=~|/ '' @ [CHR 0x09, CHR 0x22, CHR 0x27, CHR 0x5C]"

lemma read_escaped_char:
  assumes "query_specials special"
  shows "read_tag special (escape_char c @ s) = map_option (apfst ((#) c)) (read_tag special s)"
proof (cases "escape_char c = [CHR 0x5C, c]")
  case False
  then have c: "escape_char c = [c]" "c \<noteq> CHR 0x5C" using escape_char_cases [of c] by auto
  have "is_ascii_alnum c \<or> c = CHR ''_'' \<or> 128 \<le> byte c"
    using c(1) by (auto simp: escape_char_def is_cont_byte_def split: if_splits)
  moreover have "c \<noteq> CHR ''}''" using c(1) by (auto simp: escape_char_def is_ascii_alnum_def is_cont_byte_def)
  ultimately show ?thesis using assms c by (auto simp: query_specials_def)
qed simp

lemma read_escaped:
  assumes "query_specials special"
  shows "read_tag special (escape_tag_value t @ CHR ''}'' # s) = Some (t, s)"
  by (induction t) (simp_all add: escape_tag_value_def read_escaped_char [OF assms])

text \<open>
  C30. The query of a lookup names its tag and nothing else: whatever the tag holds (a
  brace, a bar, a blank, a backslash) and whichever ASCII punctuation the server treats as
  special, the server reads the whole tag back from the query, one exact tag with nothing
  left unescaped in it, and the KNN clause after it. So two different tags never make the
  same query.
\<close>

theorem tag_escaping_round_trip:
  assumes "query_specials special"
  shows "read_query special field (knn_query field t) = Some (t, '')=>[KNN 1 @vec $BLOB AS dist]'') \<and>
    (knn_query field s = knn_query field t) = (s = t)"
proof -
  have read: "read_query special field (knn_query field t) = Some (t, '')=>[KNN 1 @vec $BLOB AS dist]'')" for t
    using read_escaped [OF assms, of t "'')=>[KNN 1 @vec $BLOB AS dist]''"] by (simp add: read_query_def knn_query_def Let_def)
  have "s = t" if "knn_query field s = knn_query field t"
    using read [of s] read [of t] unfolding that by (metis option.inject prod.inject)
  then show ?thesis using read by metis
qed

lemma documented_specials_ok:
  "list_all (\<lambda>c. byte c < 128 \<and> \<not> is_ascii_alnum c \<and> c \<noteq> CHR ''_'') documented_specials"
  by code_simp

text \<open>The documented special characters, and a tag that would close the clause and open another.\<close>

theorem tag_escaping_round_trip_witness:
  "query_specials (\<lambda>c. c \<in> set documented_specials) \<and>
   read_query (\<lambda>c. c \<in> set documented_specials) ''identity'' (knn_query ''identity'' ''a-1} | @x:{b'') =
     Some (''a-1} | @x:{b'', '')=>[KNN 1 @vec $BLOB AS dist]'')"
proof -
  have q: "query_specials (\<lambda>c. c \<in> set documented_specials)"
    using documented_specials_ok by (auto simp: query_specials_def list_all_iff)
  show ?thesis by (rule conjI [OF q conjunct1 [OF tag_escaping_round_trip [OF q]]])
qed

fun chunks4 :: "string \<Rightarrow> string list" where
  "chunks4 (a # b # c # d # s) = [a, b, c, d] # chunks4 s"
| "chunks4 _ = []"

lemma chunks4_append: "length a = 4 \<Longrightarrow> chunks4 (a @ s) = a # chunks4 s"
  by (auto simp: length_Suc_conv numeral_eq_Suc)

text \<open>
  A vector of \<open>n\<close> floats becomes a blob of \<open>4 n\<close> bytes from
  which the floats can be read back in order, by any decoder that inverts the encoding of
  these floats.
\<close>

theorem vector_blob_round_trip:
  assumes "\<forall>x\<in>set v. length (f32_bytes x) = 4 \<and> f32_of (f32_bytes x) = x"
  shows "length (vector_to_bytes f32_bytes v) = 4 * length v \<and>
    List.map f32_of (chunks4 (vector_to_bytes f32_bytes v)) = v"
  using assms by (induction v) (simp_all add: vector_to_bytes_def chunks4_append)

theorem vector_blob_round_trip_witness:
  "length (vector_to_bytes (\<lambda>x. if x = Fin 1 then [CHR 0x00, CHR 0x00, CHR 0x80, CHR 0x3F] else replicate 4 (CHR 0x00)) [Fin 1, Fin 0]) = 8"
  using vector_blob_round_trip [of "[Fin 1, Fin 0]" "\<lambda>x. if x = Fin 1 then [CHR 0x00, CHR 0x00, CHR 0x80, CHR 0x3F] else replicate 4 (CHR 0x00)"
      "\<lambda>s. if s = replicate 4 (CHR 0x00) then Fin 0 else Fin 1"]
  by (simp add: numeral_eq_Suc)

text \<open>
  The keys of the classification tier and of the response cache never coincide, whatever
  the identities, models and blobs, and neither do their indexes.
\<close>

theorem cache_namespaces_disjoint:
  "semantic_key hex identity blob \<noteq> response_key hex' model blob' \<and> index_name \<noteq> resp_index_name"
  by (simp add: semantic_key_def response_key_def index_name_def resp_index_name_def)

text \<open>The value a field list holds for a field: the last one given.\<close>

fun last_field :: "string \<Rightarrow> redis_value list \<Rightarrow> redis_value option \<Rightarrow> redis_value option" where
  "last_field name (n # v # fds) acc = last_field name fds (if as_string n = Some name then Some v else acc)"
| "last_field name _ acc = acc"

lemma knn_fields_last:
  "knn_fields fds
     (Option.bind (Option.bind d as_string) parse_f32, Option.bind p as_string) =
   (Option.bind (Option.bind (last_field ''dist'' fds d) as_string) parse_f32,
    Option.bind (last_field ''payload'' fds p) as_string)"
proof (induction fds arbitrary: d p rule: length_induct)
  case (1 fds)
  show ?case
  proof (cases "\<exists>n v fs. fds = n # v # fs")
    case True
    then obtain n v fs where f: "fds = n # v # fs" by blast
    have IH: "knn_fields fs (Option.bind (Option.bind d as_string) parse_f32, Option.bind p as_string) =
       (Option.bind (Option.bind (last_field ''dist'' fs d) as_string) parse_f32,
        Option.bind (last_field ''payload'' fs p) as_string)" for d p
      using 1 f by simp
    show ?thesis using IH [of "Some v" p] IH [of d "Some v"] IH [of d p] by (simp add: f)
  next
    case False
    then have "fds = [] \<or> (\<exists>n. fds = [n])" by (cases fds; cases "tl fds") auto
    then show ?thesis by auto
  qed
qed

text \<open>
  A reply parses exactly when its third element is a field list in which both a distance
  that is a number and a payload were given; the last value of a field counts. Any other
  shape is a miss.
\<close>

theorem knn_reply_parsed:
  "parse_knn_reply reply = Some (d, p) \<longleftrightarrow>
     (\<exists>a b fds rest dv pv ds. reply = RArray (a # b # RArray fds # rest) \<and>
        last_field ''dist'' fds None = Some dv \<and> as_string dv = Some ds \<and> parse_f32 ds = Some d \<and>
        last_field ''payload'' fds None = Some pv \<and> as_string pv = Some p)"
proof -
  have k: "knn_fields fds (None, None) =
     (Option.bind (Option.bind (last_field ''dist'' fds None) as_string) parse_f32,
      Option.bind (last_field ''payload'' fds None) as_string)" for fds
    using knn_fields_last [of fds None None] by simp
  have items: "2 < length items \<longleftrightarrow> (\<exists>a b c rest. items = a # b # c # rest)" for items :: "redis_value list"
    by (cases items; cases "tl items"; cases "tl (tl items)") auto
  show ?thesis
    by (cases reply) (auto simp: parse_knn_reply_def k items Option.bind_eq_Some_conv
        split: redis_value.splits option.splits if_splits prod.splits)
qed

end
