(* ===== verification/Breaker.thy ===== *)
theory Breaker
  imports Prelude
begin

text \<open>
  The circuit breaker of \<open>src/src/cache/breaker.rs\<close>. An \<open>Instant\<close> is a number of
  nanoseconds of the monotonic clock, read once per call and passed as \<open>now\<close>; the mutex
  makes each method one atomic step on the state.
\<close>

record breaker_state =
  consecutive_failures :: nat
  open_until :: "nat option"

record circuit_breaker =
  failure_threshold :: nat
  cooldown :: nat
  cb_state :: breaker_state

definition breaker_new :: "nat \<Rightarrow> nat \<Rightarrow> circuit_breaker" where
  "breaker_new threshold cd =
     \<lparr>failure_threshold = max threshold 1, cooldown = cd,
      cb_state = \<lparr>consecutive_failures = 0, open_until = None\<rparr>\<rparr>"

definition breaker_allow :: "nat \<Rightarrow> circuit_breaker \<Rightarrow> bool \<times> circuit_breaker" where
  "breaker_allow now b =
     (case open_until (cb_state b) of
        Some t \<Rightarrow>
          if now < t then (False, b)
          else (True, b\<lparr>cb_state := \<lparr>consecutive_failures = 0, open_until = None\<rparr>\<rparr>)
      | None \<Rightarrow> (True, b))"

definition breaker_record_success :: "circuit_breaker \<Rightarrow> circuit_breaker" where
  "breaker_record_success b =
     b\<lparr>cb_state := \<lparr>consecutive_failures = 0, open_until = None\<rparr>\<rparr>"

definition breaker_record_failure :: "nat \<Rightarrow> circuit_breaker \<Rightarrow> circuit_breaker" where
  "breaker_record_failure now b =
     (let s = (cb_state b)\<lparr>consecutive_failures := consecutive_failures (cb_state b) + 1\<rparr>
      in b\<lparr>cb_state :=
             (if failure_threshold b \<le> consecutive_failures s
              then s\<lparr>open_until := Some (now + cooldown b)\<rparr> else s)\<rparr>)"

lemmas breaker_defs = breaker_new_def breaker_allow_def breaker_record_success_def
  breaker_record_failure_def Let_def

text \<open>
  One guarded operation, as every caller of the breaker performs it: ask, run the
  operation if allowed, and record what it returned. \<open>works\<close> says whether the backend
  answers. The result is whether the backend was called at all.
\<close>

definition guarded_call :: "nat \<Rightarrow> bool \<Rightarrow> circuit_breaker \<Rightarrow> bool \<times> circuit_breaker" where
  "guarded_call now works b =
     (case breaker_allow now b of
        (False, b') \<Rightarrow> (False, b')
      | (True, b') \<Rightarrow>
          (True, if works then breaker_record_success b' else breaker_record_failure now b'))"

fun guarded_calls :: "(nat \<times> bool) list \<Rightarrow> circuit_breaker \<Rightarrow> bool list \<times> circuit_breaker" where
  "guarded_calls [] b = ([], b)"
| "guarded_calls ((now, works) # cs) b =
     (let (called, b') = guarded_call now works b; (rest, b'') = guarded_calls cs b'
      in (called # rest, b''))"

lemma guarded_call_config [simp]:
  "failure_threshold (snd (guarded_call now works b)) = failure_threshold b"
  "cooldown (snd (guarded_call now works b)) = cooldown b"
  by (auto simp: guarded_call_def breaker_defs split: option.splits)

text \<open>A closed breaker has counted fewer failures than its threshold.\<close>

definition breaker_inv :: "circuit_breaker \<Rightarrow> bool" where
  "breaker_inv b \<longleftrightarrow>
     1 \<le> failure_threshold b \<and>
     (open_until (cb_state b) = None \<longrightarrow>
        consecutive_failures (cb_state b) < failure_threshold b)"

lemma breaker_inv_new: "breaker_inv (breaker_new n cd)"
  by (auto simp: breaker_inv_def breaker_new_def)

lemma breaker_inv_call: "breaker_inv b \<Longrightarrow> breaker_inv (snd (guarded_call now works b))"
  by (auto simp: breaker_inv_def guarded_call_def breaker_defs split: option.splits)

text \<open>
  Calls made at times \<open>ts\<close> against a dead backend: from a closed breaker that has
  counted \<open>c\<close> failures, exactly the next \<open>threshold - c\<close> reach the backend, and the
  rest of a cooldown is rejected.
\<close>

definition closed_with :: "nat \<Rightarrow> circuit_breaker \<Rightarrow> bool" where
  "closed_with c b \<longleftrightarrow>
     open_until (cb_state b) = None \<and> consecutive_failures (cb_state b) = c"

lemma open_rejects:
  assumes "open_until (cb_state b) = Some u" and "\<forall>(t, w)\<in>set cs. t < u"
  shows "guarded_calls cs b = (replicate (length cs) False, b)"
  using assms
  by (induction cs) (auto simp: guarded_call_def breaker_allow_def)

lemma dead_backend_calls:
  assumes "closed_with c b" and "failure_threshold b = c + n" and "0 < n"
    and "length ts = n" and "\<forall>t\<in>set ts. t \<le> last ts"
  shows "\<exists>b'. guarded_calls (List.map (\<lambda>t. (t, False)) ts) b = (replicate n True, b') \<and>
    open_until (cb_state b') = Some (last ts + cooldown b) \<and>
    failure_threshold b' = failure_threshold b \<and> cooldown b' = cooldown b"
  using assms
proof (induction n arbitrary: c b ts)
  case 0
  then show ?case by simp
next
  case (Suc n)
  then obtain t ts' where ts: "ts = t # ts'" by (cases ts) auto
  have call: "guarded_call t False b = (True, breaker_record_failure t b)"
    using Suc.prems(1) by (simp add: guarded_call_def breaker_allow_def closed_with_def)
  show ?case
  proof (cases "n = 0")
    case True
    then have "ts' = []" using Suc.prems(4) ts by simp
    with True ts Suc.prems show ?thesis
      by (auto simp: call breaker_record_failure_def Let_def closed_with_def)
  next
    case False
    define b1 where "b1 = breaker_record_failure t b"
    have b1: "closed_with (c + 1) b1" "failure_threshold b1 = failure_threshold b"
      "cooldown b1 = cooldown b"
      using Suc.prems(1,2) False
      by (auto simp: b1_def breaker_record_failure_def Let_def closed_with_def)
    have ne: "ts' \<noteq> []" using False Suc.prems(4) ts by auto
    have "\<exists>b'. guarded_calls (List.map (\<lambda>t. (t, False)) ts') b1 = (replicate n True, b') \<and>
        open_until (cb_state b') = Some (last ts' + cooldown b1) \<and>
        failure_threshold b' = failure_threshold b1 \<and> cooldown b' = cooldown b1"
      using Suc.prems b1 False ts ne by (intro Suc.IH [of "c + 1"]) auto
    then show ?thesis using ts ne b1 by (auto simp: call b1_def [symmetric])
  qed
qed

lemma guarded_calls_append:
  "guarded_calls (cs @ ds) b =
     (let (rs, b') = guarded_calls cs b; (us, b'') = guarded_calls ds b' in (rs @ us, b''))"
proof (induction cs arbitrary: b)
  case (Cons c cs)
  then show ?case by (cases c) (simp add: split_beta Let_def)
qed (simp add: split_beta)

lemma dead_then_open:
  assumes "closed_with c b" and "failure_threshold b = c + n" and "0 < n" and "length ts = n"
    and "\<forall>t\<in>set ts. t \<le> last ts" and "\<forall>(t, w)\<in>set cs. t < last ts + cooldown b"
  shows "fst (guarded_calls (List.map (\<lambda>t. (t, False)) ts @ cs) b) =
    replicate n True @ replicate (length cs) False"
proof -
  obtain b' where b': "guarded_calls (List.map (\<lambda>t. (t, False)) ts) b = (replicate n True, b')"
    "open_until (cb_state b') = Some (last ts + cooldown b)"
    using dead_backend_calls [OF assms(1-5)] by blast
  from open_rejects [OF b'(2) assms(6)] show ?thesis by (simp add: guarded_calls_append b'(1))
qed

text \<open>
  Against a dead backend a fresh breaker lets exactly \<open>threshold\<close> calls
  through; every later call before the cooldown has passed is answered without calling the
  backend, whether or not it would have worked.
\<close>

theorem breaker_shields_dead_backend:
  assumes "0 < n" and "length ts = n" and "\<forall>t\<in>set ts. t \<le> last ts"
    and "\<forall>(t, works)\<in>set cs. t < last ts + cd"
  shows "fst (guarded_calls (List.map (\<lambda>t. (t, False)) ts @ cs) (breaker_new n cd)) =
    replicate n True @ replicate (length cs) False"
  using assms by (intro dead_then_open [of 0]) (simp_all add: closed_with_def breaker_new_def)

theorem breaker_shields_dead_backend_witness:
  "fst (guarded_calls (List.map (\<lambda>t. (t, False)) [1, 2, 5] @ [(6, True), (104, False)]) (breaker_new 3 100)) =
     replicate 3 True @ replicate (length [(6 :: nat, True), (104, False)]) False"
  by (rule breaker_shields_dead_backend) simp_all

text \<open>
  Once the cooldown has passed, not one probe but again \<open>threshold\<close> calls
  reach a backend that is still dead before the breaker opens once more.
\<close>

theorem half_open_lets_threshold_probes:
  assumes "open_until (cb_state b) = Some u" and "0 < failure_threshold b"
    and "length ts = failure_threshold b" and "\<forall>t\<in>set ts. u \<le> t \<and> t \<le> last ts"
    and "\<forall>(t, works)\<in>set cs. t < last ts + cooldown b"
  shows "fst (guarded_calls (List.map (\<lambda>t. (t, False)) ts @ cs) b) =
    replicate (failure_threshold b) True @ replicate (length cs) False"
proof -
  obtain t ts' where ts: "ts = t # ts'" using assms(2,3) by (cases ts) auto
  define b0 where "b0 = b\<lparr>cb_state := \<lparr>consecutive_failures = 0, open_until = None\<rparr>\<rparr>"
  have "guarded_call t False b = guarded_call t False b0"
    using assms(1,4) ts by (simp add: guarded_call_def breaker_allow_def b0_def)
  then have "guarded_calls (List.map (\<lambda>t. (t, False)) ts @ cs) b =
      guarded_calls (List.map (\<lambda>t. (t, False)) ts @ cs) b0" by (simp add: ts)
  then show ?thesis using dead_then_open [of 0 b0 "failure_threshold b" ts cs] assms
    by (simp add: closed_with_def b0_def)
qed

theorem half_open_lets_threshold_probes_witness:
  "fst (guarded_calls (List.map (\<lambda>t. (t, False)) [200, 201] @ [(202, True)])
       (breaker_record_failure 2 (breaker_record_failure 1 (breaker_new 2 100)))) = [True, True, False]"
proof -
  define b where "b = breaker_record_failure 2 (breaker_record_failure 1 (breaker_new 2 100))"
  have b: "open_until (cb_state b) = Some 102" "failure_threshold b = 2" "cooldown b = 100"
    by (simp_all add: b_def breaker_defs)
  have "fst (guarded_calls (List.map (\<lambda>t. (t, False)) [200, 201] @ [(202, True)]) b) =
      replicate (failure_threshold b) True @ replicate (length [(202::nat, True)]) False"
    by (rule half_open_lets_threshold_probes [OF b(1)]) (simp_all add: b)
  moreover have "replicate (failure_threshold b) True @ replicate (length [(202::nat, True)]) False = [True, True, False]"
    by (simp add: b numeral_2_eq_2)
  ultimately show ?thesis unfolding b_def by (rule trans)
qed

end
