(* ===== verification/RedisTier.thy ===== *)
theory RedisTier
  imports RedisCodec Breaker ServiceCore Config
begin

text \<open>
  The Redis-backed semantic tier of \<open>src/src/cache/redis.rs\<close> and the response cache of
  \<open>src/src/cache/response.rs\<close>. The Redis server and the connection pool are third-party: the
  record \<open>redis_env\<close> holds the commands the code sends, each of which may fail, on a server
  state \<open>'x\<close> that also carries the clock. JSON encoding and the hash are parameters of it.
\<close>

section \<open>State\<close>

record 'x redis_env =
  re_now :: "'x \<Rightarrow> nat"
  re_conn :: "'x \<Rightarrow> (string + unit) \<times> 'x"
  re_search :: "string \<Rightarrow> string \<Rightarrow> string \<Rightarrow> 'x \<Rightarrow> (string + redis_value) \<times> 'x"
  re_create :: "string \<Rightarrow> string \<Rightarrow> string \<Rightarrow> nat \<Rightarrow> 'x \<Rightarrow> 'x"
  re_hset :: "string \<Rightarrow> string \<Rightarrow> string \<Rightarrow> string \<Rightarrow> string \<Rightarrow> 'x \<Rightarrow> (string + unit) \<times> 'x"
  re_expire :: "string \<Rightarrow> nat \<Rightarrow> 'x \<Rightarrow> (string + unit) \<times> 'x"
  re_hex :: "string \<Rightarrow> string"
  re_f32 :: "flt \<Rightarrow> string"
  re_encode :: "classification_result \<Rightarrow> string"
  re_decode :: "string \<Rightarrow> classification_result option"

record write_job =
  wj_blob :: string
  wj_dim :: nat
  wj_payload :: string
  wj_identity :: string

definition WRITE_QUEUE_BOUND :: nat where "WRITE_QUEUE_BOUND = 1024"

definition TEN_SECONDS :: nat where "TEN_SECONDS = 10 * 10 ^ 9"

record 'x redis_tier =
  rd_threshold :: flt
  rd_ttl :: nat
  rd_breaker :: circuit_breaker
  rd_queue :: "write_job list"
  rd_writer_breaker :: circuit_breaker
  rd_server :: 'x

text \<open>\<open>opened\<close> is the outcome of building the client and the pool from the address.\<close>

definition redis_connect :: "(string \<Rightarrow> string + 'x) \<Rightarrow> cache_config \<Rightarrow> string + 'x redis_tier" where
  "redis_connect opened cfg =
     (case redis_url cfg of
        None \<Rightarrow> Inl ''redis-semantic requires a URL''
      | Some url \<Rightarrow> bind_res (opened url) (\<lambda>x. Inr
          \<lparr>rd_threshold = threshold cfg, rd_ttl = ttl_secs cfg, rd_breaker = breaker_new 5 TEN_SECONDS,
           rd_queue = [], rd_writer_breaker = breaker_new 5 TEN_SECONDS, rd_server = x\<rparr>))"

section \<open>Operations\<close>

text \<open>\<open>with_timeout_conn\<close>: a connection from the pool, then one command on it.\<close>

definition with_conn ::
  "'x redis_env \<Rightarrow> ('x \<Rightarrow> (string + 'v) \<times> 'x) \<Rightarrow> 'x \<Rightarrow> (string + 'v) \<times> 'x" where
  "with_conn env f x =
     (case re_conn env x of (Inl e, x') \<Rightarrow> (Inl e, x') | (Inr _, x') \<Rightarrow> f x')"

definition redis_lookup ::
  "'x redis_env \<Rightarrow> embedding \<Rightarrow> string \<Rightarrow> 'x redis_tier \<times> metrics \<Rightarrow> classification_result option \<times> 'x redis_tier \<times> metrics" where
  "redis_lookup env emb tag st =
     (let s = fst st; m = snd st;
          (allowed, b) = breaker_allow (re_now env (rd_server s)) (rd_breaker s);
          s1 = s\<lparr>rd_breaker := b\<rparr>
      in if \<not> allowed then (None, s1, record_l2_degraded m)
         else (let blob = vector_to_bytes (re_f32 env) (vector emb);
                   (outcome, x) = with_conn env (re_search env index_name (knn_query ''identity'' tag) blob) (rd_server s1);
                   s2 = s1\<lparr>rd_server := x\<rparr>
               in case outcome of
                    Inl e \<Rightarrow> (None, s2\<lparr>rd_breaker := breaker_record_failure (re_now env x) (rd_breaker s2)\<rparr>, record_l2_degraded m)
                  | Inr reply \<Rightarrow>
                      (let s3 = s2\<lparr>rd_breaker := breaker_record_success (rd_breaker s2)\<rparr>
                       in case parse_knn_reply reply of
                            None \<Rightarrow> (None, s3, record_l2_miss m)
                          | Some (distance, payload) \<Rightarrow>
                              if flt_le (rd_threshold s3) (cosine_score_from_distance distance)
                              then (case re_decode env payload of
                                      Some r \<Rightarrow> (Some r, s3, record_l2_hit m)
                                    | None \<Rightarrow> (None, s3, record_l2_degraded m))
                              else (None, s3, record_l2_miss m))))"

definition redis_insert ::
  "'x redis_env \<Rightarrow> embedding \<Rightarrow> classification_result \<Rightarrow> string \<Rightarrow> 'x redis_tier \<times> metrics \<Rightarrow> 'x redis_tier \<times> metrics" where
  "redis_insert env emb r tag st =
     (let s = fst st; m = snd st;
          (allowed, b) = breaker_allow (re_now env (rd_server s)) (rd_breaker s);
          s1 = s\<lparr>rd_breaker := b\<rparr>
      in if \<not> allowed then (s1, record_l2_degraded m)
         else if list_ex (\<lambda>g. \<not> is_finite (score g)) (res_ranked r) then (s1, record_l2_degraded m)
         else (let job = \<lparr>wj_blob = vector_to_bytes (re_f32 env) (vector emb), wj_dim = embedding_dim emb,
                          wj_payload = re_encode env r, wj_identity = tag\<rparr>
               in if length (rd_queue s1) < WRITE_QUEUE_BOUND
                  then (s1\<lparr>rd_queue := rd_queue s1 @ [job]\<rparr>, m)
                  else (s1, record_l2_degraded m)))"

text \<open>The commands of one write: index creation, whose outcome is ignored, then the entry.\<close>

definition redis_write :: "'x redis_env \<Rightarrow> nat \<Rightarrow> write_job \<Rightarrow> 'x \<Rightarrow> (string + unit) \<times> 'x" where
  "redis_write env ttl job x =
     (let key = semantic_key (re_hex env) (wj_identity job) (wj_blob job)
      in with_conn env (\<lambda>x0.
           let x1 = re_create env index_name ''sc:'' ''identity'' (wj_dim job) x0
           in case re_hset env key ''identity'' (wj_identity job) (wj_payload job) (wj_blob job) x1 of
                (Inl e, x2) \<Rightarrow> (Inl e, x2)
              | (Inr _, x2) \<Rightarrow> re_expire env key ttl x2) x)"

text \<open>One turn of the write-back thread's loop; it waits when the queue is empty.\<close>

definition writer_step :: "'x redis_env \<Rightarrow> 'x redis_tier \<times> metrics \<Rightarrow> 'x redis_tier \<times> metrics" where
  "writer_step env st =
     (let s = fst st; m = snd st
      in case rd_queue s of
           [] \<Rightarrow> (s, m)
         | job # jobs \<Rightarrow>
             (let (allowed, b) = breaker_allow (re_now env (rd_server s)) (rd_writer_breaker s);
                  s1 = s\<lparr>rd_queue := jobs, rd_writer_breaker := b\<rparr>
              in if \<not> allowed then (s1, record_l2_degraded m)
                 else (case redis_write env (rd_ttl s1) job (rd_server s1) of
                         (Inr _, x) \<Rightarrow>
                           (s1\<lparr>rd_server := x, rd_writer_breaker := breaker_record_success (rd_writer_breaker s1)\<rparr>, m)
                       | (Inl e, x) \<Rightarrow>
                           (s1\<lparr>rd_server := x, rd_writer_breaker := breaker_record_failure (re_now env x) (rd_writer_breaker s1)\<rparr>,
                            record_l2_degraded m))))"

definition redis_ops :: "'x redis_env \<Rightarrow> (embedding, 'x redis_tier \<times> metrics) tier_ops" where
  "redis_ops env = \<lparr>tier_lookup = redis_lookup env, tier_insert = redis_insert env\<rparr>"

section \<open>The response cache\<close>

record 'x response_cache =
  rc_threshold :: flt
  rc_ttl :: nat
  rc_timeout_ms :: nat
  rc_server :: 'x

definition response_connect :: "(string \<Rightarrow> string + 'x) \<Rightarrow> string \<Rightarrow> flt \<Rightarrow> nat \<Rightarrow> nat \<Rightarrow> string + 'x response_cache" where
  "response_connect opened url thr ttl timeout =
     bind_res (opened url) (\<lambda>x. Inr \<lparr>rc_threshold = thr, rc_ttl = ttl, rc_timeout_ms = max timeout 50, rc_server = x\<rparr>)"

definition response_lookup ::
  "'x redis_env \<Rightarrow> flt list \<Rightarrow> string \<Rightarrow> 'x response_cache \<Rightarrow> string option \<times> 'x response_cache" where
  "response_lookup env emb model c =
     (let blob = vector_to_bytes (re_f32 env) emb;
          (outcome, x) = with_conn env (re_search env resp_index_name (knn_query ''model'' model) blob) (rc_server c);
          c1 = c\<lparr>rc_server := x\<rparr>
      in case outcome of
           Inl e \<Rightarrow> (None, c1)
         | Inr reply \<Rightarrow>
             (case parse_knn_reply reply of
                Some (distance, payload) \<Rightarrow>
                  (if flt_le (rc_threshold c) (cosine_score_from_distance distance) then Some payload else None, c1)
              | None \<Rightarrow> (None, c1)))"

definition response_try_insert ::
  "'x redis_env \<Rightarrow> flt list \<Rightarrow> string \<Rightarrow> string \<Rightarrow> 'x response_cache \<Rightarrow> (string + unit) \<times> 'x response_cache" where
  "response_try_insert env emb model payload c =
     (let blob = vector_to_bytes (re_f32 env) emb; key = response_key (re_hex env) model blob;
          (res, x) = with_conn env (\<lambda>x0.
             let x1 = re_create env resp_index_name ''resp:'' ''model'' (length emb) x0
             in case re_hset env key ''model'' model payload blob x1 of
                  (Inl e, x2) \<Rightarrow> (Inl e, x2)
                | (Inr _, x2) \<Rightarrow> re_expire env key (rc_ttl c) x2) (rc_server c)
      in (res, c\<lparr>rc_server := x\<rparr>))"

definition response_insert ::
  "'x redis_env \<Rightarrow> flt list \<Rightarrow> string \<Rightarrow> string \<Rightarrow> 'x response_cache \<Rightarrow> 'x response_cache" where
  "response_insert env emb model payload c = snd (response_try_insert env emb model payload c)"

section \<open>A concrete server\<close>

text \<open>
  A server for the witnesses: a list of the entries' identity field and payload, searched by
  exact identity and always at distance zero, on a clock that does not move; and one that
  cannot be reached.
\<close>

definition demo_redis :: "(string \<times> string) list redis_env" where
  "demo_redis =
     \<lparr>re_now = (\<lambda>_. 0), re_conn = (\<lambda>x. (Inr (), x)),
      re_search = (\<lambda>_ q _ x. (Inr (case List.find (\<lambda>e. knn_query ''identity'' (fst e) = q) x of
          Some e \<Rightarrow> RArray [ROther, RBulk ''key'', RArray [RBulk ''dist'', RBulk ''0'', RBulk ''payload'', RBulk (snd e)]]
        | None \<Rightarrow> RArray [ROther]), x)),
      re_create = (\<lambda>_ _ _ _ x. x), re_hset = (\<lambda>_ _ i p _ x. (Inr (), (i, p) # x)), re_expire = (\<lambda>_ _ x. (Inr (), x)),
      re_hex = (\<lambda>s. s), re_f32 = (\<lambda>_. ''0000''), re_encode = (\<lambda>_. ''json''), re_decode = (\<lambda>_. Some demo_result)\<rparr>"

definition demo_redis_config :: cache_config where
  "demo_redis_config = \<lparr>strategy = ''redis-semantic'', redis_url = Some ''redis://r'', threshold = Fin 0,
     ttl_secs = 60, timeout_ms = 250\<rparr>"

definition demo_redis_tier :: "(string \<times> string) list redis_tier" where
  "demo_redis_tier =
     \<lparr>rd_threshold = Fin 0, rd_ttl = 60, rd_breaker = breaker_new 5 TEN_SECONDS, rd_queue = [],
      rd_writer_breaker = breaker_new 5 TEN_SECONDS, rd_server = []\<rparr>"

lemma demo_redis_connect: "redis_connect (\<lambda>_. Inr []) demo_redis_config = Inr demo_redis_tier"
  by (simp add: redis_connect_def demo_redis_config_def demo_redis_tier_def)

section \<open>Accounting and shedding\<close>

definition l2_events :: "metrics \<Rightarrow> nat" where
  "l2_events m = ms_l2_hits m + ms_l2_misses m + ms_l2_degraded m"

lemmas l2_records = record_l2_hit_def record_l2_miss_def record_l2_degraded_def

text \<open>
  Every lookup is counted exactly once, as a hit, a miss or a degraded operation, and as a
  hit exactly when a result is served.
\<close>

theorem l2_lookup_counted_once:
  "l2_events (snd (snd (redis_lookup env emb tag st))) = l2_events (snd st) + 1 \<and>
   ms_l2_hits (snd (snd (redis_lookup env emb tag st))) =
     ms_l2_hits (snd st) + (if fst (redis_lookup env emb tag st) = None then 0 else 1)"
  by (auto simp: redis_lookup_def Let_def split_beta l2_events_def l2_records split: sum.split option.split)

text \<open>
  An insert never waits for Redis: it sends no command, and the queue it fills never
  exceeds its bound. A result with a score that JSON cannot hold is never queued, and a
  write that is not queued is counted as degraded.
\<close>

theorem l2_insert_never_blocks:
  assumes "length (rd_queue (fst st)) \<le> WRITE_QUEUE_BOUND" and "redis_insert env emb r tag st = (s', m')"
  shows "rd_server s' = rd_server (fst st) \<and> length (rd_queue s') \<le> WRITE_QUEUE_BOUND \<and>
    (rd_queue s' = rd_queue (fst st) \<and> m' = record_l2_degraded (snd st) \<or>
     m' = snd st \<and> list_all (\<lambda>g. is_finite (score g)) (res_ranked r) \<and>
     (\<exists>job. rd_queue s' = rd_queue (fst st) @ [job] \<and> wj_payload job = re_encode env r \<and> wj_identity job = tag))"
  using assms
  by (auto simp: redis_insert_def Let_def split_beta list_ex_iff list_all_iff split: if_splits)

theorem l2_insert_never_blocks_witness:
  "rd_queue (fst (redis_insert demo_redis (embedding_new [Fin 1]) demo_result ''tag'' (demo_redis_tier, metrics_new))) \<noteq> [] \<and>
   rd_server (fst (redis_insert demo_redis (embedding_new [Fin 1]) demo_result ''tag'' (demo_redis_tier, metrics_new))) = []"
proof -
  obtain s' m' where i: "redis_insert demo_redis (embedding_new [Fin 1]) demo_result ''tag'' (demo_redis_tier, metrics_new) = (s', m')"
    by fastforce
  have "rd_queue s' \<noteq> []"
    using i by (auto simp: redis_insert_def Let_def demo_redis_tier_def demo_redis_def breaker_allow_def breaker_new_def
        demo_result_def WRITE_QUEUE_BOUND_def)
  with l2_insert_never_blocks [OF _ i] i show ?thesis by (simp add: demo_redis_tier_def)
qed

lemma allow_open:
  "open_until (cb_state b) = Some t \<Longrightarrow> now < t \<Longrightarrow> breaker_allow now b = (False, b)"
  by (simp add: breaker_allow_def)

text \<open>
  While its breaker is open, a lookup serves nothing, an insert queues nothing and the
  writer drops its job, each without a command to Redis and each counted as degraded.
\<close>

theorem open_breaker_sheds:
  assumes "open_until (cb_state (rd_breaker s)) = Some t" and "re_now env (rd_server s) < t"
    and "open_until (cb_state (rd_writer_breaker s)) = Some u" and "re_now env (rd_server s) < u"
  shows "redis_lookup env emb tag (s, m) = (None, s, record_l2_degraded m) \<and>
    redis_insert env emb r tag (s, m) = (s, record_l2_degraded m) \<and>
    writer_step env (s\<lparr>rd_queue := job # jobs\<rparr>, m) = (s\<lparr>rd_queue := jobs\<rparr>, record_l2_degraded m)"
  using allow_open [OF assms(1,2)] allow_open [OF assms(3,4)]
  by (simp add: redis_lookup_def redis_insert_def writer_step_def Let_def)

theorem open_breaker_sheds_witness:
  "\<exists>s. rd_queue s \<noteq> [] \<and> rd_queue (fst (writer_step demo_redis (s, metrics_new))) = [] \<and>
     rd_server (fst (writer_step demo_redis (s, metrics_new))) = rd_server s"
proof -
  define b where "b = (breaker_new 5 TEN_SECONDS)\<lparr>cb_state := \<lparr>consecutive_failures = 5, open_until = Some 7\<rparr>\<rparr>"
  define s where "s = demo_redis_tier\<lparr>rd_breaker := b, rd_writer_breaker := b\<rparr>"
  define job where "job = \<lparr>wj_blob = ''b'', wj_dim = 1, wj_payload = ''p'', wj_identity = ''i''\<rparr>"
  have "writer_step demo_redis (s\<lparr>rd_queue := [job]\<rparr>, metrics_new) = (s\<lparr>rd_queue := []\<rparr>, record_l2_degraded metrics_new)"
    using open_breaker_sheds [of s 7 demo_redis 7 undefined undefined metrics_new undefined job "[]"]
    by (simp add: s_def b_def demo_redis_def)
  then show ?thesis by (intro exI [of _ "s\<lparr>rd_queue := [job]\<rparr>"]) simp
qed

section \<open>An outage\<close>

text \<open>
  Every connection fails, and the clock does not go backwards. \<open>attempts\<close> counts in the state of
  the outside world how often a connection was asked for.
\<close>

definition redis_down :: "'x redis_env \<Rightarrow> ('x \<Rightarrow> nat) \<Rightarrow> bool" where
  "redis_down env attempts \<longleftrightarrow>
     (\<forall>x. \<exists>e x'. re_conn env x = (Inl e, x') \<and> attempts x' = attempts x + 1 \<and> re_now env x \<le> re_now env x')"

fun lookup_run :: "'x redis_env \<Rightarrow> (embedding \<times> string) list \<Rightarrow> 'x redis_tier \<times> metrics \<Rightarrow> classification_result option list \<times> 'x redis_tier \<times> metrics" where
  "lookup_run env [] st = ([], st)"
| "lookup_run env ((emb, tag) # qs) st =
     (let (r, st1) = redis_lookup env emb tag st; (rs, st2) = lookup_run env qs st1 in (r # rs, st2))"

lemma down_lookup:
  assumes "redis_down env attempts" and "open_until (cb_state (rd_breaker s)) = None"
  obtains x' where "attempts x' = attempts (rd_server s) + 1" and "redis_lookup env emb tag (s, m) =
      (None, s\<lparr>rd_server := x', rd_breaker := breaker_record_failure (re_now env x') (rd_breaker s)\<rparr>, record_l2_degraded m)"
proof -
  obtain e x' where x': "re_conn env (rd_server s) = (Inl e, x')" "attempts x' = attempts (rd_server s) + 1"
    using assms(1) unfolding redis_down_def by blast
  have "breaker_allow (re_now env (rd_server s)) (rd_breaker s) = (True, rd_breaker s)"
    using assms(2) by (simp add: breaker_allow_def)
  then show ?thesis using that x' by (simp add: redis_lookup_def Let_def with_conn_def)
qed

lemma down_lookups:
  assumes "redis_down env attempts" and "closed_with c (rd_breaker s)" and "failure_threshold (rd_breaker s) = c + length qs"
    and "qs \<noteq> []"
  shows "\<exists>s' m'. lookup_run env qs (s, m) = (replicate (length qs) None, s', m') \<and>
    attempts (rd_server s') = attempts (rd_server s) + length qs \<and>
    open_until (cb_state (rd_breaker s')) = Some (re_now env (rd_server s') + cooldown (rd_breaker s))"
  using assms(2-4)
proof (induction qs arbitrary: c s m)
  case (Cons q qs)
  obtain emb tag where q: "q = (emb, tag)" by fastforce
  have "open_until (cb_state (rd_breaker s)) = None" using Cons.prems(1) by (simp add: closed_with_def)
  from down_lookup [OF assms(1) this, of emb tag m] obtain x' where a: "attempts x' = attempts (rd_server s) + 1" and l: "redis_lookup env emb tag (s, m) =
      (None, s\<lparr>rd_server := x', rd_breaker := breaker_record_failure (re_now env x') (rd_breaker s)\<rparr>, record_l2_degraded m)" .
  define s1 where "s1 = s\<lparr>rd_server := x', rd_breaker := breaker_record_failure (re_now env x') (rd_breaker s)\<rparr>"
  show ?case
  proof (cases "qs = []")
    case True
    then show ?thesis using Cons.prems
      by (auto simp: q l a breaker_record_failure_def closed_with_def Let_def)
  next
    case False
    have "closed_with (c + 1) (rd_breaker s1)" "failure_threshold (rd_breaker s1) = (c + 1) + length qs"
      "cooldown (rd_breaker s1) = cooldown (rd_breaker s)"
      using Cons.prems False by (auto simp: s1_def breaker_record_failure_def closed_with_def Let_def)
    from Cons.IH [OF this(1,2) False, of "record_l2_degraded m"] this(3) show ?thesis
      by (auto simp: q l s1_def [symmetric]) (simp add: s1_def a)
  qed
qed simp

text \<open>
  C25. When Redis is down, a fresh tier tries it for exactly five lookups, once for each,
  and each answers nothing; then, for ten seconds after the fifth failure, no lookup and
  no insert reaches it.
\<close>

theorem outage_costs_five_probes:
  assumes "redis_down env attempts" and "redis_connect opened cfg = Inr s" and "length qs = 5"
  shows "\<exists>s' m'. lookup_run env qs (s, m) = (replicate 5 None, s', m') \<and>
    attempts (rd_server s') = attempts (rd_server s) + 5 \<and>
    (\<forall>x emb tag r m. re_now env x < re_now env (rd_server s') + TEN_SECONDS \<longrightarrow>
       redis_lookup env emb tag (s'\<lparr>rd_server := x\<rparr>, m) = (None, s'\<lparr>rd_server := x\<rparr>, record_l2_degraded m) \<and>
       redis_insert env emb r tag (s'\<lparr>rd_server := x\<rparr>, m) = (s'\<lparr>rd_server := x\<rparr>, record_l2_degraded m))"
proof -
  have b: "rd_breaker s = breaker_new 5 TEN_SECONDS"
    using assms(2) by (auto simp: redis_connect_def bind_res_Inr_iff split: option.splits)
  have "closed_with 0 (rd_breaker s)" "failure_threshold (rd_breaker s) = 0 + length qs" "qs \<noteq> []"
    using assms(3) by (auto simp: b closed_with_def breaker_new_def)
  from down_lookups [OF assms(1) this, of m] obtain s' m' where
    s': "lookup_run env qs (s, m) = (replicate 5 None, s', m')" "attempts (rd_server s') = attempts (rd_server s) + 5"
      "open_until (cb_state (rd_breaker s')) = Some (re_now env (rd_server s') + TEN_SECONDS)"
    by (auto simp: assms(3) b breaker_new_def)
  have "breaker_allow (re_now env x) (rd_breaker s') = (False, rd_breaker s')"
    if "re_now env x < re_now env (rd_server s') + TEN_SECONDS" for x
    using allow_open [OF s'(3) that] .
  with s'(1,2) show ?thesis
    by (intro exI [of _ s'] exI [of _ m']) (simp add: redis_lookup_def redis_insert_def Let_def)
qed

text \<open>An unreachable server; its list keeps a mark for each attempt.\<close>

definition demo_counting :: "(string \<times> string) list redis_env" where
  "demo_counting = demo_redis\<lparr>re_conn := (\<lambda>x. (Inl ''refused'', (''tried'', []) # x))\<rparr>"

theorem outage_costs_five_probes_witness:
  "\<exists>s' m'. lookup_run demo_counting (replicate 5 (embedding_new [Fin 1], ''tag'')) (demo_redis_tier, metrics_new) =
     (replicate 5 None, s', m') \<and> length (rd_server s') = length (rd_server demo_redis_tier) + 5"
proof -
  have "redis_down demo_counting length" by (simp add: redis_down_def demo_counting_def demo_redis_def)
  from outage_costs_five_probes [OF this demo_redis_connect, of "replicate 5 (embedding_new [Fin 1], ''tag'')" metrics_new]
  show ?thesis by fastforce
qed

section \<open>What a lookup can serve\<close>

text \<open>
  What the code relies on of the server, in terms of the entries \<open>stored\<close> in it as pairs of
  the identity field and the payload: only \<open>HSET\<close> adds an entry, and a search under a tag
  returns the payload of an entry whose identity field the tag \<open>matches\<close>. How a TAG field is
  matched (its separator, its treatment of case) is the server's and stays a parameter.
\<close>

definition redis_lawful ::
  "'x redis_env \<Rightarrow> ('x \<Rightarrow> (string \<times> string) set) \<Rightarrow> (string \<Rightarrow> string \<Rightarrow> bool) \<Rightarrow> bool" where
  "redis_lawful env stored matches \<longleftrightarrow>
     (\<forall>x. stored (snd (re_conn env x)) \<subseteq> stored x) \<and>
     (\<forall>idx q blob x. stored (snd (re_search env idx q blob x)) \<subseteq> stored x) \<and>
     (\<forall>idx pre f dim x. stored (re_create env idx pre f dim x) \<subseteq> stored x) \<and>
     (\<forall>key ttl x. stored (snd (re_expire env key ttl x)) \<subseteq> stored x) \<and>
     (\<forall>key f ident payload blob x. stored (snd (re_hset env key f ident payload blob x)) \<subseteq> insert (ident, payload) (stored x)) \<and>
     (\<forall>tag blob x v x' d p. re_search env index_name (knn_query ''identity'' tag) blob x = (Inr v, x') \<longrightarrow>
        parse_knn_reply v = Some (d, p) \<longrightarrow>
        (\<exists>ident payload. matches tag ident \<and> (ident, payload) \<in> stored x \<and> p = from_utf8_lossy payload))"

datatype redis_op = OLookup embedding string | OInsert embedding classification_result string | OWrite

primrec redis_step :: "'x redis_env \<Rightarrow> redis_op \<Rightarrow> 'x redis_tier \<times> metrics \<Rightarrow> 'x redis_tier \<times> metrics" where
  "redis_step env (OLookup emb tag) st = snd (redis_lookup env emb tag st)"
| "redis_step env (OInsert emb r tag) st = redis_insert env emb r tag st"
| "redis_step env OWrite st = writer_step env st"

definition queued :: "'x redis_tier \<Rightarrow> (string \<times> string) set" where
  "queued s = (\<lambda>j. (wj_identity j, wj_payload j)) ` set (rd_queue s)"

definition offered :: "'x redis_env \<Rightarrow> redis_op set \<Rightarrow> (string \<times> string) set" where
  "offered env ops = {(ident, p). \<exists>emb r. OInsert emb r ident \<in> ops \<and> p = re_encode env r}"

lemma with_conn_stored:
  assumes "redis_lawful env stored matches" and "\<And>x. stored (snd (f x)) \<subseteq> A \<union> stored x"
  shows "stored (snd (with_conn env f x)) \<subseteq> A \<union> stored x"
proof -
  obtain res x0 where c: "re_conn env x = (res, x0)" by fastforce
  have "stored (snd (re_conn env x)) \<subseteq> stored x" using assms(1) by (simp add: redis_lawful_def)
  then have "stored x0 \<subseteq> stored x" by (simp add: c)
  then show ?thesis using assms(2) [of x0] by (cases res) (auto simp: with_conn_def c)
qed

lemma lookup_stored:
  assumes "redis_lawful env stored matches"
  shows "stored (rd_server (fst (snd (redis_lookup env emb tag st)))) \<subseteq> stored (rd_server (fst st)) \<and>
    rd_queue (fst (snd (redis_lookup env emb tag st))) = rd_queue (fst st)"
proof -
  have "stored (snd (with_conn env (re_search env index_name q blob) x)) \<subseteq> {} \<union> stored x" for q blob x
    by (rule with_conn_stored [OF assms]) (use assms in \<open>auto simp: redis_lawful_def\<close>)
  then show ?thesis
    by (auto simp: redis_lookup_def Let_def split_beta split: sum.split option.split if_splits)
qed

lemma write_stored:
  assumes "redis_lawful env stored matches"
  shows "stored (snd (redis_write env ttl job x)) \<subseteq> {(wj_identity job, wj_payload job)} \<union> stored x"
  unfolding redis_write_def Let_def
proof (rule with_conn_stored [OF assms])
  fix x
  define x1 where "x1 = re_create env index_name ''sc:'' ''identity'' (wj_dim job) x"
  define key where "key = semantic_key (re_hex env) (wj_identity job) (wj_blob job)"
  obtain res x2 where h: "re_hset env key ''identity'' (wj_identity job) (wj_payload job) (wj_blob job) x1 = (res, x2)"
    by fastforce
  have "stored x1 \<subseteq> stored x" unfolding x1_def using assms by (simp add: redis_lawful_def)
  moreover have "stored (snd (re_hset env key ''identity'' (wj_identity job) (wj_payload job) (wj_blob job) x1))
      \<subseteq> insert (wj_identity job, wj_payload job) (stored x1)"
    using assms unfolding redis_lawful_def by blast
  moreover have "stored (snd (re_expire env key ttl x2)) \<subseteq> stored x2" using assms by (simp add: redis_lawful_def)
  ultimately show "stored (snd (case re_hset env (semantic_key (re_hex env) (wj_identity job) (wj_blob job)) ''identity'' (wj_identity job)
        (wj_payload job) (wj_blob job) (re_create env index_name ''sc:'' ''identity'' (wj_dim job) x) of
      (Inl e, x2) \<Rightarrow> (Inl e, x2)
    | (Inr uu, x2) \<Rightarrow> re_expire env (semantic_key (re_hex env) (wj_identity job) (wj_blob job)) ttl x2))
    \<subseteq> {(wj_identity job, wj_payload job)} \<union> stored x"
    by (auto simp: h key_def [symmetric] x1_def [symmetric] split: sum.split)
qed

definition redis_holds :: "'x redis_env \<Rightarrow> ('x \<Rightarrow> (string \<times> string) set) \<Rightarrow> redis_op set \<Rightarrow> 'x redis_tier \<Rightarrow> bool" where
  "redis_holds env stored ops s \<longleftrightarrow> stored (rd_server s) \<union> queued s \<subseteq> offered env ops"

lemma redis_step_holds:
  assumes "redis_lawful env stored matches" and "redis_holds env stored ops (fst st)" and "op \<in> ops"
  shows "redis_holds env stored ops (fst (redis_step env op st))"
proof (cases op)
  case (OLookup emb tag)
  then show ?thesis using lookup_stored [OF assms(1), of emb tag st] assms(2)
    by (auto simp: redis_holds_def queued_def)
next
  case (OInsert emb r tag)
  then have "(tag, re_encode env r) \<in> offered env ops" using assms(3) by (auto simp: offered_def)
  with OInsert assms(2) show ?thesis
    by (auto simp: redis_holds_def queued_def redis_insert_def Let_def split_beta split: if_splits)
next
  case OWrite
  show ?thesis
  proof (cases "rd_queue (fst st)")
    case Nil
    with OWrite assms(2) show ?thesis by (simp add: writer_step_def Let_def)
  next
    case (Cons job jobs)
    obtain res x where w: "redis_write env (rd_ttl (fst st)) job (rd_server (fst st)) = (res, x)" by fastforce
    have "stored x \<subseteq> {(wj_identity job, wj_payload job)} \<union> stored (rd_server (fst st))"
      using write_stored [OF assms(1)] w by (metis snd_conv)
    with OWrite Cons assms(2) w show ?thesis
      by (auto simp: writer_step_def Let_def split_beta redis_holds_def queued_def split: sum.split)
  qed
qed

lemma lookup_serves:
  assumes "redis_lawful env stored matches" and "redis_lookup env emb tag st = (Some r, st')"
  shows "\<exists>ident payload. matches tag ident \<and> (ident, payload) \<in> stored (rd_server (fst st)) \<and>
    re_decode env (from_utf8_lossy payload) = Some r"
proof -
  obtain reply x x0 d p where s: "re_conn env (rd_server (fst st)) = (Inr (), x0)"
    "re_search env index_name (knn_query ''identity'' tag) (vector_to_bytes (re_f32 env) (vector emb)) x0 = (Inr reply, x)"
    "parse_knn_reply reply = Some (d, p)" "re_decode env p = Some r"
    using assms(2)
    by (auto simp: redis_lookup_def Let_def with_conn_def split: prod.splits sum.splits option.splits if_splits)
  have "stored x0 \<subseteq> stored (rd_server (fst st))"
    using assms(1) s(1) unfolding redis_lawful_def by (metis snd_conv)
  moreover obtain ident payload where "matches tag ident" "(ident, payload) \<in> stored x0" "p = from_utf8_lossy payload"
    using assms(1) s(2,3) unfolding redis_lawful_def by blast
  ultimately show ?thesis using s(4) by blast
qed

text \<open>
  C8. After any lookups, inserts and turns of the writer on a tier whose server held
  nothing, a served result is the decoding of a result that was inserted under an identity
  the tag matches: nothing is made up, and with exact tag matching nothing crosses
  identities.
\<close>

theorem l2_serves_only_inserted:
  assumes "redis_lawful env stored matches" and "redis_connect opened cfg = Inr s" and "stored (rd_server s) = {}"
    and "redis_lookup env emb tag (fold (redis_step env) ops (s, m)) = (Some r, st')"
  shows "\<exists>emb0 r0 ident. OInsert emb0 r0 ident \<in> set ops \<and> matches tag ident \<and>
    re_decode env (from_utf8_lossy (re_encode env r0)) = Some r"
proof -
  have run: "redis_holds env stored (set ops) (fst (fold (redis_step env) os st))"
    if "redis_holds env stored (set ops) (fst st)" and "set os \<subseteq> set ops" for os and st :: "'a redis_tier \<times> metrics"
    using that by (induction os arbitrary: st) (simp_all add: redis_step_holds [OF assms(1)])
  have "rd_queue s = []" using assms(2) by (auto simp: redis_connect_def bind_res_Inr_iff split: option.splits)
  then have "redis_holds env stored (set ops) s" using assms(3) by (simp add: redis_holds_def queued_def)
  from run [of "(s, m)" ops] this
  have "redis_holds env stored (set ops) (fst (fold (redis_step env) ops (s, m)))" by simp
  with lookup_serves [OF assms(1,4)] show ?thesis
    by (fastforce simp: redis_holds_def offered_def)
qed

lemma knn_query_inj: "knn_query field s = knn_query field t \<Longrightarrow> s = t"
  unfolding knn_query_def by simp (metis unescape_escape)

lemma demo_reply:
  "parse_knn_reply (RArray [ROther, RBulk k, RArray [RBulk ''dist'', RBulk ''0'', RBulk ''payload'', RBulk p]]) =
     Some (Fin 0, from_utf8_lossy p)"
proof -
  have d: "digit_chars ''0'' = ''0''" "after_digits ''0'' = []" "nat_of_digits ''0'' = 0"
    by (simp_all add: digit_chars_def after_digits_def nat_of_digits_def digit_val_def)
  have "round32 0 = Fin 0" using f32.rnd_nat [of 0] by simp
  with d show ?thesis
    by (simp add: parse_knn_reply_def lossy_ascii parse_f32_def parse_decimal_def parse_exponent_def Let_def)
qed

lemma demo_lawful: "redis_lawful demo_redis set (\<lambda>tag ident. tag = ident)"
proof -
  have found: "(tag, b) \<in> set x" if "List.find (\<lambda>e. knn_query f (fst e) = knn_query f tag) x = Some (a, b)" for f tag x a b
    using that by (auto simp: find_Some_iff dest!: knn_query_inj) (metis fst_conv nth_mem)
  have none: "parse_knn_reply (RArray [ROther]) = None" by (simp add: parse_knn_reply_def)
  show ?thesis unfolding redis_lawful_def
    by (auto simp: demo_redis_def demo_reply none split: option.splits dest: found)
qed

theorem l2_serves_only_inserted_witness:
  "fst (redis_lookup demo_redis (embedding_new [Fin 1]) ''tag''
     (fold (redis_step demo_redis) [OInsert (embedding_new [Fin 1]) demo_result ''tag'', OWrite] (demo_redis_tier, metrics_new)))
   = Some demo_result \<and>
   re_decode demo_redis (from_utf8_lossy (re_encode demo_redis demo_result)) = Some demo_result"
proof -
  define ops where "ops = [OInsert (embedding_new [Fin 1]) demo_result ''tag'', OWrite]"
  define st where "st = fold (redis_step demo_redis) ops (demo_redis_tier, metrics_new)"
  have srv: "rd_server (fst st) = [(''tag'', ''json'')]" "rd_threshold (fst st) = Fin 0"
    "breaker_allow 0 (rd_breaker (fst st)) = (True, rd_breaker (fst st))"
    by (simp_all add: st_def ops_def redis_insert_def writer_step_def redis_write_def with_conn_def Let_def
        demo_redis_tier_def demo_redis_def breaker_allow_def breaker_new_def breaker_record_success_def
        demo_result_def WRITE_QUEUE_BOUND_def)
  have sim: "flt_le (Fin 0) (cosine_score_from_distance (Fin 0))"
    using f32.rnd_nat [of 1] by (simp add: cosine_score_from_distance_def fsub_def)
  obtain r st' where l: "redis_lookup demo_redis (embedding_new [Fin 1]) ''tag'' st = (r, st')" by (metis surj_pair)
  have r: "r = Some demo_result"
    using l srv sim
    by (simp add: redis_lookup_def Let_def with_conn_def demo_redis_def demo_reply)
  have "redis_lookup demo_redis (embedding_new [Fin 1]) ''tag'' (fold (redis_step demo_redis) ops (demo_redis_tier, metrics_new))
      = (Some demo_result, st')"
    using l r by (simp add: st_def)
  from l2_serves_only_inserted [OF demo_lawful demo_redis_connect _ this] obtain emb0 r0 where
    "OInsert emb0 r0 ''tag'' \<in> set ops" "re_decode demo_redis (from_utf8_lossy (re_encode demo_redis r0)) = Some demo_result"
    by (auto simp: demo_redis_tier_def)
  with l r show ?thesis by (simp add: ops_def st_def)
qed

end
