(* ===== verification/RedisServed.thy ===== *)
theory RedisServed
  imports ServedCore RedisTier
begin

text \<open>
  The service core with the Redis-backed semantic tier, as the server builds it
  (\<open>ServiceCore::with_semantic_cache\<close> of \<open>src/src/classify.rs\<close> given a \<open>RedisSemanticCache\<close>);
  the write-back thread takes its turns between the requests. The tier is a \<open>guarded_tier\<close> (a lookup may return
  another result than the one inserted: it went through JSON), so the contract of the core
  applies to it, and what every answer satisfies follows from the laws of the server and
  of the codec.
\<close>

section \<open>The tier under its tag\<close>

definition redis_guarded ::
  "'x redis_env \<Rightarrow> ('x \<Rightarrow> (string \<times> string) set) \<Rightarrow> (string \<Rightarrow> string \<Rightarrow> bool) \<Rightarrow> string \<Rightarrow>
     (classification_result \<Rightarrow> bool) \<Rightarrow> 'x redis_tier \<times> metrics \<Rightarrow> bool" where
  "redis_guarded renv stored matches tag good st \<longleftrightarrow>
     redis_lawful renv stored matches \<and>
     (\<forall>r r'. good r \<longrightarrow> re_decode renv (from_utf8_lossy (re_encode renv r)) = Some r' \<longrightarrow> good r') \<and>
     (\<forall>ident p r. matches tag ident \<longrightarrow> (ident, p) \<in> stored (rd_server (fst st)) \<union> queued (fst st) \<longrightarrow>
        re_decode renv (from_utf8_lossy p) = Some r \<longrightarrow> good r)"

lemma redis_ops_sel [simp]:
  "tier_lookup (redis_ops renv) = redis_lookup renv" "tier_insert (redis_ops renv) = redis_insert renv"
  by (simp_all add: redis_ops_def)

lemma redis_guarded_metrics: "redis_guarded renv stored matches tag good (s, m) = redis_guarded renv stored matches tag good (s, m')"
  by (simp add: redis_guarded_def)

text \<open>The tier may only lose entries, or gain decodings of good results.\<close>

lemma redis_guarded_mono:
  assumes "redis_guarded renv stored matches tag good st"
    and "stored (rd_server (fst st')) \<union> queued (fst st') \<subseteq>
           stored (rd_server (fst st)) \<union> queued (fst st) \<union> {(ident, re_encode renv r) | ident r. good r}"
  shows "redis_guarded renv stored matches tag good st'"
  using assms unfolding redis_guarded_def by blast

lemma redis_insert_queued:
  "stored (rd_server (fst (redis_insert renv emb r tag st))) \<union> queued (fst (redis_insert renv emb r tag st)) \<subseteq>
     stored (rd_server (fst st)) \<union> queued (fst st) \<union> {(tag, re_encode renv r)}"
  by (auto simp: queued_def redis_insert_def Let_def split_beta split: if_splits)

lemma writer_step_stored:
  assumes "redis_lawful renv stored matches"
  shows "stored (rd_server (fst (writer_step renv st))) \<union> queued (fst (writer_step renv st)) \<subseteq>
    stored (rd_server (fst st)) \<union> queued (fst st)"
proof (cases "rd_queue (fst st)")
  case Nil
  then show ?thesis by (simp add: writer_step_def Let_def)
next
  case (Cons job jobs)
  obtain res x where w: "redis_write renv (rd_ttl (fst st)) job (rd_server (fst st)) = (res, x)" by fastforce
  have "stored x \<subseteq> {(wj_identity job, wj_payload job)} \<union> stored (rd_server (fst st))"
    using write_stored [OF assms] w by (metis snd_conv)
  with Cons w show ?thesis
    by (auto simp: writer_step_def Let_def split_beta queued_def split: sum.split)
qed

interpretation redis_tier: guarded_tier
  "tier_lookup (redis_ops renv)" "tier_insert (redis_ops renv)" isolation good
  "redis_guarded renv stored matches isolation good"
  for renv isolation good stored matches
proof unfold_locales
  fix st k r st'
  assume ok: "redis_guarded renv stored matches isolation good st"
  then have lawful: "redis_lawful renv stored matches" by (simp add: redis_guarded_def)
  show "good r" if "tier_lookup (redis_ops renv) k isolation st = (Some r, st')"
  proof -
    from lookup_serves [OF lawful that [unfolded redis_ops_sel]] obtain ident p where
      "matches isolation ident" "(ident, p) \<in> stored (rd_server (fst st))" "re_decode renv (from_utf8_lossy p) = Some r" by blast
    then show ?thesis using ok unfolding redis_guarded_def by blast
  qed
  show "redis_guarded renv stored matches isolation good (snd (tier_lookup (redis_ops renv) k isolation st))"
    using lookup_stored [OF lawful, of k isolation st]
    by (intro redis_guarded_mono [OF ok]) (auto simp: queued_def)
  show "redis_guarded renv stored matches isolation good (tier_insert (redis_ops renv) k r isolation st)" if "good r"
    using redis_insert_queued [of stored renv k r isolation st] that
    by (intro redis_guarded_mono [OF ok]) auto
qed

lemma redis_guarded_writer:
  assumes "redis_guarded renv stored matches tag good st"
  shows "redis_guarded renv stored matches tag good (writer_step renv st)"
proof -
  have "redis_lawful renv stored matches" using assms by (simp add: redis_guarded_def)
  from writer_step_stored [OF this, of st] show ?thesis by (intro redis_guarded_mono [OF assms]) auto
qed

section \<open>The core over it\<close>

lemma redis_counters:
  "cache_counters (snd (snd (redis_lookup renv emb tag st))) = cache_counters (snd st)"
  "cache_counters (snd (redis_insert renv emb r tag st)) = cache_counters (snd st)"
  "cache_counters (snd (writer_step renv st)) = cache_counters (snd st)"
  by (auto simp: redis_lookup_def redis_insert_def writer_step_def Let_def split_beta cache_counters_def l2_records
      split: sum.split option.split list.split)

definition redis_served_env ::
  "'r runtime_ops \<Rightarrow> (signature, 'a) tier_ops \<Rightarrow> 'x redis_env \<Rightarrow> (string \<Rightarrow> signature) \<Rightarrow> (string \<Rightarrow> string) \<Rightarrow>
     ('r, 'a, 'x redis_tier) core_env" where
  "redis_served_env rt pre renv sg hash =
     \<lparr>ce_runtime = rt, ce_prefilter = pre, ce_semantic = redis_ops renv, ce_signature = sg, ce_blake3 = hash\<rparr>"

lemma redis_served_simps [simp]:
  "ce_runtime (redis_served_env rt pre renv sg hash) = rt" "ce_prefilter (redis_served_env rt pre renv sg hash) = pre"
  "ce_semantic (redis_served_env rt pre renv sg hash) = redis_ops renv"
  "env_tag (redis_served_env (candle_runtime cl) pre renv sg hash) = identity_tag (cache_identity (candle_metadata cl))"
  by (simp_all add: redis_served_env_def candle_runtime_def env_tag_def)

abbreviation candle_tag :: "candle_classifier \<Rightarrow> string" where
  "candle_tag cl \<equiv> identity_tag (cache_identity (candle_metadata cl))"

text \<open>
  What every answer satisfies, computed or decoded from Redis: the identity, and, where the
  codec keeps the shape (\<open>sh\<close>) of the results of a finite model, that shape.
\<close>

definition redis_good :: "bool \<Rightarrow> candle_classifier \<Rightarrow> classification_result \<Rightarrow> bool" where
  "redis_good sh cl r \<longleftrightarrow> carries_identity (candle_metadata cl) r \<and> (sh \<and> finite_model cl \<longrightarrow> shaped cl r)"

abbreviation own_redis ::
  "bool \<Rightarrow> 'x redis_env \<Rightarrow> ('x \<Rightarrow> (string \<times> string) set) \<Rightarrow> (string \<Rightarrow> string \<Rightarrow> bool) \<Rightarrow> candle_classifier \<Rightarrow> 'x redis_tier \<times> metrics \<Rightarrow> bool" where
  "own_redis sh renv stored matches cl \<equiv> redis_guarded renv stored matches (candle_tag cl) (redis_good sh cl)"

lemma candle_good_redis: "candle_good cl r \<Longrightarrow> redis_good sh cl r"
  by (auto simp: candle_good_def redis_good_def well_formed_shaped)

interpretation candle_redis: core_contract
  "redis_served_env (candle_runtime cl) noop_text renv sg hash" "redis_good sh cl" "candle_emb_ok cl"
  "\<lambda>_. True" "own_redis sh renv stored matches cl"
  for cl renv sg hash stored matches sh
proof unfold_locales
  show "own_redis sh renv stored matches cl (b, m) = own_redis sh renv stored matches cl (b, m')" for b m m'
    by (rule redis_guarded_metrics)
qed (auto intro: candle_contract(1) candle_good_redis [OF candle_contract(2)] candle_good_redis [OF candle_contract(3)]
    redis_tier.lookup_good [unfolded redis_ops_sel] redis_tier.lookup_ok [unfolded redis_ops_sel]
    redis_tier.insert_ok [unfolded redis_ops_sel] simp: candle_contract(4,5) redis_counters noop_text_def noop_text_lookup_def)

section \<open>Requests and turns of the write-back thread\<close>

datatype served_event = EvRequest classification_input | EvWriter

definition core_writer :: "'x redis_env \<Rightarrow> ('r, 'a, 'x redis_tier) service_core \<Rightarrow> ('r, 'a, 'x redis_tier) service_core" where
  "core_writer renv c =
     (let w = core_world c; (b, m) = writer_step renv (w_semantic w, w_metrics w)
      in c\<lparr>core_world := w\<lparr>w_semantic := b, w_metrics := m\<rparr>\<rparr>)"

fun redis_serve ::
  "('r, 'a, 'x redis_tier) core_env \<Rightarrow> 'x redis_env \<Rightarrow> served_event list \<Rightarrow> ('r, 'a, 'x redis_tier) service_core \<Rightarrow>
     outcome list \<times> ('r, 'a, 'x redis_tier) service_core" where
  "redis_serve env renv [] c = ([], c)"
| "redis_serve env renv (EvRequest i # es) c =
     (let (r, c') = core_classify env i c; (rs, c'') = redis_serve env renv es c' in (r # rs, c''))"
| "redis_serve env renv (EvWriter # es) c = redis_serve env renv es (core_writer renv c)"

fun is_counted :: "served_event \<Rightarrow> bool" where
  "is_counted (EvRequest i) = (completeness i \<noteq> Delta)"
| "is_counted EvWriter = False"

lemma core_writer_ok:
  assumes "candle_redis.core_ok sh cl renv stored matches c"
  shows "candle_redis.core_ok sh cl renv stored matches (core_writer renv c) \<and>
    counted_requests (w_metrics (core_world (core_writer renv c))) = counted_requests (w_metrics (core_world c))"
proof -
  define st where "st = (w_semantic (core_world c), w_metrics (core_world c))"
  obtain b m where w: "writer_step renv st = (b, m)" by fastforce
  have "own_redis sh renv stored matches cl st"
    using assms by (simp add: candle_redis.core_ok_def candle_redis.world_ok_def st_def)
  from redis_guarded_writer [OF this] have "own_redis sh renv stored matches cl (b, m)" by (simp add: w)
  moreover have "cache_counters m = cache_counters (w_metrics (core_world c))"
    using redis_counters(3) [of renv st] unfolding w by (simp add: st_def)
  ultimately show ?thesis using assms counted_requests_cong [of m]
    by (simp add: core_writer_def st_def [symmetric] w candle_redis.core_ok_def candle_redis.world_ok_def)
qed

lemma redis_serve_ok:
  assumes "candle_redis.core_ok sh cl renv stored matches c"
    and "redis_serve (redis_served_env (candle_runtime cl) noop_text renv sg hash) renv es c = (rs, c')"
  shows "candle_redis.core_ok sh cl renv stored matches c' \<and>
    (\<forall>r. Inr r \<in> set rs \<longrightarrow> redis_good sh cl r) \<and>
    counted_requests (w_metrics (core_world c')) =
      counted_requests (w_metrics (core_world c)) + length (filter is_counted es)"
  using assms
proof (induction es arbitrary: c rs c')
  case (Cons e es)
  define env where "env = redis_served_env (candle_runtime cl) noop_text renv sg hash"
  show ?case
  proof (cases e)
    case (EvRequest i)
    obtain r c1 where c1: "core_classify env i c = (r, c1)" by fastforce
    obtain rs1 c2 where c2: "redis_serve env renv es c1 = (rs1, c2)" by fastforce
    have eq: "rs = r # rs1" "c' = c2" using Cons.prems(2) c1 c2 by (auto simp: EvRequest env_def)
    note s1 = candle_redis.classify_ok [OF Cons.prems(1) c1 [unfolded env_def]]
    from Cons.IH [OF conjunct1 [OF s1] c2 [unfolded env_def]] s1 show ?thesis by (auto simp: eq EvRequest)
  next
    case EvWriter
    note s1 = core_writer_ok [OF Cons.prems(1)]
    from Cons.IH [OF conjunct1 [OF s1]] s1 Cons.prems(2) show ?thesis by (auto simp: EvWriter)
  qed
qed simp

section \<open>What is served\<close>

text \<open>
  The assumption on the codec: the four revisions of a result survive the trip through
  JSON and the server's bytes. What they were decoded from may otherwise differ.
\<close>

definition revisions_survive :: "'x redis_env \<Rightarrow> bool" where
  "revisions_survive renv \<longleftrightarrow>
     (\<forall>r r'. re_decode renv (from_utf8_lossy (re_encode renv r)) = Some r' \<longrightarrow> result_revisions r' = result_revisions r)"

text \<open>
  What else it may be assumed to keep: the status, and the labels in their order; a number that
  \<open>serde_json\<close> accepts is finite.
\<close>

definition shape_survives :: "'x redis_env \<Rightarrow> bool" where
  "shape_survives renv \<longleftrightarrow>
     (\<forall>r r'. re_decode renv (from_utf8_lossy (re_encode renv r)) = Some r' \<longrightarrow>
        res_status r' = res_status r \<and> List.map sig_id (res_ranked r') = List.map sig_id (res_ranked r) \<and>
        list_all (\<lambda>s. is_finite (score s)) (res_ranked r'))"

lemma shape_kept:
  assumes "shape_survives renv" and "re_decode renv (from_utf8_lossy (re_encode renv r)) = Some r'" and "shaped cl r"
  shows "shaped cl r'"
proof -
  have "res_status r' = res_status r" "List.map sig_id (res_ranked r') = List.map sig_id (res_ranked r)"
    "list_all (\<lambda>s. is_finite (score s)) (res_ranked r')"
    using assms(1,2) unfolding shape_survives_def by blast+
  with assms(3) show ?thesis unfolding shaped_def by (metis map_is_Nil_conv)
qed

lemma redis_fresh_ok:
  assumes "redis_lawful renv stored matches" and "revisions_survive renv"
    and "redis_connect opened cfg = Inr b" and "sh \<Longrightarrow> shape_survives renv"
    and "\<And>ident p r. matches (candle_tag cl) ident \<Longrightarrow> (ident, p) \<in> stored (rd_server b) \<Longrightarrow>
           re_decode renv (from_utf8_lossy p) = Some r \<Longrightarrow> redis_good sh cl r"
  shows "candle_redis.core_ok sh cl renv stored matches (core_new counters () b m)"
proof -
  have "rd_queue b = []" using assms(3) by (auto simp: redis_connect_def bind_res_Inr_iff split: option.splits)
  moreover have "redis_good sh cl r'"
    if "redis_good sh cl r" "re_decode renv (from_utf8_lossy (re_encode renv r)) = Some r'" for r r'
    using that assms(2) shape_kept [OF assms(4) that(2)]
    by (auto simp: redis_good_def carries_identity_def revisions_survive_def)
  ultimately have "own_redis sh renv stored matches cl (b, m)"
    using assms(1,5) by (auto simp: redis_guarded_def queued_def)
  then show ?thesis
    by (simp add: candle_redis.core_ok_def candle_redis.world_ok_def core_new_def)
qed

text \<open>
  With the Redis tier behind the core, and turns of its write-back thread between the
  requests in any order: if the entries the server already holds under the classifier's
  isolation tag are its own, every result that is served, computed or from either cache,
  carries the identity of the loaded classifier, and every request with a context is
  counted exactly once as a hit, a miss or a coalesced call.
\<close>

theorem redis_results_carry_identity:
  assumes "redis_lawful renv stored matches" and "revisions_survive renv"
    and "redis_connect opened cfg = Inr b"
    and "\<forall>ident p r. matches (identity_tag (cache_identity (candle_metadata cl))) ident \<longrightarrow> (ident, p) \<in> stored (rd_server b) \<longrightarrow>
           re_decode renv (from_utf8_lossy p) = Some r \<longrightarrow> result_revisions r = meta_revisions (candle_metadata cl)"
    and "redis_serve (redis_served_env (candle_runtime cl) noop_text renv sg hash) renv es
           (core_new counters () b m) = (rs, c')"
  shows "{r. Inr r \<in> set rs} \<subseteq> {r. result_revisions r = meta_revisions (candle_metadata cl)} \<and>
    counted_requests (w_metrics (core_world c')) = counted_requests m + length (filter is_counted es)"
proof -
  have "candle_redis.core_ok False cl renv stored matches (core_new counters () b m)"
    using assms(4) by (intro redis_fresh_ok [OF assms(1-3)]) (auto simp: redis_good_def carries_identity_def)
  from redis_serve_ok [OF this assms(5)] show ?thesis
    by (auto simp: redis_good_def carries_identity_def core_new_def)
qed


text \<open>A server that already holds an entry of the classifier, and the codec that goes with it.\<close>

definition shared_redis :: "classification_result \<Rightarrow> (string \<times> string) list redis_env" where
  "shared_redis own = demo_redis
     \<lparr>re_encode := (\<lambda>r. if result_revisions r = result_revisions own then ''json'' else ''other''),
      re_decode := (\<lambda>p. if p = ''json'' then Some own else None)\<rparr>"

lemma lossy_json: "from_utf8_lossy ''json'' = ''json''" "from_utf8_lossy ''other'' = ''other''"
  by (simp_all add: lossy_ascii)

lemma shared_redis_lawful: "redis_lawful (shared_redis own) set (\<lambda>tag ident. tag = ident)"
  using demo_lawful by (simp add: redis_lawful_def shared_redis_def)

lemma shared_redis_survive: "revisions_survive (shared_redis own)"
  by (auto simp: revisions_survive_def shared_redis_def lossy_json split: if_splits)

lemma shared_redis_hit:
  "redis_lookup (shared_redis own) emb tag (demo_redis_tier\<lparr>rd_server := [(tag, ''json'')]\<rparr>, m) =
     (Some own, demo_redis_tier\<lparr>rd_server := [(tag, ''json'')], rd_breaker := breaker_record_success (breaker_new 5 TEN_SECONDS)\<rparr>,
      record_l2_hit m)"
proof -
  have "flt_le (Fin 0) (cosine_score_from_distance (Fin 0))"
    using f32.rnd_nat [of 1] by (simp add: cosine_score_from_distance_def fsub_def)
  then show ?thesis
    by (simp add: redis_lookup_def Let_def with_conn_def shared_redis_def demo_redis_def demo_reply demo_redis_tier_def
        breaker_allow_def breaker_new_def lossy_json)
qed

theorem redis_results_carry_identity_witness:
  "\<exists>r c'. redis_serve (redis_served_env (candle_runtime finite_demo) noop_text
        (shared_redis (insufficient_context_abstention (candle_metadata finite_demo))) (\<lambda>_. zero_sig) (\<lambda>s. s))
      (shared_redis (insufficient_context_abstention (candle_metadata finite_demo))) [EvWriter, EvRequest demo_request]
      (core_new \<lparr>tokenizer_calls = 0, forward_calls = 0\<rparr> ()
        (demo_redis_tier\<lparr>rd_server := [(identity_tag (cache_identity (candle_metadata finite_demo)), ''json'')]\<rparr>) metrics_new) = ([Inr r], c') \<and>
    result_revisions r = meta_revisions (candle_metadata finite_demo) \<and>
    counted_requests (w_metrics (core_world c')) = 1 \<and> ms_l2_hits (w_metrics (core_world c')) = 1"
proof -
  define own where "own = insufficient_context_abstention (candle_metadata finite_demo)"
  define tag where "tag = identity_tag (cache_identity (candle_metadata finite_demo))"
  define b where "b = demo_redis_tier\<lparr>rd_server := [(tag, ''json'')]\<rparr>"
  define env where "env = redis_served_env (candle_runtime finite_demo) noop_text (shared_redis own) (\<lambda>_. zero_sig) (\<lambda>s. s)"
  define c where "c = core_new \<lparr>tokenizer_calls = 0, forward_calls = 0\<rparr> () b metrics_new"
  have connect: "redis_connect (\<lambda>_. Inr [(tag, ''json'')]) demo_redis_config = Inr b"
    by (simp add: redis_connect_def demo_redis_config_def demo_redis_tier_def b_def)
  have writer: "core_writer (shared_redis own) c = c"
    by (simp add: core_writer_def c_def core_new_def writer_step_def b_def demo_redis_tier_def)
  obtain n m2 where fw: "core_forward env tag (demo_request\<lparr>in_text := trim (in_text demo_request)\<rparr>) (core_world c) =
      (Inr own, \<lparr>w_runtime = n, w_prefilter = (),
        w_semantic = b\<lparr>rd_breaker := breaker_record_success (breaker_new 5 TEN_SECONDS)\<rparr>, w_metrics = record_l2_hit m2\<rparr>)"
    and m2: "ms_l2_hits m2 = 0"
  proof -
    obtain n m2 where "candle_embed finite_demo (demo_request\<lparr>in_text := trim (in_text demo_request)\<rparr>)
        (\<lparr>tokenizer_calls = 0, forward_calls = 0\<rparr>, metrics_new) = (Inr (embedding_with_logits [Fin 1] None), n, m2)" "ms_l2_hits m2 = 0"
      by (auto simp: candle_embed_def Let_def finite_demo_def candle_new_def metrics_new_def)
    then show ?thesis using that
      by (simp add: core_forward_def env_def redis_served_env_def candle_runtime_def noop_text_def noop_text_lookup_def c_def core_new_def
          b_def shared_redis_hit)
  qed
  have key: "ec_cached_value (core_key env (trim (in_text demo_request))) (core_cache c) = None"
    by (simp add: c_def core_new_def)
  have tag: "identity_tag (cache_identity (op_metadata (ce_runtime env))) = tag"
    by (simp add: env_def candle_runtime_def tag_def)
  obtain c' where c': "core_classify env demo_request c = (Inr own, c')"
    "ms_l2_hits (w_metrics (core_world c')) = 1"
    using core_miss [OF _ key fw [folded tag]] m2
    by (simp add: demo_request_def record_l2_hit_def record_cache_miss_def)
  have run: "redis_serve env (shared_redis own) [EvWriter, EvRequest demo_request] c = ([Inr own], c')"
    by (simp add: writer c')
  have "\<forall>ident p r. tag = ident \<longrightarrow> (ident, p) \<in> set (rd_server b) \<longrightarrow>
      re_decode (shared_redis own) (from_utf8_lossy p) = Some r \<longrightarrow> result_revisions r = meta_revisions (candle_metadata finite_demo)"
    by (auto simp: b_def shared_redis_def lossy_json own_def)
  from redis_results_carry_identity [OF shared_redis_lawful shared_redis_survive connect this [unfolded tag_def] run [unfolded env_def c_def]]
  have "result_revisions own = meta_revisions (candle_metadata finite_demo)"
    "counted_requests (w_metrics (core_world c')) = 1"
    by (simp_all add: counted_requests_def metrics_new_def demo_request_def)
  with run c'(2) show ?thesis unfolding env_def c_def b_def tag_def own_def by blast
qed

end
