(* ===== verification/GrpcClassify.thy ===== *)
theory GrpcClassify
  imports Wire Executor Telemetry Config RedisServed
begin

text \<open>
  The classify service of \<open>src/src/grpc/classify.rs\<close>: the handler that records telemetry,
  checks the requested signals, hands the request to the executor and maps its outcome to a
  response or a status, and the choice of the semantic tier when a server is bound. The
  server around the handler is in \<open>GrpcServer\<close>. What the transport and the scheduler decide for
  one call (header, times, admission) is the record \<open>call_env\<close>.
\<close>

section \<open>The handler\<close>

definition DEFAULT_QUEUE_BOUND :: nat where "DEFAULT_QUEUE_BOUND = 256"

record grpc_params =
  gp_instant_add :: "nat \<Rightarrow> nat \<Rightarrow> nat option"
  gp_to_str :: "string \<Rightarrow> string option"
  gp_hex :: "string \<Rightarrow> string"

record call_env =
  ca_now :: nat
  ca_extension :: "nat option"
  ca_timeout :: "string option"
  ca_fate :: fate
  ca_total_ns :: nat

record ('r, 'a, 'b) classify_server =
  gs_telemetry :: telemetry
  gs_core :: "('r, 'a, 'b) service_core"

fun check_signals :: "string \<Rightarrow> string list \<Rightarrow> grpc_status + unit" where
  "check_signals supported [] = Inr ()"
| "check_signals supported (signal # signals) =
     (if signal \<noteq> supported then Inl (unsupported_signal signal supported)
      else check_signals supported signals)"

definition request_input :: "classify_request \<Rightarrow> classification_input" where
  "request_input req =
     \<lparr>in_text = rq_context req, requested_signals = rq_signals req,
      session_metadata = [''session_id'' \<mapsto> rq_session_id req],
      completeness = read_completeness (rq_completeness req)\<rparr>"

text \<open>
  The wait for the executor, and the mapping of its errors, for a caller that stays. What the
  executor makes of the job (\<open>ca_fate\<close>) is the scheduler's: which of the outcomes occur, and
  that one of them always does, is what \<open>Handoff\<close> shows. A caller that goes away is
  \<open>grpc_abandoned\<close> below.
\<close>

definition await_outcome ::
  "('r, 'a, 'b) core_env \<Rightarrow> fate \<Rightarrow> classification_input \<Rightarrow> nat option \<Rightarrow> ('r, 'a, 'b) service_core \<Rightarrow>
     (grpc_status + classification_result) \<times> ('r, 'a, 'b) service_core" where
  "await_outcome env ft inp deadline c =
     (case ft of
        FQueueFull \<Rightarrow> (Inl queue_is_full, c)
      | FStopped \<Rightarrow> (Inl executor_stopped, c)
      | FRun tq td \<Rightarrow>
          (let (outcome, c') = executor_serve env tq td inp deadline c
           in (map_err error_status outcome, c')))"

definition grpc_classify ::
  "grpc_params \<Rightarrow> ('r, 'a, 'b) core_env \<Rightarrow> call_env \<Rightarrow> classify_request \<Rightarrow> ('r, 'a, 'b) classify_server \<Rightarrow>
     ((grpc_status + classify_response) \<times> ('r, 'a, 'b) classify_server) option" where
  "grpc_classify gp env call req s =
     (case request_deadline (gp_instant_add gp) (gp_to_str gp) (ca_now call) (ca_extension call) (ca_timeout call) of
        None \<Rightarrow> None
      | Some deadline \<Rightarrow> Some
          (let s1 = s\<lparr>gs_telemetry := record_request (gp_hex gp)
                 \<lparr>re_request_id = rq_request_id req, re_session_id = rq_session_id req, re_context = rq_context req\<rparr>
                 (gs_telemetry s)\<rparr>
           in case check_signals (meta_signal (op_metadata (ce_runtime env))) (rq_signals req) of
                Inl st \<Rightarrow> (Inl st, s1)
              | Inr _ \<Rightarrow>
                  (let (result, c) = await_outcome env (ca_fate call) (request_input req) deadline (gs_core s1);
                       s2 = s1\<lparr>gs_core := c\<rparr>
                   in case result of
                        Inl st \<Rightarrow> (Inl st, s2)
                      | Inr r \<Rightarrow>
                          (Inr (wire_response (rq_request_id req) r),
                           s2\<lparr>gs_core := map_metrics (record_stage StageTotal (ca_total_ns call)) c\<rparr>))))"

text \<open>
  A caller that goes away while its handler waits for the executor: the handler's future is
  dropped and with it the receiver of the oneshot. The job is dropped when a worker takes it
  off the queue at a time, or it had been taken before, with the times of queueing and of
  the worker's decision, and runs on with nobody to answer.
\<close>

datatype abandoned = GoneQueued nat | GoneTaken nat nat

definition executor_drop :: "nat \<Rightarrow> nat option \<Rightarrow> ('r, 'a, 'b) service_core \<Rightarrow> ('r, 'a, 'b) service_core" where
  "executor_drop now deadline c =
     map_metrics (if deadline_passed now deadline then record_queued_expired else record_queued_cancelled) c"

definition grpc_abandoned ::
  "grpc_params \<Rightarrow> ('r, 'a, 'b) core_env \<Rightarrow> call_env \<Rightarrow> classify_request \<Rightarrow> abandoned \<Rightarrow> ('r, 'a, 'b) classify_server \<Rightarrow>
     ('r, 'a, 'b) classify_server option" where
  "grpc_abandoned gp env call req gone s =
     (case request_deadline (gp_instant_add gp) (gp_to_str gp) (ca_now call) (ca_extension call) (ca_timeout call) of
        None \<Rightarrow> None
      | Some deadline \<Rightarrow> Some
          (let s1 = s\<lparr>gs_telemetry := record_request (gp_hex gp)
                 \<lparr>re_request_id = rq_request_id req, re_session_id = rq_session_id req, re_context = rq_context req\<rparr>
                 (gs_telemetry s)\<rparr>
           in case check_signals (meta_signal (op_metadata (ce_runtime env))) (rq_signals req) of
                Inl st \<Rightarrow> s1
              | Inr _ \<Rightarrow>
                  s1\<lparr>gs_core :=
                    (case gone of
                       GoneQueued now \<Rightarrow> executor_drop now deadline (gs_core s1)
                     | GoneTaken tq td \<Rightarrow> snd (executor_serve env tq td (request_input req) deadline (gs_core s1)))\<rparr>))"

definition server_new :: "telemetry \<Rightarrow> ('r, 'a, 'b) service_core \<Rightarrow> ('r, 'a, 'b) classify_server" where
  "server_new t c = \<lparr>gs_telemetry = t, gs_core = c\<rparr>"

section \<open>The semantic tier of a bound server\<close>

definition exact_fallback :: cache_config where
  "exact_fallback = \<lparr>strategy = ''exact'', redis_url = None, threshold = default_threshold, ttl_secs = 86400, timeout_ms = 50\<rparr>"

text \<open>
  \<open>connect\<close> is the feature-gated connection to Redis: \<open>None\<close> in a binary built without it.
\<close>

definition select_semantic ::
  "(cache_config \<Rightarrow> string + 'tier) option \<Rightarrow> 'tier \<Rightarrow> config_error + cache_config \<Rightarrow> 'tier" where
  "select_semantic connect noop cfg_result =
     (let cfg = (case cfg_result of Inr cfg \<Rightarrow> cfg | Inl e \<Rightarrow> exact_fallback)
      in if strategy cfg = ''redis-semantic''
         then (case connect of
                 Some f \<Rightarrow> (case f cfg of Inr tier \<Rightarrow> tier | Inl e \<Rightarrow> noop)
               | None \<Rightarrow> noop)
         else noop)"

section \<open>Outcomes of a call\<close>

lemma check_signals_ok: "check_signals served ss = Inr u \<longleftrightarrow> set ss \<subseteq> {served}"
  by (induction ss) auto

lemma check_signals_code: "check_signals served ss = Inl st \<Longrightarrow> st_code st = InvalidArgument"
  by (induction ss) (auto simp: unsupported_signal_def split: if_splits)

lemma error_status_code: "st_code (error_status e) \<noteq> InvalidArgument"
  by (cases e) (simp_all add: error_status_def queue_is_full_def)

lemma map_err_cases:
  "map_err f r = Inr x \<longleftrightarrow> r = Inr x"
  "map_err f r = Inl y \<longleftrightarrow> (\<exists>e. r = Inl e \<and> y = f e)"
  by (cases r; auto)+

lemma grpc_classifyE:
  assumes "grpc_classify gp env call req s = Some (res, s')"
  obtains (signal) st where "check_signals (meta_signal (op_metadata (ce_runtime env))) (rq_signals req) = Inl st"
      "res = Inl st" "gs_core s' = gs_core s"
    | (failed) deadline st c where
      "request_deadline (gp_instant_add gp) (gp_to_str gp) (ca_now call) (ca_extension call) (ca_timeout call) = Some deadline"
      "set (rq_signals req) \<subseteq> {meta_signal (op_metadata (ce_runtime env))}"
      "await_outcome env (ca_fate call) (request_input req) deadline (gs_core s) = (Inl st, c)"
      "res = Inl st" "gs_core s' = c"
    | (answered) deadline r c where
      "request_deadline (gp_instant_add gp) (gp_to_str gp) (ca_now call) (ca_extension call) (ca_timeout call) = Some deadline"
      "set (rq_signals req) \<subseteq> {meta_signal (op_metadata (ce_runtime env))}"
      "await_outcome env (ca_fate call) (request_input req) deadline (gs_core s) = (Inr r, c)"
      "res = Inr (wire_response (rq_request_id req) r)"
      "gs_core s' = map_metrics (record_stage StageTotal (ca_total_ns call)) c"
  using assms
  by (auto simp: grpc_classify_def Let_def check_signals_ok split: option.splits sum.splits prod.splits)

lemma await_outcome_ok:
  "await_outcome env ft inp deadline c = (Inr r, c') \<longleftrightarrow>
     (\<exists>tq td. ft = FRun tq td \<and> executor_serve env tq td inp deadline c = (Inr r, c'))"
  by (auto simp: await_outcome_def map_err_cases split: fate.splits prod.splits)

text \<open>
  A response is the result the executor computed for this very request and nothing else
  (its scores as \<open>f32\<close>): it is sent only when every requested signal is the
  one served, it carries the caller's request id, and the result came from the executor
  under the caller's deadline, after which one sample of the total latency is recorded.
\<close>

theorem response_is_the_result:
  assumes "grpc_classify gp env call req s = Some (Inr resp, s')"
  shows "set (rq_signals req) \<subseteq> {meta_signal (op_metadata (ce_runtime env))} \<and>
    (\<exists>tq td deadline r c. ca_fate call = FRun tq td \<and>
       request_deadline (gp_instant_add gp) (gp_to_str gp) (ca_now call) (ca_extension call) (ca_timeout call) = Some deadline \<and>
       executor_serve env tq td (request_input req) deadline (gs_core s) = (Inr r, c) \<and>
       read_response resp = (rq_request_id req, f32_result r) \<and>
       gs_core s' = map_metrics (record_stage StageTotal (ca_total_ns call)) c)"
  using assms by (cases rule: grpc_classifyE) (auto simp: await_outcome_ok)

section \<open>Serving requests\<close>

fun grpc_serve ::
  "grpc_params \<Rightarrow> ('r, 'a, 'b) core_env \<Rightarrow> (call_env \<times> classify_request) list \<Rightarrow> ('r, 'a, 'b) classify_server \<Rightarrow>
     ((grpc_status + classify_response) list \<times> ('r, 'a, 'b) classify_server) option" where
  "grpc_serve gp env [] s = Some ([], s)"
| "grpc_serve gp env ((call, req) # calls) s =
     (case grpc_classify gp env call req s of
        None \<Rightarrow> None
      | Some (res, s') \<Rightarrow> map_option (\<lambda>(rs, s''). (res # rs, s'')) (grpc_serve gp env calls s'))"

context core_contract
begin

lemma core_ok_map_metrics [simp]: "core_ok (map_metrics f c) = core_ok c"
  using core_ok_metrics [where ch = "core_cache c" and w = "core_world c"]
  by (cases c) (simp add: map_metrics_def)

text \<open>What a client reads is a good result, its scores rounded to single precision.\<close>

definition sent_good :: "classify_response \<Rightarrow> bool" where
  "sent_good p \<longleftrightarrow> (\<exists>r. good r \<and> snd (read_response p) = f32_result r)"

lemma executor_ok:
  assumes "core_ok c" and "executor_serve env tq td inp deadline c = (r, c')"
  shows "core_ok c' \<and> (\<forall>v. r = Inr v \<longrightarrow> good v)"
  using assms classify_ok [of "map_metrics (record_stage StageQueue (td - tq)) c" inp r c']
  by (auto simp: executor_serve_def split: if_splits)

lemma await_ok:
  assumes "core_ok c" and "await_outcome env ft inp deadline c = (r, c')"
  shows "core_ok c' \<and> (\<forall>v. r = Inr v \<longrightarrow> good v)"
  using assms executor_ok by (auto simp: await_outcome_def map_err_cases split: fate.splits prod.splits)

lemma grpc_ok:
  assumes "core_ok (gs_core s)" and "grpc_classify gp env call req s = Some (res, s')"
  shows "core_ok (gs_core s') \<and> (\<forall>p. res = Inr p \<longrightarrow> sent_good p)"
  using assms(2) 
  by (cases rule: grpc_classifyE) (auto simp: assms(1) sent_good_def dest!: await_ok [OF assms(1)])

lemma grpc_abandoned_ok:
  assumes "core_ok (gs_core s)" and "grpc_abandoned gp env call req gone s = Some s'"
  shows "core_ok (gs_core s')"
proof -
  have "core_ok (snd (executor_serve env tq td inp deadline (gs_core s)))" for tq td inp deadline
    using executor_ok [OF assms(1)] by (metis prod.collapse)
  then show ?thesis using assms
    by (auto simp: grpc_abandoned_def executor_drop_def Let_def split: option.splits sum.splits abandoned.splits)
qed

lemma grpc_serve_ok:
  assumes "core_ok (gs_core s)" and "grpc_serve gp env calls s = Some (rs, s')"
  shows "core_ok (gs_core s') \<and> (\<forall>p. Inr p \<in> set rs \<longrightarrow> sent_good p)"
  using assms
proof (induction calls arbitrary: s rs s')
  case (Cons cr calls)
  obtain call req where cr: "cr = (call, req)" by fastforce
  from Cons.prems(2) obtain res s1 rs1 where r: "grpc_classify gp env call req s = Some (res, s1)"
    "grpc_serve gp env calls s1 = Some (rs1, s')" "rs = res # rs1"
    by (auto simp: cr split: option.splits)
  from grpc_ok [OF Cons.prems(1) r(1)] Cons.IH [OF _ r(2)] show ?case by (auto simp: r(3))
qed simp

end

lemma server_fresh_ok:
  "candle_memory.core_ok cl hband (gs_core (server_new t (core_new counters (text_cache_new capacity thr) () m)))"
  by (simp add: server_new_def candle_fresh_ok)

text \<open>
  Served over gRPC by the model-backed classifier with the in-process text cache from a
  fresh start, under any calls, times, deadlines and admission outcomes: every response a
  client reads carries the revisions of the loaded classifier.
\<close>

theorem grpc_responses_carry_identity:
  assumes "grpc_serve gp (served_env (candle_runtime cl) (memory_text hband) sg hash) calls
             (server_new t (core_new counters (text_cache_new capacity thr) () m)) = Some (rs, s')"
  shows "{p. Inr p \<in> set rs} \<subseteq> {p. result_revisions (snd (read_response p)) = meta_revisions (candle_metadata cl)}"
  using candle_memory.grpc_serve_ok [OF server_fresh_ok assms]
  by (auto simp: candle_memory.sent_good_def candle_good_def carries_identity_def)

definition demo_params :: grpc_params where
  "demo_params = \<lparr>gp_instant_add = (\<lambda>now d. Some (now + d)), gp_to_str = Some, gp_hex = (\<lambda>s. s)\<rparr>"

definition demo_call :: call_env where
  "demo_call = \<lparr>ca_now = 0, ca_extension = Some 50, ca_timeout = None, ca_fate = FRun 5 9, ca_total_ns = 30\<rparr>"

definition demo_delta :: classify_request where
  "demo_delta = \<lparr>rq_request_id = ''r1'', rq_session_id = ''s1'', rq_context = ''hi'', rq_signals = [], rq_completeness = 2\<rparr>"

lemma demo_delta_served:
  "\<exists>s'. grpc_classify demo_params env demo_call demo_delta s =
     Some (Inr (wire_response ''r1'' (insufficient_context_abstention (op_metadata (ce_runtime env)))), s')"
  by (simp add: grpc_classify_def demo_params_def demo_call_def demo_delta_def request_deadline_def Let_def
      await_outcome_def executor_serve_def deadline_passed_def core_classify_def request_input_def read_completeness_def)

abbreviation demo_candle :: candle_classifier where
  "demo_candle \<equiv> candle_new demo_embedder [] exp_ieee"

abbreviation demo_served_env :: "(candle_counters, text_cache, unit) core_env" where
  "demo_served_env \<equiv> served_env (candle_runtime demo_candle) (memory_text (\<lambda>b _. of_nat b)) (\<lambda>_. zero_sig) (\<lambda>s. s)"

abbreviation demo_server :: "(candle_counters, text_cache, unit) classify_server" where
  "demo_server \<equiv> server_new (telemetry_new None)
     (core_new \<lparr>tokenizer_calls = 0, forward_calls = 0\<rparr> (text_cache_new 4 (Fin 1)) () metrics_new)"

theorem grpc_responses_carry_identity_witness:
  "\<exists>p s'. grpc_serve demo_params demo_served_env [(demo_call, demo_delta)] demo_server = Some ([Inr p], s') \<and>
     result_revisions (snd (read_response p)) = meta_revisions (candle_metadata demo_candle)"
proof -
  obtain p s' where p: "grpc_serve demo_params demo_served_env [(demo_call, demo_delta)] demo_server = Some ([Inr p], s')"
    using demo_delta_served [of demo_served_env demo_server] by auto
  from grpc_responses_carry_identity [OF p] p show ?thesis by auto
qed

theorem response_is_the_result_witness:
  "\<exists>resp s' r. grpc_classify demo_params demo_served_env demo_call demo_delta demo_server = Some (Inr resp, s') \<and>
     read_response resp = (''r1'', f32_result r)"
proof -
  obtain resp s' where r: "grpc_classify demo_params demo_served_env demo_call demo_delta demo_server = Some (Inr resp, s')"
    using demo_delta_served [of demo_served_env demo_server] by auto
  from response_is_the_result [OF r] r show ?thesis by (auto simp: demo_delta_def)
qed

section \<open>Choosing the semantic tier\<close>

text \<open>
  A server serves from Redis only when the feature is compiled in, the environment
  resolves to a \<open>redis-semantic\<close> configuration with an address that is not
  blank and a threshold between 0 and 1, and the connection succeeds with that
  configuration; in every other case it comes up with the exact cache alone.
\<close>

theorem semantic_tier_fails_open:
  assumes "select_semantic connect noop (from_env_with get) \<noteq> noop"
  shows "\<exists>f cfg url t. connect = Some f \<and> from_env_with get = Inr cfg \<and>
    f cfg = Inr (select_semantic connect noop (from_env_with get)) \<and> strategy cfg = ''redis-semantic'' \<and>
    redis_url cfg = Some url \<and> trim url \<noteq> [] \<and> threshold cfg = Fin t \<and> 0 \<le> t \<and> t \<le> 1"
proof -
  obtain f cfg where f: "connect = Some f" "from_env_with get = Inr cfg" "strategy cfg = ''redis-semantic''"
    "f cfg = Inr (select_semantic connect noop (from_env_with get))"
    using assms by (auto simp: select_semantic_def exact_fallback_def split: sum.splits option.splits if_splits)
  with accepted_cache_config [OF f(2)] show ?thesis by blast
qed

theorem semantic_tier_fails_open_witness:
  "\<exists>cfg. from_env_with [''LLM_D_SC_CACHE'' \<mapsto> ''redis-semantic'', ''LLM_D_SC_REDIS_URL'' \<mapsto> ''redis:''] = Inr cfg \<and>
     select_semantic (Some (\<lambda>cfg. Inr (1 :: nat))) 0
       (from_env_with [''LLM_D_SC_CACHE'' \<mapsto> ''redis-semantic'', ''LLM_D_SC_REDIS_URL'' \<mapsto> ''redis:'']) = 1 \<and>
     redis_url cfg = Some ''redis:''"
proof -
  define get where "get = [''LLM_D_SC_CACHE'' \<mapsto> ''redis-semantic'', ''LLM_D_SC_REDIS_URL'' \<mapsto> ''redis:'']"
  have t: "trim ''redis:'' \<noteq> []" by code_simp
  obtain cfg where cfg: "from_env_with get = Inr cfg" "strategy cfg = ''redis-semantic''" "redis_url cfg = Some ''redis:''"
    using default_threshold_unit t
    by (simp add: get_def from_env_with_def unwrap_or_def filter_opt_def KNOWN_CACHE_STRATEGIES_def)
  have one: "select_semantic (Some (\<lambda>cfg. Inr (1 :: nat))) 0 (from_env_with get) = 1"
    by (simp add: cfg select_semantic_def)
  then have "select_semantic (Some (\<lambda>cfg. Inr (1 :: nat))) 0 (from_env_with get) \<noteq> 0" by simp
  from semantic_tier_fails_open [OF this] cfg one show ?thesis by (auto simp: get_def)
qed

end
