(* ===== verification/ModelRuntime.thy ===== *)
theory ModelRuntime
  imports Prelude "HOL-Library.Product_Lexorder"
begin

text \<open>
  The model runtime of \<open>src/src/runtime.rs\<close>: the files a model directory must hold, their
  content digest, the readiness gate and the resident tokenizer. The file system at one moment
  is the record \<open>fs_ops\<close>; files may come, go and change between two looks of the code at
  them, so an operation that looks several times is given the file system at each of its
  looks (\<open>disk\<close>). The hexadecimal BLAKE3 digest and the tokenizer loader are parameters.
\<close>

section \<open>Files and digest\<close>

record fs_ops =
  fs_exists :: "string \<Rightarrow> bool"
  fs_is_file :: "string \<Rightarrow> bool"
  fs_metadata :: "string \<Rightarrow> string + unit"
  fs_open :: "string \<Rightarrow> string + (string + string)"  \<comment> \<open>the error of opening, or of reading, or the bytes\<close>

text \<open>The file system at the successive looks of an operation, and at those after the first \<open>n\<close>.\<close>

type_synonym disk = "nat \<Rightarrow> fs_ops"

definition later :: "nat \<Rightarrow> disk \<Rightarrow> disk" where
  "later n disk = (\<lambda>k. disk (n + k))"

text \<open>\<open>Path::join\<close> on Unix.\<close>

definition path_join :: "string \<Rightarrow> string \<Rightarrow> string" where
  "path_join dir f =
     (if f \<noteq> [] \<and> hd f = CHR ''/'' then f
      else if dir = [] \<or> last dir = CHR ''/'' then dir @ f else dir @ ''/'' @ f)"

definition MODELCAR_REQUIRED_FILES :: "string list" where
  "MODELCAR_REQUIRED_FILES = [''model.safetensors'', ''config.json'', ''tokenizer.json'', ''1_Pooling/config.json'']"

definition modelcar_core_files :: "string list" where
  "modelcar_core_files = [''model.safetensors'', ''config.json'', ''tokenizer.json'']"

definition modelcar_required_files :: "fs_ops \<Rightarrow> string \<Rightarrow> string list" where
  "modelcar_required_files fs dir =
     (if fs_exists fs (path_join dir ''modules.json'') then MODELCAR_REQUIRED_FILES else modelcar_core_files)"

definition hash_file :: "fs_ops \<Rightarrow> (string \<Rightarrow> string) \<Rightarrow> string \<Rightarrow> string \<Rightarrow> string + (string \<times> string)" where
  "hash_file fs hex dir name =
     (let path = path_join dir name
      in case fs_open fs path of
           Inl e \<Rightarrow> Inl (''cannot read '' @ path @ '' for digest: '' @ e)
         | Inr (Inl e) \<Rightarrow> Inl (''cannot hash '' @ path @ '': '' @ e)
         | Inr (Inr bytes) \<Rightarrow> Inr (name, hex bytes))"

definition digest_line :: "string \<times> string \<Rightarrow> string" where
  "digest_line e = fst e @ '':'' @ snd e @ [CHR 0x0A]"

definition hash_files :: "disk \<Rightarrow> (string \<Rightarrow> string) \<Rightarrow> string \<Rightarrow> string list \<Rightarrow> (string + (string \<times> string)) list" where
  "hash_files disk hex dir files = List.map (\<lambda>i. hash_file (disk i) hex dir (files ! i)) [0..<length files]"

definition modelcar_digest :: "disk \<Rightarrow> (string \<Rightarrow> string) \<Rightarrow> string \<Rightarrow> string list \<Rightarrow> string + string" where
  "modelcar_digest disk hex dir files =
     bind_res (collect_res (hash_files disk hex dir files))
       (\<lambda>entries. Inr (''blake3:'' @ hex (concat (List.map digest_line (sort entries)))))"

section \<open>The runtime\<close>

datatype readiness = RNotReady | RReady

definition is_ready :: "readiness \<Rightarrow> bool" where
  "is_ready r = (case r of RReady \<Rightarrow> True | RNotReady \<Rightarrow> False)"

record 'tok model_runtime =
  rt_ready :: bool
  rt_tokenizer :: "'tok option"
  rt_revision :: "string option"
  rt_load_count :: nat
  rt_digest :: "string option"

definition runtime_new :: "'tok model_runtime" where
  "runtime_new = \<lparr>rt_ready = False, rt_tokenizer = None, rt_revision = None, rt_load_count = 0, rt_digest = None\<rparr>"

definition runtime_warmup :: "disk \<Rightarrow> string \<Rightarrow> 'tok model_runtime \<Rightarrow> (string + unit) \<times> 'tok model_runtime" where
  "runtime_warmup disk path rt =
     (if \<not> fs_exists (disk 0) path then (Inl (''model path does not exist: '' @ path), rt)
      else (case fs_metadata (disk 1) path of
              Inl e \<Rightarrow> (Inl (''model path is not readable: '' @ path @ '': '' @ e), rt)
            | Inr _ \<Rightarrow> (Inr (), rt\<lparr>rt_ready := True\<rparr>)))"

fun missing_file :: "disk \<Rightarrow> string \<Rightarrow> string list \<Rightarrow> string + unit" where
  "missing_file disk path [] = Inr ()"
| "missing_file disk path (f # files) =
     (if \<not> fs_is_file (disk 0) (path_join path f)
      then Inl (''ModelCar missing required file '' @ f @ '' at '' @ path_join path f)
      else missing_file (later 1 disk) path files)"

definition warmup_modelcar ::
  "disk \<Rightarrow> (string \<Rightarrow> string) \<Rightarrow> string \<Rightarrow> string list \<Rightarrow> 'tok model_runtime \<Rightarrow> (string + unit) \<times> 'tok model_runtime" where
  "warmup_modelcar disk hex path files rt =
     (case missing_file disk path files of
        Inl e \<Rightarrow> (Inl e, rt)
      | Inr _ \<Rightarrow>
          (case modelcar_digest (later (length files) disk) hex path files of
             Inl e \<Rightarrow> (Inl e, rt)
           | Inr d \<Rightarrow> runtime_warmup (later (2 * length files) disk) path (rt\<lparr>rt_digest := Some d\<rparr>)))"

definition load_tokenizer_once ::
  "(string \<Rightarrow> string + 'tok) \<Rightarrow> string \<Rightarrow> string \<Rightarrow> 'tok model_runtime \<Rightarrow> (string + unit) \<times> 'tok model_runtime" where
  "load_tokenizer_once load revision path rt =
     (if rt_revision rt = Some revision then (Inr (), rt)
      else (case load path of
              Inl e \<Rightarrow> (Inl e, rt)
            | Inr tok \<Rightarrow>
                (Inr (), rt\<lparr>rt_tokenizer := Some tok, rt_revision := Some revision, rt_load_count := rt_load_count rt + 1\<rparr>)))"

definition runtime_readiness :: "'tok model_runtime \<Rightarrow> readiness" where
  "runtime_readiness rt = (if rt_ready rt then RReady else RNotReady)"

section \<open>The readiness gate\<close>

text \<open>The operations a process performs on its runtime, each with what it returned.\<close>

datatype runtime_call =
    Warmup disk string
  | WarmupModelcar disk "string \<Rightarrow> string" string "string list"
  | LoadTokenizer string string

primrec runtime_step ::
  "(string \<Rightarrow> string + 'tok) \<Rightarrow> runtime_call \<Rightarrow> 'tok model_runtime \<Rightarrow> (string + unit) \<times> 'tok model_runtime" where
  "runtime_step load (Warmup disk path) rt = runtime_warmup disk path rt"
| "runtime_step load (WarmupModelcar disk hex path files) rt = warmup_modelcar disk hex path files rt"
| "runtime_step load (LoadTokenizer revision path) rt = load_tokenizer_once load revision path rt"

fun runtime_run ::
  "(string \<Rightarrow> string + 'tok) \<Rightarrow> runtime_call list \<Rightarrow> 'tok model_runtime \<Rightarrow> (string + unit) list \<times> 'tok model_runtime" where
  "runtime_run load [] rt = ([], rt)"
| "runtime_run load (c # cs) rt =
     (let (r, rt1) = runtime_step load c rt; (rs, rt2) = runtime_run load cs rt1 in (r # rs, rt2))"

definition is_warmup :: "runtime_call \<Rightarrow> bool" where
  "is_warmup c = (case c of LoadTokenizer _ _ \<Rightarrow> False | _ \<Rightarrow> True)"

lemma runtime_step_ready:
  "runtime_step load c rt = (r, rt') \<Longrightarrow> rt_ready rt' = (rt_ready rt \<or> is_warmup c \<and> r = Inr ())"
  by (cases c) (auto simp: is_warmup_def runtime_warmup_def warmup_modelcar_def load_tokenizer_once_def
      split: if_splits sum.splits)

text \<open>
  C29. The runtime reports ready exactly when some warm-up has succeeded: no other call,
  and no failed warm-up, ever makes it ready.
\<close>

theorem ready_iff_warmed:
  "(runtime_readiness (snd (runtime_run load cs runtime_new)) = RReady) =
     ((Inr (), True) \<in> set (zip (fst (runtime_run load cs runtime_new)) (List.map is_warmup cs)))"
proof -
  have "rt_ready (snd (runtime_run load cs rt)) =
      (rt_ready rt \<or> (Inr (), True) \<in> set (zip (fst (runtime_run load cs rt)) (List.map is_warmup cs)))" for rt
  proof (induction cs arbitrary: rt)
    case (Cons c cs)
    obtain r rt' where s: "runtime_step load c rt = (r, rt')" by fastforce
    show ?case using Cons.IH [of rt'] runtime_step_ready [OF s] by (auto simp: s split_beta Let_def)
  qed simp
  then show ?thesis by (simp add: runtime_readiness_def runtime_new_def)
qed

lemma missing_file_ok:
  "missing_file disk path files = Inr () \<longleftrightarrow> (\<forall>i<length files. fs_is_file (disk i) (path_join path (files ! i)))"
proof (induction files arbitrary: disk)
  case (Cons f files)
  then show ?case by (auto simp: later_def less_Suc_eq_0_disj)
qed simp

text \<open>
  A directory that is warmed held every required file when it was looked for, and the
  recorded digest is that of the files as they were read after that; a directory that
  lacks one is never ready.
\<close>

theorem warmed_layout_complete:
  assumes "warmup_modelcar disk hex path files rt = (Inr (), rt')"
  shows "(\<forall>i<length files. fs_is_file (disk i) (path_join path (files ! i))) \<and> rt_ready rt' \<and>
    (\<exists>d. modelcar_digest (later (length files) disk) hex path files = Inr d \<and> rt_digest rt' = Some d)"
  using assms by (auto simp: warmup_modelcar_def runtime_warmup_def missing_file_ok split: sum.splits if_splits)

fun load_all :: "(string \<Rightarrow> string + 'tok) \<Rightarrow> string list \<Rightarrow> string \<Rightarrow> 'tok model_runtime \<Rightarrow> 'tok model_runtime" where
  "load_all load [] path rt = rt"
| "load_all load (r # rs) path rt = load_all load rs path (snd (load_tokenizer_once load r path rt))"

lemma load_all_count:
  assumes "load path = Inr tok"
  shows "rt_revision rt = Some r \<Longrightarrow>
     rt_load_count (load_all load revs path rt) + 1 = rt_load_count rt + length (remdups_adj (r # revs)) \<and>
     rt_revision (load_all load revs path rt) = Some (last (r # revs))"
proof (induction revs arbitrary: r rt)
  case (Cons r' revs)
  define rt' where "rt' = snd (load_tokenizer_once load r' path rt)"
  have "rt_revision rt' = Some r'" "rt_load_count rt' = rt_load_count rt + (if r = r' then 0 else 1)"
    using Cons.prems assms by (auto simp: rt'_def load_tokenizer_once_def)
  with Cons.IH [of rt' r'] Cons.prems show ?case by (auto simp: rt'_def)
qed simp

text \<open>
  When the loader succeeds, the tokenizer is loaded once for each change of revision in
  the sequence of requests, never once per call, and the resident revision is the last one
  asked for.
\<close>

theorem tokenizer_loaded_once_per_revision:
  assumes "load path = Inr tok" and "revs \<noteq> []"
  shows "rt_load_count (load_all load revs path runtime_new) = length (remdups_adj revs) \<and>
    rt_revision (load_all load revs path runtime_new) = Some (last revs)"
proof -
  obtain r rs where revs: "revs = r # rs" using assms(2) by (cases revs) auto
  define rt where "rt = snd (load_tokenizer_once load r path runtime_new)"
  have "rt_revision rt = Some r" "rt_load_count rt = 1"
    using assms(1) by (simp_all add: rt_def load_tokenizer_once_def runtime_new_def)
  from load_all_count [where load = load and path = path and r = r and rt = rt and revs = rs, OF assms(1) this(1)] this(2) show ?thesis
    by (simp add: revs rt_def)
qed

theorem tokenizer_loaded_once_per_revision_witness:
  "rt_load_count (load_all (\<lambda>_. Inr ()) [''a'', ''a'', ''b'', ''b'', ''a''] ''t'' runtime_new) = 3"
  using tokenizer_loaded_once_per_revision [of "\<lambda>_. Inr ()" "''t''" "()" "[''a'', ''a'', ''b'', ''b'', ''a'']"] by simp

section \<open>What the digest identifies\<close>

lemma hash_fileD:
  "hash_file fs hex dir f = Inr e \<Longrightarrow>
     fst e = f \<and> (\<exists>bytes. fs_open fs (path_join dir f) = Inr (Inr bytes) \<and> snd e = hex bytes)"
  by (auto simp: hash_file_def Let_def split: sum.splits)

lemma hash_filesD:
  assumes "hash_files disk hex dir files = List.map Inr es"
  shows "List.map fst es = files \<and>
    (\<forall>i<length files. \<exists>bytes. fs_open (disk i) (path_join dir (files ! i)) = Inr (Inr bytes) \<and> es ! i = (files ! i, hex bytes))"
proof -
  have len: "length es = length files" using arg_cong [OF assms, of length] by (simp add: hash_files_def)
  have e: "fst (es ! i) = files ! i \<and>
      (\<exists>bytes. fs_open (disk i) (path_join dir (files ! i)) = Inr (Inr bytes) \<and> snd (es ! i) = hex bytes)"
    if "i < length files" for i
  proof (rule hash_fileD)
    show "hash_file (disk i) hex dir (files ! i) = Inr (es ! i)"
      using arg_cong [OF assms, of "\<lambda>xs. xs ! i"] that len by (simp add: hash_files_def)
  qed
  moreover have "List.map fst es = files" using e len by (intro nth_equalityI) auto
  ultimately show ?thesis by (metis prod.collapse)
qed

lemmas collect_hash_files = collect_res_InrD [THEN hash_filesD]

text \<open>On a disk that does not change, one look is as good as another.\<close>

lemma hash_files_steady: "hash_files (\<lambda>_. fs) hex dir files = List.map (hash_file fs hex dir) files"
  by (rule nth_equalityI) (simp_all add: hash_files_def)

lemma later_steady [simp]: "later n (\<lambda>_. fs) = (\<lambda>_. fs)"
  by (simp add: later_def)

text \<open>
  The digest of a directory that does not change does not depend on the order in which the
  files are named.
\<close>

theorem digest_order_irrelevant:
  assumes "mset files = mset files'" and "modelcar_digest (\<lambda>_. fs) hex dir files = Inr d"
  shows "modelcar_digest (\<lambda>_. fs) hex dir files' = Inr d"
proof -
  from assms(2) obtain es where es: "List.map (hash_file fs hex dir) files = List.map Inr es"
    "d = ''blake3:'' @ hex (concat (List.map digest_line (sort es)))"
    by (auto simp: modelcar_digest_def hash_files_steady bind_res_Inr_iff collect_res_Inr_iff)
  define g where "g = (\<lambda>f. projr (hash_file fs hex dir f))"
  have all: "hash_file fs hex dir f = Inr (g f)" if "f \<in> set files" for f
  proof -
    have "hash_file fs hex dir f \<in> set (List.map (hash_file fs hex dir) files)" using that by simp
    then show ?thesis unfolding es(1) by (auto simp: g_def)
  qed
  have set: "set files' = set files" using assms(1) by (metis set_mset_mset)
  have ge: "es = List.map g files"
    using arg_cong [OF es(1), of "List.map projr"] by (simp add: g_def comp_def)
  have "List.map (hash_file fs hex dir) files' = List.map Inr (List.map g files')"
    using all set by simp
  then have "collect_res (hash_files (\<lambda>_. fs) hex dir files') = Inr (List.map g files')"
    by (simp only: hash_files_steady collect_res_map_Inr)
  moreover have "sort (List.map g files') = sort es"
    using assms(1) by (simp add: ge properties_for_sort mset_map)
  ultimately show ?thesis
    using es(2) by (simp add: modelcar_digest_def)
qed

text \<open>Lines of equal lengths can be read back from their concatenation.\<close>

lemma concat_equal_lengths:
  "List.map length xs = List.map length ys \<Longrightarrow> concat xs = concat ys \<Longrightarrow> xs = ys"
proof (induction xs arbitrary: ys)
  case (Cons x xs)
  then show ?case by (cases ys) auto
qed simp

lemma sort_entries_names: "distinct (List.map fst es) \<Longrightarrow> List.map fst (sort es) = sort (List.map fst es)"
proof -
  have "sorted (List.map fst (sort es))"
    using sorted_sort [of es] by (intro sorted_wrt_map_mono [of "(\<le>)"]) (auto simp: less_eq_prod_def)
  then show ?thesis by (intro properties_for_sort [symmetric]) simp_all
qed

lemma digest_lines_inj:
  "List.map digest_line xs = List.map digest_line ys \<Longrightarrow> List.map fst xs = List.map fst ys \<Longrightarrow> xs = ys"
proof (induction xs arbitrary: ys)
  case (Cons x xs)
  then show ?case by (cases ys) (auto simp: digest_line_def prod_eq_iff)
qed simp

text \<open>
  C15. The digest identifies the contents: when two directories have the same digest over
  the same (distinctly named) files, each file had the same bytes in both when it was
  read, or the hash collides on what the digest is made of: on two different contents of
  one of the files, or on the two different lists of their digests. \<open>hex\<close> has
  a fixed length, as a BLAKE3 digest in hexadecimal has.
\<close>

theorem digest_identifies_contents:
  assumes "\<And>x. length (hex x) = 64" and "distinct files"
    and "modelcar_digest disk hex dir files = Inr d" and "modelcar_digest disk' hex dir' files = Inr d"
  shows "(\<forall>i<length files. fs_open (disk i) (path_join dir (files ! i)) = fs_open (disk' i) (path_join dir' (files ! i))) \<or>
    (\<exists>i<length files. \<exists>p q. fs_open (disk i) (path_join dir (files ! i)) = Inr (Inr p) \<and>
       fs_open (disk' i) (path_join dir' (files ! i)) = Inr (Inr q) \<and> p \<noteq> q \<and> hex p = hex q) \<or>
    (\<exists>es es'. collect_res (hash_files disk hex dir files) = Inr es \<and> collect_res (hash_files disk' hex dir' files) = Inr es' \<and>
       concat (List.map digest_line (sort es)) \<noteq> concat (List.map digest_line (sort es')) \<and>
       hex (concat (List.map digest_line (sort es))) = hex (concat (List.map digest_line (sort es'))))"
proof -
  obtain es es' where e: "collect_res (hash_files disk hex dir files) = Inr es"
      "collect_res (hash_files disk' hex dir' files) = Inr es'"
    and d: "hex (concat (List.map digest_line (sort es))) = hex (concat (List.map digest_line (sort es')))"
    using assms(3,4) by (auto simp: modelcar_digest_def bind_res_Inr_iff)
  show ?thesis
  proof (cases "concat (List.map digest_line (sort es)) = concat (List.map digest_line (sort es'))")
    case c: True
    from collect_hash_files [OF e(1)] collect_hash_files [OF e(2)]
    have names: "List.map fst es = files" "List.map fst es' = files"
      and bytes: "\<And>i. i < length files \<Longrightarrow> \<exists>b. fs_open (disk i) (path_join dir (files ! i)) = Inr (Inr b) \<and> es ! i = (files ! i, hex b)"
        "\<And>i. i < length files \<Longrightarrow> \<exists>b. fs_open (disk' i) (path_join dir' (files ! i)) = Inr (Inr b) \<and> es' ! i = (files ! i, hex b)"
      by blast+
    have lens: "length es = length files" "length es' = length files" using names length_map by metis+
    have hexed: "\<exists>b. snd e = hex b" if "e \<in> set es \<union> set es'" for e
      using that bytes lens by (fastforce simp: in_set_conv_nth)
    have len: "length (digest_line e) = length (fst e) + 66" if "e \<in> set es \<union> set es'" for e
      using hexed [OF that] assms(1) by (auto simp: digest_line_def)
    have lines: "List.map length (List.map digest_line (sort xs)) = List.map (\<lambda>n. length n + 66) (sort files)"
      if "set xs \<subseteq> set es \<union> set es'" "List.map fst xs = files" for xs
    proof -
      have "List.map length (List.map digest_line (sort xs)) = List.map (\<lambda>n. length n + 66) (List.map fst (sort xs))"
        using that(1) len by auto
      then show ?thesis using sort_entries_names [of xs] that(2) assms(2) by simp
    qed
    have "List.map digest_line (sort es) = List.map digest_line (sort es')"
      by (rule concat_equal_lengths [OF _ c]) (simp only: lines [of es] lines [of es'] names Un_upper1 Un_upper2)
    moreover have "List.map fst (sort es) = List.map fst (sort es')"
      using sort_entries_names [of es] sort_entries_names [of es'] names assms(2) by simp
    ultimately have "sort es = sort es'" by (rule digest_lines_inj)
    then have same: "set es = set es'" by (metis set_sort)
    have "\<exists>p q. fs_open (disk i) (path_join dir (files ! i)) = Inr (Inr p) \<and>
        fs_open (disk' i) (path_join dir' (files ! i)) = Inr (Inr q) \<and> hex p = hex q" if i: "i < length files" for i
    proof -
      have "es ! i \<in> set es'" using same i lens by (metis nth_mem)
      then obtain j where j: "j < length files" "es' ! j = es ! i" using lens by (auto simp: in_set_conv_nth)
      obtain b where b: "fs_open (disk i) (path_join dir (files ! i)) = Inr (Inr b)" "es ! i = (files ! i, hex b)"
        using bytes(1) [OF i] by blast
      obtain b' where b': "fs_open (disk' j) (path_join dir' (files ! j)) = Inr (Inr b')" "es' ! j = (files ! j, hex b')"
        using bytes(2) [OF j(1)] by blast
      have "files ! j = files ! i" "hex b' = hex b" using j(2) b(2) b'(2) by simp_all
      then have "j = i" "hex b' = hex b" using assms(2) i j(1) nth_eq_iff_index_eq by blast+
      with b b' show ?thesis by auto
    qed
    then show ?thesis by metis
  next
    case False
    with d e show ?thesis by blast
  qed
qed

definition demo_fs :: "string \<Rightarrow> fs_ops" where
  "demo_fs content = \<lparr>fs_exists = (\<lambda>_. True), fs_is_file = (\<lambda>_. True), fs_metadata = (\<lambda>_. Inr ()), fs_open = (\<lambda>p. Inr (Inr content))\<rparr>"

definition demo_hex :: "string \<Rightarrow> string" where
  "demo_hex s = take 64 (s @ replicate 64 (CHR ''0''))"

lemma length_demo_hex [simp]: "length (demo_hex s) = 64"
  by (simp add: demo_hex_def)

lemma demo_digest_eq: "modelcar_digest (\<lambda>k. demo_fs ''w'') demo_hex dir [''b'', ''a''] = modelcar_digest (\<lambda>_. demo_fs ''w'') demo_hex ''m'' [''b'', ''a'']"
  "\<exists>d. modelcar_digest (\<lambda>_. demo_fs ''w'') demo_hex ''m'' [''b'', ''a''] = Inr d"
  by (simp_all add: modelcar_digest_def hash_files_steady demo_fs_def hash_file_def Let_def)

theorem digest_identifies_contents_witness:
  "\<exists>d. modelcar_digest (\<lambda>_. demo_fs ''w'') demo_hex ''m'' [''b'', ''a''] = Inr d \<and>
     modelcar_digest (\<lambda>_. demo_fs ''w'') demo_hex ''n'' [''b'', ''a''] = Inr d \<and>
     (\<forall>i<2. fs_open (demo_fs ''w'') (path_join ''m'' ([''b'', ''a''] ! i)) = fs_open (demo_fs ''w'') (path_join ''n'' ([''b'', ''a''] ! i)))"
proof -
  obtain d where d: "modelcar_digest (\<lambda>_. demo_fs ''w'') demo_hex ''m'' [''b'', ''a''] = Inr d"
    "modelcar_digest (\<lambda>_. demo_fs ''w'') demo_hex ''n'' [''b'', ''a''] = Inr d"
    using demo_digest_eq by metis
  have same: "hash_files (\<lambda>_. demo_fs ''w'') demo_hex ''m'' files = hash_files (\<lambda>_. demo_fs ''w'') demo_hex ''n'' files" for files
    by (simp add: hash_files_steady hash_file_def demo_fs_def Let_def)
  have open_w: "fs_open (demo_fs ''w'') p = Inr (Inr ''w'')" for p by (simp add: demo_fs_def)
  from digest_identifies_contents [OF length_demo_hex _ d] d show ?thesis
    unfolding same open_w by (auto simp: numeral_2_eq_2)
qed

theorem digest_order_irrelevant_witness:
  "\<exists>d. modelcar_digest (\<lambda>_. demo_fs ''w'') demo_hex ''m'' [''b'', ''a''] = Inr d \<and>
     modelcar_digest (\<lambda>_. demo_fs ''w'') demo_hex ''m'' [''a'', ''b''] = Inr d"
proof -
  obtain d where d: "modelcar_digest (\<lambda>_. demo_fs ''w'') demo_hex ''m'' [''b'', ''a''] = Inr d"
    using demo_digest_eq(2) by blast
  from digest_order_irrelevant [OF _ d, of "[''a'', ''b'']"] d show ?thesis by simp
qed

theorem warmed_layout_complete_witness:
  "\<exists>rt. warmup_modelcar (\<lambda>_. demo_fs ''w'') demo_hex ''m'' (modelcar_required_files (demo_fs ''w'') ''m'') (runtime_new :: unit model_runtime) = (Inr (), rt) \<and> rt_ready rt"
proof -
  obtain rt :: "unit model_runtime" where
    w: "warmup_modelcar (\<lambda>_. demo_fs ''w'') demo_hex ''m'' (modelcar_required_files (demo_fs ''w'') ''m'') runtime_new = (Inr (), rt)"
    by (simp add: warmup_modelcar_def runtime_warmup_def modelcar_required_files_def MODELCAR_REQUIRED_FILES_def
        modelcar_digest_def hash_files_steady demo_fs_def hash_file_def Let_def)
  from warmed_layout_complete [OF w] w show ?thesis by blast
qed

end
