(* ===== verification/Health.thy ===== *)
theory Health
  imports ModelRuntime Wire
begin

text \<open>
  The standard health protocol of \<open>src/src/grpc/health.rs\<close>: \<open>Check\<close> and \<open>Watch\<close> of a
  service whose readiness was fixed when it was built. A watch stream is what it emits
  before it stays open for ever. The client is in \<open>GrpcServer\<close>.
\<close>

datatype serving_status = HealthUnknown | Serving | NotServing | ServiceUnknown

primrec serving_number :: "serving_status \<Rightarrow> int" where
  "serving_number HealthUnknown = 0"
| "serving_number Serving = 1"
| "serving_number NotServing = 2"
| "serving_number ServiceUnknown = 3"

record health_service =
  hs_serving :: bool
  hs_services :: "string list"

definition health_new :: "readiness \<Rightarrow> string list \<Rightarrow> health_service" where
  "health_new r services = \<lparr>hs_serving = is_ready r, hs_services = services\<rparr>"

definition health_status :: "health_service \<Rightarrow> string \<Rightarrow> serving_status option" where
  "health_status hs service =
     (if service = [] \<or> list_ex (\<lambda>s. s = service) (hs_services hs)
      then Some (if hs_serving hs then Serving else NotServing)
      else None)"

definition health_check :: "health_service \<Rightarrow> string \<Rightarrow> grpc_status + int" where
  "health_check hs service =
     (case health_status hs service of
        Some st \<Rightarrow> Inr (serving_number st)
      | None \<Rightarrow> Inl \<lparr>st_code = NotFound, st_message = ''unknown service: '' @ service\<rparr>)"

definition health_watch :: "health_service \<Rightarrow> string \<Rightarrow> int list" where
  "health_watch hs service =
     (let status = (case health_status hs service of Some st \<Rightarrow> st | None \<Rightarrow> ServiceUnknown)
      in [serving_number status])"

text \<open>\<open>ServingStatus::try_from\<close> of the client.\<close>

definition read_serving :: "int \<Rightarrow> serving_status option" where
  "read_serving n =
     (if n = 0 then Some HealthUnknown else if n = 1 then Some Serving else if n = 2 then Some NotServing
      else if n = 3 then Some ServiceUnknown else None)"

lemma read_serving_number [simp]: "read_serving (serving_number s) = Some s"
  by (cases s) (simp_all add: read_serving_def)

definition SERVICE_NAME :: string where "SERVICE_NAME = ''classify.Classify''"

text \<open>
  The server and its classify service report \<open>Serving\<close> exactly when the
  runtime they front has been warmed up, whatever the calls on it were; any other name is
  \<open>NotFound\<close> for \<open>Check\<close> and \<open>ServiceUnknown\<close> for
  \<open>Watch\<close>, never a status of its own.
\<close>

theorem health_reports_readiness:
  "map_err st_code (health_check (health_new (runtime_readiness (snd (runtime_run load cs rt))) [SERVICE_NAME]) service) =
     (if service = [] \<or> service = SERVICE_NAME
      then Inr (serving_number (if rt_ready (snd (runtime_run load cs rt)) then Serving else NotServing))
      else Inl NotFound) \<and>
   List.map read_serving (health_watch (health_new (runtime_readiness (snd (runtime_run load cs rt))) [SERVICE_NAME]) service) =
     [Some (if service = [] \<or> service = SERVICE_NAME
            then (if rt_ready (snd (runtime_run load cs rt)) then Serving else NotServing) else ServiceUnknown)]"
  by (auto simp: health_check_def health_watch_def health_status_def health_new_def runtime_readiness_def is_ready_def)

end
