(* ===== verification/Percentile.thy ===== *)
theory Percentile
  imports Floats
begin

text \<open>
  The nearest-rank percentile that the benchmark library (\<open>src/src/bench.rs\<close>) and the load
  driver (\<open>src/bench/driver/src/main.rs\<close>) each compute in double precision over a sorted
  list of integer samples, and the rounding bound that shows how far the computed rank can
  be from the exact one.
\<close>

section \<open>The computation\<close>

definition nearest_rank :: "flt \<Rightarrow> nat \<Rightarrow> nat" where
  "nearest_rank p n = f64_as_u64 (fceil (fmul round64 (fdiv round64 p (Fin 100)) (nat_as_f64 n)))"

definition percentile_at :: "nat list \<Rightarrow> flt \<Rightarrow> nat" where
  "percentile_at xs p =
     (if xs = [] then 0 else xs ! min (nearest_rank p (length xs) - 1) (length xs - 1))"

section \<open>Rounding\<close>

text \<open>The relative error of a value in the normal range is at most half an ulp.\<close>

lemma round64_error:
  assumes "2 powi (-1000) \<le> x" and "x \<le> 2 ^ 100"
  obtains y where "round64 x = Fin y" and "\<bar>y - x\<bar> \<le> x / 2 ^ 53"
proof -
  define k where "k = \<lfloor>log 2 x\<rfloor>"
  have pos: "0 < x" by (rule less_le_trans [OF _ assms(1)]) simp
  have "(- 1000 :: real) = log 2 (2 powi (- 1000))"
    by (subst powr_real_of_int' [symmetric]) simp_all
  also have "\<dots> \<le> log 2 x" using assms(1) pos by (intro log_mono) simp_all
  finally have "- 1000 \<le> k" unfolding k_def by (simp add: le_floor_iff)
  then have e: "ulp_exp 53 (- 1074) x = k - 52" using pos by (simp add: ulp_exp_def flip: k_def)
  define y where "y = round_at (k - 52) x"
  have "\<bar>y - x\<bar> \<le> 2 powi (k - 52) / 2" unfolding y_def by (rule round_at_error)
  also have "\<dots> = 2 powi k / 2 ^ 53" by (simp add: power_int_diff)
  also have "\<dots> \<le> x / 2 ^ 53" using log2_bounds(1) [OF pos] by (simp add: k_def divide_right_mono)
  finally have err: "\<bar>y - x\<bar> \<le> x / 2 ^ 53" .
  have "x / 2 ^ 53 \<le> x" using pos by simp
  with err have "0 \<le> y" "y \<le> x + x" unfolding abs_le_iff by linarith+
  then have "0 \<le> y" "y \<le> 2 ^ 101" using assms(2) by simp_all
  moreover have "(2 :: real) ^ 101 < 2 ^ 1024" by simp
  ultimately have "round64 x = Fin y"
    unfolding round64_def ieee_round_def clip_range_def e y_def [symmetric] by (simp add: not_le)
  with err show ?thesis using that by blast
qed

text \<open>
  The rank of a whole percentage: exact, except that the error can carry it one past a
  rank whose fraction is exactly \<open>p / 100\<close>.
\<close>

lemma nearest_rank_bounds:
  assumes "1 \<le> p" and "p \<le> 100" and "1 \<le> n" and "n < 2 ^ 44"
  defines "r \<equiv> nearest_rank (Fin (real p)) n"
  shows "p * n \<le> 100 * r" and "100 * (r - 1) \<le> p * n" and "1 \<le> r"
proof -
  have small: "(2 :: real) powi (- 1000) \<le> 1 / 100" by (simp add: power_int_minus divide_simps)
  have p1: "2 powi (- 1000) \<le> real p / 100" "real p / 100 \<le> 2 ^ 100"
    using assms(1,2) small by (simp_all add: field_simps)
  obtain q where q: "round64 (real p / 100) = Fin q" "\<bar>q - real p / 100\<bar> \<le> real p / 100 / 2 ^ 53"
    by (rule round64_error [OF p1])
  have n: "nat_as_f64 n = Fin (real n)" using assms(4) by (simp add: nat_as_f64_def f64.rnd_nat)
  have rn: "1 \<le> real n" "real n \<le> 2 ^ 44" using assms(3,4) by simp_all
  define x where "x = real p / 100 * real n"
  have x: "0 < x" "x < 2 ^ 44" "100 * x = real (p * n)"
  proof -
    have "x \<le> 1 * real n" unfolding x_def using assms(2) by (intro mult_right_mono) simp_all
    moreover have "real n < 2 ^ 44" using assms(4) by simp
    ultimately show "x < 2 ^ 44" by linarith
  qed (use assms(1,3) in \<open>simp_all add: x_def\<close>)
  have qn: "\<bar>q * real n - x\<bar> \<le> x / 2 ^ 53"
  proof -
    have "\<bar>q - real p / 100\<bar> * real n \<le> real p / 100 / 2 ^ 53 * real n"
      by (rule mult_right_mono [OF q(2)]) simp
    moreover have "q * real n - x = (q - real p / 100) * real n" by (simp add: x_def left_diff_distrib)
    then have "\<bar>q * real n - x\<bar> = \<bar>q - real p / 100\<bar> * real n" by (simp add: abs_mult)
    ultimately show ?thesis by (simp add: x_def)
  qed
  have "1 \<le> real p * real n" using mult_mono [of 1 "real p" 1 "real n"] assms(1,3) by simp
  then have x1: "1 / 100 \<le> x" using x(3) by simp
  have "x / 2 ^ 53 \<le> x / 2" using x(1) by (simp add: field_simps)
  then have "1 / 200 \<le> q * real n" "q * real n \<le> 2 * x" using qn x1 by linarith+
  moreover have "(2 :: real) powi (- 1000) \<le> 1 / 200" by (simp add: power_int_minus divide_simps)
  ultimately have "2 powi (- 1000) \<le> q * real n" "q * real n \<le> 2 ^ 100" using x(2) by simp_all
  then obtain t where t: "round64 (q * real n) = Fin t" "\<bar>t - q * real n\<bar> \<le> q * real n / 2 ^ 53"
    by (rule round64_error)
  have "q * real n / 2 ^ 53 \<le> 2 * x / 2 ^ 53"
    using \<open>q * real n \<le> 2 * x\<close> by (rule divide_right_mono) simp
  with t(2) qn have "\<bar>t - x\<bar> \<le> 2 * x / 2 ^ 53 + x / 2 ^ 53" by linarith
  also have "\<dots> < 1 / 100" using x(2) by simp
  finally have close: "\<bar>t - x\<bar> < 1 / 100" .
  have t0: "0 < t" using close x1 by linarith
  have "x + 1 / 100 \<le> 2 ^ 45" using x(2) by simp
  with close have "t \<le> 2 ^ 45" unfolding abs_less_iff by linarith
  then have "\<lceil>t\<rceil> \<le> 2 ^ 45" by (simp add: ceiling_le_iff)
  then have r: "int r = \<lceil>t\<rceil>" "0 < \<lceil>t\<rceil>"
    using t0 by (simp_all add: r_def nearest_rank_def q(1) t(1) n)
  define m where "m = p * n"
  have m: "100 * x = real m" using x(3) by (simp add: m_def)
  have "real m < 100 * of_int \<lceil>t\<rceil> + 1" using close m le_of_int_ceiling [of t] by linarith
  then have "m \<le> 100 * r" unfolding r(1) [symmetric] by linarith
  then show "p * n \<le> 100 * r" by (simp add: m_def)
  have "t < x + 1 / 100" using close unfolding abs_less_iff by linarith
  then have "of_int \<lceil>t\<rceil> - 1 < x + 1 / 100" using ceiling_correct [of t] by (meson less_trans)
  then have "100 * (of_int \<lceil>t\<rceil> - 1) < real m + 1" unfolding m [symmetric] by simp
  then have "real (100 * r) < real (m + 101)" unfolding r(1) [symmetric] by simp
  then have "100 * r < m + 101" by (simp only: of_nat_less_iff)
  then have "100 * (r - 1) \<le> m" by arith
  then show "100 * (r - 1) \<le> p * n" by (simp add: m_def)
  show "1 \<le> r" using r by linarith
qed

lemma nearest_rank_mono:
  assumes "0 \<le> p" and "p \<le> q" and "q \<le> 100" and "n < 2 ^ 53"
  shows "nearest_rank (Fin p) n \<le> nearest_rank (Fin q) n"
proof -
  have n: "nat_as_f64 n = Fin (real n)" using assms(4) by (simp add: nat_as_f64_def f64.rnd_nat)
  obtain y where y: "round64 (p / 100) = Fin y" "0 \<le> y" "y \<le> 1"
    by (rule f64.rnd_unit [of "p / 100"]) (use assms in simp_all)
  obtain z where z: "round64 (q / 100) = Fin z" "0 \<le> z" "z \<le> 1"
    by (rule f64.rnd_unit [of "q / 100"]) (use assms in simp_all)
  have "y \<le> z" using f64.rnd_mono [of "p / 100" "q / 100"] assms(2) y(1) z(1) by simp
  have upto: "\<exists>u. round64 (w * real n) = Fin u" if "0 \<le> w" "w \<le> 1" for w
  proof -
    have "w * real n \<le> real n" using mult_right_mono [OF that(2), of "real n"] by simp
    then show ?thesis using f64.rnd_upto [of "w * real n" n] that(1) assms(4) by (metis less_imp_le mult_nonneg_nonneg of_nat_0_le_iff)
  qed
  obtain u v where uv: "round64 (y * real n) = Fin u" "round64 (z * real n) = Fin v"
    using upto y(2,3) z(2,3) by blast
  have "u \<le> v"
    using f64.rnd_mono [of "y * real n" "z * real n"] \<open>y \<le> z\<close> uv by (simp add: mult_right_mono)
  then have "nat \<lceil>u\<rceil> \<le> nat \<lceil>v\<rceil>" by (intro nat_mono ceiling_mono)
  then have "f64_as_u64 (fceil (Fin u)) \<le> f64_as_u64 (fceil (Fin v))" by (simp add: min.coboundedI1 min_le_iff_disj)
  then show ?thesis by (simp only: nearest_rank_def y(1) z(1) uv n fdiv.simps fmul.simps) (simp add: y(1) z(1) uv)
qed

section \<open>Percentiles of sorted samples\<close>

lemma min_index: "xs \<noteq> [] \<Longrightarrow> min k (length xs - 1) < length xs"
  by (cases xs) (simp_all add: less_Suc_eq_le)

lemma percentile_at_mem: "xs \<noteq> [] \<Longrightarrow> percentile_at xs p \<in> set xs"
  unfolding percentile_at_def by (simp only: if_False nth_mem [OF min_index] not_False_eq_True)

lemma percentile_at_mono:
  assumes "sorted xs" and "0 \<le> p" and "p \<le> q" and "q \<le> 100" and "length xs < 2 ^ 53"
  shows "percentile_at xs (Fin p) \<le> percentile_at xs (Fin q)"
proof (cases "xs = []")
  case False
  have "min (nearest_rank (Fin p) (length xs) - 1) (length xs - 1) \<le> min (nearest_rank (Fin q) (length xs) - 1) (length xs - 1)"
    using nearest_rank_mono [OF assms(2-5)] by (intro min.mono) simp_all
  from sorted_nth_mono [OF assms(1) this min_index [OF False]] False show ?thesis
    by (simp add: percentile_at_def)
qed (simp add: percentile_at_def)

lemma percentile_at_le_last:
  assumes "sorted xs" and "xs \<noteq> []"
  shows "percentile_at xs p \<le> last xs"
  using assms by (auto simp: percentile_at_def last_conv_nth intro!: sorted_nth_mono)

lemma sorted_count_le:
  assumes "sorted xs" and "k < length xs"
  shows "Suc k \<le> length (filter (\<lambda>x. x \<le> xs ! k) xs)"
proof -
  have "filter (\<lambda>x. x \<le> xs ! k) (take (Suc k) xs) = take (Suc k) xs"
    using assms by (intro filter_True) (auto simp: in_set_conv_nth intro!: sorted_nth_mono)
  then have "filter (\<lambda>x. x \<le> xs ! k) xs = take (Suc k) xs @ filter (\<lambda>x. x \<le> xs ! k) (drop (Suc k) xs)"
    by (metis append_take_drop_id filter_append)
  then show ?thesis using assms(2) by simp
qed

lemma sorted_count_less:
  assumes "sorted xs" and "k < length xs"
  shows "length (filter (\<lambda>x. x < xs ! k) xs) \<le> k"
proof -
  have "filter (\<lambda>x. x < xs ! k) (drop k xs) = []"
    using assms by (auto simp: filter_empty_conv in_set_conv_nth not_less intro!: sorted_nth_mono)
  then have "filter (\<lambda>x. x < xs ! k) xs = filter (\<lambda>x. x < xs ! k) (take k xs)"
    by (metis append_Nil2 append_take_drop_id filter_append)
  then show ?thesis using length_filter_le [of "\<lambda>x. x < xs ! k" "take k xs"] by simp
qed

text \<open>At least \<open>p\<close> percent of the samples are at most the percentile, and at most \<open>p\<close> percent below it.\<close>

lemma percentile_at_covers:
  assumes "sorted xs" and "xs \<noteq> []" and "length xs < 2 ^ 44" and "1 \<le> p" and "p \<le> 100"
  shows "p * length xs \<le> 100 * length (filter (\<lambda>x. x \<le> percentile_at xs (Fin (real p))) xs)"
    and "100 * length (filter (\<lambda>x. x < percentile_at xs (Fin (real p))) xs) \<le> p * length xs"
proof -
  define n where "n = length xs"
  define r where "r = nearest_rank (Fin (real p)) n"
  define k where "k = min (r - 1) (n - 1)"
  have "1 \<le> n" using assms(2) by (cases xs) (simp_all add: n_def)
  from nearest_rank_bounds [OF assms(4,5) this] assms(3)
  have r: "p * n \<le> 100 * r" "100 * (r - 1) \<le> p * n" "1 \<le> r" by (simp_all add: n_def r_def)
  have v: "percentile_at xs (Fin (real p)) = xs ! k" using assms(2) by (simp add: percentile_at_def k_def r_def n_def)
  have k: "k < length xs" using \<open>1 \<le> n\<close> by (simp add: k_def n_def)
  have "p * n \<le> 100 * Suc k"
  proof (cases "r - 1 \<le> n - 1")
    case True
    then show ?thesis using r by (simp add: k_def)
  next
    case False
    then have "Suc k = n" using \<open>1 \<le> n\<close> by (simp add: k_def)
    then show ?thesis using assms(5) by simp
  qed
  then show "p * length xs \<le> 100 * length (filter (\<lambda>x. x \<le> percentile_at xs (Fin (real p))) xs)"
    using mult_le_mono2 [OF sorted_count_le [OF assms(1) k], of 100] unfolding v n_def by linarith
  have "100 * k \<le> p * n" using r(2) by (simp add: k_def min_def)
  then show "100 * length (filter (\<lambda>x. x < percentile_at xs (Fin (real p))) xs) \<le> p * length xs"
    using mult_le_mono2 [OF sorted_count_less [OF assms(1) k], of 100] unfolding v n_def by linarith
qed

end
