(* ===== verification/Display.thy ===== *)
theory Display
  imports Parsing
begin

text \<open>
  \<open>Display\<close> of an unsigned integer, which the benchmark tools use to build their keys:
  the decimal digits without leading zeros. What is printed is read back by
  \<open>parse_usize\<close>, so different numbers print differently.
\<close>

fun show_nat :: "nat \<Rightarrow> string" where
  "show_nat n =
     (if n < 10 then [char_of (48 + n)] else show_nat (n div 10) @ [char_of (48 + n mod 10)])"

declare show_nat.simps [simp del]

lemma digit_val_char: "d < 10 \<Longrightarrow> digit_val (char_of (48 + d)) = Some d"
  by (simp add: digit_val_def)

lemma show_nat_digits: "c \<in> set (show_nat n) \<Longrightarrow> digit_val c \<noteq> None"
proof (induction n rule: show_nat.induct)
  case (1 n)
  then show ?case
    by (subst (asm) (2) show_nat.simps) (auto simp: digit_val_char split: if_splits)
qed

lemma show_nat_ne [simp]: "show_nat n \<noteq> []"
  by (subst show_nat.simps) simp

lemma digits_val_append:
  "digits_val acc (xs @ ys) = Option.bind (digits_val acc xs) (\<lambda>a. digits_val a ys)"
  by (induction xs arbitrary: acc) (auto split: option.split)

lemma digits_val_show: "digits_val 0 (show_nat n) = Some n"
proof (induction n rule: show_nat.induct)
  case (1 n)
  show ?case
  proof (cases "n < 10")
    case True
    then show ?thesis by (subst show_nat.simps) (simp add: digit_val_char)
  next
    case False
    then have "digits_val 0 (show_nat n) = digits_val 0 (show_nat (n div 10) @ [char_of (48 + n mod 10)])"
      by (subst show_nat.simps) simp
    with False 1 show ?thesis by (simp add: digits_val_append digit_val_char)
  qed
qed

lemma show_nat_inject [simp]: "show_nat m = show_nat n \<longleftrightarrow> m = n"
  using digits_val_show by (metis option.inject)

text \<open>A separator that is not a digit can be recognised between two printed numbers.\<close>

lemma show_nat_no: "digit_val c = None \<Longrightarrow> c \<notin> set (show_nat n)"
  using show_nat_digits by blast

lemma split_at_separator:
  assumes "xs @ c # ys = xs' @ c # ys'" and "c \<notin> set xs" and "c \<notin> set xs'"
  shows "xs = xs' \<and> ys = ys'"
  using assms
proof (induction xs arbitrary: xs')
  case Nil
  then show ?case by (cases xs') auto
next
  case (Cons x xs)
  then show ?case by (cases xs') auto
qed

lemma split_at_last_separator:
  assumes "xs @ c # ys = xs' @ c # ys'" and "c \<notin> set ys" and "c \<notin> set ys'"
  shows "xs = xs' \<and> ys = ys'"
proof -
  from arg_cong [OF assms(1), of rev] have "rev ys @ c # rev xs = rev ys' @ c # rev xs'" by simp
  from split_at_separator [OF this] assms(2,3) show ?thesis by simp
qed

lemma no_dash: "CHR ''-'' \<notin> set (show_nat n)"
  by (rule show_nat_no) (simp add: digit_val_def)

lemma show_pair_inject:
  "show_nat r @ CHR ''-'' # show_nat x = show_nat r' @ CHR ''-'' # show_nat y \<longleftrightarrow> r = r' \<and> x = y"
  (is "?L \<longleftrightarrow> ?R")
proof
  assume ?L
  from split_at_separator [OF this no_dash no_dash] show ?R by simp
qed simp

text \<open>
  Printing an integer and reading it back gives the integer.
\<close>

theorem show_parse_round_trip:
  assumes "n < 2 ^ 64"
  shows "parse_usize (show_nat n) = Some n"
proof -
  have "CHR ''+'' \<notin> set (show_nat n)" by (rule show_nat_no) (simp add: digit_val_def)
  moreover have "byte c = 43 \<longleftrightarrow> c = CHR ''+''" for c
    using of_char_eq_iff [of c "CHR ''+''"] by simp
  ultimately show ?thesis
    using assms digits_val_show [of n] by (cases "show_nat n") (auto simp: parse_usize_def)
qed

theorem show_parse_round_trip_witness: "parse_usize (show_nat 1024) = Some 1024"
  by (rule show_parse_round_trip) simp

end
