(* ===== verification/Bench.thy ===== *)
theory Bench
  imports Percentile Display Metrics Wire
begin

text \<open>
  The benchmark library \<open>src/src/bench.rs\<close> and the gateway it drives,
  \<open>src/src/dummy_gateway.rs\<close>: the latency distribution, the key namespaces of warm-up and
  measurement, the check a run makes of its own method, and the division of a run among
  worker threads. The transport is the parameter \<open>call\<close>: a request sent in the state \<open>'s\<close>
  of the system gives a status or a response, the round-trip time and the state after it.
\<close>

section \<open>The gateway\<close>

definition NEVER_EGRESS_SIGNAL :: string where "NEVER_EGRESS_SIGNAL = ''proto-a''"

definition ROUTE_LOCAL_MODEL :: string where "ROUTE_LOCAL_MODEL = ''local-model''"

definition ROUTE_GENERAL_MODEL :: string where "ROUTE_GENERAL_MODEL = ''general-model''"

record dummy_request =
  dr_request_id :: string
  dr_session_id :: string
  dr_context :: string
  dr_signals :: "string list"
  dr_deadline :: "nat option"

record dummy_outcome =
  do_request_id :: string
  do_session_id :: string
  do_signal :: string
  do_route :: string
  do_rtt :: nat

type_synonym 's transport = "classify_request \<Rightarrow> 's \<Rightarrow> (grpc_status + classify_response) \<times> nat \<times> 's"

definition classify_and_route :: "'s transport \<Rightarrow> dummy_request \<Rightarrow> 's \<Rightarrow> (grpc_status + dummy_outcome) \<times> 's" where
  "classify_and_route call req st =
     (case call \<lparr>rq_request_id = dr_request_id req, rq_session_id = dr_session_id req,
                 rq_context = dr_context req, rq_signals = dr_signals req,
                 rq_completeness = completeness_number Unspecified\<rparr> st of
        (Inl e, rtt, st') \<Rightarrow> (Inl e, st')
      | (Inr resp, rtt, st') \<Rightarrow>
          (let signal = (case rp_ranked resp of [] \<Rightarrow> [] | s # ss \<Rightarrow> ws_label s);
               route = (if signal = NEVER_EGRESS_SIGNAL then ROUTE_LOCAL_MODEL else ROUTE_GENERAL_MODEL)
           in (Inr \<lparr>do_request_id = dr_request_id req, do_session_id = dr_session_id req,
                    do_signal = signal, do_route = route, do_rtt = rtt\<rparr>, st')))"

section \<open>Distributions\<close>

text \<open>A distribution is its samples in ascending order, in nanoseconds.\<close>

definition from_samples :: "nat list \<Rightarrow> nat list" where
  "from_samples samples = sort samples"

definition rtt_percentile :: "nat list \<Rightarrow> nat \<Rightarrow> nat" where
  "rtt_percentile d p = percentile_at d (nat_as_f64 p)"

definition rtt_p50 :: "nat list \<Rightarrow> nat" where "rtt_p50 d = rtt_percentile d 50"

definition rtt_p90 :: "nat list \<Rightarrow> nat" where "rtt_p90 d = rtt_percentile d 90"

definition rtt_p95 :: "nat list \<Rightarrow> nat" where "rtt_p95 d = rtt_percentile d 95"

definition rtt_p99 :: "nat list \<Rightarrow> nat" where "rtt_p99 d = rtt_percentile d 99"

definition rtt_max :: "nat list \<Rightarrow> nat" where
  "rtt_max d = (if d = [] then 0 else last d)"

section \<open>Keys\<close>

datatype cache_mode = HitMode | MissMode

definition measure_context :: "nat \<Rightarrow> nat \<Rightarrow> string" where
  "measure_context run_id index = ''measure-'' @ show_nat run_id @ ''-'' @ show_nat index"

definition warmup_context :: "cache_mode \<Rightarrow> nat \<Rightarrow> nat \<Rightarrow> string" where
  "warmup_context mode run_id index =
     (case mode of HitMode \<Rightarrow> measure_context run_id index | MissMode \<Rightarrow> ''warm-'' @ show_nat index)"

definition seeded_measure_context :: "string \<Rightarrow> nat \<Rightarrow> nat \<Rightarrow> string" where
  "seeded_measure_context seed run_id index =
     (if seed = [] then measure_context run_id index
      else seed @ ''-measure-'' @ show_nat run_id @ ''-'' @ show_nat index)"

definition seeded_warm_context :: "cache_mode \<Rightarrow> string \<Rightarrow> nat \<Rightarrow> nat \<Rightarrow> string" where
  "seeded_warm_context mode seed run_id index =
     (case mode of
        HitMode \<Rightarrow> seeded_measure_context seed run_id index
      | MissMode \<Rightarrow> if seed = [] then warmup_context mode run_id index
                     else seed @ ''-warm-'' @ show_nat index)"

section \<open>Errors and the methodology check\<close>

datatype bench_error = BenchRequest grpc_status | BenchIo string | BenchThread | BenchMethodology string

definition show_bench_error :: "(grpc_status \<Rightarrow> string) \<Rightarrow> bench_error \<Rightarrow> string" where
  "show_bench_error show_status e =
     (case e of
        BenchRequest s \<Rightarrow> ''benchmark request failed: '' @ show_status s
      | BenchIo io \<Rightarrow> ''benchmark worker connect failed: '' @ io
      | BenchThread \<Rightarrow> ''benchmark worker thread panicked''
      | BenchMethodology m \<Rightarrow> ''benchmark methodology violation: '' @ m)"

definition verify_window :: "cache_mode \<Rightarrow> metrics_snapshot \<Rightarrow> metrics_snapshot \<Rightarrow> nat \<Rightarrow> bench_error + unit" where
  "verify_window mode before after measured =
     (let delta_hits = ms_cache_hits after - ms_cache_hits before;
          delta_misses = ms_cache_misses after - ms_cache_misses before;
          delta_coalesced = ms_cache_coalesced after - ms_cache_coalesced before
      in case mode of
           MissMode \<Rightarrow>
             if delta_misses \<noteq> measured then Inl (BenchMethodology
               (''miss-mode methodology violation: expected '' @ show_nat measured @
                '' cache misses in the measured window, observed delta_misses='' @ show_nat delta_misses @
                ''; measured keys must never be pre-warmed''))
             else if delta_hits \<noteq> 0 then Inl (BenchMethodology
               (''miss-mode methodology violation: expected 0 cache hits in the measured window, observed delta_hits='' @
                show_nat delta_hits))
             else if delta_coalesced \<noteq> 0 then Inl (BenchMethodology
               (''miss-mode methodology violation: expected 0 coalesced waits in the measured window, observed delta_coalesced='' @
                show_nat delta_coalesced @ ''; serial measurement must not coalesce''))
             else Inr ()
         | HitMode \<Rightarrow>
             if delta_hits \<noteq> measured then Inl (BenchMethodology
               (''hit-mode methodology violation: expected '' @ show_nat measured @
                '' cache hits in the measured window, observed delta_hits='' @ show_nat delta_hits @
                ''; measured keys must be pre-warmed''))
             else if delta_misses \<noteq> 0 then Inl (BenchMethodology
               (''hit-mode methodology violation: expected 0 cache misses in the measured window, observed delta_misses='' @
                show_nat delta_misses))
             else if delta_coalesced \<noteq> 0 then Inl (BenchMethodology
               (''hit-mode methodology violation: expected 0 coalesced waits in the measured window, observed delta_coalesced='' @
                show_nat delta_coalesced @ ''; serial measurement must not coalesce''))
             else Inr ())"

section \<open>Runs\<close>

text \<open>\<open>br_metrics\<close>: whether the run shares the server's registry, which \<open>snap\<close> reads.\<close>

record bench_run =
  br_cache_mode :: cache_mode
  br_run_id :: nat
  br_metrics :: bool
  br_seed :: string

text \<open>\<open>NEXT_RUN_ID\<close> is the last argument; it advances only when the gateway connects.\<close>

definition bench_connect :: "string + unit \<Rightarrow> cache_mode \<Rightarrow> bool \<Rightarrow> nat \<Rightarrow> (string + bench_run) \<times> nat" where
  "bench_connect conn mode metrics next =
     (case conn of
        Inl e \<Rightarrow> (Inl e, next)
      | Inr _ \<Rightarrow> (Inr \<lparr>br_cache_mode = mode, br_run_id = next, br_metrics = metrics, br_seed = []\<rparr>,
                  (next + 1) mod 2 ^ 64))"

definition with_seed :: "string \<Rightarrow> bench_run \<Rightarrow> bench_run" where
  "with_seed seed b = b\<lparr>br_seed := seed\<rparr>"

definition measured_context :: "bench_run \<Rightarrow> nat \<Rightarrow> string" where
  "measured_context b index = seeded_measure_context (br_seed b) (br_run_id b) index"

definition warm_context :: "bench_run \<Rightarrow> nat \<Rightarrow> string" where
  "warm_context b index = seeded_warm_context (br_cache_mode b) (br_seed b) (br_run_id b) index"

definition bench_request :: "string \<Rightarrow> nat \<Rightarrow> string \<Rightarrow> dummy_request" where
  "bench_request prefix index context =
     \<lparr>dr_request_id = prefix @ show_nat index, dr_session_id = ''bench-session-'' @ show_nat (index mod 4),
      dr_context = context, dr_signals = [], dr_deadline = None\<rparr>"

definition send_one :: "'s transport \<Rightarrow> string \<Rightarrow> nat \<Rightarrow> 's \<Rightarrow> (grpc_status + nat) \<times> 's" where
  "send_one call context index st =
     (case classify_and_route call (bench_request ''bench-'' index context) st of
        (Inl e, st') \<Rightarrow> (Inl e, st')
      | (Inr outcome, st') \<Rightarrow> (Inr (do_rtt outcome), st'))"

text \<open>Requests one after another: the first failure ends the run.\<close>

fun send_all :: "'s transport \<Rightarrow> (nat \<Rightarrow> string) \<Rightarrow> nat list \<Rightarrow> 's \<Rightarrow> (bench_error + nat list) \<times> 's" where
  "send_all call context [] st = (Inr [], st)"
| "send_all call context (i # is) st =
     (case send_one call (context i) i st of
        (Inl e, st') \<Rightarrow> (Inl (BenchRequest e), st')
      | (Inr rtt, st') \<Rightarrow>
          (case send_all call context is st' of
             (Inl e, st'') \<Rightarrow> (Inl e, st'')
           | (Inr rtts, st'') \<Rightarrow> (Inr (rtt # rtts), st'')))"

definition bench_warmup :: "'s transport \<Rightarrow> bench_run \<Rightarrow> nat \<Rightarrow> 's \<Rightarrow> (bench_error + unit) \<times> 's" where
  "bench_warmup call b n st =
     (case send_all call (warm_context b) [0..<n] st of
        (Inl e, st') \<Rightarrow> (Inl e, st') | (Inr _, st') \<Rightarrow> (Inr (), st'))"

definition assert_methodology ::
  "('s \<Rightarrow> metrics_snapshot) \<Rightarrow> bench_run \<Rightarrow> metrics_snapshot option \<Rightarrow> nat \<Rightarrow> 's \<Rightarrow> bench_error + unit" where
  "assert_methodology snap b before measured st =
     (if \<not> br_metrics b then Inr ()
      else (case before of
              None \<Rightarrow> Inl (BenchMethodology ''no baseline metrics snapshot captured'')
            | Some s \<Rightarrow> verify_window (br_cache_mode b) s (snap st) measured))"

definition bench_measure ::
  "'s transport \<Rightarrow> ('s \<Rightarrow> metrics_snapshot) \<Rightarrow> bench_run \<Rightarrow> nat \<Rightarrow> 's \<Rightarrow> (bench_error + nat list) \<times> 's" where
  "bench_measure call snap b n st =
     (let before = (if br_metrics b then Some (snap st) else None)
      in case send_all call (measured_context b) [0..<n] st of
           (Inl e, st') \<Rightarrow> (Inl e, st')
         | (Inr samples, st') \<Rightarrow>
             (bind_res (assert_methodology snap b before n st') (\<lambda>_. Inr (from_samples samples)), st'))"

section \<open>Concurrent runs\<close>

text \<open>The index ranges of the workers, in the order their threads are started.\<close>

fun ranges_from :: "nat \<Rightarrow> nat list \<Rightarrow> (nat \<times> nat) list" where
  "ranges_from start [] = []"
| "ranges_from start (c # cs) = (start, start + c) # ranges_from (start + c) cs"

definition worker_ranges :: "nat \<Rightarrow> nat \<Rightarrow> (nat \<times> nat) list" where
  "worker_ranges n concurrency =
     (let workers = max concurrency 1; base = n div workers; extra = n mod workers
      in ranges_from 0 (List.map (\<lambda>w. base + (if w < extra then 1 else 0)) [0..<workers]))"

definition worker_requests :: "bench_run \<Rightarrow> nat \<times> nat \<Rightarrow> dummy_request list" where
  "worker_requests b r =
     List.map (\<lambda>i. bench_request ''bench-concurrent-'' i (seeded_measure_context (br_seed b) (br_run_id b) i)) [fst r..<snd r]"

text \<open>The threads are joined in that order; \<open>None\<close> is a thread that panicked.\<close>

fun join_workers :: "(bench_error + nat list) option list \<Rightarrow> bench_error + nat list" where
  "join_workers [] = Inr []"
| "join_workers (None # ws) = Inl BenchThread"
| "join_workers (Some r # ws) =
     bind_res r (\<lambda>samples. bind_res (join_workers ws) (\<lambda>rest. Inr (samples @ rest)))"

text \<open>
  The worker threads: each has its own gateway and sends its range in order; their requests
  reach the service in any interleaving. A schedule lists the threads in the order in which
  they make their steps.
\<close>

datatype bench_thread = Sending "dummy_request list" "nat list" | Finished "bench_error + nat list"

fun thread_step :: "'s transport \<Rightarrow> bench_thread \<Rightarrow> 's \<Rightarrow> (bench_thread \<times> 's) option" where
  "thread_step call (Sending [] samples) st = Some (Finished (Inr samples), st)"
| "thread_step call (Sending (r # rs) samples) st =
     Some (case classify_and_route call r st of
             (Inl e, st') \<Rightarrow> (Finished (Inl (BenchRequest e)), st')
           | (Inr outcome, st') \<Rightarrow> (Sending rs (samples @ [do_rtt outcome]), st'))"
| "thread_step call (Finished res) st = None"

text \<open>\<open>connects w\<close> is the error of the gateway of thread \<open>w\<close>, if it cannot connect.\<close>

definition start_threads :: "bench_run \<Rightarrow> nat \<Rightarrow> nat \<Rightarrow> (nat \<Rightarrow> string option) \<Rightarrow> bench_thread list" where
  "start_threads b n concurrency connects =
     List.map (\<lambda>(w, r). case connects w of
                 Some e \<Rightarrow> Finished (Inl (BenchIo e))
               | None \<Rightarrow> Sending (worker_requests b r) [])
       (enumerate 0 (worker_ranges n concurrency))"

fun run_threads :: "'s transport \<Rightarrow> nat list \<Rightarrow> bench_thread list \<Rightarrow> 's \<Rightarrow> (bench_thread list \<times> 's) option" where
  "run_threads call [] ts st = Some (ts, st)"
| "run_threads call (w # sched) ts st =
     (if w < length ts
      then (case thread_step call (ts ! w) st of
              None \<Rightarrow> None
            | Some (t, st') \<Rightarrow> run_threads call sched (ts[w := t]) st')
      else None)"

fun thread_result :: "bench_thread \<Rightarrow> (bench_error + nat list) option" where
  "thread_result (Finished res) = Some res"
| "thread_result (Sending rs samples) = None"

text \<open>\<open>None\<close>: the schedule is not one of a run in which every thread ends.\<close>

definition bench_measure_concurrent ::
  "'s transport \<Rightarrow> ('s \<Rightarrow> metrics_snapshot) \<Rightarrow> bench_run \<Rightarrow> nat \<Rightarrow> nat \<Rightarrow> (nat \<Rightarrow> string option) \<Rightarrow> nat list \<Rightarrow> 's \<Rightarrow>
     ((bench_error + nat list) \<times> 's) option" where
  "bench_measure_concurrent call snap b n concurrency connects sched st =
     (let before = (if br_metrics b then Some (snap st) else None)
      in case run_threads call sched (start_threads b n concurrency connects) st of
           None \<Rightarrow> None
         | Some (ts, st') \<Rightarrow>
             if list_all (\<lambda>t. thread_result t \<noteq> None) ts
             then Some (bind_res (join_workers (List.map thread_result ts)) (\<lambda>samples.
                        bind_res (assert_methodology snap b before n st') (\<lambda>_. Inr (from_samples samples))), st')
             else None)"

section \<open>Distributions\<close>

lemma rtt_percentile_eq:
  assumes "p \<le> 100" shows "rtt_percentile d p = percentile_at d (Fin (real p))"
  using assms by (simp add: rtt_percentile_def nat_as_f64_def f64.rnd_nat)

lemmas rtt_percentiles = rtt_p50_def rtt_p90_def rtt_p95_def rtt_p99_def

text \<open>
  The percentiles of a distribution are what they claim to be, despite the floating-point
  rank: each is one of the samples, at least 50, 90, 95 and 99 percent of the samples are
  at most it and at most that share lies below it, and they never decrease up to the
  maximum.
\<close>

theorem percentiles_are_nearest_rank:
  assumes "samples \<noteq> []" and "length samples < 2 ^ 44"
  defines "d \<equiv> from_samples samples"
  shows "{rtt_p50 d, rtt_p90 d, rtt_p95 d, rtt_p99 d, rtt_max d} \<subseteq> set samples \<and>
    sorted [rtt_p50 d, rtt_p90 d, rtt_p95 d, rtt_p99 d, rtt_max d] \<and>
    list_all (\<lambda>(p, v). p * length samples \<le> 100 * length (filter (\<lambda>x. x \<le> v) samples) \<and>
        100 * length (filter (\<lambda>x. x < v) samples) \<le> p * length samples)
      [(50, rtt_p50 d), (90, rtt_p90 d), (95, rtt_p95 d), (99, rtt_p99 d)]"
proof -
  have "set d = set samples" by (simp add: d_def from_samples_def)
  moreover from this have "d \<noteq> []" using assms(1) by (metis set_empty)
  ultimately have d: "sorted d" "d \<noteq> []" "set d = set samples" "length d = length samples"
    by (simp_all add: d_def from_samples_def)
  have same: "length (filter P d) = length (filter P samples)" for P
    unfolding d_def from_samples_def by (metis mset_filter mset_sort size_mset)
  have v: "rtt_percentile d p = percentile_at d (Fin (real p))" if "p \<le> 100" for p
    using that by (rule rtt_percentile_eq)
  have mono: "rtt_percentile d p \<le> rtt_percentile d q" if "p \<le> q" "q \<le> 100" for p q
    using percentile_at_mono [OF d(1), of "real p" "real q"] that assms(2) d(4) by (simp add: v)
  have "rtt_percentile d 99 \<le> rtt_max d"
    using percentile_at_le_last [OF d(1,2)] d(2) by (simp add: v rtt_max_def)
  then have srt: "sorted [rtt_p50 d, rtt_p90 d, rtt_p95 d, rtt_p99 d, rtt_max d]"
    using mono [of 50 90] mono [of 90 95] mono [of 95 99] by (auto simp: rtt_percentiles)
  have mem: "rtt_percentile d p \<in> set samples" if "p \<le> 100" for p
    using percentile_at_mem [OF d(2)] d(3) that by (simp add: v)
  have cov: "p * length samples \<le> 100 * length (filter (\<lambda>x. x \<le> rtt_percentile d p) samples) \<and>
      100 * length (filter (\<lambda>x. x < rtt_percentile d p) samples) \<le> p * length samples" if "1 \<le> p" "p \<le> 100" for p
    using percentile_at_covers [OF d(1,2) _ that] assms(2) that d(4) by (simp add: v same)
  have "rtt_max d \<in> set samples" using last_in_set [OF d(2)] d(2,3) by (simp add: rtt_max_def)
  then have all_mem: "{rtt_p50 d, rtt_p90 d, rtt_p95 d, rtt_p99 d, rtt_max d} \<subseteq> set samples"
    unfolding rtt_percentiles by (simp add: mem)
  show ?thesis
    unfolding list.pred_inject prod.case
    using srt all_mem cov [of 50] cov [of 90] cov [of 95] cov [of 99]
    unfolding rtt_percentiles by (intro conjI) simp_all
qed

theorem percentiles_are_nearest_rank_witness:
  "rtt_p50 (from_samples [7]) = 7 \<and> rtt_p99 (from_samples [7]) = 7"
  using percentiles_are_nearest_rank [of "[7]"] by simp

section \<open>Key namespaces\<close>

definition key_prefix :: "string \<Rightarrow> string" where
  "key_prefix seed = (if seed = [] then [] else seed @ ''-'')"

lemma measure_key: "seeded_measure_context s r i = ((key_prefix s @ ''measure'') @ CHR ''-'' # show_nat r) @ CHR ''-'' # show_nat i"
  by (simp add: seeded_measure_context_def measure_context_def key_prefix_def)

lemma warm_key: "seeded_warm_context MissMode s r i = (key_prefix s @ ''warm'') @ CHR ''-'' # show_nat i"
  by (simp add: seeded_warm_context_def warmup_context_def key_prefix_def)

lemma measure_key_inject:
  assumes "seeded_measure_context s r i = seeded_measure_context s' r' j"
  shows "r = r' \<and> i = j"
proof -
  have *: "(key_prefix s @ ''measure'') @ CHR ''-'' # show_nat r = (key_prefix s' @ ''measure'') @ CHR ''-'' # show_nat r' \<and>
      show_nat i = show_nat j"
    using assms unfolding measure_key by (rule split_at_last_separator) (rule no_dash)+
  then have "show_nat r = show_nat r'"
    using split_at_last_separator [OF _ no_dash no_dash] by blast
  with * show ?thesis by simp
qed

lemma warm_not_measure: "seeded_warm_context MissMode s' r' j \<noteq> seeded_measure_context s r i"
proof
  assume "seeded_warm_context MissMode s' r' j = seeded_measure_context s r i"
  then have *: "key_prefix s' @ ''warm'' = (key_prefix s @ ''measure'') @ CHR ''-'' # show_nat r"
    unfolding measure_key warm_key using split_at_last_separator [OF _ no_dash no_dash] by blast
  show False
  proof (cases "s' = []")
    case True
    then have "CHR ''-'' \<in> set ''warm''" using arg_cong [OF *, of set] by (auto simp: key_prefix_def)
    then show False by simp
  next
    case False
    then have "s' @ CHR ''-'' # ''warm'' = (key_prefix s @ ''measure'') @ CHR ''-'' # show_nat r"
      using * by (simp add: key_prefix_def)
    from split_at_last_separator [OF this _ no_dash] have "show_nat r = ''warm''" by simp
    then have "CHR ''w'' \<in> set (show_nat r)" by simp
    then show False using show_nat_digits [of "CHR ''w''" r] by (simp add: digit_val_def)
  qed
qed

text \<open>
  The key scheme keeps the two workloads apart, whatever the seeds: a warm-up key of a
  miss run is never a measured key of any run, two measured keys agree only in the same
  run and index, and a hit run warms exactly its measured keys.
\<close>

theorem key_namespaces:
  "seeded_warm_context MissMode s' r' j \<noteq> seeded_measure_context s r i \<and>
   (seeded_measure_context s r i = seeded_measure_context s r' j) = (r = r' \<and> i = j) \<and>
   seeded_warm_context HitMode s r i = seeded_measure_context s r i"
  using warm_not_measure measure_key_inject by (auto simp: seeded_warm_context_def)

section \<open>The methodology check\<close>

text \<open>
  A window passes exactly when every measured request was a miss (or a hit) and nothing
  else was counted: the counters of the opposite kind did not rise.
\<close>

theorem verify_window_iff:
  "(verify_window mode before after n = Inr ()) =
     (case mode of
        MissMode \<Rightarrow> ms_cache_misses after - ms_cache_misses before = n \<and>
          ms_cache_hits after \<le> ms_cache_hits before \<and> ms_cache_coalesced after \<le> ms_cache_coalesced before
      | HitMode \<Rightarrow> ms_cache_hits after - ms_cache_hits before = n \<and>
          ms_cache_misses after \<le> ms_cache_misses before \<and> ms_cache_coalesced after \<le> ms_cache_coalesced before)"
  by (cases mode) (simp_all add: verify_window_def Let_def)

section \<open>Dividing a run\<close>

lemma ranges_from_concat:
  "concat (List.map (\<lambda>r. [fst r..<snd r]) (ranges_from start cs)) = [start..<start + sum_list cs]"
proof (induction cs arbitrary: start)
  case (Cons c cs)
  have "[start..<start + c] @ [start + c..<start + c + sum_list cs] = [start..<start + c + sum_list cs]"
    by (rule upt_add_eq_append [symmetric]) simp
  with Cons show ?case by (simp add: add.assoc)
qed simp

lemma length_ranges_from [simp]: "length (ranges_from start cs) = length cs"
  by (induction cs arbitrary: start) simp_all

lemma sum_extra: "extra \<le> workers \<Longrightarrow>
    sum_list (List.map (\<lambda>w. base + (if w < extra then 1 else 0)) [0..<workers]) = workers * base + extra" for extra :: nat
proof (induction workers arbitrary: extra)
  case (Suc k)
  show ?case
  proof (cases "extra = Suc k")
    case True
    have "sum_list (List.map (\<lambda>w. base + (if w < Suc k then 1 else 0)) [0..<k]) =
        sum_list (List.map (\<lambda>w. base + (if w < k then 1 else 0)) [0..<k])"
      by (intro arg_cong [of _ _ sum_list] map_cong) auto
    with Suc.IH [of k] True show ?thesis by simp
  next
    case False
    with Suc.IH [of extra] Suc.prems show ?thesis by simp
  qed
qed simp

lemma worker_ranges_all: "concat (List.map (\<lambda>r. [fst r..<snd r]) (worker_ranges n conc)) = [0..<n]"
  unfolding worker_ranges_def Let_def ranges_from_concat
  by (subst sum_extra) (simp_all add: less_imp_le)

text \<open>
  However many workers it is divided among, a run sends the requests of a serial run: the
  workers' ranges, in order, are the indices below \<open>n\<close>, one range per worker,
  and the contexts are those that \<open>measure\<close> sends. Two workers differ by at
  most one request.
\<close>

theorem workers_partition_the_run:
  "concat (List.map (\<lambda>r. [fst r..<snd r]) (worker_ranges n conc)) = [0..<n] \<and>
   length (worker_ranges n conc) = max conc 1 \<and>
   concat (List.map (\<lambda>r. List.map dr_context (worker_requests b r)) (worker_ranges n conc))
     = List.map (measured_context b) [0..<n] \<and>
   list_all (\<lambda>r. snd r - fst r \<in> {n div max conc 1, n div max conc 1 + 1}) (worker_ranges n conc)"
proof -
  note all = worker_ranges_all [of n conc]
  have "List.map (\<lambda>r. List.map dr_context (worker_requests b r)) (worker_ranges n conc) =
      List.map (List.map (measured_context b)) (List.map (\<lambda>r. [fst r..<snd r]) (worker_ranges n conc))"
    by (simp add: worker_requests_def bench_request_def measured_context_def comp_def)
  then have ctx: "concat (List.map (\<lambda>r. List.map dr_context (worker_requests b r)) (worker_ranges n conc))
      = List.map (measured_context b) [0..<n]"
    by (simp only: map_concat [symmetric] all)
  have sizes: "snd r - fst r \<in> set cs" if "r \<in> set (ranges_from start cs)" for r start cs
    using that by (induction cs arbitrary: start) auto
  have "snd r - fst r \<in> {n div max conc 1, n div max conc 1 + 1}" if "r \<in> set (worker_ranges n conc)" for r
    using sizes [OF that [unfolded worker_ranges_def Let_def]] by (auto split: if_splits)
  then have "list_all (\<lambda>r. snd r - fst r \<in> {n div max conc 1, n div max conc 1 + 1}) (worker_ranges n conc)"
    unfolding list_all_iff by blast
  moreover have "length (worker_ranges n conc) = max conc 1" by (simp add: worker_ranges_def Let_def)
  ultimately show ?thesis using all ctx by blast
qed

text \<open>
  The samples of a concurrent run are those of its workers in the order of their ranges;
  if a worker fails or panics, the run reports the first such worker's error.
\<close>

theorem first_failure_is_reported:
  "join_workers (List.map (\<lambda>ys. Some (Inr ys)) yss @ w # ws) =
     (case w of None \<Rightarrow> Inl BenchThread | Some (Inl e) \<Rightarrow> Inl e
      | Some (Inr ys) \<Rightarrow> map_sum (\<lambda>e. e) (\<lambda>rest. concat yss @ ys @ rest) (join_workers ws))"
proof (induction yss)
  case Nil
  show ?case by (cases w; cases "the w"; cases "join_workers ws") auto
next
  case (Cons y yss)
  then show ?case by (cases w; cases "the w"; cases "join_workers ws") auto
qed

end
