(* ===== verification/BenchCore.thy ===== *)
theory BenchCore
  imports Bench GrpcClassify
begin

text \<open>
  A benchmark run (\<open>src/src/bench.rs\<close>) against the served classifier: the transport answers
  each request with the classify service of \<open>GrpcClassify\<close>, and the run reads the service's
  own counters. The method of a run is sound when a miss run can only count misses and a hit
  run only hits.
\<close>

section \<open>Serving a run\<close>

text \<open>
  What a run relies on of its transport: every request reaches the service, without a
  deadline, and the service's outcome comes back. The service runs it, or refuses it for want
  of a permit, unless \<open>adm\<close> says that it admits every one. (A permit is given back after the
  answer is sent, so a client that never has more calls open than the bound may still be
  refused one.)
\<close>

definition serves ::
  "bool \<Rightarrow> grpc_params \<Rightarrow> ('r, 'a, 'b) core_env \<Rightarrow> ('r, 'a, 'b) classify_server transport \<Rightarrow> bool" where
  "serves adm gp env call \<longleftrightarrow>
     (\<forall>req s. \<exists>cenv. ca_extension cenv = None \<and> ca_timeout cenv = None \<and>
        (case ca_fate cenv of FRun tq td \<Rightarrow> True | FQueueFull \<Rightarrow> \<not> adm | FStopped \<Rightarrow> False) \<and>
        grpc_classify gp env cenv req s = Some (fst (call req s), snd (snd (call req s))))"

definition server_snapshot :: "('r, 'a, 'b) classify_server \<Rightarrow> metrics_snapshot" where
  "server_snapshot s = snapshot (w_metrics (core_world (gs_core s)))"

lemma counters_record_stage [simp]: "cache_counters (record_stage st l m) = cache_counters m"
  by (cases st) (simp_all add: cache_counters_def)

lemma counters_map_metrics [simp]:
  "core_counters (map_metrics (record_stage st l) c) = core_counters c"
  "cached_keys (map_metrics f c) = cached_keys c"
  by (simp_all add: cached_keys_def)

context core_contract
begin

text \<open>One call of a run: what it does to the cache and the counters, and when it can fail.\<close>

definition grows :: "('r, 'a, 'b) service_core \<Rightarrow> ('r, 'a, 'b) service_core \<Rightarrow> bool" where
  "grows c c' \<longleftrightarrow>
     ec_capacity (core_cache c') = ec_capacity (core_cache c) \<and>
     (length (ec_entries (core_cache c)) < ec_capacity (core_cache c) \<longrightarrow>
        length (ec_entries (core_cache c')) \<le> Suc (length (ec_entries (core_cache c))) \<and>
        cached_keys c \<subseteq> cached_keys c')"

lemma call_ran:
  assumes ok: "core_ok (gs_core s)" and ce: "ca_extension cenv = None" "ca_timeout cenv = None" "ca_fate cenv = FRun tq td"
    and req: "rq_signals req = []" "rq_completeness req = 0" and g: "grpc_classify gp env cenv req s = Some (res, s')"
  defines "k \<equiv> context_key env (rq_context req)" and "c \<equiv> gs_core s" and "c' \<equiv> gs_core s'"
  shows "core_ok c'"
    and "k \<in> cached_keys c \<Longrightarrow> (\<exists>resp. res = Inr resp) \<and> core_cache c' = core_cache c \<and>
      core_counters c' = (case core_counters c of (h, m, w) \<Rightarrow> (h + 1, m, w))"
    and "k \<notin> cached_keys c \<Longrightarrow> cached_keys c' \<subseteq> insert k (cached_keys c) \<and>
      core_counters c' = (case core_counters c of (h, m, w) \<Rightarrow> (h, m + 1, w))"
    and "grows c c'"
    and "res = Inr resp \<Longrightarrow> length (ec_entries (core_cache c)) < ec_capacity (core_cache c) \<Longrightarrow> k \<in> cached_keys c'"
proof -
  have dl: "request_deadline (gp_instant_add gp) (gp_to_str gp) (ca_now cenv) (ca_extension cenv) (ca_timeout cenv) = Some None"
    by (simp add: request_deadline_def ce)
  define q where "q = map_metrics (record_stage StageQueue (td - tq)) c"
  obtain out c1 where cl: "core_classify env (request_input req) q = (out, c1)" by fastforce
  have out: "(\<exists>x. res = Inr x) = (\<exists>x. out = Inr x)" "c' = c1 \<or> c' = map_metrics (record_stage StageTotal (ca_total_ns cenv)) c1"
    using g cl
    by (auto simp: grpc_classify_def dl [unfolded ce(1,2)] ce req(1) Let_def await_outcome_def executor_serve_def deadline_passed_def
        q_def c_def c'_def split: sum.splits prod.splits)
  have nd: "completeness (request_input req) \<noteq> Delta" by (simp add: request_input_def req(2) read_completeness_def)
  have q: "core_ok q" "cached_keys q = cached_keys c" "core_counters q = core_counters c" "core_cache q = core_cache c"
    using ok by (simp_all add: q_def c_def del: record_stage.simps)
  have k: "context_key env (in_text (request_input req)) = k" by (simp add: k_def request_input_def)
  have c': "cached_keys c' = cached_keys c1" "core_counters c' = core_counters c1" "core_cache c' = core_cache c1"
    using out(2) by (auto simp del: record_stage.simps)
  have eff: "if k \<in> cached_keys c
    then out \<noteq> Inl e \<and> core_cache c' = core_cache c \<and>
      core_counters c' = (case core_counters c of (h, m, w) \<Rightarrow> (h + 1, m, w))
    else cached_keys c' \<subseteq> insert k (cached_keys c) \<and>
      core_counters c' = (case core_counters c of (h, m, w) \<Rightarrow> (h, m + 1, w)) \<and>
      ec_capacity (core_cache c') = ec_capacity (core_cache c) \<and>
      (length (ec_entries (core_cache c)) < ec_capacity (core_cache c) \<longrightarrow>
         length (ec_entries (core_cache c')) \<le> Suc (length (ec_entries (core_cache c))) \<and>
         cached_keys c' = (case out of Inr r \<Rightarrow> insert k (cached_keys c) | Inl e \<Rightarrow> cached_keys c))" for e
    using classify_effect [OF q(1) nd cl, of e] unfolding k q c' .
  show "core_ok c'" using classify_ok [OF q(1) cl] out(2) by auto
  show "k \<in> cached_keys c \<Longrightarrow> (\<exists>resp. res = Inr resp) \<and> core_cache c' = core_cache c \<and>
      core_counters c' = (case core_counters c of (h, m, w) \<Rightarrow> (h + 1, m, w))"
    using eff out(1) by (cases out) (auto split: if_splits)
  show "k \<notin> cached_keys c \<Longrightarrow> cached_keys c' \<subseteq> insert k (cached_keys c) \<and>
      core_counters c' = (case core_counters c of (h, m, w) \<Rightarrow> (h, m + 1, w))"
    using eff by simp
  have "k \<in> cached_keys c \<Longrightarrow> cached_keys c' = cached_keys c" using eff by (simp add: cached_keys_def)
  then show "grows c c'"
    using eff unfolding grows_def by (cases "k \<in> cached_keys c"; cases out) auto
  show "res = Inr resp \<Longrightarrow> length (ec_entries (core_cache c)) < ec_capacity (core_cache c) \<Longrightarrow> k \<in> cached_keys c'"
    using eff out(1) \<open>k \<in> cached_keys c \<Longrightarrow> cached_keys c' = cached_keys c\<close>
    by (cases "k \<in> cached_keys c"; cases out) auto
qed

text \<open>The same for a call that may be refused.\<close>

lemma call_effect:
  assumes ok: "core_ok (gs_core s)" and srv: "serves adm gp env call"
    and req: "rq_signals req = []" "rq_completeness req = 0" and r: "call req s = (res, rtt, s')"
  defines "k \<equiv> context_key env (rq_context req)" and "c \<equiv> gs_core s" and "c' \<equiv> gs_core s'"
  shows "core_ok c'"
    and "k \<in> cached_keys c \<Longrightarrow> core_cache c' = core_cache c \<and> (adm \<longrightarrow> (\<exists>resp. res = Inr resp)) \<and>
      ((\<exists>resp. res = Inr resp) \<longrightarrow> core_counters c' = (case core_counters c of (h, m, w) \<Rightarrow> (h + 1, m, w)))"
    and "k \<notin> cached_keys c \<Longrightarrow> cached_keys c' \<subseteq> insert k (cached_keys c) \<and>
      ((\<exists>resp. res = Inr resp) \<longrightarrow> core_counters c' = (case core_counters c of (h, m, w) \<Rightarrow> (h, m + 1, w)))"
    and "grows c c'"
    and "res = Inr resp \<Longrightarrow> length (ec_entries (core_cache c)) < ec_capacity (core_cache c) \<Longrightarrow> k \<in> cached_keys c'"
proof -
  obtain cenv where ce: "ca_extension cenv = None" "ca_timeout cenv = None"
    and ft: "case ca_fate cenv of FRun tq td \<Rightarrow> True | FQueueFull \<Rightarrow> \<not> adm | FStopped \<Rightarrow> False"
    and g: "grpc_classify gp env cenv req s = Some (res, s')"
    using srv r unfolding serves_def by (metis fst_conv snd_conv)
  have fate: "(\<exists>tq td. ca_fate cenv = FRun tq td) \<or> (res = Inl queue_is_full \<and> c' = c \<and> \<not> adm)"
    using ft g ce req(1)
    by (cases "ca_fate cenv") (auto simp: grpc_classify_def request_deadline_def Let_def await_outcome_def c_def c'_def split: sum.splits)
  note ran = call_ran [OF ok ce _ req g, folded k_def c_def c'_def]
  show "core_ok c'" using fate ran(1) ok [folded c_def] by blast
  show "k \<in> cached_keys c \<Longrightarrow> core_cache c' = core_cache c \<and> (adm \<longrightarrow> (\<exists>resp. res = Inr resp)) \<and>
      ((\<exists>resp. res = Inr resp) \<longrightarrow> core_counters c' = (case core_counters c of (h, m, w) \<Rightarrow> (h + 1, m, w)))"
    using fate ran(2) by fastforce
  show "k \<notin> cached_keys c \<Longrightarrow> cached_keys c' \<subseteq> insert k (cached_keys c) \<and>
      ((\<exists>resp. res = Inr resp) \<longrightarrow> core_counters c' = (case core_counters c of (h, m, w) \<Rightarrow> (h, m + 1, w)))"
    using fate ran(3) by fastforce
  show "grows c c'" using fate ran(4) by (auto simp: grows_def)
  show "res = Inr resp \<Longrightarrow> length (ec_entries (core_cache c)) < ec_capacity (core_cache c) \<Longrightarrow> k \<in> cached_keys c'"
    using fate ran(5) by fastforce
qed

lemma route_call:
  assumes "classify_and_route call r s = (out, s')" and "dr_signals r = []"
  obtains req res rtt where "rq_signals req = []" and "rq_completeness req = 0" and "rq_context req = dr_context r"
    and "call req s = (res, rtt, s')" and "(\<exists>x. out = Inr x) = (\<exists>x. res = Inr x)"
proof -
  define req where "req = \<lparr>rq_request_id = dr_request_id r, rq_session_id = dr_session_id r,
      rq_context = dr_context r, rq_signals = dr_signals r, rq_completeness = completeness_number Unspecified\<rparr>"
  obtain res rtt s1 where c: "call req s = (res, rtt, s1)" by (metis prod_cases3)
  have "s1 = s' \<and> (\<exists>x. out = Inr x) = (\<exists>x. res = Inr x)"
    using assms(1) c [unfolded req_def] by (cases res) (auto simp: classify_and_route_def Let_def)
  with c assms(2) show ?thesis by (intro that [of req res rtt]) (simp_all add: req_def completeness_number_def)
qed

lemma send_one_call:
  assumes "send_one call ctx i s = (r, s')"
  obtains req res rtt where "rq_signals req = []" and "rq_completeness req = 0" and "rq_context req = ctx"
    and "call req s = (res, rtt, s')" and "(\<exists>x. r = Inr x) = (\<exists>x. res = Inr x)"
proof -
  define q where "q = bench_request ''bench-'' i ctx"
  obtain out where out: "classify_and_route call q s = (out, s')" "(\<exists>x. r = Inr x) = (\<exists>x. out = Inr x)"
    using assms by (auto simp: send_one_def q_def split: prod.splits sum.splits)
  obtain req res rtt where "rq_signals req = []" "rq_completeness req = 0" "rq_context req = dr_context q"
    "call req s = (res, rtt, s')" "(\<exists>x. out = Inr x) = (\<exists>x. res = Inr x)"
    by (rule route_call [OF out(1)]) (simp_all add: q_def bench_request_def)
  then show ?thesis by (intro that [of req res rtt]) (simp_all add: out(2) q_def bench_request_def)
qed

text \<open>A run caches no key but its own, and can only fail by a request's status.\<close>

lemma send_all_keys:
  assumes "serves adm gp env call" and "core_ok (gs_core s)" and "send_all call ctx is s = (r, s')"
  shows "core_ok (gs_core s') \<and>
    cached_keys (gs_core s') \<subseteq> (\<lambda>i. context_key env (ctx i)) ` set is \<union> cached_keys (gs_core s) \<and>
    (\<forall>e. r = Inl e \<longrightarrow> (\<exists>st. e = BenchRequest st)) \<and> (\<forall>xs. r = Inr xs \<longrightarrow> length xs = length is)"
  using assms(2,3)
proof (induction "is" arbitrary: s r s')
  case (Cons i "is")
  obtain o1 s1 where o1: "send_one call (ctx i) i s = (o1, s1)" by fastforce
  obtain req res rtt where q: "rq_signals req = []" "rq_completeness req = 0" "rq_context req = ctx i"
    "call req s = (res, rtt, s1)"
    by (rule send_one_call [OF o1])
  note eff = call_effect [OF Cons.prems(1) assms(1) q(1,2,4)]
  have s1: "core_ok (gs_core s1)" "cached_keys (gs_core s1) \<subseteq> insert (context_key env (ctx i)) (cached_keys (gs_core s))"
    using eff(1) eff(2,3) [unfolded q(3)]
    by (simp, cases "context_key env (ctx i) \<in> cached_keys (gs_core s)") (auto simp: cached_keys_def)
  show ?case
  proof (cases o1)
    case (Inl st)
    then show ?thesis using Cons.prems(2) o1 s1 by auto
  next
    case (Inr x)
    obtain r2 s2 where r2: "send_all call ctx is s1 = (r2, s2)" by fastforce
    from Cons.IH [OF s1(1) r2] show ?thesis using Cons.prems(2) o1 Inr r2 s1(2)
      by (auto split: sum.splits)
  qed
qed auto

text \<open>Requests with fresh keys are all misses.\<close>

lemma send_all_misses:
  assumes "serves adm gp env call" and "core_ok (gs_core s)" and "send_all call ctx is s = (Inr xs, s')"
    and "inj_on (\<lambda>i. context_key env (ctx i)) (set is)" and "distinct is"
    and "(\<lambda>i. context_key env (ctx i)) ` set is \<inter> cached_keys (gs_core s) = {}"
  shows "core_counters (gs_core s') = (case core_counters (gs_core s) of (h, m, w) \<Rightarrow> (h, m + length is, w))"
  using assms(2-6)
proof (induction "is" arbitrary: s xs)
  case (Cons i "is")
  obtain o1 s1 where o1: "send_one call (ctx i) i s = (o1, s1)" by fastforce
  obtain x ys where ys: "o1 = Inr x" "send_all call ctx is s1 = (Inr ys, s')"
    using Cons.prems(2) o1 by (auto split: sum.splits prod.splits)
  obtain req res rtt where q: "rq_signals req = []" "rq_completeness req = 0" "rq_context req = ctx i"
    "call req s = (res, rtt, s1)" "(\<exists>x. o1 = Inr x) = (\<exists>x. res = Inr x)"
    by (rule send_one_call [OF o1])
  note eff = call_effect [OF Cons.prems(1) assms(1) q(1,2,4), unfolded q(3)]
  have k: "context_key env (ctx i) \<notin> cached_keys (gs_core s)" using Cons.prems(5) by auto
  have "(\<lambda>i. context_key env (ctx i)) ` set is \<inter> cached_keys (gs_core s1) = {}"
    using eff(3) [OF k] Cons.prems(3-5) by (fastforce simp: inj_on_def)
  moreover have "core_counters (gs_core s1) = (case core_counters (gs_core s) of (h, m, w) \<Rightarrow> (h, m + 1, w))"
    using eff(3) [OF k] q(5) ys(1) by auto
  ultimately show ?case using Cons.IH [OF eff(1) ys(2)] Cons.prems(3,4)
    by (auto simp: inj_on_def split: prod.splits)
qed auto

text \<open>While there is room, the requests that succeeded stay cached.\<close>

lemma send_all_warms:
  assumes "serves adm gp env call" and "core_ok (gs_core s)" and "send_all call ctx is s = (Inr xs, s')"
    and "length (ec_entries (core_cache (gs_core s))) + length is \<le> ec_capacity (core_cache (gs_core s))"
  shows "core_ok (gs_core s') \<and>
    (\<lambda>i. context_key env (ctx i)) ` set is \<union> cached_keys (gs_core s) \<subseteq> cached_keys (gs_core s')"
  using assms(2-4)
proof (induction "is" arbitrary: s xs)
  case (Cons i "is")
  obtain o1 s1 where o1: "send_one call (ctx i) i s = (o1, s1)" by fastforce
  obtain x ys where ys: "o1 = Inr x" "send_all call ctx is s1 = (Inr ys, s')"
    using Cons.prems(2) o1 by (auto split: sum.splits prod.splits)
  obtain req res rtt where q: "rq_signals req = []" "rq_completeness req = 0" "rq_context req = ctx i"
    "call req s = (res, rtt, s1)" "(\<exists>x. o1 = Inr x) = (\<exists>x. res = Inr x)"
    by (rule send_one_call [OF o1])
  note eff = call_effect [OF Cons.prems(1) assms(1) q(1,2,4), unfolded q(3)]
  obtain resp where "res = Inr resp" using q(5) ys(1) by auto
  from eff(5) [OF this] eff(4) Cons.prems(3)
  have g: "context_key env (ctx i) \<in> cached_keys (gs_core s1)" "cached_keys (gs_core s) \<subseteq> cached_keys (gs_core s1)"
    "length (ec_entries (core_cache (gs_core s1))) + length is \<le> ec_capacity (core_cache (gs_core s1))"
    by (auto simp: grows_def)
  from Cons.IH [OF eff(1) ys(2) g(3)] g(1,2) show ?case by auto
qed auto

text \<open>Requests whose keys are cached are all hits, and none can fail.\<close>

lemma send_all_hits:
  assumes "serves True gp env call" and "core_ok (gs_core s)"
    and "(\<lambda>i. context_key env (ctx i)) ` set is \<subseteq> cached_keys (gs_core s)"
  shows "\<exists>xs s'. send_all call ctx is s = (Inr xs, s') \<and> length xs = length is \<and>
    core_counters (gs_core s') = (case core_counters (gs_core s) of (h, m, w) \<Rightarrow> (h + length is, m, w))"
  using assms(2,3)
proof (induction "is" arbitrary: s)
  case (Cons i "is")
  obtain o1 s1 where o1: "send_one call (ctx i) i s = (o1, s1)" by fastforce
  obtain req res rtt where q: "rq_signals req = []" "rq_completeness req = 0" "rq_context req = ctx i"
    "call req s = (res, rtt, s1)" "(\<exists>x. o1 = Inr x) = (\<exists>x. res = Inr x)"
    by (rule send_one_call [OF o1])
  note eff = call_effect [OF Cons.prems(1) assms(1) q(1,2,4), unfolded q(3)]
  have "context_key env (ctx i) \<in> cached_keys (gs_core s)" using Cons.prems(2) by auto
  from eff(2) [OF this] q(5) obtain x where x: "o1 = Inr x" "core_cache (gs_core s1) = core_cache (gs_core s)"
    "core_counters (gs_core s1) = (case core_counters (gs_core s) of (h, m, w) \<Rightarrow> (h + 1, m, w))" by blast
  then have "(\<lambda>i. context_key env (ctx i)) ` set is \<subseteq> cached_keys (gs_core s1)"
    using Cons.prems(2) by (auto simp: cached_keys_def)
  from Cons.IH [OF eff(1) this] x o1 show ?case by (auto split: prod.splits)
qed auto

end

section \<open>A concrete system\<close>

definition demo_bench_call :: call_env where
  "demo_bench_call = \<lparr>ca_now = 0, ca_extension = None, ca_timeout = None, ca_fate = FRun 5 9, ca_total_ns = 30\<rparr>"

abbreviation demo_plain_env :: "(candle_counters, unit, unit) core_env" where
  "demo_plain_env \<equiv> served_env (candle_runtime demo_candle) noop_text (\<lambda>_. zero_sig) (\<lambda>s. s)"

definition demo_transport :: "(candle_counters, unit, unit) classify_server transport" where
  "demo_transport req s =
     (case grpc_classify demo_params demo_plain_env demo_bench_call req s of
        Some (r, s') \<Rightarrow> (r, 30, s')
      | None \<Rightarrow> (Inl executor_stopped, 0, s))"

lemma demo_bench_call_sel [simp]:
  "ca_extension demo_bench_call = None" "ca_timeout demo_bench_call = None" "ca_fate demo_bench_call = FRun 5 9"
  by (simp_all add: demo_bench_call_def)

lemma no_header_no_deadline [simp]: "request_deadline add to_str now None None = Some None"
  by (simp add: request_deadline_def)

lemma demo_transport_serves: "serves adm demo_params demo_plain_env demo_transport"
  unfolding serves_def
proof (intro allI)
  fix req :: classify_request and s :: "(candle_counters, unit, unit) classify_server"
  have "\<exists>r s'. grpc_classify demo_params demo_plain_env demo_bench_call req s = Some (r, s')"
    by (simp add: grpc_classify_def)
  then show "\<exists>cenv. ca_extension cenv = None \<and> ca_timeout cenv = None \<and>
      (case ca_fate cenv of FRun tq td \<Rightarrow> True | FQueueFull \<Rightarrow> \<not> adm | FStopped \<Rightarrow> False) \<and>
      grpc_classify demo_params demo_plain_env cenv req s = Some (fst (demo_transport req s), snd (snd (demo_transport req s)))"
    by (intro exI [of _ demo_bench_call]) (auto simp: demo_transport_def)
qed

lemma demo_classifies: "\<exists>r c'. core_classify demo_plain_env inp c = (Inr r, c')"
  by (rule total_model_classifies) (simp_all add: candle_new_def demo_embedder_def)

lemma demo_route:
  assumes "dr_signals q = []"
  shows "\<exists>x s1. classify_and_route demo_transport q s = (Inr x, s1)"
proof -
  define req where "req = \<lparr>rq_request_id = dr_request_id q, rq_session_id = dr_session_id q,
      rq_context = dr_context q, rq_signals = [], rq_completeness = completeness_number Unspecified\<rparr>"
  have "\<exists>resp s1. demo_transport req s = (Inr resp, 30, s1)"
    using demo_classifies [of "request_input req" "map_metrics (record_stage StageQueue 4) (gs_core s)"]
    by (auto simp: demo_transport_def grpc_classify_def Let_def req_def await_outcome_def executor_serve_def
        deadline_passed_def)
  then show ?thesis by (auto simp: classify_and_route_def assms req_def Let_def)
qed

lemma demo_send_all: "\<exists>xs s'. send_all demo_transport ctx is s = (Inr xs, s')"
proof (induction "is" arbitrary: s)
  case (Cons i "is")
  obtain x s1 where "classify_and_route demo_transport (bench_request ''bench-'' i (ctx i)) s = (Inr x, s1)"
    using demo_route [of "bench_request ''bench-'' i (ctx i)" s] by (auto simp: bench_request_def)
  then have x: "send_one demo_transport (ctx i) i s = (Inr (do_rtt x), s1)" by (simp add: send_one_def)
  obtain xs s2 where "send_all demo_transport ctx is s1 = (Inr xs, s2)" using Cons by blast
  with x show ?case by simp
qed simp

definition demo_run :: "cache_mode \<Rightarrow> bench_run" where
  "demo_run mode = \<lparr>br_cache_mode = mode, br_run_id = 0, br_metrics = True, br_seed = ''benchmark''\<rparr>"

section \<open>Valid runs\<close>

abbreviation fresh_server :: "telemetry \<Rightarrow> candle_counters \<Rightarrow> metrics \<Rightarrow> (candle_counters, unit, unit) classify_server" where
  "fresh_server t counters m \<equiv> server_new t (core_new counters () () m)"

lemma fresh_server_keys [simp]:
  "cached_keys (gs_core (fresh_server t counters m)) = {}"
  "ec_capacity (core_cache (gs_core (fresh_server t counters m))) = DEFAULT_CAPACITY"
  "length (ec_entries (core_cache (gs_core (fresh_server t counters m)))) = 0"
  by (simp_all add: server_new_def core_new_def cached_keys_def ec_new_def ec_with_capacity_def DEFAULT_CAPACITY_def)

lemma fresh_server_ok:
  "candle_default.core_ok cl (gs_core (fresh_server t counters m))"
  by (simp add: server_new_def core_new_def candle_default.core_ok_def candle_default.world_ok_def)

lemma server_snapshot_counters:
  "ms_cache_hits (server_snapshot s) = ms_cache_hits (w_metrics (core_world (gs_core s)))"
  "ms_cache_misses (server_snapshot s) = ms_cache_misses (w_metrics (core_world (gs_core s)))"
  "ms_cache_coalesced (server_snapshot s) = ms_cache_coalesced (w_metrics (core_world (gs_core s)))"
  by (simp_all add: server_snapshot_def snapshot_def)

lemma window_ok:
  "verify_window MissMode a z n = Inr () \<longleftrightarrow> ms_cache_misses z - ms_cache_misses a = n \<and>
     ms_cache_hits z \<le> ms_cache_hits a \<and> ms_cache_coalesced z \<le> ms_cache_coalesced a"
  "verify_window HitMode a z n = Inr () \<longleftrightarrow> ms_cache_hits z - ms_cache_hits a = n \<and>
     ms_cache_misses z \<le> ms_cache_misses a \<and> ms_cache_coalesced z \<le> ms_cache_coalesced a"
  by (simp_all add: verify_window_def Let_def)

lemma methodology_error: "assert_methodology snap b before n st \<noteq> Inl (BenchRequest e)"
  by (cases "br_cache_mode b") (auto simp: assert_methodology_def verify_window_def Let_def split: option.split)

text \<open>
  A miss run against the classifier as the server binds it without Redis, from a fresh
  start, never reports a violation of its own method: unless a request fails, every
  measured request is counted as a miss and the distribution is returned. That warm-up
  keys are never measured keys is what makes it so; that different texts have different
  cache keys is assumed of the hash.
\<close>

theorem miss_run_is_valid:
  assumes "serves adm gp (served_env (candle_runtime cl) noop_text sg hash) call"
    and "br_cache_mode b = MissMode"
    and "inj_on (context_key (served_env (candle_runtime cl) noop_text sg hash))
           (warm_context b ` set [0..<w] \<union> measured_context b ` set [0..<n])"
    and "bench_warmup call b w (fresh_server t counters m) = (r0, st)"
    and "bench_measure call server_snapshot b n st = (res, st')"
  shows "(\<exists>d. res = Inr d \<and> length d = n) \<or> (\<exists>s. res = Inl (BenchRequest s))"
proof -
  let ?key = "context_key (served_env (candle_runtime cl) noop_text sg hash)"
  obtain r1 where r1: "send_all call (warm_context b) [0..<w] (fresh_server t counters m) = (r1, st)"
    using assms(4) by (auto simp: bench_warmup_def split: prod.splits sum.splits)
  note warm = candle_default.send_all_keys [OF assms(1) fresh_server_ok r1]
  then have cached: "cached_keys (gs_core st) \<subseteq> ?key ` warm_context b ` set [0..<w]" by (auto simp: image_image)
  obtain r2 st2 where r2: "send_all call (measured_context b) [0..<n] st = (r2, st2)" by fastforce
  note sent = candle_default.send_all_keys [OF assms(1) conjunct1 [OF warm] r2]
  show ?thesis
  proof (cases r2)
    case (Inl e)
    then show ?thesis using assms(5) sent r2 by (auto simp: bench_measure_def)
  next
    case (Inr xs)
    have ctx: "warm_context b i \<noteq> measured_context b j" for i j
      using warm_not_measure by (simp add: warm_context_def measured_context_def assms(2))
    have "inj_on (\<lambda>i. ?key (measured_context b i)) (set [0..<n])"
      using assms(3) unfolding inj_on_def measured_context_def using measure_key_inject by blast
    moreover have "(\<lambda>i. ?key (measured_context b i)) ` set [0..<n] \<inter> cached_keys (gs_core st) = {}"
    proof (rule ccontr)
      assume "(\<lambda>i. ?key (measured_context b i)) ` set [0..<n] \<inter> cached_keys (gs_core st) \<noteq> {}"
      then obtain i j where ij: "i \<in> set [0..<n]" "j \<in> set [0..<w]" "?key (measured_context b i) = ?key (warm_context b j)"
        using cached by blast
      from inj_onD [OF assms(3) this(3)] this(1,2) ctx [of j i] show False by auto
    qed
    ultimately have "core_counters (gs_core st2) = (case core_counters (gs_core st) of (h, m, w) \<Rightarrow> (h, m + n, w))"
      using candle_default.send_all_misses [OF assms(1) conjunct1 [OF warm] r2 [unfolded Inr]] by simp
    then have "verify_window MissMode (server_snapshot st) (server_snapshot st2) n = Inr ()"
      by (simp add: window_ok server_snapshot_counters cache_counters_def)
    then have "res = Inr (from_samples xs)"
      using assms(5) r2 Inr by (auto simp: bench_measure_def assert_methodology_def assms(2))
    then show ?thesis using sent Inr by (simp add: from_samples_def)
  qed
qed

theorem miss_run_is_valid_witness:
  "\<exists>st d st'. bench_warmup demo_transport (demo_run MissMode) 1
       (fresh_server (telemetry_new None) \<lparr>tokenizer_calls = 0, forward_calls = 0\<rparr> metrics_new) = (Inr (), st) \<and>
     bench_measure demo_transport server_snapshot (demo_run MissMode) 1 st = (Inr d, st') \<and> length d = 1"
proof -
  let ?s = "fresh_server (telemetry_new None) \<lparr>tokenizer_calls = 0, forward_calls = 0\<rparr> metrics_new"
  have keys: "inj_on (context_key demo_plain_env)
      (warm_context (demo_run MissMode) ` set [0..<1] \<union> measured_context (demo_run MissMode) ` set [0..<1])"
  proof -
    have zero: "show_nat 0 = ''0''" by code_simp
    have ctx: "warm_context (demo_run MissMode) 0 = ''benchmark-warm-0''"
      "measured_context (demo_run MissMode) 0 = ''benchmark-measure-0-0''"
      by (simp_all add: warm_context_def measured_context_def demo_run_def seeded_warm_context_def
          seeded_measure_context_def zero)
    have trims: "trim ''benchmark-warm-0'' = ''benchmark-warm-0''" "trim ''benchmark-measure-0-0'' = ''benchmark-measure-0-0''"
      by code_simp+
    have "context_key demo_plain_env ''benchmark-warm-0'' \<noteq> context_key demo_plain_env ''benchmark-measure-0-0''"
      unfolding context_key_def trims
      by (auto simp: core_key_def served_env_def cache_key_new_with_artifact_digest_def key_preimage_def update_field_def
          Let_def u64_le_bytes_def dest!: arg_cong [where f = length] split: prod.splits option.splits)
    then show ?thesis unfolding set_upt by (simp add: ctx)
  qed
  obtain ys st where w: "send_all demo_transport (warm_context (demo_run MissMode)) [0..<1] ?s = (Inr ys, st)"
    using demo_send_all by blast
  obtain res st' where m: "bench_measure demo_transport server_snapshot (demo_run MissMode) 1 st = (res, st')" by fastforce
  obtain xs s2 where xs: "send_all demo_transport (measured_context (demo_run MissMode)) [0..<1] st = (Inr xs, s2)"
    using demo_send_all by blast
  have bw: "bench_warmup demo_transport (demo_run MissMode) 1 ?s = (Inr (), st)" using w by (simp add: bench_warmup_def)
  have "br_cache_mode (demo_run MissMode) = MissMode" by (simp add: demo_run_def)
  from miss_run_is_valid [OF demo_transport_serves this keys bw m]
  have "(\<exists>d. res = Inr d \<and> length d = 1) \<or> (\<exists>s. res = Inl (BenchRequest s))" .
  moreover have "res \<noteq> Inl (BenchRequest e)" for e
  proof
    assume "res = Inl (BenchRequest e)"
    then have "assert_methodology server_snapshot (demo_run MissMode)
        (if br_metrics (demo_run MissMode) then Some (server_snapshot st) else None) 1 s2 = Inl (BenchRequest e)"
      using m xs by (cases "assert_methodology server_snapshot (demo_run MissMode)
          (if br_metrics (demo_run MissMode) then Some (server_snapshot st) else None) 1 s2")
        (simp_all add: bench_measure_def)
    then show False by (simp only: methodology_error)
  qed
  ultimately have "\<exists>d. res = Inr d \<and> length d = 1" by blast
  with bw m show ?thesis by blast
qed

lemma warmed_run:
  assumes "serves adm gp (served_env (candle_runtime cl) noop_text sg hash) call"
    and "br_cache_mode b = HitMode" and "n \<le> w" and "w \<le> DEFAULT_CAPACITY"
    and "bench_warmup call b w (fresh_server t counters m) = (Inr (), st)"
  shows "candle_default.core_ok cl (gs_core st)"
    and "(\<lambda>i. context_key (served_env (candle_runtime cl) noop_text sg hash) (measured_context b i)) ` set [0..<n] \<subseteq> cached_keys (gs_core st)"
proof -
  let ?key = "context_key (served_env (candle_runtime cl) noop_text sg hash)"
  obtain ys where ys: "send_all call (warm_context b) [0..<w] (fresh_server t counters m) = (Inr ys, st)"
    using assms(5) by (auto simp: bench_warmup_def split: prod.splits sum.splits)
  from candle_default.send_all_warms [OF assms(1) fresh_server_ok ys] assms(4)
  have "candle_default.core_ok cl (gs_core st)"
    and warm: "(\<lambda>i. ?key (warm_context b i)) ` set [0..<w] \<subseteq> cached_keys (gs_core st)"
    unfolding fresh_server_keys by simp_all
  then show "candle_default.core_ok cl (gs_core st)" by simp
  show "(\<lambda>i. ?key (measured_context b i)) ` set [0..<n] \<subseteq> cached_keys (gs_core st)"
    using warm assms(3) by (force simp: warm_context_def measured_context_def seeded_warm_context_def assms(2))
qed

text \<open>
  A hit run whose warm-up succeeded and covered its measured keys, within the capacity of
  the exact cache, always returns its distribution: every measured request is a hit, and
  none can fail.
\<close>

theorem hit_run_is_valid:
  assumes "serves True gp (served_env (candle_runtime cl) noop_text sg hash) call"
    and "br_cache_mode b = HitMode" and "n \<le> w" and "w \<le> DEFAULT_CAPACITY"
    and "bench_warmup call b w (fresh_server t counters m) = (Inr (), st)"
  shows "\<exists>d st'. bench_measure call server_snapshot b n st = (Inr d, st') \<and> length d = n"
proof -
  from candle_default.send_all_hits [OF assms(1) warmed_run [OF assms]] obtain xs st' where
    xs: "send_all call (measured_context b) [0..<n] st = (Inr xs, st')" "length xs = n"
    "core_counters (gs_core st') = (case core_counters (gs_core st) of (h, m, w) \<Rightarrow> (h + n, m, w))"
    by auto
  then have "verify_window HitMode (server_snapshot st) (server_snapshot st') n = Inr ()"
    by (simp add: window_ok server_snapshot_counters cache_counters_def)
  with xs(1,2) show ?thesis
    by (auto simp: bench_measure_def assert_methodology_def assms(2) from_samples_def)
qed

theorem hit_run_is_valid_witness:
  "\<exists>st d st'. bench_warmup demo_transport (demo_run HitMode) 3
       (fresh_server (telemetry_new None) \<lparr>tokenizer_calls = 0, forward_calls = 0\<rparr> metrics_new) = (Inr (), st) \<and>
     bench_measure demo_transport server_snapshot (demo_run HitMode) 2 st = (Inr d, st') \<and> length d = 2"
proof -
  let ?s = "fresh_server (telemetry_new None) \<lparr>tokenizer_calls = 0, forward_calls = 0\<rparr> metrics_new"
  obtain ys st where w: "send_all demo_transport (warm_context (demo_run HitMode)) [0..<3] ?s = (Inr ys, st)"
    using demo_send_all by blast
  then have bw: "bench_warmup demo_transport (demo_run HitMode) 3 ?s = (Inr (), st)" by (simp add: bench_warmup_def)
  have "br_cache_mode (demo_run HitMode) = HitMode" "(2::nat) \<le> 3" "3 \<le> DEFAULT_CAPACITY"
    by (simp_all add: demo_run_def DEFAULT_CAPACITY_def)
  from hit_run_is_valid [OF demo_transport_serves this bw] bw show ?thesis by blast
qed

end
