(* ===== verification/ModernBert.thy ===== *)
theory ModernBert
  imports Percentile Display FloatRange
begin

text \<open>
  The parts of the vendored encoder (\<open>src/src/modernbert.rs\<close>) that are the repository's own
  arithmetic and control: the rotary frequencies with their YaRN scaling, the attention
  masks, which layer uses which, and the order in which the layers are loaded and applied.
  Attention and feed-forward are operations of the records below, opened in
  \<open>ModernAttention\<close>; norms and embeddings are operations of the tensor library; \<open>f64::powf\<close>, \<open>f64::ln\<close> and the
  library's sine and cosine are parameters too. \<open>None\<close> is a panic.
\<close>

section \<open>Configuration\<close>

record rope_scaling =
  rope_type :: string
  rope_factor :: flt
  rope_beta_fast :: flt
  rope_beta_slow :: flt
  rope_original :: nat

definition default_beta_fast :: flt where "default_beta_fast = Fin 32"

definition default_beta_slow :: flt where "default_beta_slow = Fin 1"

record modern_config =
  mc_vocab_size :: nat
  mc_hidden_size :: nat
  mc_num_hidden_layers :: nat
  mc_num_attention_heads :: nat
  mc_intermediate_size :: nat
  mc_max_position_embeddings :: nat
  mc_layer_norm_eps :: flt
  mc_pad_token_id :: nat
  mc_global_attn_every_n_layers :: nat
  mc_global_rope_theta :: flt
  mc_local_attention :: nat
  mc_local_rope_theta :: flt
  mc_rope_scaling :: "rope_scaling option"

text \<open>\<open>str::eq_ignore_ascii_case\<close>.\<close>

definition ascii_lower :: "char \<Rightarrow> char" where
  "ascii_lower c = (if 65 \<le> byte c \<and> byte c \<le> 90 then char_of (byte c + 32) else c)"

definition eq_ignore_ascii_case :: "string \<Rightarrow> string \<Rightarrow> bool" where
  "eq_ignore_ascii_case a b \<longleftrightarrow> List.map ascii_lower a = List.map ascii_lower b"

definition yarn_scaling :: "modern_config \<Rightarrow> rope_scaling option" where
  "yarn_scaling c =
     (case mc_rope_scaling c of
        None \<Rightarrow> None
      | Some r \<Rightarrow> if eq_ignore_ascii_case (rope_type r) ''yarn'' then Some r else None)"

section \<open>Rotary frequencies\<close>

primrec ffloor :: "flt \<Rightarrow> flt" where
  "ffloor NaN = NaN"
| "ffloor NInf = NInf"
| "ffloor PInf = PInf"
| "ffloor (Fin x) = Fin (of_int \<lfloor>x\<rfloor>)"

definition clamp_unit :: "flt \<Rightarrow> flt" where
  "clamp_unit a = (if flt_lt a (Fin 0) then Fin 0 else if flt_lt (Fin 1) a then Fin 1 else a)"

text \<open>\<open>f64::EPSILON\<close> and the constant \<open>PI\<close>.\<close>

definition F64_EPSILON :: flt where "F64_EPSILON = Fin (1 / 2 ^ 52)"

definition F64_PI :: flt where "F64_PI = round64 pi"

definition rope_pos :: "(flt \<Rightarrow> flt \<Rightarrow> flt) \<Rightarrow> flt \<Rightarrow> nat \<Rightarrow> nat \<Rightarrow> flt" where
  "rope_pos powf theta hdim i = powf theta (fdiv round64 (nat_as_f64 i) (nat_as_f64 hdim))"

definition plain_freq :: "(flt \<Rightarrow> flt \<Rightarrow> flt) \<Rightarrow> flt \<Rightarrow> nat \<Rightarrow> nat \<Rightarrow> flt" where
  "plain_freq powf theta hdim i = fdiv round32 (Fin 1) (fcast round32 (rope_pos powf theta hdim i))"

definition yarn_corr :: "(flt \<Rightarrow> flt) \<Rightarrow> flt \<Rightarrow> nat \<Rightarrow> rope_scaling \<Rightarrow> flt \<Rightarrow> flt" where
  "yarn_corr fln theta hdim r rot =
     fdiv round64
       (fmul round64 (nat_as_f64 hdim)
         (fln (fdiv round64 (nat_as_f64 (rope_original r)) (fmul round64 (fmul round64 rot (Fin 2)) F64_PI))))
       (fmul round64 (Fin 2) (fln theta))"

definition yarn_low :: "(flt \<Rightarrow> flt) \<Rightarrow> flt \<Rightarrow> nat \<Rightarrow> rope_scaling \<Rightarrow> flt" where
  "yarn_low fln theta hdim r = fmax (ffloor (yarn_corr fln theta hdim r (rope_beta_fast r))) (Fin 0)"

definition yarn_high :: "(flt \<Rightarrow> flt) \<Rightarrow> flt \<Rightarrow> nat \<Rightarrow> rope_scaling \<Rightarrow> flt" where
  "yarn_high fln theta hdim r =
     fmin (fceil (yarn_corr fln theta hdim r (rope_beta_slow r))) (fsub round64 (nat_as_f64 hdim) (Fin 1))"

definition yarn_ramp :: "flt \<Rightarrow> flt \<Rightarrow> nat \<Rightarrow> flt" where
  "yarn_ramp low high j =
     (if flt_lt (fabs (fsub round64 high low)) F64_EPSILON then Fin 0
      else clamp_unit (fdiv round64 (fsub round64 (nat_as_f64 j) low) (fsub round64 high low)))"

definition yarn_freq :: "flt \<Rightarrow> flt \<Rightarrow> flt \<Rightarrow> flt" where
  "yarn_freq scale pos ramp =
     (let extrapolation = fdiv round64 (Fin 1) pos;
          interpolation = fdiv round64 (Fin 1) (fmul round64 scale pos);
          extrapolation_factor = fsub round64 (Fin 1) ramp
      in fcast round32 (fadd round64 (fmul round64 interpolation (fsub round64 (Fin 1) extrapolation_factor))
           (fmul round64 extrapolation extrapolation_factor)))"

text \<open>\<open>(0..dim).step_by(2)\<close>.\<close>

definition even_steps :: "nat \<Rightarrow> nat list" where
  "even_steps hdim = List.map (\<lambda>k. 2 * k) [0..<(hdim + 1) div 2]"

definition inv_freq ::
  "(flt \<Rightarrow> flt \<Rightarrow> flt) \<Rightarrow> (flt \<Rightarrow> flt) \<Rightarrow> modern_config \<Rightarrow> flt \<Rightarrow> nat \<Rightarrow> flt list" where
  "inv_freq powf fln c theta hdim =
     (case yarn_scaling c of
        None \<Rightarrow> List.map (plain_freq powf theta hdim) (even_steps hdim)
      | Some r \<Rightarrow>
          (let low = yarn_low fln theta hdim r; high = yarn_high fln theta hdim r
           in List.map (\<lambda>(j, i). yarn_freq (rope_factor r) (rope_pos powf theta hdim i) (yarn_ramp low high j))
                (enumerate 0 (even_steps hdim))))"

definition attention_scaling :: "(flt \<Rightarrow> flt) \<Rightarrow> modern_config \<Rightarrow> flt" where
  "attention_scaling fln c =
     fcast round32
       (case yarn_scaling c of
          None \<Rightarrow> Fin 1
        | Some r \<Rightarrow> fadd round64 (fmul round64 (round64 0.1) (fln (rope_factor r))) (Fin 1))"

record rotary =
  rot_sin :: "flt list list"
  rot_cos :: "flt list list"

text \<open>
  One row per position, in single precision; the product has one term per entry. The
  position count is taken below \<open>2 ^ 32\<close>: a larger one makes the reshape fail in the
  library, which is not modelled.
\<close>

definition rotary_table :: "(flt \<Rightarrow> flt) \<Rightarrow> flt \<Rightarrow> nat \<Rightarrow> flt list \<Rightarrow> flt list list" where
  "rotary_table f scale positions freqs =
     List.map (\<lambda>t. List.map (\<lambda>w. fmul round32 (f (fmul round32 (round32 (real t)) w)) scale) freqs) [0..<positions]"

definition rotary_new ::
  "(flt \<Rightarrow> flt \<Rightarrow> flt) \<Rightarrow> (flt \<Rightarrow> flt) \<Rightarrow> (flt \<Rightarrow> flt) \<Rightarrow> (flt \<Rightarrow> flt) \<Rightarrow> modern_config \<Rightarrow> flt \<Rightarrow> rotary option" where
  "rotary_new powf fln fsin fcos c theta =
     (if mc_num_attention_heads c = 0 then None
      else (let hdim = mc_hidden_size c div mc_num_attention_heads c;
                freqs = inv_freq powf fln c theta hdim;
                scale = attention_scaling fln c
            in Some \<lparr>rot_sin = rotary_table fsin scale (mc_max_position_embeddings c) freqs,
                     rot_cos = rotary_table fcos scale (mc_max_position_embeddings c) freqs\<rparr>))"

section \<open>Attention masks\<close>

text \<open>\<open>f32::MIN\<close>, and the cast \<open>as i32\<close> of an index.\<close>

definition F32_MIN :: flt where "F32_MIN = Fin (- (2 ^ 128 - 2 ^ 104))"

definition as_i32 :: "nat \<Rightarrow> int" where
  "as_i32 n = (let m = int (n mod 2 ^ 32) in if m < 2 ^ 31 then m else m - 2 ^ 32)"

text \<open>The global mask repeats one row, computed from the padding mask, for every token.\<close>

definition prepare_4d_attention_mask :: "flt list \<Rightarrow> flt list list" where
  "prepare_4d_attention_mask pad =
     replicate (length pad) (List.map (\<lambda>m. fmul round32 (fsub round32 (Fin 1) m) F32_MIN) pad)"

definition get_local_attention_mask :: "nat \<Rightarrow> nat \<Rightarrow> flt list list" where
  "get_local_attention_mask seq_len max_distance =
     List.map (\<lambda>i. List.map (\<lambda>j. if as_i32 max_distance < \<bar>as_i32 j - as_i32 i\<bar> then NInf else Fin 0) [0..<seq_len])
       [0..<seq_len]"

definition layer_mask :: "bool \<Rightarrow> flt list list \<Rightarrow> flt list list \<Rightarrow> flt list list" where
  "layer_mask uses_local global_mask local_mask =
     (if uses_local then List.map (\<lambda>(g, l). List.map (\<lambda>(a, b). fadd round32 a b) (zip g l)) (zip global_mask local_mask)
      else global_mask)"

section \<open>Layers and the model\<close>

text \<open>
  \<open>'t\<close> is the type of tensors. A checkpoint gives, for a path and sizes, the layer that the
  tensor library builds from it, or its error.
\<close>

type_synonym 't op = "'t \<Rightarrow> string + 't"

record 't checkpoint =
  ck_embedding :: "nat \<Rightarrow> nat \<Rightarrow> string \<Rightarrow> string + (nat list \<Rightarrow> string + 't)"
  ck_norm :: "nat \<Rightarrow> flt \<Rightarrow> string \<Rightarrow> string + 't op"
  ck_attention :: "modern_config \<Rightarrow> string \<Rightarrow> rotary \<Rightarrow> string + ('t \<Rightarrow> flt list list \<Rightarrow> string + 't)"
  ck_mlp :: "modern_config \<Rightarrow> string \<Rightarrow> string + 't op"

record 't bert_layer =
  ly_attn :: "'t \<Rightarrow> flt list list \<Rightarrow> string + 't"
  ly_mlp :: "'t op"
  ly_attn_norm :: "'t op option"
  ly_mlp_norm :: "'t op"
  ly_local :: bool

record 't modern_bert =
  mb_embed :: "nat list \<Rightarrow> string + 't"
  mb_norm :: "'t op"
  mb_layers :: "'t bert_layer list"
  mb_final_norm :: "'t op"
  mb_local_size :: nat

definition layer_load ::
  "'t checkpoint \<Rightarrow> modern_config \<Rightarrow> string \<Rightarrow> rotary \<Rightarrow> bool \<Rightarrow> string + 't bert_layer" where
  "layer_load ck c path rot uses_local =
     bind_res (ck_attention ck c (path @ ''.attn'') rot) (\<lambda>attn.
     bind_res (ck_mlp ck c (path @ ''.mlp'')) (\<lambda>mlp.
     (let attn_norm = (case ck_norm ck (mc_hidden_size c) (mc_layer_norm_eps c) (path @ ''.attn_norm'') of
                         Inl _ \<Rightarrow> None | Inr f \<Rightarrow> Some f)
      in bind_res (ck_norm ck (mc_hidden_size c) (mc_layer_norm_eps c) (path @ ''.mlp_norm'')) (\<lambda>mlp_norm.
         Inr \<lparr>ly_attn = attn, ly_mlp = mlp, ly_attn_norm = attn_norm, ly_mlp_norm = mlp_norm, ly_local = uses_local\<rparr>))))"

text \<open>\<open>None\<close> for a \<open>global_attn_every_n_layers\<close> of zero, whose remainder panics.\<close>

fun layers_load ::
  "'t checkpoint \<Rightarrow> modern_config \<Rightarrow> rotary \<Rightarrow> rotary \<Rightarrow> nat list \<Rightarrow> (string + 't bert_layer list) option" where
  "layers_load ck c global_rot local_rot [] = Some (Inr [])"
| "layers_load ck c global_rot local_rot (k # ks) =
     (if mc_global_attn_every_n_layers c = 0 then None
      else (let uses_local = (k mod mc_global_attn_every_n_layers c \<noteq> 0)
            in case layer_load ck c (''model.layers.'' @ show_nat k) (if uses_local then local_rot else global_rot) uses_local of
                 Inl e \<Rightarrow> Some (Inl e)
               | Inr l \<Rightarrow> map_option (\<lambda>r. bind_res r (\<lambda>ls. Inr (l # ls))) (layers_load ck c global_rot local_rot ks)))"

definition modern_load ::
  "'t checkpoint \<Rightarrow> (modern_config \<Rightarrow> flt \<Rightarrow> rotary option) \<Rightarrow> modern_config \<Rightarrow> (string + 't modern_bert) option" where
  "modern_load ck rotary_of c =
     (case ck_embedding ck (mc_vocab_size c) (mc_hidden_size c) ''model.embeddings.tok_embeddings'' of
        Inl e \<Rightarrow> Some (Inl e)
      | Inr emb \<Rightarrow>
     (case ck_norm ck (mc_hidden_size c) (mc_layer_norm_eps c) ''model.embeddings.norm'' of
        Inl e \<Rightarrow> Some (Inl e)
      | Inr nrm \<Rightarrow>
     (case (rotary_of c (mc_global_rope_theta c), rotary_of c (mc_local_rope_theta c)) of
        (Some global_rot, Some local_rot) \<Rightarrow>
          map_option (\<lambda>r. bind_res r (\<lambda>layers.
            bind_res (ck_norm ck (mc_hidden_size c) (mc_layer_norm_eps c) ''model.final_norm'') (\<lambda>final_norm.
              Inr \<lparr>mb_embed = emb, mb_norm = nrm, mb_layers = layers, mb_final_norm = final_norm,
                   mb_local_size = mc_local_attention c\<rparr>)))
            (layers_load ck c global_rot local_rot [0..<mc_num_hidden_layers c])
      | _ \<Rightarrow> None)))"

text \<open>\<open>add\<close> is the tensor addition of the residual connections.\<close>

definition layer_forward ::
  "('t \<Rightarrow> 't \<Rightarrow> string + 't) \<Rightarrow> flt list list \<Rightarrow> flt list list \<Rightarrow> 't bert_layer \<Rightarrow> 't \<Rightarrow> string + 't" where
  "layer_forward add global_mask local_mask l xs =
     bind_res (case ly_attn_norm l of None \<Rightarrow> Inr xs | Some nrm \<Rightarrow> nrm xs) (\<lambda>normed.
     bind_res (ly_attn l normed (layer_mask (ly_local l) global_mask local_mask)) (\<lambda>attended.
     bind_res (add attended xs) (\<lambda>ys.
     bind_res (ly_mlp_norm l ys) (\<lambda>zs.
     bind_res (ly_mlp l zs) (\<lambda>out. add ys out)))))"

fun layers_forward ::
  "('t \<Rightarrow> 't \<Rightarrow> string + 't) \<Rightarrow> flt list list \<Rightarrow> flt list list \<Rightarrow> 't bert_layer list \<Rightarrow> 't \<Rightarrow> string + 't" where
  "layers_forward add global_mask local_mask [] xs = Inr xs"
| "layers_forward add global_mask local_mask (l # ls) xs =
     bind_res (layer_forward add global_mask local_mask l xs) (layers_forward add global_mask local_mask ls)"

definition modern_forward ::
  "('t \<Rightarrow> 't \<Rightarrow> string + 't) \<Rightarrow> 't modern_bert \<Rightarrow> nat list \<Rightarrow> flt list \<Rightarrow> string + 't" where
  "modern_forward add m ids pad =
     (let global_mask = prepare_4d_attention_mask pad;
          local_mask = get_local_attention_mask (length ids) (mb_local_size m div 2)
      in bind_res (mb_embed m ids) (\<lambda>xs0. bind_res (mb_norm m xs0) (\<lambda>xs.
         bind_res (layers_forward add global_mask local_mask (mb_layers m) xs) (mb_final_norm m))))"

section \<open>Rounding twice\<close>

text \<open>A rounded value is rounded to itself.\<close>

lemma round_at_idem_pos:
  fixes emin :: int
  assumes "0 < x" and "1 \<le> p"
  defines "y \<equiv> round_at (ulp_exp p emin x) x"
  shows "round_at (ulp_exp p emin y) y = y"
proof (cases "y = 0")
  case False
  define k e where "k = \<lfloor>log 2 x\<rfloor>" and "e = ulp_exp p emin x"
  have e: "e = max emin (k + 1 - int p)" using assms(1) by (simp add: e_def k_def ulp_exp_def)
  have y: "y = of_int (round_even (x / 2 powi e)) * 2 powi e" by (simp add: y_def e_def round_at_def)
  have "0 \<le> y" unfolding y_def using assms(1) by (intro round_at_nonneg) simp
  with False have pos: "0 < y" by simp
  have ulp: "ulp_exp p emin y = max emin (\<lfloor>log 2 y\<rfloor> + 1 - int p)" using pos by (simp add: ulp_exp_def)
  show ?thesis
  proof (cases "ulp_exp p emin y \<le> e")
    case True
    then show ?thesis unfolding y by (rule round_at_multiple)
  next
    case False
    then have "k + 1 \<le> \<lfloor>log 2 y\<rfloor>" "emin < ulp_exp p emin y" unfolding ulp e by auto
    then have j: "ulp_exp p emin y \<le> \<lfloor>log 2 y\<rfloor>" "k + 1 \<le> \<lfloor>log 2 y\<rfloor>" unfolding ulp using assms(2) by auto
    define b where "b = \<lfloor>log 2 y\<rfloor>"
    have "e \<le> b" using False j unfolding b_def by linarith
    have "x \<le> 2 powi b"
    proof -
      have "x \<le> 2 powi (k + 1)" using log2_bounds(2) [OF assms(1)] by (simp add: k_def)
      also have "(2 :: real) powi (k + 1) \<le> 2 powi b" using j(2) by (intro power_int_increasing) (simp_all add: b_def)
      finally show ?thesis .
    qed
    then have "y \<le> 2 powi b"
      unfolding y_def e_def [symmetric] by (rule round_at_powi_le [OF \<open>e \<le> b\<close>])
    moreover have "2 powi b \<le> y" unfolding b_def by (rule log2_bounds(1) [OF pos])
    ultimately have "y = of_int 1 * 2 powi b" by simp
    then show ?thesis using round_at_multiple [OF j(1), of 1] unfolding b_def by metis
  qed
qed simp

lemma ieee_round_idem:
  assumes "ieee_round p emin emax x = Fin y" and "1 \<le> p"
  shows "ieee_round p emin emax y = Fin y"
proof -
  have y: "y = round_at (ulp_exp p emin x) x"
    using assms(1) by (simp add: ieee_round_def clip_range_def split: if_splits)
  have "round_at (ulp_exp p emin y) y = y"
  proof (cases "x = 0")
    case False
    then consider "0 < x" | "0 < - x" by linarith
    then show ?thesis
    proof cases
      case 1
      from round_at_idem_pos [OF this assms(2)] show ?thesis unfolding y .
    next
      case 2
      from round_at_idem_pos [OF this assms(2), of emin] show ?thesis unfolding y by (simp add: round_at_minus)
    qed
  qed (simp add: y)
  then show ?thesis using assms(1) y by (simp add: ieee_round_def clip_range_def split: if_splits)
qed

lemma round64_idem: "round64 x = Fin y \<Longrightarrow> round64 y = Fin y"
  unfolding round64_def by (rule ieee_round_idem) simp_all

section \<open>The YaRN band\<close>

text \<open>\<open>is_f64\<close>: a finite value of double precision.\<close>

definition is_f64 :: "flt \<Rightarrow> bool" where
  "is_f64 a \<longleftrightarrow> (\<exists>x. a = Fin x \<and> round64 x = Fin x)"

lemma is_f64_mult_unit:
  assumes "is_f64 a"
  shows "fmul round64 a (Fin 0) = Fin 0" and "fmul round64 a (Fin 1) = a"
    and "fadd round64 a (Fin 0) = a" and "fadd round64 (Fin 0) a = a"
  using assms by (auto simp: is_f64_def)

lemma yarn_freq_edges:
  assumes "is_f64 (fdiv round64 (Fin 1) pos)" and "is_f64 (fdiv round64 (Fin 1) (fmul round64 scale pos))"
  shows "yarn_freq scale pos (Fin 0) = fcast round32 (fdiv round64 (Fin 1) pos)"
    and "yarn_freq scale pos (Fin 1) = fcast round32 (fdiv round64 (Fin 1) (fmul round64 scale pos))"
  using assms by (simp_all add: yarn_freq_def Let_def fsub_def is_f64_mult_unit)

lemma clamp_unit_range: "a \<noteq> NaN \<Longrightarrow> \<exists>t. clamp_unit a = Fin t \<and> 0 \<le> t \<and> t \<le> 1"
  by (cases a) (auto simp: clamp_unit_def flt_lt_def)

lemma clamp_unit_low: "flt_le a (Fin 0) \<Longrightarrow> clamp_unit a = Fin 0"
  by (cases a) (auto simp: clamp_unit_def flt_lt_def)

lemma clamp_unit_high: "flt_le (Fin 1) a \<Longrightarrow> clamp_unit a = Fin 1"
  by (cases a) (auto simp: clamp_unit_def flt_lt_def)

lemma fdiv_pos_le_0: "flt_le a (Fin 0) \<Longrightarrow> 0 < d \<Longrightarrow> flt_le (fdiv round64 a (Fin d)) (Fin 0)"
  using f64.rnd_mono [of _ 0] by (cases a) (auto simp: inf_of_sign_def divide_nonpos_pos)

text \<open>The edges of the band are whole numbers, so the ramp divides by their exact difference.\<close>

lemma yarn_ramp_eq:
  assumes "0 < w" and "a + w \<le> 2 ^ 53" and "j \<le> 2 ^ 53"
  shows "yarn_ramp (Fin (real a)) (Fin (real (a + w))) j =
    clamp_unit (fdiv round64 (round64 (real j - real a)) (Fin (real w)))"
proof -
  have "round64 (real w) = Fin (real w)" using assms(2) by (intro f64.rnd_nat) simp
  then have d: "fsub round64 (Fin (real (a + w))) (Fin (real a)) = Fin (real w)" by (simp add: fsub_def)
  have "1 \<le> real w" using assms(1) by simp
  moreover have "(1 :: real) / 2 ^ 52 \<le> 1" by simp
  ultimately have "\<not> flt_lt (fabs (Fin (real w))) F64_EPSILON" unfolding F64_EPSILON_def by (simp add: not_less)
  moreover have "nat_as_f64 j = Fin (real j)" unfolding nat_as_f64_def by (rule f64.rnd_nat [OF assms(3)])
  ultimately show ?thesis unfolding yarn_ramp_def d by (simp add: fsub_def)
qed

lemma yarn_ramp_edges:
  assumes "a < b" and "b \<le> 2 ^ 53" and "j \<le> 2 ^ 53"
  shows "j \<le> a \<Longrightarrow> yarn_ramp (Fin (real a)) (Fin (real b)) j = Fin 0"
    and "b \<le> j \<Longrightarrow> yarn_ramp (Fin (real a)) (Fin (real b)) j = Fin 1"
    and "\<exists>t. yarn_ramp (Fin (real a)) (Fin (real b)) j = Fin t \<and> 0 \<le> t \<and> t \<le> 1"
proof -
  obtain w where b: "b = a + w" and w: "0 < w" using assms(1) less_imp_add_positive by blast
  note eq = yarn_ramp_eq [OF w assms(2) [unfolded b] assms(3), folded b]
  have d: "0 < real w" using w by simp
  show "yarn_ramp (Fin (real a)) (Fin (real b)) j = Fin 0" if "j \<le> a"
  proof -
    have "flt_le (round64 (real j - real a)) (Fin 0)" using that f64.rnd_mono [of "real j - real a" 0] by simp
    from clamp_unit_low [OF fdiv_pos_le_0 [OF this d]] show ?thesis unfolding eq .
  qed
  show "yarn_ramp (Fin (real a)) (Fin (real b)) j = Fin 1" if "b \<le> j"
  proof -
    define m where "m = j - a"
    have m: "j = a + m" "w \<le> m" using that b by (simp_all add: m_def)
    have "round64 (real m) = Fin (real m)" using m(1) assms(3) by (intro f64.rnd_nat) simp
    then have "fdiv round64 (round64 (real j - real a)) (Fin (real w)) = round64 (real m / real w)"
      using w by (simp add: m(1))
    moreover have "1 \<le> real m / real w" using m(2) w by simp
    then have "flt_le (Fin 1) (round64 (real m / real w))" using f64.rnd_mono [of 1] by simp
    ultimately show ?thesis unfolding eq by (simp add: clamp_unit_high)
  qed
  have "fdiv round64 (round64 (real j - real a)) (Fin (real w)) \<noteq> NaN"
    using d f64.rnd_not_NaN [of "real j - real a"] by (cases "round64 (real j - real a)") (auto simp: inf_of_sign_def)
  then show "\<exists>t. yarn_ramp (Fin (real a)) (Fin (real b)) j = Fin t \<and> 0 \<le> t \<and> t \<le> 1"
    unfolding eq by (rule clamp_unit_range)
qed

lemma reciprocal_is_f64:
  assumes "flt_le (Fin 1) a" shows "is_f64 (fdiv round64 (Fin 1) a)"
proof (cases a)
  case (Fin x)
  with assms have x: "0 \<le> 1 / x" "1 / x \<le> 1" "x \<noteq> 0" by auto
  obtain z where "round64 (1 / x) = Fin z" using f64.rnd_unit [OF x(1,2)] by blast
  with Fin x(3) show ?thesis by (simp add: is_f64_def round64_idem)
qed (use assms in \<open>auto simp: is_f64_def\<close>)

lemma nth_even_steps: "j < (n + 1) div 2 \<Longrightarrow> even_steps n ! j = 2 * j"
  by (simp add: even_steps_def)

lemma length_even_steps [simp]: "length (even_steps n) = (n + 1) div 2"
  by (simp add: even_steps_def)

text \<open>
  With YaRN scaling, the frequencies below the correction band are those of the unscaled
  embedding, the ones above it are interpolated by the scaling factor, and in between a
  ramp from 0 to 1 mixes the two; without it every frequency is the plain one.
\<close>

theorem yarn_band:
  assumes "yarn_scaling c = Some r" and "j < (hdim + 1) div 2" and "hdim \<le> 2 ^ 53"
    and "yarn_low fln theta hdim r = Fin (real a)" and "yarn_high fln theta hdim r = Fin (real b)"
    and "a < b" and "b \<le> hdim"
    and "flt_le (Fin 1) (rope_pos powf theta hdim (2 * j))" and "flt_le (Fin 1) (rope_factor r)"
  defines "freq \<equiv> inv_freq powf fln c theta hdim ! j" and "pos \<equiv> rope_pos powf theta hdim (2 * j)"
  shows "(j \<le> a \<longrightarrow> freq = fcast round32 (fdiv round64 (Fin 1) pos)) \<and>
    (b \<le> j \<longrightarrow> freq = fcast round32 (fdiv round64 (Fin 1) (fmul round64 (rope_factor r) pos))) \<and>
    (\<exists>t. freq = yarn_freq (rope_factor r) pos (Fin t) \<and> 0 \<le> t \<and> t \<le> 1)"
proof -
  have freq: "freq = yarn_freq (rope_factor r) pos (yarn_ramp (Fin (real a)) (Fin (real b)) j)"
    using assms(1,2,4,5) by (simp add: freq_def pos_def inv_freq_def Let_def nth_enumerate_eq nth_even_steps)
  have "b \<le> 2 ^ 53" "j \<le> 2 ^ 53" using assms(2,3,7) by linarith+
  note edges = yarn_ramp_edges [OF assms(6) this]
  have "flt_le (Fin 1) (fmul round64 (rope_factor r) pos)"
  proof (cases "rope_factor r")
    case (Fin s)
    show ?thesis
    proof (cases pos)
      case (Fin x)
      with \<open>rope_factor r = Fin s\<close> assms(8,9) have "1 \<le> s * x" using mult_mono [of 1 s 1 x] by (simp add: pos_def)
      then show ?thesis using f64.rnd_mono [of 1 "s * x"] \<open>rope_factor r = Fin s\<close> Fin by simp
    qed (use Fin assms(8,9) in \<open>auto simp: pos_def inf_of_sign_def sgn_if\<close>)
  qed (use assms(8,9) in \<open>cases pos; auto simp: pos_def inf_of_sign_def sgn_if\<close>)+
  then have "is_f64 (fdiv round64 (Fin 1) pos)" "is_f64 (fdiv round64 (Fin 1) (fmul round64 (rope_factor r) pos))"
    using assms(8) unfolding pos_def by (auto intro: reciprocal_is_f64)
  from yarn_freq_edges [OF this] edges show ?thesis unfolding freq by metis
qed

text \<open>A configuration of eight components per head, whose band runs from 0 to 2.\<close>

definition demo_modern :: modern_config where
  "demo_modern =
     \<lparr>mc_vocab_size = 16, mc_hidden_size = 16, mc_num_hidden_layers = 4, mc_num_attention_heads = 2,
      mc_intermediate_size = 16, mc_max_position_embeddings = 8, mc_layer_norm_eps = Fin 0, mc_pad_token_id = 0,
      mc_global_attn_every_n_layers = 3, mc_global_rope_theta = Fin 10000, mc_local_attention = 2,
      mc_local_rope_theta = Fin 10000,
      mc_rope_scaling = Some \<lparr>rope_type = ''YaRN'', rope_factor = Fin 4, rope_beta_fast = Fin 0,
        rope_beta_slow = Fin 1, rope_original = 8\<rparr>\<rparr>"

definition demo_ln :: "flt \<Rightarrow> flt" where
  "demo_ln x = (if x = PInf then Fin 0 else if x = Fin 10000 then Fin 2 else Fin 1)"

lemma demo_yarn: "yarn_scaling demo_modern = mc_rope_scaling demo_modern"
  by code_simp

lemma pi_f64: "\<exists>y. F64_PI = Fin y \<and> 2 \<le> y \<and> y \<le> 4"
proof -
  have "round64 2 = Fin 2" "round64 4 = Fin 4" using f64.rnd_nat [of 2] f64.rnd_nat [of 4] by simp_all
  moreover have "2 \<le> pi" "pi \<le> 4" using pi_ge_two pi_less_4 by simp_all
  ultimately show ?thesis
    using f64.rnd_mono [of 2 pi] f64.rnd_mono [of pi 4] by (auto simp: F64_PI_def dest: flt_le_betweenD)
qed

lemma demo_band:
  "yarn_low demo_ln (Fin 10000) 8 (the (mc_rope_scaling demo_modern)) = Fin (real 0)"
  "yarn_high demo_ln (Fin 10000) 8 (the (mc_rope_scaling demo_modern)) = Fin (real 2)"
proof -
  obtain y where y: "F64_PI = Fin y" "2 \<le> y" "y \<le> 4" using pi_f64 by blast
  have exact: "round64 0 = Fin 0" "round64 1 = Fin 1" "round64 2 = Fin 2" "round64 4 = Fin 4" "round64 7 = Fin 7"
    "round64 8 = Fin 8"
    using f64.rnd_nat [of 2] f64.rnd_nat [of 4] f64.rnd_nat [of 7] f64.rnd_nat [of 8] by simp_all
  show "yarn_low demo_ln (Fin 10000) 8 (the (mc_rope_scaling demo_modern)) = Fin (real 0)"
    by (simp add: yarn_low_def yarn_corr_def demo_modern_def demo_ln_def nat_as_f64_def exact inf_of_sign_def y(1))
  obtain z where z: "round64 (2 * y) = Fin z" "4 \<le> z"
    using f64.rnd_mono [of 4 "2 * y"] f64.rnd_mono [of "2 * y" 8] y exact by (auto dest: flt_le_betweenD)
  then have "0 \<le> 8 / z" "8 / z \<le> 2" by (simp_all add: field_simps)
  then obtain u where u: "round64 (8 / z) = Fin u" "u \<le> 2"
    using f64.rnd_mono [of 0 "8 / z"] f64.rnd_mono [of "8 / z" 2] exact by (auto dest: flt_le_betweenD)
  show "yarn_high demo_ln (Fin 10000) 8 (the (mc_rope_scaling demo_modern)) = Fin (real 2)"
    using z(2) u(2) by (simp add: yarn_high_def yarn_corr_def demo_modern_def demo_ln_def nat_as_f64_def exact fsub_def y(1) z(1) u(1))
qed

theorem yarn_band_witness:
  "inv_freq (\<lambda>_ _. Fin 2) demo_ln demo_modern (Fin 10000) 8 ! 3 =
     fcast round32 (fdiv round64 (Fin 1) (fmul round64 (Fin 4) (Fin 2)))"
  using yarn_band [of demo_modern "the (mc_rope_scaling demo_modern)" 3 8 demo_ln "Fin 10000" 0 2 "\<lambda>_ _. Fin 2"]
    demo_yarn demo_band
  by (simp add: rope_pos_def demo_modern_def)

section \<open>The attention window\<close>

lemma layers_load_local:
  assumes "layers_load ck c gr lr ks = Some (Inr ls)"
  shows "List.map ly_local ls = List.map (\<lambda>k. k mod mc_global_attn_every_n_layers c \<noteq> 0) ks \<and>
    (ks \<noteq> [] \<longrightarrow> 0 < mc_global_attn_every_n_layers c)"
  using assms
proof (induction ks arbitrary: ls)
  case (Cons k ks)
  then show ?case
    by (auto simp: Let_def layer_load_def bind_res_Inr_iff split: if_splits sum.splits)
qed simp

lemma modern_loadD:
  assumes "modern_load ck rotary_of c = Some (Inr m)"
  shows "length (mb_layers m) = mc_num_hidden_layers c" and "mb_local_size m = mc_local_attention c"
    and "k < mc_num_hidden_layers c \<Longrightarrow>
      ly_local (mb_layers m ! k) = (k mod mc_global_attn_every_n_layers c \<noteq> 0)"
proof -
  obtain gr lr where load: "layers_load ck c gr lr [0..<mc_num_hidden_layers c] = Some (Inr (mb_layers m))"
    and size: "mb_local_size m = mc_local_attention c"
    using assms by (auto simp: modern_load_def bind_res_Inr_iff split: sum.splits option.splits prod.splits)
  from layers_load_local [OF load]
  have l: "List.map ly_local (mb_layers m) = List.map (\<lambda>k. k mod mc_global_attn_every_n_layers c \<noteq> 0) [0..<mc_num_hidden_layers c]"
    by simp
  from arg_cong [OF l, of length] show len: "length (mb_layers m) = mc_num_hidden_layers c" by simp
  show "mb_local_size m = mc_local_attention c" by (rule size)
  show "ly_local (mb_layers m ! k) = (k mod mc_global_attn_every_n_layers c \<noteq> 0)" if "k < mc_num_hidden_layers c"
    using arg_cong [OF l, of "\<lambda>xs. xs ! k"] that len by simp
qed

lemma as_i32_small: "n < 2 ^ 31 \<Longrightarrow> as_i32 n = int n"
  by (simp add: as_i32_def Let_def)

lemma unpadded_mask: "prepare_4d_attention_mask (replicate n (Fin 1)) = replicate n (replicate n (Fin 0))"
  by (simp add: prepare_4d_attention_mask_def fsub_def F32_MIN_def)

lemma local_mask_entry:
  assumes "i < n" and "j < n" and "n \<le> 2 ^ 31" and "d < 2 ^ 31"
  shows "get_local_attention_mask n d ! i ! j = (if \<bar>int j - int i\<bar> \<le> int d then Fin 0 else NInf)"
  using assms by (simp add: get_local_attention_mask_def as_i32_small not_less)

lemma length_local_mask [simp]: "length (get_local_attention_mask n d) = n"
  "i < n \<Longrightarrow> length (get_local_attention_mask n d ! i) = n"
  by (simp_all add: get_local_attention_mask_def)

text \<open>
  C20. In a loaded encoder, layer \<open>k\<close> lets token \<open>i\<close> attend to
  token \<open>j\<close> of an unpadded input exactly when \<open>k\<close> is a multiple
  of the configured period or the two are at most half the local window apart; everything
  else is masked with minus infinity.
\<close>

theorem attention_window:
  assumes "modern_load ck rotary_of c = Some (Inr m)" and "k < mc_num_hidden_layers c"
    and "i < n" and "j < n" and "n \<le> 2 ^ 31" and "mc_local_attention c < 2 ^ 32"
  shows "layer_mask (ly_local (mb_layers m ! k)) (prepare_4d_attention_mask (replicate n (Fin 1)))
      (get_local_attention_mask n (mb_local_size m div 2)) ! i ! j =
    (if mc_global_attn_every_n_layers c dvd k \<or> \<bar>int j - int i\<bar> \<le> int (mc_local_attention c div 2) then Fin 0 else NInf)"
proof -
  note load = modern_loadD [OF assms(1)]
  have "mc_local_attention c div 2 < 2 ^ 31" using assms(6) by (simp add: less_mult_imp_div_less)
  from local_mask_entry [OF assms(3-5) this]
  have entry: "get_local_attention_mask n (mb_local_size m div 2) ! i ! j =
      (if \<bar>int j - int i\<bar> \<le> int (mc_local_attention c div 2) then Fin 0 else NInf)"
    by (simp only: load(2))
  show ?thesis
    using assms(3,4) unfolding load(3) [OF assms(2)] unpadded_mask
    by (auto simp: layer_mask_def entry dvd_eq_mod_eq_0)
qed

definition demo_checkpoint :: "unit checkpoint" where
  "demo_checkpoint =
     \<lparr>ck_embedding = (\<lambda>_ _ _. Inr (\<lambda>_. Inr ())), ck_norm = (\<lambda>_ _ _. Inr Inr),
      ck_attention = (\<lambda>_ _ _. Inr (\<lambda>_ _. Inr ())), ck_mlp = (\<lambda>_ _. Inr Inr)\<rparr>"

theorem attention_window_witness:
  "\<exists>m. modern_load demo_checkpoint (\<lambda>_ _. Some \<lparr>rot_sin = [], rot_cos = []\<rparr>) demo_modern = Some (Inr m) \<and>
     layer_mask (ly_local (mb_layers m ! 1)) (prepare_4d_attention_mask (replicate 3 (Fin 1)))
       (get_local_attention_mask 3 (mb_local_size m div 2)) ! 0 ! 2 = NInf"
proof -
  obtain m where m: "modern_load demo_checkpoint (\<lambda>_ _. Some \<lparr>rot_sin = [], rot_cos = []\<rparr>) demo_modern = Some (Inr m)"
    by (simp add: modern_load_def demo_checkpoint_def demo_modern_def upt_rec layer_load_def)
  from attention_window [OF this, of 1 0 3 2] m show ?thesis by (simp add: demo_modern_def)
qed

end
