(* ===== verification/EmbeddingLoad.thy ===== *)
theory EmbeddingLoad
  imports ModernBert Backends ModelRuntime
begin

text \<open>
  Loading and running the resident encoder (\<open>src/src/embedding.rs\<close>, the loading half of
  \<open>src/src/head.rs\<close> and \<open>CandleClassifier::from_modelcar\<close> of \<open>src/src/classify.rs\<close>): which
  configurations are accepted, which backbone and head they get, and what one forward pass
  gives. Decoding JSON, the tensor operations, the \<open>bert\<close> encoder and the tokenizer are
  libraries, parameters of the records below. \<open>None\<close> is a panic.
\<close>

section \<open>Errors and JSON\<close>

datatype embedding_error =
    EmbIo string
  | EmbJson string
  | EmbCandle string
  | EmbTokenizer string
  | EmbMissingField string
  | UnsupportedRopeScaling string

definition show_embedding_error :: "embedding_error \<Rightarrow> string" where
  "show_embedding_error e =
     (case e of
        EmbIo m \<Rightarrow> ''embedding config io error: '' @ m
      | EmbJson m \<Rightarrow> ''embedding config json error: '' @ m
      | UnsupportedRopeScaling k \<Rightarrow>
          ''checkpoint declares rope_scaling type '' @ [CHR 0x27] @ k @ [CHR 0x27] @
          '', which this build does not implement. Only '' @ [CHR 0x27] @ ''yarn'' @ [CHR 0x27] @
          '' is supported (see src/modernbert.rs). Loading an unimplemented scaling would emit rotated embeddings while argmax still looked plausible, so this refuses rather than serving wrong scores.''
      | EmbCandle m \<Rightarrow> ''embedding candle error: '' @ m
      | EmbTokenizer m \<Rightarrow> ''embedding tokenizer error: '' @ m
      | EmbMissingField n \<Rightarrow> ''embedding config missing field: '' @ n)"

text \<open>\<open>'j\<close> is a parsed JSON value, with the accessors the code calls on it.\<close>

record 'j json_ops =
  js_parse :: "string \<Rightarrow> string + 'j"
  js_get :: "'j \<Rightarrow> string \<Rightarrow> 'j option"
  js_str :: "'j \<Rightarrow> string option"
  js_bool :: "'j \<Rightarrow> bool option"
  js_u64 :: "'j \<Rightarrow> nat option"
  js_array :: "'j \<Rightarrow> 'j list option"
  js_null :: "'j \<Rightarrow> bool"

definition parsed :: "'j json_ops \<Rightarrow> string \<Rightarrow> 'j option" where
  "parsed js raw = (case js_parse js raw of Inl _ \<Rightarrow> None | Inr v \<Rightarrow> Some v)"

section \<open>The configuration gate\<close>

definition contract_load :: "'j json_ops \<Rightarrow> (string \<Rightarrow> string + string) \<Rightarrow> string \<Rightarrow> embedding_error + nat" where
  "contract_load js read path =
     bind_res (map_err EmbIo (read path)) (\<lambda>raw.
     bind_res (map_err EmbJson (js_parse js raw)) (\<lambda>root.
       (let field = (case js_get js root ''word_embedding_dimension'' of
                       Some v \<Rightarrow> Some v | None \<Rightarrow> js_get js root ''embedding_dimension'')
        in case Option.bind field (js_u64 js) of
             None \<Rightarrow> Inl (EmbMissingField ''word_embedding_dimension'')
           | Some n \<Rightarrow> Inr n)))"

definition rope_scaling_kind :: "'j json_ops \<Rightarrow> string \<Rightarrow> string option" where
  "rope_scaling_kind js raw =
     Option.bind (parsed js raw) (\<lambda>v. Option.bind (js_get js v ''rope_scaling'') (\<lambda>rs.
       if js_null js rs then None
       else Some (case Option.bind (js_get js rs ''rope_type'') (js_str js) of None \<Rightarrow> ''unknown'' | Some k \<Rightarrow> k)))"

text \<open>
  The typed decoders that \<open>serde\<close> derives: the probe of \<open>model_type\<close>, the \<open>bert\<close> and the
  ModernBERT configuration, and the \<open>id2label\<close> member.
\<close>

record ('j, 'b) config_parsers =
  cp_json :: "'j json_ops"
  cp_model_type :: "string \<Rightarrow> string + string option"
  cp_bert :: "string \<Rightarrow> string + 'b"
  cp_bert_hidden :: "'b \<Rightarrow> nat"
  cp_modern :: "string \<Rightarrow> string + modern_config"
  cp_id2label :: "string \<Rightarrow> (string \<times> string) list option"

datatype backbone_kind = KindBert | KindModernBert

datatype 'b backbone_config = ConfigBert 'b | ConfigModern modern_config

primrec config_kind :: "'b backbone_config \<Rightarrow> backbone_kind" where
  "config_kind (ConfigBert c) = KindBert"
| "config_kind (ConfigModern c) = KindModernBert"

primrec config_hidden_size :: "('j, 'b) config_parsers \<Rightarrow> 'b backbone_config \<Rightarrow> nat" where
  "config_hidden_size cp (ConfigBert c) = cp_bert_hidden cp c"
| "config_hidden_size cp (ConfigModern c) = mc_hidden_size c"

definition parse_config :: "('j, 'b) config_parsers \<Rightarrow> string \<Rightarrow> embedding_error + 'b backbone_config" where
  "parse_config cp raw =
     bind_res (map_err EmbJson (cp_model_type cp raw)) (\<lambda>model_type.
       if model_type = None \<or> model_type = Some ''bert'' then
         bind_res (map_err EmbJson (cp_bert cp raw)) (\<lambda>c. Inr (ConfigBert c))
       else if model_type = Some ''modernbert'' then
         (let load = bind_res (map_err EmbJson (cp_modern cp raw)) (\<lambda>c. Inr (ConfigModern c))
          in case rope_scaling_kind (cp_json cp) raw of
               Some kind \<Rightarrow> if \<not> eq_ignore_ascii_case kind ''yarn'' then Inl (UnsupportedRopeScaling kind) else load
             | None \<Rightarrow> load)
       else Inl (EmbMissingField ''unsupported model_type; llm-d-sc serves bert and modernbert''))"

section \<open>Tensors\<close>

text \<open>The operations of the tensor library, each with its error.\<close>

record 't tensor_ops =
  t_add :: "'t \<Rightarrow> 't \<Rightarrow> string + 't"
  t_mask3 :: "nat list \<Rightarrow> string + 't"  \<comment> \<open>\<open>unsqueeze(2)\<close> and \<open>to_dtype(F32)\<close> of the attention mask\<close>
  t_mul :: "'t \<Rightarrow> 't \<Rightarrow> string + 't"
  t_div :: "'t \<Rightarrow> 't \<Rightarrow> string + 't"
  t_sum1 :: "'t op"
  t_squeeze0 :: "'t op"
  t_unsqueeze0 :: "'t op"
  t_norm :: "'t op"
  t_cls :: "'t op"  \<comment> \<open>the hidden state of token 0, made contiguous\<close>
  t_tanh :: "'t op"
  t_gelu_erf :: "'t op"
  t_flatten :: "'t op"
  t_vec :: "'t \<Rightarrow> string + flt list"

definition mean_pool :: "'t tensor_ops \<Rightarrow> 't \<Rightarrow> nat list \<Rightarrow> string + 't" where
  "mean_pool t xs pad =
     bind_res (t_mask3 t pad) (\<lambda>m. bind_res (t_mul t xs m) (\<lambda>masked. bind_res (t_sum1 t masked) (\<lambda>total.
     bind_res (t_sum1 t m) (\<lambda>denom. t_div t total denom))))"

definition pool_and_normalize :: "'t tensor_ops \<Rightarrow> 't \<Rightarrow> nat list \<Rightarrow> embedding_error + flt list" where
  "pool_and_normalize t xs pad =
     map_err EmbCandle
       (bind_res (mean_pool t xs pad) (\<lambda>pooled. bind_res (t_squeeze0 t pooled) (\<lambda>flat.
        bind_res (t_norm t flat) (\<lambda>n. bind_res (t_unsqueeze0 t n) (\<lambda>n1. bind_res (t_div t flat n1) (t_vec t))))))"

section \<open>Weights, backbone and head\<close>

record ('b, 't) weights =
  w_bert :: "'b \<Rightarrow> string + (nat list \<Rightarrow> nat list \<Rightarrow> nat list \<Rightarrow> string + 't)"
  w_modern :: "'t checkpoint"
  w_linear :: "nat \<Rightarrow> nat \<Rightarrow> string \<Rightarrow> string + 't op"
  w_linear_no_bias :: "nat \<Rightarrow> nat \<Rightarrow> string \<Rightarrow> string + 't op"
  w_layer_norm :: "nat \<Rightarrow> flt \<Rightarrow> string \<Rightarrow> string + 't op"

datatype 't backbone =
    BackboneBert "nat list \<Rightarrow> nat list \<Rightarrow> nat list \<Rightarrow> string + 't"
  | BackboneModern "'t modern_bert"

primrec backbone_kind_of :: "'t backbone \<Rightarrow> backbone_kind" where
  "backbone_kind_of (BackboneBert m) = KindBert"
| "backbone_kind_of (BackboneModern m) = KindModernBert"

primrec backbone_load ::
  "('b, 't) weights \<Rightarrow> (modern_config \<Rightarrow> flt \<Rightarrow> rotary option) \<Rightarrow> 'b backbone_config \<Rightarrow>
     (embedding_error + 't backbone) option" where
  "backbone_load w rotary_of (ConfigBert c) =
     Some (map_err EmbCandle (bind_res (w_bert w c) (\<lambda>m. Inr (BackboneBert m))))"
| "backbone_load w rotary_of (ConfigModern c) =
     map_option (\<lambda>r. map_err EmbCandle (bind_res r (\<lambda>m. Inr (BackboneModern m)))) (modern_load (w_modern w) rotary_of c)"

text \<open>\<open>bert\<close> takes segment ids and the integer mask, ModernBERT the mask as floats.\<close>

primrec backbone_forward :: "'t tensor_ops \<Rightarrow> 't backbone \<Rightarrow> nat list \<Rightarrow> nat list \<Rightarrow> embedding_error + 't" where
  "backbone_forward t (BackboneBert m) ids pad = map_err EmbCandle (m ids (replicate (length ids) 0) pad)"
| "backbone_forward t (BackboneModern m) ids pad =
     map_err EmbCandle (modern_forward (t_add t) m ids (List.map (\<lambda>k. round32 (real k)) pad))"

datatype 't sequence_head =
    HeadBert "'t op" "'t op"
  | HeadModern "'t op" "'t op" "'t op" bool

definition ok_of :: "'e + 'a \<Rightarrow> 'a option" where
  "ok_of r = (case r of Inl _ \<Rightarrow> None | Inr a \<Rightarrow> Some a)"

definition head_load ::
  "('j, 'b) config_parsers \<Rightarrow> ('b, 't) weights \<Rightarrow> 'b backbone_config \<Rightarrow> string list \<Rightarrow> bool \<Rightarrow> bool \<Rightarrow>
     embedding_error + 't sequence_head option" where
  "head_load cp w config labels mean_pooling classifier_bias =
     (let n = label_map_len labels
      in if n < 2 then Inr None
         else (case config of
                 ConfigBert c \<Rightarrow>
                   (let h = cp_bert_hidden cp c;
                        pooler = (case ok_of (w_linear w h h ''bert.pooler.dense'') of
                                    Some l \<Rightarrow> Some l | None \<Rightarrow> ok_of (w_linear w h h ''pooler.dense''));
                        classifier = ok_of (w_linear w h n ''classifier'')
                    in case (pooler, classifier) of
                         (Some p, Some c) \<Rightarrow> Inr (Some (HeadBert p c)) | _ \<Rightarrow> Inr None)
               | ConfigModern c \<Rightarrow>
                   (let h = mc_hidden_size c;
                        dense = w_linear_no_bias w h h ''head.dense'';
                        nrm = w_layer_norm w h (mc_layer_norm_eps c) ''head.norm'';
                        classifier = (if classifier_bias then w_linear w h n ''classifier'' else w_linear_no_bias w h n ''classifier'')
                    in case (dense, nrm, classifier) of
                         (Inr d, Inr m, Inr c) \<Rightarrow> Inr (Some (HeadModern d m c mean_pooling)) | _ \<Rightarrow> Inr None)))"

definition head_logits :: "'t tensor_ops \<Rightarrow> 't sequence_head \<Rightarrow> nat list \<Rightarrow> 't \<Rightarrow> embedding_error + flt list" where
  "head_logits t h pad hidden =
     map_err EmbCandle
       (bind_res
         (case h of
            HeadBert pooler classifier \<Rightarrow>
              bind_res (t_cls t hidden) (\<lambda>cls. bind_res (pooler cls) (\<lambda>p. bind_res (t_tanh t p) classifier))
          | HeadModern dense nrm classifier mean_pooling \<Rightarrow>
              bind_res (if mean_pooling then mean_pool t hidden pad else t_cls t hidden) (\<lambda>pooled.
              bind_res (dense pooled) (\<lambda>d. bind_res (t_gelu_erf t d) (\<lambda>x. bind_res (nrm x) classifier))))
         (\<lambda>out. bind_res (t_flatten t out) (t_vec t)))"

section \<open>The embedder\<close>

record 't embedder =
  eb_ops :: "'t tensor_ops"
  eb_model :: "'t backbone"
  eb_tokenizer :: "string \<Rightarrow> string + nat list"
  eb_head :: "'t sequence_head option"
  eb_labels :: "string list option"

text \<open>
  The process around a load: the decoders, the files, the memory map of the weights, the
  tokenizer loader and the tensor library.
\<close>

record ('j, 'b, 't) load_env =
  le_parsers :: "('j, 'b) config_parsers"
  le_read :: "string \<Rightarrow> string + string"
  le_exists :: "string \<Rightarrow> bool"
  le_weights :: "string \<Rightarrow> string + ('b, 't) weights"
  le_rotary :: "modern_config \<Rightarrow> flt \<Rightarrow> rotary option"
  le_tokenizer :: "string \<Rightarrow> string + (string \<Rightarrow> string + nat list)"
  le_tensors :: "'t tensor_ops"

definition config_member :: "'j json_ops \<Rightarrow> string \<Rightarrow> string \<Rightarrow> 'j option" where
  "config_member js raw name = Option.bind (parsed js raw) (\<lambda>v. js_get js v name)"

definition mean_pooling_of :: "'j json_ops \<Rightarrow> string \<Rightarrow> bool" where
  "mean_pooling_of js raw =
     (case Option.bind (config_member js raw ''classifier_pooling'') (js_str js) of
        None \<Rightarrow> False | Some s \<Rightarrow> eq_ignore_ascii_case s ''mean'')"

definition classifier_bias_of :: "'j json_ops \<Rightarrow> string \<Rightarrow> bool" where
  "classifier_bias_of js raw =
     (case Option.bind (config_member js raw ''classifier_bias'') (js_bool js) of None \<Rightarrow> True | Some b \<Rightarrow> b)"

definition check_contract ::
  "('j, 'b, 't) load_env \<Rightarrow> 'b backbone_config \<Rightarrow> string \<Rightarrow> embedding_error + unit" where
  "check_contract le config pooling =
     (if \<not> le_exists le pooling then Inr ()
      else bind_res (contract_load (cp_json (le_parsers le)) (le_read le) pooling) (\<lambda>dimension.
        if dimension \<noteq> config_hidden_size (le_parsers le) config
        then Inl (EmbMissingField ''word_embedding_dimension != hidden_size'') else Inr ()))"

text \<open>What follows the loading of the backbone.\<close>

definition finish_load ::
  "('j, 'b, 't) load_env \<Rightarrow> string \<Rightarrow> 'b backbone_config \<Rightarrow> ('b, 't) weights \<Rightarrow> 't backbone \<Rightarrow> string \<Rightarrow> string \<Rightarrow>
     embedding_error + 't embedder" where
  "finish_load le raw config w model tokenizer_path pooling =
     (let js = cp_json (le_parsers le);
          labels = label_map_from_config (cp_id2label (le_parsers le) raw)
      in bind_res (case labels of
                     None \<Rightarrow> Inr None
                   | Some l \<Rightarrow> head_load (le_parsers le) w config l (mean_pooling_of js raw) (classifier_bias_of js raw)) (\<lambda>h.
         bind_res (map_err EmbTokenizer (le_tokenizer le tokenizer_path)) (\<lambda>tok.
         bind_res (check_contract le config pooling) (\<lambda>_.
           Inr \<lparr>eb_ops = le_tensors le, eb_model = model, eb_tokenizer = tok, eb_head = h,
                eb_labels = (if h = None then None else labels)\<rparr>))))"

definition embedder_load ::
  "('j, 'b, 't) load_env \<Rightarrow> string \<Rightarrow> string \<Rightarrow> string \<Rightarrow> string \<Rightarrow> (embedding_error + 't embedder) option" where
  "embedder_load le model_config weights_path tokenizer_path pooling =
     (case bind_res (map_err EmbIo (le_read le model_config)) (\<lambda>raw.
           bind_res (parse_config (le_parsers le) raw) (\<lambda>config.
           bind_res (map_err EmbCandle (le_weights le weights_path)) (\<lambda>w. Inr (raw, config, w)))) of
        Inl e \<Rightarrow> Some (Inl e)
      | Inr (raw, config, w) \<Rightarrow>
          map_option (\<lambda>r. bind_res r (\<lambda>model. finish_load le raw config w model tokenizer_path pooling))
            (backbone_load w (le_rotary le) config))"

definition eb_tokenize :: "'t embedder \<Rightarrow> string \<Rightarrow> embedding_error + nat list" where
  "eb_tokenize e text = map_err EmbTokenizer (eb_tokenizer e text)"

definition ones :: "nat list \<Rightarrow> nat list" where
  "ones ids = replicate (length ids) 1"

definition embed_ids :: "'t embedder \<Rightarrow> nat list \<Rightarrow> embedding_error + flt list" where
  "embed_ids e ids =
     bind_res (backbone_forward (eb_ops e) (eb_model e) ids (ones ids)) (\<lambda>xs. pool_and_normalize (eb_ops e) xs (ones ids))"

definition hidden_states :: "'t embedder \<Rightarrow> nat list \<Rightarrow> embedding_error + (nat \<times> flt list)" where
  "hidden_states e ids =
     bind_res (backbone_forward (eb_ops e) (eb_model e) ids (ones ids)) (\<lambda>xs.
     map_err EmbCandle (bind_res (t_squeeze0 (eb_ops e) xs) (\<lambda>s. bind_res (t_flatten (eb_ops e) s) (\<lambda>f.
       bind_res (t_vec (eb_ops e) f) (\<lambda>v. Inr (length ids, v))))))"

definition embed_and_classify :: "'t embedder \<Rightarrow> nat list \<Rightarrow> embedding_error + (flt list \<times> flt list option)" where
  "embed_and_classify e ids =
     bind_res (backbone_forward (eb_ops e) (eb_model e) ids (ones ids)) (\<lambda>xs.
     bind_res (pool_and_normalize (eb_ops e) xs (ones ids)) (\<lambda>v.
       case eb_head e of
         None \<Rightarrow> Inr (v, None)
       | Some h \<Rightarrow> bind_res (head_logits (eb_ops e) h (ones ids) xs) (\<lambda>ls. Inr (v, Some ls))))"

definition embed_text :: "'t embedder \<Rightarrow> string \<Rightarrow> embedding_error + flt list" where
  "embed_text e text = bind_res (eb_tokenize e text) (embed_ids e)"

section \<open>The classifier of a model directory\<close>

definition embedder_ops_of :: "'t embedder \<Rightarrow> embedder_ops" where
  "embedder_ops_of e =
     \<lparr>em_tokenize = (\<lambda>text. map_err show_embedding_error (eb_tokenize e text)),
      em_embed = (\<lambda>text. map_err show_embedding_error (embed_text e text)),
      em_embed_and_classify = (\<lambda>ids. map_err show_embedding_error (embed_and_classify e ids)),
      em_labels = eb_labels e\<rparr>"

text \<open>
  The loader reads its files through \<open>le\<close>, and the digest is taken afterwards: \<open>disk\<close> is the
  file system from then on. A digest that cannot be taken is no digest.
\<close>

definition from_modelcar_with ::
  "('j, 'b, 't) load_env \<Rightarrow> disk \<Rightarrow> (string \<Rightarrow> string) \<Rightarrow> (flt \<Rightarrow> flt) \<Rightarrow> string \<Rightarrow> classifier_definition \<Rightarrow>
     (classify_error + candle_classifier) option" where
  "from_modelcar_with le disk hex fexp dir d =
     (case embedder_load le (path_join dir ''config.json'') (path_join dir ''model.safetensors'')
             (path_join dir ''tokenizer.json'') (path_join dir ''1_Pooling/config.json'') of
        None \<Rightarrow> None
      | Some (Inl e) \<Rightarrow> Some (Inl (EmbeddingFailed (show_embedding_error e)))
      | Some (Inr eb) \<Rightarrow>
          candle_with_taxonomy (embedder_ops_of eb) d fexp
            (ok_of (modelcar_digest (later 1 disk) hex dir (modelcar_required_files (disk 0) dir))))"

text \<open>\<open>defn\<close> is the definition selected by the environment, or its error.\<close>

definition from_modelcar ::
  "('j, 'b, 't) load_env \<Rightarrow> disk \<Rightarrow> (string \<Rightarrow> string) \<Rightarrow> (flt \<Rightarrow> flt) \<Rightarrow> string \<Rightarrow>
     taxonomy_error + classifier_definition \<Rightarrow> (classify_error + candle_classifier) option" where
  "from_modelcar le disk hex fexp dir defn =
     (case defn of
        Inl e \<Rightarrow> Some (Inl (Unavailable (show_taxonomy_error e)))
      | Inr d \<Rightarrow> from_modelcar_with le disk hex fexp dir d)"

definition WARMUP_INPUT :: string where "WARMUP_INPUT = ''this is a golden sensitivity input''"

definition warmup_input :: classification_input where
  "warmup_input = \<lparr>in_text = WARMUP_INPUT, requested_signals = [''sensitivity''], session_metadata = Map.empty,
     completeness = Full\<rparr>"

text \<open>
  The looks of the warm-up at the disk after it has chosen the required files: for each file
  its presence and its bytes, and twice at the directory.
\<close>

definition warmup_looks :: "string list \<Rightarrow> nat" where
  "warmup_looks files = 2 * length files + 2"

text \<open>The classifier is returned with the counters and metrics its warm-up has left.\<close>

definition load_and_warm_modelcar ::
  "('j, 'b, 't) load_env \<Rightarrow> disk \<Rightarrow> (string \<Rightarrow> string) \<Rightarrow> (flt \<Rightarrow> flt) \<Rightarrow> string \<Rightarrow>
     taxonomy_error + classifier_definition \<Rightarrow> candle_counters \<times> metrics \<Rightarrow>
     (classify_error + candle_classifier \<times> candle_counters \<times> metrics) option" where
  "load_and_warm_modelcar le disk hex fexp dir defn st =
     (let files = modelcar_required_files (disk 0) dir
      in case fst (warmup_modelcar (later 1 disk) hex dir files (runtime_new :: unit model_runtime)) of
           Inl e \<Rightarrow> Some (Inl (Unavailable e))
         | Inr _ \<Rightarrow>
             (case from_modelcar le (later (1 + warmup_looks files) disk) hex fexp dir defn of
                None \<Rightarrow> None
              | Some (Inl e) \<Rightarrow> Some (Inl e)
              | Some (Inr cl) \<Rightarrow>
                  (case runtime_classify (candle_runtime cl) warmup_input st of
                     (Inl e, _) \<Rightarrow> Some (Inl (Unavailable (''warmup forward failed: '' @ show_classify_error e)))
                   | (Inr _, st') \<Rightarrow> Some (Inr (cl, st')))))"

section \<open>What is accepted\<close>

lemma finish_loadD:
  assumes "finish_load le raw config w model tokenizer_path pooling = Inr e"
  shows "eb_model e = model" and "eb_ops e = le_tensors le" and "(eb_labels e = None) = (eb_head e = None)"
    and "eb_labels e \<noteq> None \<Longrightarrow> eb_labels e = label_map_from_config (cp_id2label (le_parsers le) raw)"
    and "check_contract le config pooling = Inr ()"
  using assms by (auto simp: finish_load_def Let_def bind_res_Inr_iff split: option.splits if_splits)

lemma embedder_loadD:
  assumes "embedder_load le mc wp tp pooling = Some (Inr e)"
  obtains raw config w where "le_read le mc = Inr raw" and "parse_config (le_parsers le) raw = Inr config"
    and "backbone_load w (le_rotary le) config = Some (Inr (eb_model e))"
    and "finish_load le raw config w (eb_model e) tp pooling = Inr e"
proof -
  obtain raw config w r where "le_read le mc = Inr raw" "parse_config (le_parsers le) raw = Inr config"
    "backbone_load w (le_rotary le) config = Some r" "bind_res r (\<lambda>model. finish_load le raw config w model tp pooling) = Inr e"
    using assms by (auto simp: embedder_load_def bind_res_Inr_iff split: sum.splits prod.splits)
  moreover from this obtain m where "r = Inr m" "finish_load le raw config w m tp pooling = Inr e"
    by (auto simp: bind_res_Inr_iff)
  ultimately show ?thesis using that finish_loadD(1) by metis
qed

lemma parse_config_kinds:
  assumes "parse_config cp raw = Inr config"
  shows "case config of
      ConfigBert c \<Rightarrow> (cp_model_type cp raw = Inr None \<or> cp_model_type cp raw = Inr (Some ''bert'')) \<and> cp_bert cp raw = Inr c
    | ConfigModern c \<Rightarrow> cp_model_type cp raw = Inr (Some ''modernbert'') \<and> cp_modern cp raw = Inr c \<and>
        (case rope_scaling_kind (cp_json cp) raw of None \<Rightarrow> True | Some k \<Rightarrow> eq_ignore_ascii_case k ''yarn'')"
  using assms by (auto simp: parse_config_def bind_res_Inr_iff Let_def split: if_splits option.splits)

lemma backbone_load_kind:
  "backbone_load w rotary_of config = Some (Inr m) \<Longrightarrow> backbone_kind_of m = config_kind config"
  by (cases config) (auto simp: bind_res_Inr_iff)

text \<open>A \<open>bert\<close> directory has no rotary embedding, and what it declares of a scaling is not looked at.\<close>

lemma bert_scaling_unread:
  "cp_model_type cp raw = Inr None \<or> cp_model_type cp raw = Inr (Some ''bert'') \<Longrightarrow>
     parse_config (cp\<lparr>cp_json := js\<rparr>) raw = parse_config cp raw"
  by (auto simp: parse_config_def)

text \<open>
  C19. A model directory that loads declares no architecture, \<open>bert\<close> or
  \<open>modernbert\<close>, gets the backbone it declares with the configuration its
  decoder read, and any other architecture is refused. A ModernBERT directory that
  declares a rotary scaling loads only if this build computes with that scaling (a
  \<open>bert\<close> model has no rotary embedding, and the member is not read for it);
  and a pooling configuration that exists agrees with the width of the backbone. The
  decoder of the typed configuration is assumed to read the same scaling as the untyped
  one.
\<close>

theorem load_refuses_what_it_cannot_serve:
  assumes "embedder_load le config_path wp tp pooling = Some (Inr e)"
    and "le_read le config_path = Inr raw"
    and serde: "\<And>c k. cp_modern (le_parsers le) raw = Inr c \<Longrightarrow>
      rope_scaling_kind (cp_json (le_parsers le)) raw = map_option rope_type (mc_rope_scaling c)"
  shows "\<exists>config. parse_config (le_parsers le) raw = Inr config \<and> backbone_kind_of (eb_model e) = config_kind config \<and>
    (case config of
       ConfigBert c \<Rightarrow> cp_model_type (le_parsers le) raw \<in> {Inr None, Inr (Some ''bert'')} \<and> cp_bert (le_parsers le) raw = Inr c
     | ConfigModern c \<Rightarrow> cp_model_type (le_parsers le) raw = Inr (Some ''modernbert'') \<and> cp_modern (le_parsers le) raw = Inr c \<and>
         yarn_scaling c = mc_rope_scaling c) \<and>
    (le_exists le pooling \<longrightarrow>
       contract_load (cp_json (le_parsers le)) (le_read le) pooling = Inr (config_hidden_size (le_parsers le) config))"
proof -
  obtain config w where load: "parse_config (le_parsers le) raw = Inr config"
    "backbone_load w (le_rotary le) config = Some (Inr (eb_model e))" "finish_load le raw config w (eb_model e) tp pooling = Inr e"
    using embedder_loadD [OF assms(1)] assms(2) by (metis sum.inject(2))
  have "yarn_scaling c = mc_rope_scaling c" if "config = ConfigModern c" for c
    using parse_config_kinds [OF load(1)] that serde [of c]
    by (auto simp: yarn_scaling_def split: option.splits)
  moreover have "contract_load (cp_json (le_parsers le)) (le_read le) pooling = Inr (config_hidden_size (le_parsers le) config)"
    if "le_exists le pooling"
    using finish_loadD(5) [OF load(3)] that by (auto simp: check_contract_def bind_res_Inr_iff split: if_splits)
  ultimately show ?thesis
    using parse_config_kinds [OF load(1)] backbone_load_kind [OF load(2)] load(1)
    by (intro exI [of _ config]) (auto split: backbone_config.splits)
qed

text \<open>A directory with a scaled ModernBERT checkpoint and a pooling configuration of width 16.\<close>

definition demo_tensors :: "unit tensor_ops" where
  "demo_tensors =
     \<lparr>t_add = (\<lambda>_ _. Inr ()), t_mask3 = (\<lambda>_. Inr ()), t_mul = (\<lambda>_ _. Inr ()), t_div = (\<lambda>_ _. Inr ()), t_sum1 = Inr,
      t_squeeze0 = Inr, t_unsqueeze0 = Inr, t_norm = Inr, t_cls = Inr, t_tanh = Inr, t_gelu_erf = Inr, t_flatten = Inr,
      t_vec = (\<lambda>_. Inr [Fin 1])\<rparr>"

definition demo_json :: "string json_ops" where
  "demo_json =
     \<lparr>js_parse = Inr,
      js_get = (\<lambda>v name. if name = ''rope_scaling'' \<or> name = ''word_embedding_dimension'' then Some v
                        else if name = ''rope_type'' then Some ''YaRN'' else None),
      js_str = Some, js_bool = (\<lambda>_. None), js_u64 = (\<lambda>_. Some 16), js_array = (\<lambda>_. None), js_null = (\<lambda>_. False)\<rparr>"

definition demo_parsers :: "(string, unit) config_parsers" where
  "demo_parsers =
     \<lparr>cp_json = demo_json, cp_model_type = (\<lambda>_. Inr (Some ''modernbert'')), cp_bert = Inl, cp_bert_hidden = (\<lambda>_. 0),
      cp_modern = (\<lambda>_. Inr demo_modern), cp_id2label = (\<lambda>_. Some [(''0'', ''LOW''), (''1'', ''HIGH'')])\<rparr>"

definition demo_weights :: "(unit, unit) weights" where
  "demo_weights =
     \<lparr>w_bert = (\<lambda>_. Inl []), w_modern = demo_checkpoint, w_linear = (\<lambda>_ _ _. Inl []),
      w_linear_no_bias = (\<lambda>_ _ _. Inl []), w_layer_norm = (\<lambda>_ _ _. Inr Inr)\<rparr>"

definition demo_env :: "(string, unit, unit) load_env" where
  "demo_env =
     \<lparr>le_parsers = demo_parsers, le_read = Inr, le_exists = (\<lambda>_. True), le_weights = (\<lambda>_. Inr demo_weights),
      le_rotary = (\<lambda>_ _. Some \<lparr>rot_sin = [], rot_cos = []\<rparr>), le_tokenizer = (\<lambda>_. Inr (\<lambda>s. Inr [length s])),
      le_tensors = demo_tensors\<rparr>"

lemma demo_env_simps [simp]:
  "le_parsers demo_env = demo_parsers" "le_read demo_env = Inr" "le_weights demo_env path = Inr demo_weights"
  "le_rotary demo_env = (\<lambda>_ _. Some \<lparr>rot_sin = [], rot_cos = []\<rparr>)" "w_modern demo_weights = demo_checkpoint"
  "le_tokenizer demo_env = (\<lambda>_. Inr (\<lambda>s. Inr [length s]))"
  by (simp_all add: demo_env_def demo_weights_def)

lemma demo_yarn_kind: "eq_ignore_ascii_case ''YaRN'' ''yarn''"
  by code_simp

lemma demo_kind: "rope_scaling_kind (cp_json demo_parsers) raw = Some ''YaRN''"
  by (simp add: rope_scaling_kind_def parsed_def demo_parsers_def demo_json_def)

lemma demo_config: "parse_config demo_parsers raw = Inr (ConfigModern demo_modern)"
proof -
  have "cp_model_type demo_parsers raw = Inr (Some ''modernbert'')" "cp_modern demo_parsers raw = Inr demo_modern"
    by (simp_all add: demo_parsers_def)
  then show ?thesis by (simp add: parse_config_def demo_kind demo_yarn_kind)
qed

lemma demo_head: "head_load demo_parsers demo_weights (ConfigModern demo_modern) labels mean_pooling bias = Inr None"
  by (simp add: head_load_def Let_def demo_weights_def)

lemma demo_contract: "check_contract demo_env (ConfigModern demo_modern) path = Inr ()"
  by (simp add: check_contract_def contract_load_def demo_parsers_def demo_json_def)
    (simp add: demo_env_def demo_modern_def)

lemma demo_finish:
  "finish_load demo_env ''c'' (ConfigModern demo_modern) demo_weights model ''t'' ''p'' =
     Inr \<lparr>eb_ops = le_tensors demo_env, eb_model = model, eb_tokenizer = (\<lambda>s. Inr [length s]), eb_head = None, eb_labels = None\<rparr>"
  by (simp add: finish_load_def demo_contract demo_head Let_def split: option.split)

lemma demo_env_loads: "\<exists>e. embedder_load demo_env ''c'' ''w'' ''t'' ''p'' = Some (Inr e)"
proof -
  obtain m where m: "modern_load demo_checkpoint (\<lambda>_ _. Some \<lparr>rot_sin = [], rot_cos = []\<rparr>) demo_modern = Some (Inr m)"
    by (simp add: modern_load_def demo_checkpoint_def demo_modern_def upt_rec layer_load_def)
  then show ?thesis by (simp add: embedder_load_def demo_config demo_finish)
qed

theorem load_refuses_what_it_cannot_serve_witness:
  "\<exists>e. embedder_load demo_env ''c'' ''w'' ''t'' ''p'' = Some (Inr e) \<and>
     (\<exists>config. parse_config (le_parsers demo_env) ''c'' = Inr config \<and> backbone_kind_of (eb_model e) = config_kind config)"
proof -
  obtain e where e: "embedder_load demo_env ''c'' ''w'' ''t'' ''p'' = Some (Inr e)" using demo_env_loads by blast
  have "rope_scaling_kind (cp_json (le_parsers demo_env)) ''c'' = map_option rope_type (mc_rope_scaling c)"
    if "cp_modern (le_parsers demo_env) ''c'' = Inr c" for c
    using that by (simp add: demo_kind) (auto simp: demo_parsers_def demo_modern_def)
  then have "\<exists>config. parse_config (le_parsers demo_env) ''c'' = Inr config \<and> backbone_kind_of (eb_model e) = config_kind config"
    using load_refuses_what_it_cannot_serve [OF e, of "''c''"] by auto
  with e show ?thesis by blast
qed

section \<open>One forward, two outputs\<close>

text \<open>
  Embedding and classifying in one forward gives exactly the embedding that embedding
  alone gives, with logits exactly when the embedder has a head; when it fails, embedding
  alone fails the same way, unless the head is what failed.
\<close>

theorem one_forward_two_outputs:
  "case embed_and_classify e ids of
     Inr (v, ls) \<Rightarrow> embed_ids e ids = Inr v \<and> (ls = None) = (eb_head e = None)
   | Inl err \<Rightarrow> embed_ids e ids = Inl err \<or> eb_head e \<noteq> None \<and> (\<exists>m. err = EmbCandle m) \<and> (\<exists>v. embed_ids e ids = Inr v)"
proof (cases "backbone_forward (eb_ops e) (eb_model e) ids (ones ids)")
  case (Inr xs)
  show ?thesis
  proof (cases "pool_and_normalize (eb_ops e) xs (ones ids)")
    case (Inr v)
    have "\<exists>m. err = EmbCandle m" if "head_logits (eb_ops e) h (ones ids) xs = Inl err" for h err
      using that by (auto simp: head_logits_def map_err_def split: sum.splits)
    with Inr \<open>backbone_forward _ _ _ _ = Inr xs\<close> show ?thesis
      by (cases "eb_head e") (auto simp: embed_and_classify_def embed_ids_def bind_res_def split: sum.split)
  qed (simp add: embed_and_classify_def embed_ids_def Inr)
qed (simp add: embed_and_classify_def embed_ids_def)

section \<open>Heads that are absent\<close>

text \<open>
  A head that the directory declares but whose classifier weights cannot be loaded is not
  an error: the directory loads without labels, the classifier reports anchor ranking, and
  no request ever gets logits.
\<close>

theorem unloadable_head_is_dropped:
  assumes "finish_load le raw config w model tokenizer_path pooling = Inr e"
    and "\<And>i n. \<exists>m. w_linear w i n ''classifier'' = Inl m" and "\<And>i n. \<exists>m. w_linear_no_bias w i n ''classifier'' = Inl m"
  shows "eb_labels e = None \<and> candle_ranking_mode (candle_new (embedder_ops_of e) protos fexp) = AnchorCosine \<and>
    (case embed_and_classify e ids of Inl _ \<Rightarrow> True | Inr (v, ls) \<Rightarrow> ls = None)"
proof -
  have no: "head_load (le_parsers le) w config l a b = Inr None" for l a b
  proof (cases config)
    case (ConfigBert c)
    obtain m where "w_linear w (cp_bert_hidden (le_parsers le) c) (label_map_len l) ''classifier'' = Inl m" using assms(2) by blast
    with ConfigBert show ?thesis by (simp add: head_load_def Let_def ok_of_def split: option.split)
  next
    case (ConfigModern c)
    obtain m m' where "w_linear w (mc_hidden_size c) (label_map_len l) ''classifier'' = Inl m"
      "w_linear_no_bias w (mc_hidden_size c) (label_map_len l) ''classifier'' = Inl m'" using assms(2,3) by blast
    with ConfigModern show ?thesis by (simp add: head_load_def Let_def split: sum.split)
  qed
  have head: "eb_head e = None"
    using assms(1) by (auto simp: finish_load_def Let_def bind_res_Inr_iff no split: option.splits)
  then have "eb_labels e = None" using finish_loadD(3) [OF assms(1)] by simp
  then show ?thesis
    by (auto simp: candle_ranking_mode_def candle_new_def embedder_ops_of_def embed_and_classify_def head bind_res_def split: sum.split)
qed

theorem unloadable_head_is_dropped_witness:
  "\<exists>e. finish_load demo_env ''c'' (ConfigModern demo_modern) demo_weights (BackboneBert (\<lambda>_ _ _. Inr ())) ''t'' ''p'' = Inr e \<and>
     eb_labels e = None"
proof -
  obtain e where e: "finish_load demo_env ''c'' (ConfigModern demo_modern) demo_weights (BackboneBert (\<lambda>_ _ _. Inr ())) ''t'' ''p'' = Inr e"
    using demo_finish by blast
  have "eb_labels e = None" using unloadable_head_is_dropped [OF e] by (simp add: demo_weights_def)
  with e show ?thesis by blast
qed

section \<open>Warm start\<close>

lemma from_modelcar_digest:
  assumes "from_modelcar_with le disk hex fexp dir d = Some (Inr cl)"
  shows "meta_artifact_digest (candle_metadata cl) = ok_of (modelcar_digest (later 1 disk) hex dir (modelcar_required_files (disk 0) dir))"
    and "meta_classifier_id (candle_metadata cl) = cd_classifier_id d"
  using assms by (auto simp: from_modelcar_with_def candle_with_taxonomy_def candle_metadata_def split: option.splits sum.splits)

lemma later_later [simp]: "later m (later n disk) = later (n + m) disk"
  by (simp add: later_def add.assoc)

text \<open>
  C26. A classifier that is returned warm comes from a directory in which every required
  file was there when the warm-up looked for it and could be read, has answered the
  warm-up request, and reports the id of the selected definition. The digest it reports is
  that of the files as they are after the load, read once more: of a directory that did
  not change meanwhile it is the digest the warm-up took; of one that became unreadable
  there is none, and nothing fails.
\<close>

theorem warm_classifier_is_identified:
  fixes disk :: disk and dir :: string
  defines "files \<equiv> modelcar_required_files (disk 0) dir"
  defines "after \<equiv> later (1 + warmup_looks files) disk"
  assumes "load_and_warm_modelcar le disk hex fexp dir (Inr d) st = Some (Inr (cl, st'))"
  shows "(\<forall>i<length files. fs_is_file (disk (1 + i)) (path_join dir (files ! i))) \<and>
    (\<exists>r. runtime_classify (candle_runtime cl) warmup_input st = (Inr r, st')) \<and>
    meta_classifier_id (candle_metadata cl) = cd_classifier_id d \<and>
    meta_artifact_digest (candle_metadata cl) =
      (case modelcar_digest (later 1 after) hex dir (modelcar_required_files (after 0) dir) of Inl e \<Rightarrow> None | Inr digest \<Rightarrow> Some digest) \<and>
    (\<exists>digest. modelcar_digest (later (1 + length files) disk) hex dir files = Inr digest \<and>
       ((\<forall>k. disk k = disk 0) \<longrightarrow> meta_artifact_digest (candle_metadata cl) = Some digest))"
proof -
  have warm: "fst (warmup_modelcar (later 1 disk) hex dir files (runtime_new :: unit model_runtime)) = Inr ()"
    and load: "from_modelcar_with le after hex fexp dir d = Some (Inr cl)"
    and run: "\<exists>r. runtime_classify (candle_runtime cl) warmup_input st = (Inr r, st')"
    using assms(3) by (auto simp: load_and_warm_modelcar_def from_modelcar_def Let_def files_def after_def
        split: sum.splits option.splits prod.splits)
  have digest: "\<exists>digest. modelcar_digest (later (1 + length files) disk) hex dir files = Inr digest"
    and there: "missing_file (later 1 disk) dir files = Inr ()"
    using warm by (auto simp: warmup_modelcar_def split: sum.splits)
  have "meta_artifact_digest (candle_metadata cl) = Some digest"
    if "\<forall>k. disk k = disk 0" "modelcar_digest (later (1 + length files) disk) hex dir files = Inr digest" for digest
  proof -
    have "disk = (\<lambda>_. disk 0)" using that(1) by auto
    then have "later n disk = (\<lambda>_. disk 0)" for n by (metis later_steady)
    then show ?thesis using from_modelcar_digest(1) [OF load] that(2) by (simp add: after_def files_def ok_of_def)
  qed
  moreover have "fs_is_file (disk (1 + i)) (path_join dir (files ! i))" if "i < length files" for i
    using there that unfolding missing_file_ok by (simp add: later_def)
  ultimately show ?thesis using run digest from_modelcar_digest [OF load] by (auto simp: ok_of_def)
qed

definition demo_dir :: fs_ops where
  "demo_dir = \<lparr>fs_exists = (\<lambda>_. True), fs_is_file = (\<lambda>_. True), fs_metadata = (\<lambda>_. Inr ()), fs_open = (\<lambda>_. Inr (Inr ''x''))\<rparr>"

text \<open>A directory with a \<open>bert\<close> checkpoint, whose model embeds every text.\<close>

definition demo_bert_env :: "(string, unit, unit) load_env" where
  "demo_bert_env = demo_env\<lparr>le_parsers := demo_parsers\<lparr>cp_model_type := (\<lambda>_. Inr None), cp_bert := (\<lambda>_. Inr ()), cp_id2label := (\<lambda>_. None)\<rparr>,
     le_exists := (\<lambda>_. False), le_weights := (\<lambda>_. Inr (demo_weights\<lparr>w_bert := (\<lambda>_. Inr (\<lambda>_ _ _. Inr ()))\<rparr>))\<rparr>"

definition demo_bert_embedder :: "unit embedder" where
  "demo_bert_embedder = \<lparr>eb_ops = demo_tensors, eb_model = BackboneBert (\<lambda>_ _ _. Inr ()), eb_tokenizer = (\<lambda>s. Inr [length s]),
     eb_head = None, eb_labels = None\<rparr>"

lemma demo_bert_loads: "embedder_load demo_bert_env c w t p = Some (Inr demo_bert_embedder)"
  by (simp add: embedder_load_def demo_bert_env_def parse_config_def demo_bert_embedder_def finish_load_def
      check_contract_def label_map_from_config_def Let_def) (simp add: demo_env_def)

lemma demo_bert_runs:
  "embed_text demo_bert_embedder text = Inr [Fin 1]" "embed_and_classify demo_bert_embedder ids = Inr ([Fin 1], None)"
  "eb_tokenize demo_bert_embedder text = Inr [length text]" "eb_labels demo_bert_embedder = None"
  by (simp_all add: embed_text_def embed_ids_def embed_and_classify_def eb_tokenize_def pool_and_normalize_def mean_pool_def
      demo_bert_embedder_def demo_tensors_def)

lemma demo_digest: "modelcar_digest (\<lambda>_. demo_dir) (\<lambda>b. ''h'') ''/m'' (modelcar_required_files demo_dir ''/m'') = Inr ''blake3:h''"
  by (simp add: modelcar_digest_def hash_files_steady modelcar_required_files_def MODELCAR_REQUIRED_FILES_def hash_file_def demo_dir_def)

text \<open>The same directory, unreadable from some look on.\<close>

definition lost_dir :: "nat \<Rightarrow> disk" where
  "lost_dir n = (\<lambda>k. if k < n then demo_dir else demo_dir\<lparr>fs_open := (\<lambda>_. Inl ''stale mount'')\<rparr>)"

lemma demo_files: "length (modelcar_required_files demo_dir ''/m'') = 4"
  by (simp add: modelcar_required_files_def MODELCAR_REQUIRED_FILES_def demo_dir_def)

lemma lost_digest:
  "modelcar_digest (later 1 (later 11 (lost_dir 11))) hex ''/m'' (modelcar_required_files (later 11 (lost_dir 11) 0) ''/m'') = Inl (''cannot read /m/model.safetensors for digest: stale mount'')"
  "modelcar_digest (later 5 (lost_dir 11)) (\<lambda>b. ''h'') ''/m'' (modelcar_required_files demo_dir ''/m'') = Inr ''blake3:h''"
  by (simp_all add: modelcar_digest_def hash_files_def modelcar_required_files_def MODELCAR_REQUIRED_FILES_def hash_file_def
      demo_dir_def lost_dir_def later_def upt_rec path_join_def)

text \<open>\<open>disk\<close> is a disk on which nothing happens, or from which the directory is lost after the warm-up.\<close>

lemma demo_warms_from:
  assumes "disk = (\<lambda>_. demo_dir) \<or> disk = lost_dir 11"
  shows "\<exists>cl st'. load_and_warm_modelcar demo_bert_env disk (\<lambda>b. ''h'') exp_ieee ''/m'' (Inr demo_definition)
      (\<lparr>tokenizer_calls = 0, forward_calls = 0\<rparr>, metrics_new) = Some (Inr (cl, st'))"
proof -
  have disk0: "disk 0 = demo_dir" using assms by (auto simp: lost_dir_def)
  have is_file: "fs_is_file (disk k) p" "fs_exists (disk k) p" "fs_metadata (disk k) p = Inr ()" for k p
    using assms by (auto simp: lost_dir_def demo_dir_def)
  define digest where "digest = ok_of (modelcar_digest (later 12 disk) (\<lambda>b. ''h'') ''/m'' (modelcar_required_files (disk 11) ''/m''))"
  obtain cl where cl: "candle_with_taxonomy (embedder_ops_of demo_bert_embedder) demo_definition exp_ieee digest =
      Some (Inr cl)" "cl_embedder cl = embedder_ops_of demo_bert_embedder"
    by (simp add: candle_with_taxonomy_def embed_anchors_def demo_definition_def embedder_ops_of_def demo_bert_runs candle_new_def)
  have "missing_file (later n disk) dir files = Inr ()" for n dir files
    by (simp add: missing_file_ok is_file later_def)
  moreover have "modelcar_digest (later 5 disk) (\<lambda>b. ''h'') ''/m'' (modelcar_required_files demo_dir ''/m'') = Inr ''blake3:h''"
    using assms lost_digest(2) demo_digest by auto
  ultimately have "fst (warmup_modelcar (later 1 disk) (\<lambda>b. ''h'') ''/m'' (modelcar_required_files (disk 0) ''/m'')
      (runtime_new :: unit model_runtime)) = Inr ()"
    by (simp add: warmup_modelcar_def disk0 demo_files runtime_warmup_def) (simp add: later_def is_file)
  moreover have "from_modelcar demo_bert_env (later (1 + warmup_looks (modelcar_required_files (disk 0) ''/m'')) disk) (\<lambda>b. ''h'') exp_ieee ''/m'' (Inr demo_definition) = Some (Inr cl)"
    using cl(1) by (simp add: from_modelcar_def from_modelcar_with_def demo_bert_loads warmup_looks_def disk0 demo_files digest_def)
      (simp add: later_def)
  moreover obtain r st' where "runtime_classify (candle_runtime cl) warmup_input
      (\<lparr>tokenizer_calls = 0, forward_calls = 0\<rparr>, metrics_new) = (Inr r, st')"
    by (simp add: runtime_classify_def candle_runtime_def candle_embed_def candle_rank_def cl(2) embedder_ops_of_def
        demo_bert_runs Let_def)
  ultimately show ?thesis by (cases st') (simp add: load_and_warm_modelcar_def Let_def)
qed

lemmas demo_warms = demo_warms_from [OF disjI1 [OF refl]]

theorem warm_classifier_is_identified_witness:
  "(\<exists>cl st'. load_and_warm_modelcar demo_bert_env (\<lambda>_. demo_dir) (\<lambda>b. ''h'') exp_ieee ''/m'' (Inr demo_definition)
      (\<lparr>tokenizer_calls = 0, forward_calls = 0\<rparr>, metrics_new) = Some (Inr (cl, st')) \<and>
     meta_artifact_digest (candle_metadata cl) = Some ''blake3:h'') \<and>
   (\<exists>cl st'. load_and_warm_modelcar demo_bert_env (lost_dir 11) (\<lambda>b. ''h'') exp_ieee ''/m'' (Inr demo_definition)
      (\<lparr>tokenizer_calls = 0, forward_calls = 0\<rparr>, metrics_new) = Some (Inr (cl, st')) \<and>
     meta_artifact_digest (candle_metadata cl) = None)"
proof -
  obtain cl st' where load: "load_and_warm_modelcar demo_bert_env (\<lambda>_. demo_dir) (\<lambda>b. ''h'') exp_ieee ''/m'' (Inr demo_definition)
      (\<lparr>tokenizer_calls = 0, forward_calls = 0\<rparr>, metrics_new) = Some (Inr (cl, st'))"
    using demo_warms by blast
  from warm_classifier_is_identified [OF this] demo_digest
  have "meta_artifact_digest (candle_metadata cl) = Some ''blake3:h''" by (simp add: demo_files)
  moreover obtain cl2 st2 where lost: "load_and_warm_modelcar demo_bert_env (lost_dir 11) (\<lambda>b. ''h'') exp_ieee ''/m'' (Inr demo_definition)
      (\<lparr>tokenizer_calls = 0, forward_calls = 0\<rparr>, metrics_new) = Some (Inr (cl2, st2))"
    using demo_warms_from [of "lost_dir 11"] by blast
  have "lost_dir 11 0 = demo_dir" by (simp add: lost_dir_def)
  with warm_classifier_is_identified [OF lost] lost_digest(1)
  have "meta_artifact_digest (candle_metadata cl2) = None" by (simp add: demo_files warmup_looks_def)
  ultimately show ?thesis using load lost by blast
qed

end
