(* ===== verification/Playground.thy ===== *)
theory Playground
  imports EmbeddingLoad RedisTier Bench ServedCore
begin

text \<open>
  The demo server \<open>src/src/bin/playground.rs\<close>: which cache tier it reports for a request,
  and its chat-completion route through the semantic response cache. Decoding and rendering
  JSON, the HTTP server, the upstream model server and the embedder's libraries are
  parameters; the body of a reply of \<open>/api/classify\<close> is the record that is rendered. The
  routes and the main program are in \<open>PlaygroundServer\<close>.
\<close>

section \<open>Tiers\<close>

datatype tier = L1ExactHit | L2SemanticHit | Degraded | ComputeMiss

definition classify_tier :: "metrics_snapshot \<Rightarrow> metrics_snapshot \<Rightarrow> tier" where
  "classify_tier before after =
     (if ms_cache_hits before < ms_cache_hits after then L1ExactHit
      else if ms_l2_hits before < ms_l2_hits after then L2SemanticHit
      else if ms_l2_degraded before < ms_l2_degraded after then Degraded
      else ComputeMiss)"

section \<open>Classifying\<close>

definition parse_request :: "'j json_ops \<Rightarrow> string \<Rightarrow> string + (string \<times> string)" where
  "parse_request js raw =
     bind_res (map_err (\<lambda>_. ''request body must be JSON'') (js_parse js raw)) (\<lambda>v.
       case Option.bind (js_get js v ''text'') (js_str js) of
         None \<Rightarrow> Inl (''request body must be {'' @ [CHR 0x22] @ ''text'' @ [CHR 0x22] @ '': '' @ [CHR 0x22] @
                   [char_of (226 :: nat), char_of (128 :: nat), char_of (166 :: nat)] @ [CHR 0x22] @ ''}'')
       | Some text \<Rightarrow>
           Inr (text, case Option.bind (js_get js v ''classifier'') (js_str js) of None \<Rightarrow> ''complexity'' | Some c \<Rightarrow> c))"

definition status_name :: "int \<Rightarrow> string" where
  "status_name s =
     (if s = 1 then ''OK'' else if s = 2 then ''ABSTAIN'' else if s = 3 then ''UNAVAILABLE'' else ''UNSPECIFIED'')"

record play_totals =
  pt_cache_hits :: nat
  pt_cache_misses :: nat
  pt_l2_hits :: nat
  pt_l2_misses :: nat
  pt_l2_degraded :: nat

definition totals_json :: "metrics_snapshot \<Rightarrow> metrics_snapshot \<Rightarrow> play_totals" where
  "totals_json snap baseline =
     \<lparr>pt_cache_hits = ms_cache_hits snap - ms_cache_hits baseline, pt_cache_misses = ms_cache_misses snap - ms_cache_misses baseline,
      pt_l2_hits = ms_l2_hits snap - ms_l2_hits baseline, pt_l2_misses = ms_l2_misses snap - ms_l2_misses baseline,
      pt_l2_degraded = ms_l2_degraded snap - ms_l2_degraded baseline\<rparr>"

record play_report =
  pr_classifier :: string
  pr_tier :: tier
  pr_latency_ns :: nat
  pr_status :: string
  pr_classifier_id :: string
  pr_model_revision :: string
  pr_tokenizer_revision :: string
  pr_taxonomy_revision :: string
  pr_ranked :: "wire_signal list"
  pr_totals :: play_totals

definition response_json ::
  "string \<Rightarrow> classify_response \<Rightarrow> tier \<Rightarrow> nat \<Rightarrow> metrics_snapshot \<Rightarrow> metrics_snapshot \<Rightarrow> play_report" where
  "response_json classifier r tier latency snap baseline =
     \<lparr>pr_classifier = classifier, pr_tier = tier, pr_latency_ns = latency, pr_status = status_name (rp_status r),
      pr_classifier_id = rp_classifier_id r, pr_model_revision = rp_model_revision r,
      pr_tokenizer_revision = rp_tokenizer_revision r, pr_taxonomy_revision = rp_taxonomy_revision r,
      pr_ranked = rp_ranked r, pr_totals = totals_json snap baseline\<rparr>"

text \<open>\<open>'s\<close> is the state of all the servers in the process.\<close>

record 's play_classifier =
  pc_name :: string
  pc_classifier_id :: string
  pc_labels :: "string list"
  pc_call :: "'s transport"
  pc_snapshot :: "'s \<Rightarrow> metrics_snapshot"
  pc_baseline :: metrics_snapshot

definition classifier_warmup_request :: "string \<Rightarrow> classify_request" where
  "classifier_warmup_request name =
     \<lparr>rq_request_id = ''pg-warmup-'' @ name, rq_session_id = ''playground'',
      rq_context = ''llm-d-sc playground warmup probe'', rq_signals = [], rq_completeness = completeness_number Unspecified\<rparr>"

text \<open>What remains of \<open>load_classifier\<close> once its server is bound and its client connected.\<close>

definition attach_classifier ::
  "string \<Rightarrow> string \<Rightarrow> 's transport \<Rightarrow> ('s \<Rightarrow> metrics_snapshot) \<Rightarrow> 's \<Rightarrow> 's play_classifier \<times> 's" where
  "attach_classifier name classifier_id call snap st =
     (let (warm, _, st') = call (classifier_warmup_request name) st
      in (\<lparr>pc_name = name, pc_classifier_id = classifier_id,
           pc_labels = (case warm of Inr r \<Rightarrow> List.map ws_label (rp_ranked r) | Inl _ \<Rightarrow> []),
           pc_call = call, pc_snapshot = snap, pc_baseline = snap st'\<rparr>, st'))"

text \<open>\<open>show_code\<close> is the \<open>Display\<close> of a gRPC code; the counter is the request sequence.\<close>

definition handle_classify ::
  "'j json_ops \<Rightarrow> (grpc_code \<Rightarrow> string) \<Rightarrow> 's play_classifier list \<Rightarrow> string \<Rightarrow> nat \<times> 's \<Rightarrow> (string + play_report) \<times> nat \<times> 's" where
  "handle_classify js show_code cls raw st =
     (case parse_request js raw of
        Inl e \<Rightarrow> (Inl e, st)
      | Inr (text, which) \<Rightarrow>
          if trim text = [] then (Inl ''prompt text is empty'', st)
          else (case List.find (\<lambda>c. pc_name c = which) cls of
                  None \<Rightarrow> (Inl (''unknown classifier '' @ [CHR 0x27] @ which @ [CHR 0x27]), st)
                | Some entry \<Rightarrow>
                    (let seq = fst st + 1;
                         before = pc_snapshot entry (snd st);
                         (res, rtt, s') = pc_call entry
                           \<lparr>rq_request_id = ''pg-'' @ show_nat seq, rq_session_id = ''playground'', rq_context = text,
                            rq_signals = [], rq_completeness = completeness_number Unspecified\<rparr> (snd st)
                     in case res of
                          Inl e \<Rightarrow> (Inl (''classify failed: '' @ st_message e @ '' ('' @ show_code (st_code e) @ '')''), seq, s')
                        | Inr r \<Rightarrow>
                            (let after = pc_snapshot entry s'
                             in (Inr (response_json (pc_name entry) r (classify_tier before after) rtt after (pc_baseline entry)), seq, s')))))"

section \<open>Chat completions\<close>

datatype cache_status = ChatHit | ChatMiss | ChatBypass

definition last_user_message :: "'j json_ops \<Rightarrow> 'j \<Rightarrow> string option" where
  "last_user_message js req =
     Option.bind (Option.bind (js_get js req ''messages'') (js_array js)) (\<lambda>messages.
     Option.bind (List.find (\<lambda>m. Option.bind (js_get js m ''role'') (js_str js) = Some ''user'') (List.rev messages)) (\<lambda>m.
     Option.bind (js_get js m ''content'') (js_str js)))"

datatype upstream_reply =
    UpstreamOk nat "string + string"
  | UpstreamStatus nat "string + string"
  | UpstreamTransport string

fun trim_end_slashes :: "string \<Rightarrow> string" where
  "trim_end_slashes s = (if s \<noteq> [] \<and> last s = CHR ''/'' then trim_end_slashes (butlast s) else s)"

declare trim_end_slashes.simps [simp del]

definition forward_upstream ::
  "(string \<Rightarrow> string \<Rightarrow> nat \<Rightarrow> 'u \<Rightarrow> upstream_reply \<times> 'u) \<Rightarrow> string \<Rightarrow> string \<Rightarrow> nat \<Rightarrow> 'u \<Rightarrow> (string + (nat \<times> string)) \<times> 'u" where
  "forward_upstream post base body timeout u =
     (case post (trim_end_slashes base @ ''/v1/chat/completions'') body timeout u of
        (UpstreamOk code text, u') \<Rightarrow>
          (bind_res (map_err (\<lambda>e. ''reading upstream body: '' @ e) text) (\<lambda>t. Inr (code, t)), u')
      | (UpstreamStatus code text, u') \<Rightarrow> (Inr (code, case text of Inl _ \<Rightarrow> [] | Inr t \<Rightarrow> t), u')
      | (UpstreamTransport e, u') \<Rightarrow> (Inl (''upstream request failed: '' @ e), u'))"

record chat_ctx =
  cx_embed :: "string \<Rightarrow> embedding_error + flt list"
  cx_vllm_url :: string
  cx_threshold :: flt
  cx_timeout_secs :: nat

definition request_stream :: "'j json_ops \<Rightarrow> 'j \<Rightarrow> bool" where
  "request_stream js req = (case Option.bind (js_get js req ''stream'') (js_bool js) of None \<Rightarrow> False | Some b \<Rightarrow> b)"

definition request_model :: "'j json_ops \<Rightarrow> 'j \<Rightarrow> string" where
  "request_model js req = (case Option.bind (js_get js req ''model'') (js_str js) of None \<Rightarrow> [] | Some m \<Rightarrow> m)"

text \<open>The vector a request is cached under, if it is cached at all.\<close>

definition chat_vector :: "'j json_ops \<Rightarrow> chat_ctx \<Rightarrow> 'j \<Rightarrow> flt list option" where
  "chat_vector js ctx req =
     (if request_stream js req then None
      else Option.bind (last_user_message js req) (\<lambda>text. ok_of (cx_embed ctx text)))"

definition handle_chat ::
  "'j json_ops \<Rightarrow> 'x redis_env \<Rightarrow> (string \<Rightarrow> string \<Rightarrow> nat \<Rightarrow> 'u \<Rightarrow> upstream_reply \<times> 'u) \<Rightarrow> chat_ctx option \<Rightarrow> string \<Rightarrow>
     'x response_cache \<times> 'u \<Rightarrow> (string + (nat \<times> cache_status \<times> string)) \<times> 'x response_cache \<times> 'u" where
  "handle_chat js env post octx raw st =
     (case octx of
        None \<Rightarrow> (Inl ''response cache route is disabled (LLM_D_SC_VLLM_URL not set)'', st)
      | Some ctx \<Rightarrow>
     (case js_parse js raw of
        Inl _ \<Rightarrow> (Inl ''request body must be JSON'', st)
      | Inr req \<Rightarrow>
     (case chat_vector js ctx req of
        None \<Rightarrow>
          (let (r, u) = forward_upstream post (cx_vllm_url ctx) raw (cx_timeout_secs ctx) (snd st)
           in (bind_res r (\<lambda>(code, body). Inr (code, ChatBypass, body)), fst st, u))
      | Some v \<Rightarrow>
          (case response_lookup env v (request_model js req) (fst st) of
             (Some hit, c1) \<Rightarrow> (Inr (200, ChatHit, hit), c1, snd st)
           | (None, c1) \<Rightarrow>
               (case forward_upstream post (cx_vllm_url ctx) raw (cx_timeout_secs ctx) (snd st) of
                  (Inl e, u) \<Rightarrow> (Inl e, c1, u)
                | (Inr (code, body), u) \<Rightarrow>
                    (Inr (code, ChatMiss, body),
                     if code = 200 then response_insert env v (request_model js req) body c1 else c1, u))))))"

section \<open>Configuration of the route\<close>

text \<open>
  \<open>load\<close> loads an embedder from its four files, \<open>opened\<close> opens the Redis address, and
  \<open>env\<close> reads a variable; the failures only disable the route.
\<close>

definition build_response_cache ::
  "(string \<Rightarrow> string option) \<Rightarrow> (string \<Rightarrow> string \<Rightarrow> string \<Rightarrow> string \<Rightarrow> embedding_error + (string \<Rightarrow> embedding_error + flt list)) \<Rightarrow>
     (string \<Rightarrow> string + 'x) \<Rightarrow> string \<Rightarrow> cache_config \<Rightarrow> (chat_ctx \<times> 'x response_cache) option" where
  "build_response_cache env load opened models_dir cfg =
     Option.bind (filter_opt (\<lambda>s. s \<noteq> []) (map_option trim (env ''LLM_D_SC_VLLM_URL''))) (\<lambda>vllm.
     Option.bind (redis_url cfg) (\<lambda>url.
       (let thr = unwrap_or (round32 0.92) (Option.bind (env ''LLM_D_SC_RESP_CACHE_THRESHOLD'') parse_f32);
            ttl = unwrap_or (ttl_secs cfg) (Option.bind (env ''LLM_D_SC_RESP_CACHE_TTL'') parse_usize);
            timeout = unwrap_or 1000 (Option.bind (env ''LLM_D_SC_RESP_CACHE_TIMEOUT_MS'') parse_usize);
            dir = unwrap_or (models_dir @ ''/baseline-minilm'') (env ''LLM_D_SC_RESP_EMBED_DIR'')
        in case load (dir @ ''/config.json'') (dir @ ''/model.safetensors'') (dir @ ''/tokenizer.json'') (dir @ ''/1_Pooling/config.json'') of
             Inl _ \<Rightarrow> None
           | Inr em \<Rightarrow>
               (case response_connect opened url thr ttl timeout of
                  Inl _ \<Rightarrow> None
                | Inr c \<Rightarrow> Some (\<lparr>cx_embed = em, cx_vllm_url = vllm, cx_threshold = thr, cx_timeout_secs = 120\<rparr>, c)))))"

section \<open>The chat route\<close>

text \<open>
  Every answer of the chat route is a hit, a miss or a bypass. A hit is a 200 with what
  the cache returned, and the upstream is not called; otherwise the answer is exactly the
  upstream's. A streaming request, or one without a plain user message that can be
  embedded, always bypasses and leaves the cache alone; only an upstream 200 is stored.
\<close>

theorem chat_route:
  assumes "handle_chat js env post (Some ctx) raw (c, u) = (Inr (code, status, body), c', u')"
  shows "\<exists>req. js_parse js raw = Inr req \<and>
    (case chat_vector js ctx req of
       None \<Rightarrow> status = ChatBypass \<and> c' = c
     | Some v \<Rightarrow>
         (case response_lookup env v (request_model js req) c of
            (Some hit, c1) \<Rightarrow> status = ChatHit \<and> code = 200 \<and> body = hit \<and> c' = c1 \<and> u' = u
          | (None, c1) \<Rightarrow> status = ChatMiss \<and>
              c' = (if code = 200 then response_insert env v (request_model js req) body c1 else c1))) \<and>
    (status \<noteq> ChatHit \<longrightarrow> forward_upstream post (cx_vllm_url ctx) raw (cx_timeout_secs ctx) u = (Inr (code, body), u'))"
  using assms
  by (auto simp: handle_chat_def Let_def bind_res_Inr_iff split: sum.splits option.splits prod.splits if_splits)

text \<open>
  What the safety of the route needs of the server: connecting, searching, creating an index
  and expiring a key add no entry, storing adds at most the entry written, and a search of
  the response index returns a payload stored under a model that the queried model matches.
\<close>

definition resp_lawful :: "'x redis_env \<Rightarrow> ('x \<Rightarrow> (string \<times> string) set) \<Rightarrow> (string \<Rightarrow> string \<Rightarrow> bool) \<Rightarrow> bool" where
  "resp_lawful env stored matches \<longleftrightarrow>
     (\<forall>x. stored (snd (re_conn env x)) \<subseteq> stored x) \<and>
     (\<forall>idx q blob x. stored (snd (re_search env idx q blob x)) \<subseteq> stored x) \<and>
     (\<forall>idx pre f d x. stored (re_create env idx pre f d x) \<subseteq> stored x) \<and>
     (\<forall>key ttl x. stored (snd (re_expire env key ttl x)) \<subseteq> stored x) \<and>
     (\<forall>key f m payload blob x. stored (snd (re_hset env key f m payload blob x)) \<subseteq> insert (m, payload) (stored x)) \<and>
     (\<forall>model blob x v x' d p. re_search env resp_index_name (knn_query ''model'' model) blob x = (Inr v, x') \<longrightarrow>
        parse_knn_reply v = Some (d, p) \<longrightarrow>
        (\<exists>m payload. matches model m \<and> (m, payload) \<in> stored x \<and> p = from_utf8_lossy payload))"

lemma resp_conn_stored:
  assumes "resp_lawful env stored matches" and "\<And>x. stored (snd (f x)) \<subseteq> A \<union> stored x"
  shows "stored (snd (with_conn env f x)) \<subseteq> A \<union> stored x"
proof -
  obtain res x0 where c: "re_conn env x = (res, x0)" by fastforce
  have "stored (snd (re_conn env x)) \<subseteq> stored x" using assms(1) by (simp add: resp_lawful_def)
  then have "stored x0 \<subseteq> stored x" by (simp add: c)
  then show ?thesis using assms(2) [of x0] by (cases res) (auto simp: with_conn_def c)
qed

lemma response_lookup_stored:
  assumes "resp_lawful env stored matches" and "response_lookup env v model c = (r, c')"
  shows "stored (rc_server c') \<subseteq> stored (rc_server c)"
    and "r = Some body \<Longrightarrow> \<exists>m payload. matches model m \<and> (m, payload) \<in> stored (rc_server c) \<and> body = from_utf8_lossy payload"
proof -
  define f where "f = re_search env resp_index_name (knn_query ''model'' model) (vector_to_bytes (re_f32 env) v)"
  have f: "stored (snd (f x)) \<subseteq> {} \<union> stored x" for x
    unfolding f_def using assms(1) by (auto simp: resp_lawful_def)
  have "stored (snd (with_conn env f (rc_server c))) \<subseteq> {} \<union> stored (rc_server c)"
    by (rule resp_conn_stored [OF assms(1) f])
  then show "stored (rc_server c') \<subseteq> stored (rc_server c)"
    using assms(2) by (auto simp: response_lookup_def Let_def f_def split_beta split: sum.splits option.splits if_splits)
  assume "r = Some body"
  with assms(2) obtain reply x x0 d where s: "re_conn env (rc_server c) = (Inr (), x0)" "f x0 = (Inr reply, x)"
    "parse_knn_reply reply = Some (d, body)"
    by (auto simp: response_lookup_def Let_def with_conn_def f_def split: prod.splits sum.splits option.splits if_splits)
  have "stored x0 \<subseteq> stored (rc_server c)" using assms(1) s(1) unfolding resp_lawful_def by (metis snd_conv)
  moreover obtain m payload where "matches model m" "(m, payload) \<in> stored x0" "body = from_utf8_lossy payload"
    using assms(1) s(2,3) unfolding resp_lawful_def f_def by blast
  ultimately show "\<exists>m payload. matches model m \<and> (m, payload) \<in> stored (rc_server c) \<and> body = from_utf8_lossy payload"
    by blast
qed

lemma response_insert_stored:
  assumes "resp_lawful env stored matches"
  shows "stored (rc_server (response_insert env v model payload c)) \<subseteq> insert (model, payload) (stored (rc_server c))"
proof -
  define f where "f = (\<lambda>x0. let x1 = re_create env resp_index_name ''resp:'' ''model'' (length v) x0
    in case re_hset env (response_key (re_hex env) model (vector_to_bytes (re_f32 env) v)) ''model'' model payload
         (vector_to_bytes (re_f32 env) v) x1 of
         (Inl e, x2) \<Rightarrow> (Inl e, x2)
       | (Inr _, x2) \<Rightarrow> re_expire env (response_key (re_hex env) model (vector_to_bytes (re_f32 env) v)) (rc_ttl c) x2)"
  have f: "stored (snd (f x)) \<subseteq> {(model, payload)} \<union> stored x" for x
  proof -
    define x1 where "x1 = re_create env resp_index_name ''resp:'' ''model'' (length v) x"
    define key where "key = response_key (re_hex env) model (vector_to_bytes (re_f32 env) v)"
    obtain res x2 where h: "re_hset env key ''model'' model payload (vector_to_bytes (re_f32 env) v) x1 = (res, x2)"
      by fastforce
    have "stored x1 \<subseteq> stored x" unfolding x1_def using assms by (simp add: resp_lawful_def)
    moreover have "stored x2 \<subseteq> insert (model, payload) (stored x1)"
      using assms h unfolding resp_lawful_def by (metis snd_conv)
    moreover have "stored (snd (re_expire env key (rc_ttl c) x2)) \<subseteq> stored x2" using assms by (simp add: resp_lawful_def)
    ultimately show ?thesis by (auto simp: f_def h Let_def key_def [symmetric] x1_def [symmetric] split: sum.split)
  qed
  from resp_conn_stored [OF assms f] show ?thesis
    by (auto simp: response_insert_def response_try_insert_def Let_def f_def split_beta)
qed

lemma handle_chat_stored:
  assumes "resp_lawful env stored matches" and "handle_chat js env post (Some ctx) raw (c, u) = (r, c', u')"
  shows "stored (rc_server c') \<subseteq> stored (rc_server c) \<union>
    {(m, body). r = Inr (200, ChatMiss, body) \<and> (\<exists>req. js_parse js raw = Inr req \<and> m = request_model js req)}"
proof (cases "js_parse js raw")
  case (Inl e)
  with assms(2) show ?thesis by (auto simp: handle_chat_def)
next
  case (Inr req)
  show ?thesis
  proof (cases "chat_vector js ctx req")
    case None
    with Inr assms(2) show ?thesis by (auto simp: handle_chat_def Let_def split: prod.splits)
  next
    case (Some v)
    obtain hit c1 where l: "response_lookup env v (request_model js req) c = (hit, c1)" by fastforce
    note sub = response_lookup_stored(1) [OF assms(1) l]
    obtain ans u1 where f: "forward_upstream post (cx_vllm_url ctx) raw (cx_timeout_secs ctx) u = (ans, u1)" by fastforce
    show ?thesis
    proof (cases "hit = None \<and> (\<exists>body. ans = Inr (200, body))")
      case True
      then obtain body where "hit = None" "ans = Inr (200, body)" by blast
      with Inr Some l f assms(2) have "r = Inr (200, ChatMiss, body)"
        "c' = response_insert env v (request_model js req) body c1"
        by (auto simp: handle_chat_def)
      with sub response_insert_stored [OF assms(1), of v "request_model js req" body c1] Inr show ?thesis by auto
    next
      case False
      with Inr Some l f assms(2) have "c' = c1"
        by (auto simp: handle_chat_def split: option.splits sum.splits prod.splits if_splits)
      with sub show ?thesis by blast
    qed
  qed
qed

fun chat_run ::
  "'j json_ops \<Rightarrow> 'x redis_env \<Rightarrow> (string \<Rightarrow> string \<Rightarrow> nat \<Rightarrow> 'u \<Rightarrow> upstream_reply \<times> 'u) \<Rightarrow> chat_ctx \<Rightarrow> string list \<Rightarrow>
     'x response_cache \<times> 'u \<Rightarrow> (string + (nat \<times> cache_status \<times> string)) list \<times> 'x response_cache \<times> 'u" where
  "chat_run js env post ctx [] st = ([], st)"
| "chat_run js env post ctx (raw # raws) st =
     (let (r, st1) = handle_chat js env post (Some ctx) raw st; (rs, st2) = chat_run js env post ctx raws st1
      in (r # rs, st2))"

definition completed :: "'j json_ops \<Rightarrow> (string \<times> (string + (nat \<times> cache_status \<times> string))) set \<Rightarrow> (string \<times> string) set" where
  "completed js ex =
     {(m, body). \<exists>raw req. (raw, Inr (200, ChatMiss, body)) \<in> ex \<and> js_parse js raw = Inr req \<and> m = request_model js req}"

lemma completed_insert:
  "completed js (insert (raw, r) ex) =
     {(m, body). r = Inr (200, ChatMiss, body) \<and> (\<exists>req. js_parse js raw = Inr req \<and> m = request_model js req)} \<union> completed js ex"
  by (auto simp: completed_def)

lemma chat_run_stored:
  assumes "resp_lawful env stored matches"
  shows "chat_run js env post ctx raws (c, u) = (outs, c', u') \<Longrightarrow>
    stored (rc_server c') \<subseteq> stored (rc_server c) \<union> completed js (set (zip raws outs))"
proof (induction raws arbitrary: c u outs)
  case (Cons raw raws)
  obtain r c1 u1 where h: "handle_chat js env post (Some ctx) raw (c, u) = (r, c1, u1)" by (metis prod_cases3)
  with Cons.prems obtain rs where run: "chat_run js env post ctx raws (c1, u1) = (rs, c', u')" and outs: "outs = r # rs"
    by (auto split: prod.splits)
  have "completed js (set (zip (raw # raws) outs)) =
      {(m, body). r = Inr (200, ChatMiss, body) \<and> (\<exists>req. js_parse js raw = Inr req \<and> m = request_model js req)}
      \<union> completed js (set (zip raws rs))"
    unfolding outs zip_Cons_Cons set_simps by (rule completed_insert)
  with Cons.IH [OF run] handle_chat_stored [OF assms h] show ?case by (simp only:) blast
qed simp

text \<open>
  C17. Over any sequence of requests on a server that held no response, a hit replays the
  body of an earlier request of the sequence that missed and was answered with a 200 by
  the upstream for a model that the queried one matches: errors are never replayed, and
  with exact matching nothing crosses models.
\<close>

theorem chat_hits_replay_completions:
  assumes "resp_lawful env stored matches" and "stored (rc_server c0) = {}"
    and "chat_run js env post ctx raws (c0, u0) = (outs, c, u)"
    and "handle_chat js env post (Some ctx) raw (c, u) = (Inr (code, ChatHit, body), c', u')"
  shows "\<exists>req raw0 req0 body0. js_parse js raw = Inr req \<and> (raw0, Inr (200, ChatMiss, body0)) \<in> set (zip raws outs) \<and>
    js_parse js raw0 = Inr req0 \<and> matches (request_model js req) (request_model js req0) \<and> body = from_utf8_lossy body0"
proof -
  obtain req v c1 where hit: "js_parse js raw = Inr req" "response_lookup env v (request_model js req) c = (Some body, c1)"
    using assms(4) by (auto simp: handle_chat_def Let_def bind_res_Inr_iff split: sum.splits option.splits prod.splits if_splits)
  from response_lookup_stored(2) [OF assms(1) hit(2) refl] obtain m payload where
    "matches (request_model js req) m" "(m, payload) \<in> stored (rc_server c)" "body = from_utf8_lossy payload" by blast
  moreover have "stored (rc_server c) \<subseteq> completed js (set (zip raws outs))"
    using chat_run_stored [OF assms(1,3)] assms(2) by simp
  ultimately show ?thesis using hit(1) unfolding completed_def by fastforce
qed

section \<open>A concrete chat\<close>

text \<open>
  A request is its prompt: the witnesses use a decoder for which every body is one user
  message to one model, an upstream that answers every request, and a response index that
  finds entries by model.
\<close>

definition chat_json :: "string json_ops" where
  "chat_json =
     \<lparr>js_parse = Inr, js_get = (\<lambda>v name. if name = ''stream'' then None else if name = ''role'' then Some ''user'' else Some v),
      js_str = Some, js_bool = (\<lambda>_. None), js_u64 = (\<lambda>_. None), js_array = (\<lambda>v. Some [v]), js_null = (\<lambda>_. False)\<rparr>"

definition chat_redis :: "(string \<times> string) list redis_env" where
  "chat_redis = demo_redis\<lparr>re_search := (\<lambda>_ q _ x. (Inr (case List.find (\<lambda>e. knn_query ''model'' (fst e) = q) x of
      Some e \<Rightarrow> RArray [ROther, RBulk ''key'', RArray [RBulk ''dist'', RBulk ''0'', RBulk ''payload'', RBulk (snd e)]]
    | None \<Rightarrow> RArray [ROther]), x))\<rparr>"

definition chat_post :: "string \<Rightarrow> string \<Rightarrow> nat \<Rightarrow> unit \<Rightarrow> upstream_reply \<times> unit" where
  "chat_post url body timeout u = (UpstreamOk 200 (Inr ''done''), u)"

definition chat_demo :: chat_ctx where
  "chat_demo = \<lparr>cx_embed = (\<lambda>_. Inr [Fin 1]), cx_vllm_url = ''http://v'', cx_threshold = Fin 0, cx_timeout_secs = 120\<rparr>"

definition chat_cache :: "(string \<times> string) list \<Rightarrow> (string \<times> string) list response_cache" where
  "chat_cache x = \<lparr>rc_threshold = Fin 0, rc_ttl = 60, rc_timeout_ms = 1000, rc_server = x\<rparr>"

lemma chat_lawful: "resp_lawful chat_redis set (\<lambda>tag m. tag = m)"
proof -
  have found: "(tag, b) \<in> set x" if "List.find (\<lambda>e. knn_query f (fst e) = knn_query f tag) x = Some (a, b)" for f tag x a b
    using that by (auto simp: find_Some_iff dest!: knn_query_inj) (metis fst_conv nth_mem)
  have none: "parse_knn_reply (RArray [ROther]) = None" by (simp add: parse_knn_reply_def)
  show ?thesis unfolding resp_lawful_def
    by (auto simp: chat_redis_def demo_redis_def demo_reply none split: option.splits dest: found)
qed

lemma chat_demo_vector: "chat_vector chat_json chat_demo req = Some [Fin 1]" "request_model chat_json req = req"
  "js_parse chat_json raw = Inr raw"
  by (simp_all add: chat_vector_def request_stream_def last_user_message_def chat_json_def chat_demo_def ok_of_def request_model_def)

lemma chat_first:
  "handle_chat chat_json chat_redis chat_post (Some chat_demo) ''m'' (chat_cache [], ()) =
     (Inr (200, ChatMiss, ''done''), chat_cache [(''m'', ''done'')], ())"
  by (simp add: handle_chat_def chat_demo_vector forward_upstream_def chat_post_def response_lookup_def response_insert_def
      response_try_insert_def with_conn_def Let_def chat_redis_def demo_redis_def parse_knn_reply_def chat_cache_def)

lemma chat_second:
  "handle_chat chat_json chat_redis chat_post (Some chat_demo) ''m'' (chat_cache [(''m'', ''done'')], ()) =
     (Inr (200, ChatHit, from_utf8_lossy ''done''), chat_cache [(''m'', ''done'')], ())"
proof -
  have "flt_le (Fin 0) (cosine_score_from_distance (Fin 0))"
    using f32.rnd_nat [of 1] by (simp add: cosine_score_from_distance_def fsub_def)
  then show ?thesis
    by (simp add: handle_chat_def chat_demo_vector response_lookup_def with_conn_def Let_def chat_redis_def demo_redis_def
        demo_reply chat_cache_def)
qed

theorem chat_route_witness:
  "\<exists>hit c1. response_lookup chat_redis [Fin 1] ''m'' (chat_cache [(''m'', ''done'')]) = (Some hit, c1) \<and>
     handle_chat chat_json chat_redis chat_post (Some chat_demo) ''m'' (chat_cache [(''m'', ''done'')], ()) =
       (Inr (200, ChatHit, hit), c1, ())"
  using chat_route [OF chat_second] chat_second
  by (auto simp: chat_demo_vector split: option.splits prod.splits)

theorem chat_hits_replay_completions_witness:
  "\<exists>outs c u. chat_run chat_json chat_redis chat_post chat_demo [''m''] (chat_cache [], ()) = (outs, c, u) \<and>
     (\<exists>body c'. fst (handle_chat chat_json chat_redis chat_post (Some chat_demo) ''m'' (c, u)) = Inr (200, ChatHit, body) \<and>
        (\<exists>body0. body = from_utf8_lossy body0 \<and> Inr (200, ChatMiss, body0) \<in> set outs))"
proof -
  have run: "chat_run chat_json chat_redis chat_post chat_demo [''m''] (chat_cache [], ()) =
      ([Inr (200, ChatMiss, ''done'')], chat_cache [(''m'', ''done'')], ())"
    by (simp add: chat_first)
  have "set (rc_server (chat_cache [])) = {}" by (simp add: chat_cache_def)
  from chat_hits_replay_completions [OF chat_lawful this run chat_second] run chat_second
  show ?thesis by auto
qed

section \<open>The tier that is reported\<close>

definition l2_only :: "metrics \<Rightarrow> metrics \<Rightarrow> bool" where
  "l2_only m m' \<longleftrightarrow> ms_cache_hits m' = ms_cache_hits m \<and> ms_l2_hits m' = ms_l2_hits m"

lemma l2_only_stage: "l2_only m (record_stage st ns m)"
  by (cases st) (simp_all add: l2_only_def)

lemma l2_only_trans: "l2_only a b \<Longrightarrow> l2_only b c \<Longrightarrow> l2_only a c"
  by (simp add: l2_only_def)

lemma l2_only_embed: "l2_only (snd st) (snd (snd (candle_embed cl inp st)))"
  by (auto simp: candle_embed_def Let_def l2_only_def split: sum.split)

lemma l2_only_insert: "l2_only (snd st) (snd (redis_insert env emb r tag st))"
  by (auto simp: redis_insert_def Let_def split_beta l2_only_def l2_records)

lemma lookup_hits:
  "ms_cache_hits (snd (snd (redis_lookup env emb tag st))) = ms_cache_hits (snd st) \<and>
   ms_l2_hits (snd (snd (redis_lookup env emb tag st))) =
     ms_l2_hits (snd st) + (if fst (redis_lookup env emb tag st) = None then 0 else 1)"
  by (auto simp: redis_lookup_def Let_def split_beta l2_records split: sum.split option.split)

lemma forward_tier:
  assumes "ce_runtime env = candle_runtime cl" and "ce_semantic env = redis_ops renv"
    and "core_forward env tag inp w = (res, w')"
  shows "l2_only (w_metrics w) (w_metrics w') \<or>
    ms_cache_hits (w_metrics w') = ms_cache_hits (w_metrics w) \<and> ms_l2_hits (w_metrics w') = ms_l2_hits (w_metrics w) + 1 \<and>
    (\<exists>emb st r. fst (redis_lookup renv emb tag st) = Some r \<and> res = Inr r)"
proof -
  obtain text_hit a1 where t: "tier_lookup (ce_prefilter env) (ce_signature env (in_text inp)) tag (w_prefilter w) = (text_hit, a1)"
    by fastforce
  obtain embedded r1 m1 where e: "candle_embed cl inp (w_runtime w, w_metrics w) = (embedded, r1, m1)" by (metis prod_cases3)
  have m1: "l2_only (w_metrics w) m1" using l2_only_embed [of "(w_runtime w, w_metrics w)" cl inp] e by simp
  show ?thesis
  proof (cases text_hit)
    case (Some hit)
    with t assms(3) show ?thesis by (auto simp: core_forward_def Let_def l2_only_def)
  next
    case None
    show ?thesis
    proof (cases embedded)
      case (Inl err)
      with None t e m1 assms show ?thesis by (auto simp: core_forward_def Let_def candle_runtime_def)
    next
      case (Inr emb)
      obtain hit b1 m2 where l: "redis_lookup renv emb tag (w_semantic w, m1) = (hit, b1, m2)" by (metis prod_cases3)
      note m2 = lookup_hits [of renv emb tag "(w_semantic w, m1)", unfolded l fst_conv snd_conv]
      show ?thesis
      proof (cases hit)
        case (Some r)
        with None Inr t e l assms have "res = Inr r" "w_metrics w' = m2"
          by (auto simp: core_forward_def Let_def candle_runtime_def redis_ops_def)
        moreover have "fst (redis_lookup renv emb tag (w_semantic w, m1)) = Some r" using l Some by simp
        ultimately show ?thesis using m1 m2 Some unfolding l2_only_def by auto
      next
        case None
        obtain b2 m4 where i: "redis_insert renv emb (candle_rank_result cl emb) tag (b1, m2) = (b2, m4)" by fastforce
        have "w_metrics w' = m4"
          using None Inr \<open>text_hit = None\<close> t e l i assms
          by (auto simp: core_forward_def Let_def candle_runtime_def candle_rank_def redis_ops_def)
        moreover have "l2_only m2 m4" using l2_only_insert [of "(b1, m2)" renv emb _ tag] i by (metis snd_conv)
        ultimately show ?thesis using m1 m2 None unfolding l2_only_def by auto
      qed
    qed
  qed
qed

text \<open>
  When nothing else touches the counters, the tier reported for a request is right: an
  exact hit is reported exactly when the exact cache held the key, and a semantic hit only
  when the Redis tier returned the very result that was served.
\<close>

theorem reported_tier_is_right:
  assumes "ce_runtime env = candle_runtime cl" and "ce_semantic env = redis_ops renv"
    and "completeness inp \<noteq> Delta" and "core_classify env inp c = (res, c')"
  defines "t \<equiv> classify_tier (snapshot (w_metrics (core_world c))) (snapshot (w_metrics (core_world c')))"
  shows "(t = L1ExactHit) = (ec_cached_value (core_key env (trim (in_text inp))) (core_cache c) \<noteq> None) \<and>
    (t = L2SemanticHit \<longrightarrow> (\<exists>emb st r. fst (redis_lookup renv emb (identity_tag (cache_identity (candle_metadata cl))) st) = Some r \<and>
       res = Inr r))"
proof (cases "ec_cached_value (core_key env (trim (in_text inp))) (core_cache c)")
  case (Some r)
  from core_hit [OF assms(3) Some] assms(4) show ?thesis
    by (auto simp: t_def classify_tier_def snapshot_def record_cache_hit_def Some)
next
  case None
  obtain result w' where f: "core_forward env (identity_tag (cache_identity (op_metadata (ce_runtime env))))
      (inp\<lparr>in_text := trim (in_text inp)\<rparr>) (core_world c) = (result, w')" by fastforce
  have "res = result" "w_metrics (core_world c') = record_cache_miss (w_metrics w')"
    using core_miss [OF assms(3) None f] assms(4) by auto
  moreover have "op_metadata (ce_runtime env) = candle_metadata cl" using assms(1) by (simp add: candle_runtime_def)
  ultimately show ?thesis
    using forward_tier [OF assms(1,2) f] None
    by (auto simp: t_def classify_tier_def snapshot_def record_cache_miss_def l2_only_def)
qed

definition play_env :: "(candle_counters, unit, (string \<times> string) list redis_tier) core_env" where
  "play_env =
     \<lparr>ce_runtime = candle_runtime (candle_new demo_embedder [] exp_ieee), ce_prefilter = noop_text,
      ce_semantic = redis_ops demo_redis, ce_signature = (\<lambda>_. zero_sig), ce_blake3 = (\<lambda>s. s)\<rparr>"

theorem reported_tier_is_right_witness:
  "\<exists>res c'. core_classify play_env demo_request (core_new \<lparr>tokenizer_calls = 0, forward_calls = 0\<rparr> () demo_redis_tier metrics_new)
       = (res, c') \<and>
     classify_tier (snapshot metrics_new) (snapshot (w_metrics (core_world c'))) \<noteq> L1ExactHit"
proof -
  define c where "c = core_new \<lparr>tokenizer_calls = 0, forward_calls = 0\<rparr> () demo_redis_tier metrics_new"
  obtain res c' where run: "core_classify play_env demo_request c = (res, c')" by fastforce
  have "ec_cached_value k (core_cache c) = None" for k
    by (simp add: c_def core_new_def ec_cached_value_def ec_new_def ec_with_capacity_def)
  moreover have "w_metrics (core_world c) = metrics_new" by (simp add: c_def core_new_def)
  moreover have "ce_runtime play_env = candle_runtime (candle_new demo_embedder [] exp_ieee)" "ce_semantic play_env = redis_ops demo_redis"
    by (simp_all add: play_env_def)
  moreover have "completeness demo_request \<noteq> Delta" by (simp add: demo_request_def)
  ultimately have "classify_tier (snapshot metrics_new) (snapshot (w_metrics (core_world c'))) \<noteq> L1ExactHit"
    using reported_tier_is_right [of play_env "candle_new demo_embedder [] exp_ieee" demo_redis demo_request c res c'] run by simp
  with run show ?thesis unfolding c_def by blast
qed

text \<open>
  Other activity does touch them: the write-back thread counts a failed write as degraded,
  so a request whose lookup was a plain miss is reported as degraded when an earlier write
  fails while it is served.
\<close>

definition demo_readonly :: "(string \<times> string) list redis_env" where
  "demo_readonly = demo_redis\<lparr>re_hset := (\<lambda>_ _ _ _ _ x. (Inl ''READONLY'', x))\<rparr>"

definition demo_job :: write_job where
  "demo_job = \<lparr>wj_blob = ''0000'', wj_dim = 1, wj_payload = ''json'', wj_identity = ''tag''\<rparr>"

lemma failed_write_reported_as_degraded:
  "let looked = redis_lookup demo_readonly (embedding_new [Fin 1]) ''tag'' (demo_redis_tier\<lparr>rd_queue := [demo_job]\<rparr>, metrics_new)
   in ms_l2_misses (snd (snd looked)) = ms_l2_misses metrics_new + 1 \<and>
      classify_tier (snapshot metrics_new) (snapshot (snd (snd looked))) = ComputeMiss \<and>
      classify_tier (snapshot metrics_new) (snapshot (snd (writer_step demo_readonly (snd looked)))) = Degraded"
  by (simp add: redis_lookup_def writer_step_def redis_write_def with_conn_def Let_def demo_readonly_def demo_redis_def
      demo_redis_tier_def breaker_allow_def breaker_new_def breaker_record_success_def breaker_record_failure_def
      parse_knn_reply_def classify_tier_def snapshot_def l2_records demo_job_def split: prod.split)

text \<open>The chat route is enabled by a Redis address alone, also when the strategy is \<open>exact\<close>.\<close>

definition exact_with_url :: "string \<Rightarrow> string option" where
  "exact_with_url name =
     (if name = ''LLM_D_SC_REDIS_URL'' then Some ''redis://r'' else if name = ''LLM_D_SC_VLLM_URL'' then Some ''http://v'' else None)"

lemma chat_route_needs_no_semantic_strategy:
  "\<exists>cfg. from_env_with exact_with_url = Inr cfg \<and> strategy cfg = ''exact'' \<and>
     build_response_cache exact_with_url (\<lambda>_ _ _ _. Inr (\<lambda>_. Inr [])) (\<lambda>_. Inr ()) ''models'' cfg \<noteq> None"
proof -
  have "trim ''redis://r'' \<noteq> []" "trim ''http://v'' \<noteq> []" by code_simp+
  moreover have "flt_le (Fin 0) default_threshold \<and> flt_le default_threshold (Fin 1)" by (rule default_threshold_unit)
  ultimately show ?thesis
    by (simp add: from_env_with_def exact_with_url_def KNOWN_CACHE_STRATEGIES_def unwrap_or_def filter_opt_def
        build_response_cache_def response_connect_def Let_def split: sum.split option.split)
qed

end
