(* ===== verification/BenchRunner.thy ===== *)
theory BenchRunner
  imports Bench
begin

text \<open>
  The protocol of the benchmark runner \<open>src/src/bin/bench-runner.rs\<close>: its settings, the
  input it builds for a token length, the scenarios of its matrix and what it reports of
  one. The tokenizer is a parameter; the report is in \<open>RunnerReport\<close>.
\<close>

section \<open>Settings\<close>

definition TOKEN_LENGTHS :: "nat list" where "TOKEN_LENGTHS = [32, 64, 128, 256]"

definition CONCURRENCIES :: "nat list" where "CONCURRENCIES = [1, 4]"

definition SEED_WORD :: string where "SEED_WORD = ''benchmark''"

definition parse_env :: "(string \<Rightarrow> string option) \<Rightarrow> string \<Rightarrow> nat \<Rightarrow> string + nat" where
  "parse_env get name dflt =
     (case get name of
        None \<Rightarrow> Inr dflt
      | Some v \<Rightarrow> (case parse_usize (trim v) of
                    None \<Rightarrow> Inl (name @ '' must be a positive integer, got '' @ [CHR 0x27] @ v @ [CHR 0x27])
                  | Some n \<Rightarrow> Inr n))"

definition read_settings :: "(string \<Rightarrow> string option) \<Rightarrow> string + (nat \<times> nat)" where
  "read_settings get =
     bind_res (parse_env get ''BENCH_WARMUP'' 200) (\<lambda>warmup.
     bind_res (parse_env get ''BENCH_MEASURE'' 1000) (\<lambda>measured.
       if measured = 0 then Inl ''BENCH_MEASURE must be >= 1'' else Inr (warmup, measured)))"

section \<open>The input\<close>

definition token_count :: "(string \<Rightarrow> string + nat list) \<Rightarrow> string \<Rightarrow> nat" where
  "token_count tok s = (case tok s of Inl _ \<Rightarrow> 0 | Inr ids \<Rightarrow> length ids)"

partial_function (option) seed_loop :: "(string \<Rightarrow> string + nat list) \<Rightarrow> nat \<Rightarrow> string \<Rightarrow> string option" where
  "seed_loop tok target base =
     (let base' = base @ SEED_WORD @ '' ''
      in if target \<le> token_count tok (trim_end base') then Some (trim_end base') else seed_loop tok target base')"

definition build_seed :: "nat \<Rightarrow> (string \<Rightarrow> string + nat list) \<Rightarrow> string option" where
  "build_seed target tok = seed_loop tok target []"

section \<open>Scenarios\<close>

definition scenario_matrix :: "(nat \<times> cache_mode \<times> nat) list" where
  "scenario_matrix = [(t, m, c). t \<leftarrow> TOKEN_LENGTHS, m \<leftarrow> [HitMode, MissMode], c \<leftarrow> CONCURRENCIES]"

definition warm_count :: "cache_mode \<Rightarrow> nat \<Rightarrow> nat \<Rightarrow> nat" where
  "warm_count mode warmup measured = (case mode of HitMode \<Rightarrow> max warmup measured | MissMode \<Rightarrow> warmup)"

definition stage_delta :: "metrics_snapshot \<Rightarrow> metrics_snapshot \<Rightarrow> metrics_snapshot" where
  "stage_delta before after =
     \<lparr>ms_queue = ms_queue after - ms_queue before, ms_tokenize = ms_tokenize after - ms_tokenize before,
      ms_forward = ms_forward after - ms_forward before, ms_total = ms_total after - ms_total before,
      ms_cache_hits = ms_cache_hits after - ms_cache_hits before, ms_cache_misses = ms_cache_misses after - ms_cache_misses before,
      ms_l2_hits = ms_l2_hits after - ms_l2_hits before, ms_l2_misses = ms_l2_misses after - ms_l2_misses before,
      ms_l2_degraded = ms_l2_degraded after - ms_l2_degraded before,
      ms_cache_coalesced = ms_cache_coalesced after - ms_cache_coalesced before,
      ms_queued_expired = ms_queued_expired after - ms_queued_expired before,
      ms_queued_cancelled = ms_queued_cancelled after - ms_queued_cancelled before\<rparr>"

record scenario =
  sn_cache_mode :: cache_mode
  sn_target_length :: nat
  sn_actual_token_count :: nat
  sn_concurrency :: nat
  sn_warmup :: nat
  sn_measured :: nat
  sn_dist :: "nat list"
  sn_throughput :: flt
  sn_errors :: nat
  sn_stage :: metrics_snapshot

text \<open>\<open>Duration::as_secs_f64\<close> of a number of nanoseconds.\<close>

definition secs_f64 :: "nat \<Rightarrow> flt" where
  "secs_f64 ns = fadd round64 (nat_as_f64 (ns div 10 ^ 9)) (fdiv round64 (nat_as_f64 (ns mod 10 ^ 9)) (nat_as_f64 (10 ^ 9)))"

text \<open>
  One scenario, on a server whose registry \<open>snap\<close> reads: connect, warm up, measure, and
  abort on any failure. \<open>clock\<close> is the time in nanoseconds; \<open>plan\<close> is the schedule of the
  worker threads of a concurrent measurement and which of them cannot connect, and \<open>None\<close>
  a schedule that leaves a thread unfinished.
\<close>

definition run_scenario ::
  "'s transport \<Rightarrow> ('s \<Rightarrow> metrics_snapshot) \<Rightarrow> ('s \<Rightarrow> nat) \<Rightarrow> (bench_run \<Rightarrow> 's \<Rightarrow> nat list \<times> (nat \<Rightarrow> string option)) \<Rightarrow>
     (string \<Rightarrow> string + nat list) \<Rightarrow> string \<Rightarrow> nat \<Rightarrow> nat \<Rightarrow> nat \<times> cache_mode \<times> nat \<Rightarrow> bench_run \<Rightarrow> 's \<Rightarrow>
     ((bench_error + scenario) \<times> 's) option" where
  "run_scenario call snap clock plan tok seed warmup measured sc run0 st =
     (case sc of (target, mode, concurrency) \<Rightarrow>
        (let run = with_seed seed run0;
             warm = warm_count mode warmup measured;
             actual = token_count tok (seed @ ''-measure-'' @ show_nat (br_run_id run) @ ''-'' @ show_nat 0)
         in case bench_warmup call run warm st of
              (Inl e, st1) \<Rightarrow> Some (Inl e, st1)
            | (Inr _, st1) \<Rightarrow>
                (let before = snap st1
                 in case (if concurrency = 1 then Some (bench_measure call snap run measured st1)
                          else (case plan run st1 of (sched, connects) \<Rightarrow>
                            bench_measure_concurrent call snap run measured concurrency connects sched st1)) of
                      None \<Rightarrow> None
                    | Some (Inl e, st2) \<Rightarrow> Some (Inl e, st2)
                    | Some (Inr d, st2) \<Rightarrow>
                        Some (Inr \<lparr>sn_cache_mode = mode, sn_target_length = target, sn_actual_token_count = actual,
                              sn_concurrency = concurrency, sn_warmup = warm, sn_measured = measured, sn_dist = d,
                              sn_throughput = fdiv round64 (nat_as_f64 measured) (secs_f64 (clock st2 - clock st1)),
                              sn_errors = 0, sn_stage = stage_delta before (snap st2)\<rparr>, st2))))"

section \<open>The matrix\<close>

text \<open>How the runner fails: \<open>RunnerExit\<close> is a process exit, the others are the errors \<open>main\<close> returns.\<close>

datatype runner_error = RunnerExit nat | RunnerInput string | RunnerNotReady string | RunnerBind string | RunnerTokenizer string
  | RunnerConnect string | RunnerScenario "nat \<times> cache_mode \<times> nat" bench_error | RunnerWrite string

text \<open>
  The scenarios in order, each on a connection of its own with the next run id. \<open>None\<close>: the
  search for a seed does not end, or a plan leaves a thread unfinished.
\<close>

fun run_matrix ::
  "'s transport \<Rightarrow> ('s \<Rightarrow> metrics_snapshot) \<Rightarrow> ('s \<Rightarrow> nat) \<Rightarrow> (bench_run \<Rightarrow> 's \<Rightarrow> nat list \<times> (nat \<Rightarrow> string option)) \<Rightarrow> ('s \<Rightarrow> string + unit) \<Rightarrow>
     (string \<Rightarrow> string + nat list) \<Rightarrow> nat \<Rightarrow> nat \<Rightarrow> (nat \<times> cache_mode \<times> nat) list \<Rightarrow> nat \<Rightarrow> 's \<Rightarrow> ((runner_error + scenario list) \<times> 's) option" where
  "run_matrix call snap clock plan conn tok warmup measured [] next st = Some (Inr [], st)"
| "run_matrix call snap clock plan conn tok warmup measured (sc # scs) next st =
     (case build_seed (fst sc) tok of
        None \<Rightarrow> None
      | Some seed \<Rightarrow>
          (case bench_connect (conn st) (fst (snd sc)) True next of
             (Inl e, _) \<Rightarrow> Some (Inl (RunnerConnect e), st)
           | (Inr run0, next') \<Rightarrow>
               (case run_scenario call snap clock plan tok seed warmup measured sc run0 st of
                  None \<Rightarrow> None
                | Some (Inl e, st1) \<Rightarrow> Some (Inl (RunnerScenario sc e), st1)
                | Some (Inr s, st1) \<Rightarrow>
                    (case run_matrix call snap clock plan conn tok warmup measured scs next' st1 of
                       None \<Rightarrow> None
                     | Some (Inl e, st2) \<Rightarrow> Some (Inl e, st2)
                     | Some (Inr ss, st2) \<Rightarrow> Some (Inr (s # ss), st2)))))"

section \<open>Termination of the input\<close>

definition seed_words :: "nat \<Rightarrow> string" where
  "seed_words k = concat (replicate k (SEED_WORD @ '' ''))"

lemma seed_words_Suc: "seed_words k @ SEED_WORD @ '' '' = seed_words (Suc k)"
proof -
  have "concat (replicate k x) @ x = x @ concat (replicate k x)" for x :: string by (induction k) simp_all
  then show ?thesis by (simp add: seed_words_def)
qed

lemma seed_loop_step:
  "seed_loop tok target (seed_words j) =
     (if target \<le> token_count tok (trim_end (seed_words (Suc j))) then Some (trim_end (seed_words (Suc j)))
      else seed_loop tok target (seed_words (Suc j)))"
  by (subst seed_loop.simps) (simp add: seed_words_Suc Let_def)

definition first_fit :: "(string \<Rightarrow> string + nat list) \<Rightarrow> nat \<Rightarrow> nat \<Rightarrow> nat \<Rightarrow> bool" where
  "first_fit tok target j k \<longleftrightarrow>
     j < k \<and> target \<le> token_count tok (trim_end (seed_words k)) \<and>
     (\<forall>i. j < i \<and> i < k \<longrightarrow> token_count tok (trim_end (seed_words i)) < target)"

lemma seed_loop_returns:
  "first_fit tok target j k \<Longrightarrow> seed_loop tok target (seed_words j) = Some (trim_end (seed_words k))"
proof (induction "k - j" arbitrary: j)
  case 0
  then show ?case by (simp add: first_fit_def)
next
  case (Suc n)
  show ?case
  proof (cases "Suc j = k")
    case True
    with Suc.prems show ?thesis by (simp add: seed_loop_step first_fit_def)
  next
    case False
    with Suc.prems have "Suc j < k" "token_count tok (trim_end (seed_words (Suc j))) < target"
      by (auto simp: first_fit_def)
    moreover from this Suc.prems have "first_fit tok target (Suc j) k" by (simp add: first_fit_def)
    ultimately show ?thesis using Suc.hyps(1) [of "Suc j"] Suc.hyps(2) by (simp add: seed_loop_step)
  qed
qed

lemma seed_loop_some:
  assumes "seed_loop tok target base = Some s"
  shows "\<forall>j. base = seed_words j \<longrightarrow> (\<exists>k. first_fit tok target j k)"
  using assms
proof (induction rule: seed_loop.raw_induct [rotated 1, consumes 1, case_names step])
  case (step loop tok target base s)
  have "\<exists>k. first_fit tok target j k" if b: "base = seed_words j" for j
  proof (cases "target \<le> token_count tok (trim_end (seed_words (Suc j)))")
    case True
    then have "first_fit tok target j (Suc j)" by (simp add: first_fit_def)
    then show ?thesis ..
  next
    case False
    with step(2) have "loop tok target (seed_words (Suc j)) = Some s" by (simp add: b seed_words_Suc Let_def)
    with step(1) obtain k where k: "first_fit tok target (Suc j) k" by blast
    have "first_fit tok target j k"
      unfolding first_fit_def
    proof (intro conjI allI impI)
      fix i assume "j < i \<and> i < k"
      then show "token_count tok (trim_end (seed_words i)) < target"
        using k False by (cases "i = Suc j") (auto simp: first_fit_def)
    qed (use k in \<open>auto simp: first_fit_def\<close>)
    then show ?thesis ..
  qed
  then show ?case by blast
qed

lemma first_fit_exists:
  assumes "target \<le> token_count tok (trim_end (seed_words k))" and "0 < k"
  shows "\<exists>k. first_fit tok target 0 k"
proof -
  define P where "P k \<longleftrightarrow> 0 < k \<and> target \<le> token_count tok (trim_end (seed_words k))" for k
  have "P (LEAST k. P k)" using assms by (intro LeastI [of P k]) (simp add: P_def)
  moreover have "\<not> P i" if "i < (LEAST k. P k)" for i using that by (rule not_less_Least)
  ultimately have "first_fit tok target 0 (LEAST k. P k)" by (auto simp: first_fit_def P_def not_le)
  then show ?thesis ..
qed

text \<open>
  C39. The runner's search for an input of a token length returns exactly when some number
  of repetitions of the word reaches it, and then with the fewest that do. With a
  tokenizer that fails, or that truncates below the length, it never returns.
\<close>

theorem build_seed_returns_iff:
  "(build_seed target tok \<noteq> None) = (\<exists>k>0. target \<le> token_count tok (trim_end (seed_words k))) \<and>
   (\<forall>s. build_seed target tok = Some s \<longrightarrow>
      (\<exists>k. s = trim_end (seed_words k) \<and> first_fit tok target 0 k))"
proof -
  have base: "build_seed target tok = seed_loop tok target (seed_words 0)"
    by (simp add: build_seed_def seed_words_def)
  have some: "\<exists>k. s = trim_end (seed_words k) \<and> first_fit tok target 0 k" if "build_seed target tok = Some s" for s
    using seed_loop_some [of tok target "seed_words 0" s] seed_loop_returns [of tok target 0] that unfolding base by auto
  moreover have "build_seed target tok \<noteq> None" if "0 < k" "target \<le> token_count tok (trim_end (seed_words k))" for k
    using first_fit_exists [OF that(2,1)] seed_loop_returns [of tok target 0] unfolding base by auto
  ultimately show ?thesis by (auto simp: first_fit_def)
qed

theorem build_seed_returns_iff_witness:
  "build_seed 2 (\<lambda>s. Inr [1, 2, 3]) \<noteq> None \<and> build_seed 2 (\<lambda>s. Inl ''bad'') = None"
  using build_seed_returns_iff [of 2 "\<lambda>s. Inr [1, 2, 3]"] build_seed_returns_iff [of 2 "\<lambda>s. Inl ''bad''"]
  by (auto simp: token_count_def)

end
