(* ===== verification/BenchConcurrent.thy ===== *)
theory BenchConcurrent
  imports BenchCore
begin

text \<open>
  Concurrent measurements (\<open>run_concurrent\<close> and \<open>measure_concurrent\<close> of \<open>src/src/bench.rs\<close>, modelled in
  \<open>Bench\<close>) against the served classifier: whatever the interleaving of the worker threads, a
  warmed run counts a hit per request and returns a sample for each.
\<close>

section \<open>Joining\<close>

primrec thread_got :: "bench_thread \<Rightarrow> nat" where
  "thread_got (Sending rs samples) = length samples"
| "thread_got (Finished res) = (case res of Inr xs \<Rightarrow> length xs | Inl e \<Rightarrow> 0)"

primrec thread_left :: "bench_thread \<Rightarrow> dummy_request list" where
  "thread_left (Sending rs samples) = rs"
| "thread_left (Finished res) = []"

definition thread_fine :: "bench_thread \<Rightarrow> bool" where
  "thread_fine t \<longleftrightarrow> (\<forall>e. t \<noteq> Finished (Inl e))"

lemma join_fine:
  assumes "list_all thread_fine ts" and "list_all (\<lambda>t. thread_result t \<noteq> None) ts"
  shows "\<exists>xs. join_workers (List.map thread_result ts) = Inr xs \<and> length xs = tally thread_got ts"
  using assms
proof (induction ts)
  case (Cons t ts)
  then obtain xs where "join_workers (List.map thread_result ts) = Inr xs" "length xs = tally thread_got ts" by auto
  moreover obtain res where "t = Finished res" using Cons.prems(2) by (cases t) auto
  moreover obtain ys where "res = Inr ys" using Cons.prems(1) \<open>t = Finished res\<close> by (cases res) (auto simp: thread_fine_def)
  ultimately show ?case by (simp add: tally_def)
qed (simp add: tally_def)

lemma join_all_fine:
  "join_workers (List.map thread_result ts) = Inr xs \<Longrightarrow> list_all (\<lambda>t. thread_result t \<noteq> None) ts \<Longrightarrow> list_all thread_fine ts"
proof (induction ts arbitrary: xs)
  case (Cons t ts)
  then obtain res where t: "t = Finished res" by (cases t) auto
  with Cons.prems obtain ys zs where "res = Inr ys" "join_workers (List.map thread_result ts) = Inr zs"
    by (auto simp: bind_res_Inr_iff)
  with Cons.IH Cons.prems(2) show ?case by (simp add: t thread_fine_def)
qed simp

text \<open>A thread that does not fail keeps the number of its samples and of its requests still to send.\<close>

definition thread_size :: "bench_thread \<Rightarrow> nat" where
  "thread_size t = thread_got t + length (thread_left t)"

lemma thread_step_size:
  "thread_step call t st = Some (t', st') \<Longrightarrow> thread_fine t' \<Longrightarrow> thread_fine t \<and> thread_size t' = thread_size t"
  by (induction call t st rule: thread_step.induct)
    (auto simp: thread_fine_def thread_size_def split: sum.splits prod.splits)

lemma tally_thread_size: "tally thread_size ts = tally thread_got ts + tally (\<lambda>t. length (thread_left t)) ts"
  by (induction ts) (simp_all add: tally_def thread_size_def)

lemma run_threads_size:
  "run_threads call sched ts st = Some (ts', st') \<Longrightarrow> list_all thread_fine ts' \<Longrightarrow>
     list_all thread_fine ts \<and> tally thread_size ts' = tally thread_size ts"
proof (induction sched arbitrary: ts st)
  case (Cons w sched)
  have w: "w < length ts" using Cons.prems(1) by (simp split: if_splits)
  obtain t s1 where st: "thread_step call (ts ! w) st = Some (t, s1)" "run_threads call sched (ts[w := t]) s1 = Some (ts', st')"
    using Cons.prems(1) w by (auto split: option.splits)
  from Cons.IH [OF st(2) Cons.prems(2)] have up: "list_all thread_fine (ts[w := t])" "tally thread_size ts' = tally thread_size (ts[w := t])"
    by simp_all
  then have "thread_fine t" using w by (auto simp: list_all_iff intro: set_update_memI)
  with thread_step_size [OF st(1)] have t: "thread_fine (ts ! w)" "thread_size t = thread_size (ts ! w)" by simp_all
  have "thread_fine (ts ! i)" if "i < length ts" for i
    using that up(1) t(1) by (cases "i = w") (auto simp: list_all_length nth_update)
  with up(2) t(2) tally_update [OF w, of thread_size t] show ?case by (simp add: list_all_length)
qed simp

lemma ranges_total: "tally (\<lambda>r. snd r - fst r) (worker_ranges n conc) = n"
proof -
  have "length (concat (List.map (\<lambda>r. [fst r..<snd r]) rs)) = tally (\<lambda>r. snd r - fst r) rs" for rs :: "(nat \<times> nat) list"
    by (induction rs) (simp_all add: tally_def)
  from this [of "worker_ranges n conc"] show ?thesis using worker_ranges_all [of n conc] by simp
qed

lemma map_enumerate: "List.map (\<lambda>(w, r). f r) (enumerate k xs) = List.map f xs"
  by (induction xs arbitrary: k) auto

lemma start_threads_all_connect:
  "start_threads b n conc (\<lambda>_. None) = List.map (\<lambda>r. Sending (worker_requests b r) []) (worker_ranges n conc)"
  by (simp add: start_threads_def map_enumerate)

lemma started:
  "list_all thread_fine (start_threads b n conc (\<lambda>_. None))"
  "tally thread_got (start_threads b n conc (\<lambda>_. None)) = 0"
  "tally (\<lambda>t. length (thread_left t)) (start_threads b n conc (\<lambda>_. None)) = n"
proof -
  show "tally (\<lambda>t. length (thread_left t)) (start_threads b n conc (\<lambda>_. None)) = n"
    using ranges_total [of n conc] by (simp add: start_threads_all_connect tally_def worker_requests_def comp_def)
qed (simp_all add: start_threads_all_connect list_all_iff thread_fine_def tally_def comp_def)

text \<open>A run that returns a distribution has a sample for every request, whatever the service did.\<close>

lemma concurrent_samples:
  assumes "bench_measure_concurrent call snap b n conc connects sched st = Some (Inr d, st')"
  shows "length d = n"
proof -
  obtain ts st1 xs where run: "run_threads call sched (start_threads b n conc connects) st = Some (ts, st1)"
    and all: "list_all (\<lambda>t. thread_result t \<noteq> None) ts"
    and xs: "join_workers (List.map thread_result ts) = Inr xs" "d = from_samples xs"
    using assms by (auto simp: bench_measure_concurrent_def Let_def bind_res_Inr_iff split: option.splits if_splits)
  note fine = join_all_fine [OF xs(1) all]
  from run_threads_size [OF run fine] have size: "list_all thread_fine (start_threads b n conc connects)"
    "tally thread_size ts = tally thread_size (start_threads b n conc connects)" by simp_all
  have "start_threads b n conc connects = start_threads b n conc (\<lambda>_. None)"
    unfolding start_threads_def
  proof (rule map_cong [OF refl], clarify)
    fix w lo hi assume "(w, lo, hi) \<in> set (enumerate 0 (worker_ranges n conc))"
    then have "thread_fine (case connects w of Some e \<Rightarrow> Finished (Inl (BenchIo e)) | None \<Rightarrow> Sending (worker_requests b (lo, hi)) [])"
      using size(1) unfolding start_threads_def list_all_iff set_map by fastforce
    then have "connects w = None" by (auto simp: thread_fine_def split: option.splits)
    then show "(case connects w of Some e \<Rightarrow> Finished (Inl (BenchIo e)) | None \<Rightarrow> Sending (worker_requests b (lo, hi)) []) =
      (case None of Some e \<Rightarrow> Finished (Inl (BenchIo e)) | None \<Rightarrow> Sending (worker_requests b (lo, hi)) [])" by simp
  qed
  then have "tally thread_size (start_threads b n conc connects) = n"
    using started [of b n conc] by (simp add: tally_thread_size)
  moreover have "tally thread_got ts = tally thread_size ts"
    using all by (induction ts) (auto simp: tally_def thread_size_def elim: thread_result.elims)
  moreover obtain ys where "join_workers (List.map thread_result ts) = Inr ys" "length ys = tally thread_got ts"
    using join_fine [OF fine all] by blast
  ultimately show ?thesis using xs size(2) by (simp add: from_samples_def)
qed

lemma started_requests:
  assumes "t \<in> set (start_threads b n conc (\<lambda>_. None))" and "r \<in> set (thread_left t)"
  shows "dr_signals r = [] \<and> (\<exists>i<n. dr_context r = measured_context b i)"
proof -
  obtain rg i where rg: "rg \<in> set (worker_ranges n conc)" "fst rg \<le> i" "i < snd rg"
    "r = bench_request ''bench-concurrent-'' i (seeded_measure_context (br_seed b) (br_run_id b) i)"
    using assms by (auto simp: start_threads_all_connect worker_requests_def)
  have "i \<in> set (concat (List.map (\<lambda>r. [fst r..<snd r]) (worker_ranges n conc)))" using rg by auto
  then have "i < n" by (simp only: worker_ranges_all) simp
  with rg(4) show ?thesis by (auto simp: bench_request_def measured_context_def)
qed

context core_contract
begin

text \<open>
  However the threads interleave: requests whose keys are cached are hits, none fails if the
  service admits them, and where none failed the samples and the hits of the service agree.
\<close>

lemma threads_hit:
  assumes "serves adm gp env call" and "core_ok (gs_core s)" and "list_all thread_fine ts"
    and "\<forall>t\<in>set ts. \<forall>r\<in>set (thread_left t). dr_signals r = [] \<and> context_key env (dr_context r) \<in> cached_keys (gs_core s)"
    and "run_threads call sched ts s = Some (ts', s')"
  shows "(adm \<longrightarrow> list_all thread_fine ts') \<and>
    (list_all thread_fine ts' \<longrightarrow>
      (\<exists>k. tally thread_got ts' = tally thread_got ts + k \<and>
        tally (\<lambda>t. length (thread_left t)) ts = tally (\<lambda>t. length (thread_left t)) ts' + k \<and>
        core_counters (gs_core s') = (case core_counters (gs_core s) of (h, m, w) \<Rightarrow> (h + k, m, w))))"
  using assms(2-5)
proof (induction sched arbitrary: ts s)
  case (Cons w sched)
  have w: "w < length ts" using Cons.prems(4) by (simp split: if_splits)
  obtain t s1 where st: "thread_step call (ts ! w) s = Some (t, s1)" "run_threads call sched (ts[w := t]) s1 = Some (ts', s')"
    using Cons.prems(4) w by (auto split: option.splits)
  note upd = tally_update [OF w, of thread_got t] tally_update [OF w, of "\<lambda>t. length (thread_left t)" t]
  show ?case
  proof (cases "ts ! w")
    case (Finished res)
    then show ?thesis using st(1) by simp
  next
    case (Sending rs xs)
    show ?thesis
    proof (cases "rs = []")
      case Nil: True
      then have t: "t = Finished (Inr xs)" "s1 = s" using st(1) Sending by simp_all
      have "list_all thread_fine (ts[w := t])"
        using Cons.prems(2) by (auto simp: list_all_iff t thread_fine_def dest!: update_mem)
      moreover have "\<forall>t'\<in>set (ts[w := t]). \<forall>r\<in>set (thread_left t'). dr_signals r = [] \<and> context_key env (dr_context r) \<in> cached_keys (gs_core s1)"
        using Cons.prems(3) by (auto simp: t dest!: update_mem)
      ultimately show ?thesis using Cons.IH [OF _ _ _ st(2)] Cons.prems(1) upd Sending Nil by (simp add: t)
    next
      case False
      then obtain r rs' where rs: "rs = r # rs'" by (cases rs) auto
      have mem: "ts ! w \<in> set ts" using w by simp
      have r: "dr_signals r = []" "context_key env (dr_context r) \<in> cached_keys (gs_core s)"
        using Cons.prems(3) mem Sending rs by force+
      obtain out where out: "classify_and_route call r s = (out, s1)"
        using st(1) Sending rs by (auto split: prod.splits sum.splits)
      obtain req res rtt where q: "rq_signals req = []" "rq_completeness req = 0" "rq_context req = dr_context r"
        "call req s = (res, rtt, s1)" "(\<exists>x. out = Inr x) = (\<exists>x. res = Inr x)"
        by (rule route_call [OF out r(1)])
      note eff = call_effect [OF Cons.prems(1) assms(1) q(1,2,4), unfolded q(3)]
      show ?thesis
      proof (cases out)
        case (Inl e)
        then have "\<not> adm" using eff(2) [OF r(2)] q(5) by auto
        moreover have "\<not> list_all thread_fine (ts[w := t])"
          using st(1) Sending rs out Inl w by (auto simp: list_all_iff thread_fine_def intro!: bexI [OF _ set_update_memI])
        then have "\<not> list_all thread_fine ts'" using run_threads_size [OF st(2)] by blast
        ultimately show ?thesis by simp
      next
        case (Inr x)
        then obtain resp where "res = Inr resp" using q(5) by auto
        then have x: "core_cache (gs_core s1) = core_cache (gs_core s)"
          "core_counters (gs_core s1) = (case core_counters (gs_core s) of (h, m, w) \<Rightarrow> (h + 1, m, w))"
          using eff(2) [OF r(2)] by simp_all
        have t: "t = Sending rs' (xs @ [do_rtt x])" using st(1) Sending rs out Inr by simp
        have same: "cached_keys (gs_core s1) = cached_keys (gs_core s)" using x(1) by (simp add: cached_keys_def)
        have "list_all thread_fine (ts[w := t])"
          using Cons.prems(2) by (auto simp: list_all_iff t thread_fine_def dest!: update_mem)
        moreover have "\<forall>t'\<in>set (ts[w := t]). \<forall>r\<in>set (thread_left t'). dr_signals r = [] \<and> context_key env (dr_context r) \<in> cached_keys (gs_core s1)"
          using Cons.prems(3) mem Sending rs unfolding same by (fastforce simp: t dest!: update_mem)
        ultimately have ih: "(adm \<longrightarrow> list_all thread_fine ts') \<and>
          (list_all thread_fine ts' \<longrightarrow> (\<exists>k. tally thread_got ts' = tally thread_got (ts[w := t]) + k \<and>
            tally (\<lambda>t. length (thread_left t)) (ts[w := t]) = tally (\<lambda>t. length (thread_left t)) ts' + k \<and>
            core_counters (gs_core s') = (case core_counters (gs_core s1) of (h, m, w) \<Rightarrow> (h + k, m, w))))"
          using Cons.IH [OF eff(1) _ _ st(2)] by blast
        have "\<exists>k. tally thread_got ts' = tally thread_got ts + k \<and>
            tally (\<lambda>t. length (thread_left t)) ts = tally (\<lambda>t. length (thread_left t)) ts' + k \<and>
            core_counters (gs_core s') = (case core_counters (gs_core s) of (h, m, w) \<Rightarrow> (h + k, m, w))"
          if fine: "list_all thread_fine ts'"
        proof -
          obtain k where "tally thread_got ts' = tally thread_got (ts[w := t]) + k"
            "tally (\<lambda>t. length (thread_left t)) (ts[w := t]) = tally (\<lambda>t. length (thread_left t)) ts' + k"
            "core_counters (gs_core s') = (case core_counters (gs_core s1) of (h, m, w) \<Rightarrow> (h + k, m, w))"
            using ih fine by blast
          with upd Sending rs x(2) show ?thesis by (intro exI [of _ "Suc k"]) (auto simp: t split: prod.splits)
        qed
        with ih show ?thesis by blast
      qed
    qed
  qed
qed auto

end

text \<open>
  C24. A concurrent hit run against the classifier as the server binds it without Redis is
  valid under every interleaving of its worker threads: when the warm-up succeeded and
  covered the measured keys, within the capacity of the exact cache, no request can fail
  but for want of a permit; and a run that returns its distribution has a sample for each
  request, and the service counted each of them as a hit and nothing else, whether or not
  the run checks the counters itself.
\<close>

theorem concurrent_hit_run_is_valid:
  assumes "serves adm gp (served_env (candle_runtime cl) noop_text sg hash) call"
    and "br_cache_mode b = HitMode" and "n \<le> w" and "w \<le> DEFAULT_CAPACITY"
    and "bench_warmup call b w (fresh_server t counters m) = (Inr (), st)"
    and "bench_measure_concurrent call server_snapshot b n conc (\<lambda>_. None) sched st = Some (res, st')"
  shows "(adm \<longrightarrow> (\<exists>d. res = Inr d)) \<and>
    (\<forall>d. res = Inr d \<longrightarrow> length d = n \<and>
       core_counters (gs_core st') = (case core_counters (gs_core st) of (hits, misses, waits) \<Rightarrow> (hits + n, misses, waits)))"
proof -
  let ?ts = "start_threads b n conc (\<lambda>_. None)"
  note warm = warmed_run [OF assms(1-5)]
  obtain ts where run: "run_threads call sched ?ts st = Some (ts, st')"
    and all: "list_all (\<lambda>t. thread_result t \<noteq> None) ts"
    and res: "res = bind_res (join_workers (List.map thread_result ts)) (\<lambda>samples.
      bind_res (assert_methodology server_snapshot b (if br_metrics b then Some (server_snapshot st) else None) n st')
        (\<lambda>_. Inr (from_samples samples)))"
    using assms(6) by (auto simp: bench_measure_concurrent_def Let_def split: option.splits if_splits)
  have "\<forall>t\<in>set ?ts. \<forall>r\<in>set (thread_left t). dr_signals r = [] \<and>
      context_key (served_env (candle_runtime cl) noop_text sg hash) (dr_context r) \<in> cached_keys (gs_core st)"
    using started_requests [of _ b n conc] warm(2) by fastforce
  note hit = candle_default.threads_hit [OF assms(1) warm(1) started(1) this run]
  have left: "tally (\<lambda>t. length (thread_left t)) ts = 0"
    using all by (induction ts) (auto simp: tally_def elim: thread_result.elims)
  have counted: "tally thread_got ts = n \<and>
      core_counters (gs_core st') = (case core_counters (gs_core st) of (h, m, w) \<Rightarrow> (h + n, m, w))"
    if "list_all thread_fine ts"
    using conjunct2 [OF hit] that left started [of b n conc] by auto
  have "\<exists>d. res = Inr d" if adm
  proof -
    have fine: "list_all thread_fine ts" using hit that by simp
    from counted [OF this] have "verify_window HitMode (server_snapshot st) (server_snapshot st') n = Inr ()"
      by (simp add: window_ok server_snapshot_counters cache_counters_def)
    then have "assert_methodology server_snapshot b (if br_metrics b then Some (server_snapshot st) else None) n st' = Inr ()"
      by (simp add: assert_methodology_def assms(2))
    with join_fine [OF fine all] res show ?thesis by auto
  qed
  moreover have "length d = n \<and> core_counters (gs_core st') = (case core_counters (gs_core st) of (h, m, w) \<Rightarrow> (h + n, m, w))"
    if d: "res = Inr d" for d
  proof -
    obtain xs where "join_workers (List.map thread_result ts) = Inr xs" using d unfolding res bind_res_Inr_iff by blast
    from counted [OF join_all_fine [OF this all]] concurrent_samples [OF assms(6) [unfolded d]] show ?thesis by simp
  qed
  ultimately show ?thesis by blast
qed

text \<open>Two workers with one request each; the second one is served first.\<close>

theorem concurrent_hit_run_is_valid_witness:
  "\<exists>st d st'. bench_warmup demo_transport (demo_run HitMode) 3
       (fresh_server (telemetry_new None) \<lparr>tokenizer_calls = 0, forward_calls = 0\<rparr> metrics_new) = (Inr (), st) \<and>
     bench_measure_concurrent demo_transport server_snapshot (demo_run HitMode) 2 2 (\<lambda>_. None) [1, 0, 0, 1] st = Some (Inr d, st') \<and> length d = 2 \<and>
     core_counters (gs_core st') = (case core_counters (gs_core st) of (hits, misses, waits) \<Rightarrow> (hits + 2, misses, waits))"
proof -
  let ?s = "fresh_server (telemetry_new None) \<lparr>tokenizer_calls = 0, forward_calls = 0\<rparr> metrics_new"
  obtain ys st where w: "send_all demo_transport (warm_context (demo_run HitMode)) [0..<3] ?s = (Inr ys, st)"
    using demo_send_all by blast
  then have bw: "bench_warmup demo_transport (demo_run HitMode) 3 ?s = (Inr (), st)" by (simp add: bench_warmup_def)
  have mode: "br_cache_mode (demo_run HitMode) = HitMode" "(2::nat) \<le> 3" "3 \<le> DEFAULT_CAPACITY"
    by (simp_all add: demo_run_def DEFAULT_CAPACITY_def)
  define q where "q i = bench_request ''bench-concurrent-'' i (seeded_measure_context ''benchmark'' 0 i)" for i
  have "worker_ranges 2 2 = [(0, 1), (1, 2)]" by (simp add: worker_ranges_def eval_nat_numeral)
  then have ts: "start_threads (demo_run HitMode) 2 2 (\<lambda>_. None) = [Sending [q 0] [], Sending [q 1] []]"
    by (simp add: start_threads_all_connect worker_requests_def q_def demo_run_def upt_rec)
  have "dr_signals (q i) = []" for i by (simp add: q_def bench_request_def)
  then obtain x1 s1 x0 s2 where "classify_and_route demo_transport (q 1) st = (Inr x1, s1)"
    "classify_and_route demo_transport (q 0) s1 = (Inr x0, s2)"
    using demo_route by meson
  then obtain res st' where m: "bench_measure_concurrent demo_transport server_snapshot (demo_run HitMode) 2 2 (\<lambda>_. None) [1, 0, 0, 1] st
      = Some (res, st')"
    by (simp add: bench_measure_concurrent_def ts Let_def)
  from concurrent_hit_run_is_valid [OF demo_transport_serves [of True] mode bw m] bw m show ?thesis by blast
qed

end
