(* ===== verification/RunnerReport.thy ===== *)
theory RunnerReport
  imports BenchRunner BenchConcurrent EmbeddingLoad
begin

text \<open>
  The rest of the benchmark runner \<open>src/src/bin/bench-runner.rs\<close>: what it reads of its host, its
  report, and the whole program. The outputs of the commands it runs, the files it reads and
  the JSON decoder are parameters; the layout of the printed table is not modelled.
\<close>

section \<open>The host\<close>

text \<open>
  A command that could be run, with whether it succeeded and its output as text; both \<open>git_sha\<close>
  and \<open>timestamp\<close> use the trimmed output of one if there is any.
\<close>

definition command_line :: "(bool \<times> string) option \<Rightarrow> string option" where
  "command_line out =
     (case out of
        Some (True, text) \<Rightarrow> if trim text \<noteq> [] then Some (trim text) else None
      | _ \<Rightarrow> None)"

definition git_sha :: "(bool \<times> string) option \<Rightarrow> string" where
  "git_sha out = (case command_line out of Some s \<Rightarrow> s | None \<Rightarrow> ''unknown'')"

text \<open>\<open>epoch\<close> is the seconds since 1970, or nothing when the clock is before it.\<close>

definition timestamp :: "(bool \<times> string) option \<Rightarrow> nat option \<Rightarrow> string" where
  "timestamp out epoch =
     (case command_line out of Some s \<Rightarrow> s | None \<Rightarrow> (case epoch of Some n \<Rightarrow> show_nat n | None \<Rightarrow> ''0''))"

definition manifest_revisions :: "'j json_ops \<Rightarrow> string option \<Rightarrow> string \<times> string" where
  "manifest_revisions js file =
     (case Option.bind (Option.bind (Option.bind (Option.bind file (parsed js)) (\<lambda>v. js_get js v ''source'')) (\<lambda>s. js_get js s ''revision''))
         (js_str js) of
        Some commit \<Rightarrow> (commit, commit)
      | None \<Rightarrow> (''unknown'', ''unknown''))"

text \<open>The Linux probe: the first line of \<open>/proc/cpuinfo\<close> that names a model.\<close>

fun cpu_line :: "string list \<Rightarrow> string option" where
  "cpu_line [] = None"
| "cpu_line (l # ls) =
     (if take 10 l = ''model name''
      then (let v = trim (dropWhile (\<lambda>c. c = CHR '':'') (drop 10 l)) in if v \<noteq> [] then Some v else cpu_line ls)
      else cpu_line ls)"

definition cpu_model :: "string option \<Rightarrow> string list option \<Rightarrow> string \<Rightarrow> string" where
  "cpu_model var cpuinfo arch =
     (case var of
        Some v \<Rightarrow> if trim v \<noteq> [] then v else (case Option.bind cpuinfo cpu_line of Some m \<Rightarrow> m | None \<Rightarrow> arch)
      | None \<Rightarrow> (case Option.bind cpuinfo cpu_line of Some m \<Rightarrow> m | None \<Rightarrow> arch))"

section \<open>The report\<close>

record runner_manifest =
  mf_git_sha :: string
  mf_model_dir :: string
  mf_model_revision :: string
  mf_tokenizer_revision :: string
  mf_backend :: string
  mf_topology :: string
  mf_cpu_model :: string
  mf_warmup :: nat
  mf_measured :: nat

record latency_row =
  la_p50 :: flt
  la_p90 :: flt
  la_p95 :: flt
  la_p99 :: flt
  la_max :: flt

record stage_row =
  sg_queue :: flt
  sg_tokenize :: flt
  sg_forward :: flt
  sg_total :: flt

record scenario_row =
  sr_cache_mode :: string
  sr_sequence_length :: nat
  sr_actual_token_count :: nat
  sr_concurrency :: nat
  sr_warmup :: nat
  sr_measured :: nat
  sr_throughput :: flt
  sr_errors :: nat
  sr_latency :: latency_row
  sr_stages :: stage_row

definition ms_of :: "nat \<Rightarrow> flt" where
  "ms_of ns = fmul round64 (secs_f64 ns) (Fin 1000)"

definition scenario_report :: "scenario \<Rightarrow> scenario_row" where
  "scenario_report s =
     \<lparr>sr_cache_mode = (case sn_cache_mode s of HitMode \<Rightarrow> ''hit'' | MissMode \<Rightarrow> ''miss''),
      sr_sequence_length = sn_target_length s, sr_actual_token_count = sn_actual_token_count s,
      sr_concurrency = sn_concurrency s, sr_warmup = sn_warmup s, sr_measured = sn_measured s,
      sr_throughput = sn_throughput s, sr_errors = sn_errors s,
      sr_latency = \<lparr>la_p50 = ms_of (rtt_p50 (sn_dist s)), la_p90 = ms_of (rtt_p90 (sn_dist s)), la_p95 = ms_of (rtt_p95 (sn_dist s)),
        la_p99 = ms_of (rtt_p99 (sn_dist s)), la_max = ms_of (rtt_max (sn_dist s))\<rparr>,
      sr_stages = \<lparr>sg_queue = ms_of (ms_queue (sn_stage s)), sg_tokenize = ms_of (ms_tokenize (sn_stage s)),
        sg_forward = ms_of (ms_forward (sn_stage s)), sg_total = ms_of (ms_total (sn_stage s))\<rparr>\<rparr>"

text \<open>\<open>identity\<close> is what was read of the host: the commit, the two revisions and the processor.\<close>

definition runner_report :: "string \<times> (string \<times> string) \<times> string \<Rightarrow> string \<Rightarrow> nat \<times> nat \<Rightarrow> scenario list \<Rightarrow> runner_manifest \<times> scenario_row list" where
  "runner_report identity dir settings scenarios =
     (case identity of (sha, (model_rev, tok_rev), cpu) \<Rightarrow>
        (\<lparr>mf_git_sha = sha, mf_model_dir = dir, mf_model_revision = model_rev, mf_tokenizer_revision = tok_rev,
          mf_backend = ''candle'', mf_topology = ''loopback'', mf_cpu_model = cpu,
          mf_warmup = fst settings, mf_measured = snd settings\<rparr>,
         List.map scenario_report scenarios))"

section \<open>The program\<close>

text \<open>
  \<open>load\<close> is \<open>load_and_warm_modelcar\<close> with the error as text, \<open>bind\<close> serves the classifier on a
  free port, \<open>tokenizer\<close> loads the directory's tokenizer.
\<close>

definition runner_main ::
  "(string \<Rightarrow> string option) \<Rightarrow> (string \<Rightarrow> bool) \<Rightarrow> (string \<Rightarrow> string + 'c) \<Rightarrow> ('c \<Rightarrow> string + 's) \<Rightarrow>
     (string \<Rightarrow> string + (string \<Rightarrow> string + nat list)) \<Rightarrow> string \<times> (string \<times> string) \<times> string \<Rightarrow>
     's transport \<Rightarrow> ('s \<Rightarrow> metrics_snapshot) \<Rightarrow> ('s \<Rightarrow> nat) \<Rightarrow> (bench_run \<Rightarrow> 's \<Rightarrow> nat list \<times> (nat \<Rightarrow> string option)) \<Rightarrow>
     ('s \<Rightarrow> string + unit) \<Rightarrow> nat \<Rightarrow> (runner_error + runner_manifest \<times> scenario_row list) option" where
  "runner_main get is_dir load bind tokenizer identity call snap clock plan conn next =
     (let dir = (case get ''LLM_D_SC_MODEL_DIR'' of Some d \<Rightarrow> d | None \<Rightarrow> ''artifacts/models/sensitivity'')
      in if trim dir = [] then Some (Inl (RunnerInput ''LLM_D_SC_MODEL_DIR must not be empty''))
         else if \<not> is_dir dir then Some (Inl (RunnerExit 1))
         else (case read_settings get of
                 Inl e \<Rightarrow> Some (Inl (RunnerInput e))
               | Inr settings \<Rightarrow>
                   (case load dir of
                      Inl e \<Rightarrow> Some (Inl (RunnerNotReady e))
                    | Inr classifier \<Rightarrow>
                        (case bind classifier of
                           Inl e \<Rightarrow> Some (Inl (RunnerBind e))
                         | Inr st \<Rightarrow>
                             (case tokenizer (dir @ ''/tokenizer.json'') of
                                Inl e \<Rightarrow> Some (Inl (RunnerTokenizer e))
                              | Inr tok \<Rightarrow>
                                  map_option (\<lambda>(res, _). map_sum id (runner_report identity dir settings) res)
                                    (run_matrix call snap clock plan conn tok (fst settings) (snd settings) scenario_matrix next st))))))"

section \<open>Milliseconds\<close>

lemma secs_f64_mono:
  assumes "a \<le> b" and "b < 2 ^ 53 * 10 ^ 9"
  shows "\<exists>x y. secs_f64 a = Fin x \<and> secs_f64 b = Fin y \<and> 0 \<le> x \<and> x \<le> y \<and> y \<le> 2 ^ 54"
proof -
  have frac: "\<exists>z. fdiv round64 (nat_as_f64 (k mod 10 ^ 9)) (nat_as_f64 (10 ^ 9)) = Fin z \<and>
      round64 (real (k mod 10 ^ 9) / 10 ^ 9) = Fin z \<and> 0 \<le> z \<and> z \<le> 1" for k :: nat
  proof -
    have lt: "k mod 10 ^ 9 < 10 ^ 9" by (rule mod_less_divisor) simp
    have "0 \<le> real (k mod 10 ^ 9) / 10 ^ 9" "real (k mod 10 ^ 9) / 10 ^ 9 \<le> 1" using lt by (simp_all add: divide_le_eq)
    from f64.rnd_unit [OF this] obtain z where "round64 (real (k mod 10 ^ 9) / 10 ^ 9) = Fin z" "0 \<le> z" "z \<le> 1" .
    moreover have "nat_as_f64 (k mod 10 ^ 9) = Fin (real (k mod 10 ^ 9))" "nat_as_f64 (10 ^ 9) = Fin (10 ^ 9)"
      using lt f64.rnd_nat [of "k mod 10 ^ 9"] f64.rnd_nat [of "10 ^ 9"] by (simp_all add: nat_as_f64_def)
    ultimately show ?thesis by simp
  qed
  have whole: "nat_as_f64 (k div 10 ^ 9) = Fin (real (k div 10 ^ 9)) \<and> real (k div 10 ^ 9) \<le> 2 ^ 53" if "k \<le> b" for k
  proof -
    have "k div 10 ^ 9 < 2 ^ 53" using that assms(2) by (simp add: less_mult_imp_div_less)
    then have "k div 10 ^ 9 \<le> 2 ^ 53" by simp
    then show ?thesis using f64.rnd_nat [of "k div 10 ^ 9"] of_nat_mono [of "k div 10 ^ 9" "2 ^ 53", where ?'a = real]
      by (simp add: nat_as_f64_def)
  qed
  obtain u v where uv: "fdiv round64 (nat_as_f64 (a mod 10 ^ 9)) (nat_as_f64 (10 ^ 9)) = Fin u" "round64 (real (a mod 10 ^ 9) / 10 ^ 9) = Fin u"
    "0 \<le> u" "u \<le> 1" "fdiv round64 (nat_as_f64 (b mod 10 ^ 9)) (nat_as_f64 (10 ^ 9)) = Fin v"
    "round64 (real (b mod 10 ^ 9) / 10 ^ 9) = Fin v" "0 \<le> v" "v \<le> 1"
    using frac [of a] frac [of b] by blast
  have le: "real (a div 10 ^ 9) + u \<le> real (b div 10 ^ 9) + v"
  proof (cases "a div 10 ^ 9 = b div 10 ^ 9")
    case True
    then have "a mod 10 ^ 9 \<le> b mod 10 ^ 9" using assms(1) by (metis mult_div_mod_eq nat_add_left_cancel_le)
    then have "real (a mod 10 ^ 9) / 10 ^ 9 \<le> real (b mod 10 ^ 9) / 10 ^ 9" by (intro divide_right_mono) simp_all
    from f64.rnd_mono [OF this] show ?thesis using True uv(2,6) by simp
  next
    case False
    then have "a div 10 ^ 9 < b div 10 ^ 9" using div_le_mono [OF assms(1), of "10 ^ 9"] by simp
    then have "real (a div 10 ^ 9) + 1 \<le> real (b div 10 ^ 9)" by linarith
    then show ?thesis using uv(4,7) by linarith
  qed
  have top: "real (b div 10 ^ 9) + v \<le> 2 ^ 54" "0 \<le> real (a div 10 ^ 9) + u"
    using whole [of b] uv(3,8) by auto
  define x' y' where "x' = real (a div 10 ^ 9) + u" and "y' = real (b div 10 ^ 9) + v"
  have z: "0 \<le> x'" "x' \<le> y'" "y' \<le> 2 ^ 54" using le top by (simp_all add: x'_def y'_def)
  have r54: "round64 (2 ^ 54) = Fin (2 ^ 54)" using round64_pow2 [of 54] by simp
  have "flt_le (Fin 0) (round64 x')" "flt_le (round64 x') (round64 y')" "flt_le (round64 y') (Fin (2 ^ 54))"
    using f64.rnd_nonneg [OF z(1)] f64.rnd_mono [OF z(2)] f64.rnd_mono [OF z(3)] unfolding r54 by simp_all
  moreover have "secs_f64 a = round64 x'" "secs_f64 b = round64 y'"
    using whole [of a] whole [of b] assms(1) uv(1,5) by (simp_all add: secs_f64_def x'_def y'_def)
  ultimately show ?thesis
    by (cases "round64 x'"; cases "round64 y'") (auto simp: flt_le_def)
qed

lemma ms_of_mono:
  assumes "a \<le> b" and "b < 2 ^ 53 * 10 ^ 9"
  shows "flt_le (ms_of a) (ms_of b)"
proof -
  obtain x y where "secs_f64 a = Fin x" "secs_f64 b = Fin y" "x \<le> y" using secs_f64_mono [OF assms] by blast
  then show ?thesis using f64.rnd_mono [of "x * 1000" "y * 1000"] by (simp add: ms_of_def)
qed

section \<open>What a report proves\<close>

text \<open>
  A scenario that made it into the report: the counters of its own window show that it
  measured what it says, and there is a sample for each request.
\<close>

definition proven :: "nat \<Rightarrow> nat \<times> cache_mode \<times> nat \<Rightarrow> scenario \<Rightarrow> bool" where
  "proven measured sc s \<longleftrightarrow>
     sc = (sn_target_length s, sn_cache_mode s, sn_concurrency s) \<and> sn_measured s = measured \<and> length (sn_dist s) = measured \<and>
     sn_errors s = 0 \<and>
     (case sn_cache_mode s of
        HitMode \<Rightarrow> ms_cache_hits (sn_stage s) = measured \<and> ms_cache_misses (sn_stage s) = 0
      | MissMode \<Rightarrow> ms_cache_misses (sn_stage s) = measured \<and> ms_cache_hits (sn_stage s) = 0) \<and>
     ms_cache_coalesced (sn_stage s) = 0"

lemma send_all_length: "send_all call ctx is st = (Inr xs, st') \<Longrightarrow> length xs = length is"
  by (induction "is" arbitrary: st xs) (auto split: prod.splits sum.splits)

lemma measure_checked:
  assumes "bench_measure call snap b n st = (Inr d, st')"
  shows "length d = n \<and> assert_methodology snap b (if br_metrics b then Some (snap st) else None) n st' = Inr ()"
  using assms send_all_length [of call "measured_context b" "[0..<n]" st]
  by (auto simp: bench_measure_def Let_def bind_res_Inr_iff from_samples_def split: prod.splits sum.splits)

lemma concurrent_checked:
  assumes "bench_measure_concurrent call snap b n conc connects sched st = Some (Inr d, st')"
  shows "length d = n \<and> assert_methodology snap b (if br_metrics b then Some (snap st) else None) n st' = Inr ()"
  using concurrent_samples [OF assms] assms
  by (auto simp: bench_measure_concurrent_def Let_def bind_res_Inr_iff split: option.splits if_splits)

lemma scenario_proven:
  assumes "run_scenario call snap clock plan tok seed warmup measured sc run0 st = Some (Inr s, st')"
    and "br_metrics run0" and "br_cache_mode run0 = fst (snd sc)"
  shows "proven measured sc s"
proof -
  obtain target mode conc where sc: "sc = (target, mode, conc)" by (cases sc)
  define run where "run = with_seed seed run0"
  have run: "br_metrics run" "br_cache_mode run = mode" using assms(2,3) by (simp_all add: run_def with_seed_def sc)
  obtain st1 d where m: "length d = measured" "assert_methodology snap run (Some (snap st1)) measured st' = Inr ()"
    and s: "sn_target_length s = target" "sn_cache_mode s = mode" "sn_concurrency s = conc" "sn_measured s = measured"
      "sn_dist s = d" "sn_errors s = 0" "sn_stage s = stage_delta (snap st1) (snap st')"
    using assms(1) measure_checked [of call snap run measured] concurrent_checked [of call snap run measured conc] run(1)
    by (fastforce simp: run_scenario_def sc Let_def simp flip: run_def split: prod.splits sum.splits option.splits if_splits)
  from m(2) have "verify_window mode (snap st1) (snap st') measured = Inr ()" by (simp add: assert_methodology_def run)
  then show ?thesis using m(1) by (cases mode) (simp_all add: proven_def sc s window_ok stage_delta_def)
qed

lemma map_sum_Inr_iff: "map_sum id f x = Inr y \<longleftrightarrow> (\<exists>z. x = Inr z \<and> f z = y)"
  by (cases x) auto

lemma matrix_proven:
  assumes "run_matrix call snap clock plan conn tok warmup measured scs next st = Some (Inr ss, st')"
  shows "list_all2 (proven measured) scs ss"
  using assms
proof (induction scs arbitrary: "next" st ss)
  case (Cons sc scs)
  then obtain seed run0 next' s st1 ss' where b: "bench_connect (conn st) (fst (snd sc)) True next = (Inr run0, next')"
    and s: "run_scenario call snap clock plan tok seed warmup measured sc run0 st = Some (Inr s, st1)"
    and rest: "run_matrix call snap clock plan conn tok warmup measured scs next' st1 = Some (Inr ss', st')" "ss = s # ss'"
    by (auto split: option.splits prod.splits sum.splits)
  have "br_metrics run0" "br_cache_mode run0 = fst (snd sc)" using b by (auto simp: bench_connect_def split: sum.splits)
  from scenario_proven [OF s this] Cons.IH [OF rest(1)] show ?case by (simp add: rest(2))
qed simp

text \<open>
  C37. A report is only written when every scenario of the matrix was run and proved
  itself: its rows are the sixteen of the matrix in order, each with as many samples as
  requests measured, no error, and server counters that show all of its measured requests
  to be hits, or all misses, as its mode says, whatever the interleaving of its workers.
\<close>

theorem reported_rows_prove_their_mode:
  assumes "runner_main get is_dir load bind tokenizer identity call snap clock plan conn next = Some (Inr (mf, rows))"
  shows "mf_measured mf \<noteq> 0 \<and> length rows = 16 \<and>
    (\<exists>ss. rows = List.map scenario_report ss \<and> list_all2 (proven (mf_measured mf)) scenario_matrix ss)"
proof -
  obtain dir settings tok st ss st' where settings: "read_settings get = Inr settings"
    and run: "run_matrix call snap clock plan conn tok (fst settings) (snd settings) scenario_matrix next st = Some (Inr ss, st')"
    and out: "runner_report identity dir settings ss = (mf, rows)"
    using assms by (auto simp: runner_main_def Let_def map_sum_Inr_iff split: if_splits sum.splits)
  have "snd settings \<noteq> 0" using settings by (auto simp: read_settings_def bind_res_Inr_iff split: if_splits)
  moreover have "mf_measured mf = snd settings" "rows = List.map scenario_report ss"
    using out by (auto simp: runner_report_def split: prod.splits)
  moreover have "length scenario_matrix = 16" by (simp add: scenario_matrix_def TOKEN_LENGTHS_def CONCURRENCIES_def)
  ultimately show ?thesis using matrix_proven [OF run] list_all2_lengthD [OF matrix_proven [OF run]] by auto
qed

text \<open>The latencies of a row are ordered, in the printed milliseconds too.\<close>

lemma reported_latencies_are_ordered:
  assumes "sn_dist s = from_samples xs" and "xs \<noteq> []" and "length xs < 2 ^ 44" and "\<forall>x\<in>set xs. x < 2 ^ 53 * 10 ^ 9"
  defines "l \<equiv> sr_latency (scenario_report s)"
  shows "flt_le (la_p50 l) (la_p90 l) \<and> flt_le (la_p90 l) (la_p95 l) \<and> flt_le (la_p95 l) (la_p99 l) \<and> flt_le (la_p99 l) (la_max l)"
proof -
  let ?d = "from_samples xs"
  have mem: "{rtt_p90 ?d, rtt_p95 ?d, rtt_p99 ?d, rtt_max ?d} \<subseteq> set xs" and "sorted [rtt_p50 ?d, rtt_p90 ?d, rtt_p95 ?d, rtt_p99 ?d, rtt_max ?d]"
    using percentiles_are_nearest_rank [OF assms(2,3)] by auto
  then have "rtt_p50 ?d \<le> rtt_p90 ?d" "rtt_p90 ?d \<le> rtt_p95 ?d" "rtt_p95 ?d \<le> rtt_p99 ?d" "rtt_p99 ?d \<le> rtt_max ?d" by simp_all
  then show ?thesis using mem assms(4) by (auto simp: l_def scenario_report_def assms(1) intro!: ms_of_mono)
qed

section \<open>A run of the matrix\<close>

text \<open>A service that answers everything, and counts a hit when it is asked the same thing again.\<close>

definition mirror :: "(string \<times> metrics_snapshot) transport" where
  "mirror req st =
     (Inr \<lparr>rp_request_id = rq_request_id req, rp_classifier_id = [], rp_model_revision = [], rp_tokenizer_revision = [],
           rp_taxonomy_revision = [], rp_status = 1, rp_ranked = []\<rparr>, 5,
      (rq_context req,
       if rq_context req = fst st then (snd st)\<lparr>ms_cache_hits := ms_cache_hits (snd st) + 1\<rparr>
       else (snd st)\<lparr>ms_cache_misses := ms_cache_misses (snd st) + 1\<rparr>))"

definition demo_plan :: "bench_run \<Rightarrow> string \<times> metrics_snapshot \<Rightarrow> nat list \<times> (nat \<Rightarrow> string option)" where
  "demo_plan b st = ([0, 0, 1, 2, 3], \<lambda>_. None)"

definition demo_tokens :: "string \<Rightarrow> string + nat list" where
  "demo_tokens t = Inr (replicate 256 0)"

lemma mirror_route:
  "classify_and_route mirror r st =
     (Inr \<lparr>do_request_id = dr_request_id r, do_session_id = dr_session_id r, do_signal = [], do_route = ROUTE_GENERAL_MODEL, do_rtt = 5\<rparr>,
      (dr_context r, if dr_context r = fst st then (snd st)\<lparr>ms_cache_hits := ms_cache_hits (snd st) + 1\<rparr>
                     else (snd st)\<lparr>ms_cache_misses := ms_cache_misses (snd st) + 1\<rparr>))"
  by (simp add: classify_and_route_def mirror_def Let_def NEVER_EGRESS_SIGNAL_def)

lemma mirror_scenario:
  assumes "br_metrics b" and "br_cache_mode b = mode" and "c = 1 \<or> c = 4"
    and "fst st \<noteq> measured_context (with_seed seed b) 0"
  shows "\<exists>s st'. run_scenario mirror snd (\<lambda>_. 0) demo_plan demo_tokens seed 0 1 (t, mode, c) b st = Some (Inr s, st') \<and>
    fst st' = measured_context (with_seed seed b) 0"
proof -
  define b' where "b' = with_seed seed b"
  have b': "br_metrics b'" "br_cache_mode b' = mode" using assms(1,2) by (simp_all add: b'_def with_seed_def)
  have ctx: "seeded_measure_context (br_seed b') (br_run_id b') 0 = measured_context b' 0" by (simp add: measured_context_def)
  have ranges: "worker_ranges (Suc 0) 4 = [(0, 1), (1, 1), (1, 1), (1, 1)]" by code_simp
  have warm: "warm_context b' 0 = measured_context b' 0" if "mode = HitMode"
    using that b'(2) by (simp add: warm_context_def seeded_warm_context_def measured_context_def)
  have up: "bench_warmup mirror b' (warm_count mode 0 1) st = (Inr (), st1) \<and>
      (mode = HitMode \<longrightarrow> fst st1 = measured_context b' 0) \<and> (mode = MissMode \<longrightarrow> st1 = st)"
    if "st1 = (if mode = HitMode then snd (classify_and_route mirror (bench_request ''bench-'' 0 (measured_context b' 0)) st) else st)" for st1
    using that warm by (cases mode) (simp_all add: bench_warmup_def warm_count_def send_one_def mirror_route bench_request_def)
  obtain st1 where st1: "bench_warmup mirror b' (warm_count mode 0 1) st = (Inr (), st1)"
    "mode = HitMode \<longrightarrow> fst st1 = measured_context b' 0" "mode = MissMode \<longrightarrow> st1 = st" using up by blast
  have hit: "verify_window mode (snd st1) (snd (snd (classify_and_route mirror r st1))) 1 = Inr ()"
    if "dr_context r = measured_context b' 0" for r
    using that st1(2,3) assms(4) by (cases mode) (simp_all add: verify_window_def mirror_route flip: b'_def)
  have ok: "assert_methodology snd b' (Some (snd st1)) 1 st2 = Inr () \<and> fst st2 = measured_context b' 0"
    if "classify_and_route mirror r st1 = (Inr x, st2)" and "dr_context r = measured_context b' 0" for r x st2
    using that hit [of r] b' by (auto simp: assert_methodology_def mirror_route)
  have total: "\<exists>x st2. classify_and_route mirror r st1 = (Inr x, st2)" for r by (simp add: mirror_route)
  define q q' where "q = bench_request ''bench-'' 0 (measured_context b' 0)" and "q' = bench_request ''bench-concurrent-'' 0 (measured_context b' 0)"
  have q: "dr_context q = measured_context b' 0" "dr_context q' = measured_context b' 0" by (simp_all add: q_def q'_def bench_request_def)
  obtain x st2 x' st2' where r: "classify_and_route mirror q st1 = (Inr x, st2)" "classify_and_route mirror q' st1 = (Inr x', st2')"
    using total by meson
  have serial: "\<exists>d. bench_measure mirror snd b' 1 st1 = (Inr d, st2)"
    using ok [OF r(1) q(1)] r(1) [unfolded q_def] b'(1) by (simp add: bench_measure_def send_one_def)
  have "start_threads b' 1 4 (\<lambda>_. None) = [Sending [q'] [], Sending [] [], Sending [] [], Sending [] []]"
    by (simp add: start_threads_all_connect ranges worker_requests_def ctx q'_def)
  then have concurrent: "\<exists>d. bench_measure_concurrent mirror snd b' 1 4 (\<lambda>_. None) [0, 0, 1, 2, 3] st1 = Some (Inr d, st2')"
    using ok [OF r(2) q(2)] r(2) b'(1) by (simp add: bench_measure_concurrent_def)
  have last: "fst st2 = measured_context b' 0" "fst st2' = measured_context b' 0"
    using ok [OF r(1) q(1)] ok [OF r(2) q(2)] by simp_all
  show ?thesis
    using serial concurrent last assms(3) st1(1)
    by (cases st2; cases st2') (auto simp: run_scenario_def demo_plan_def simp flip: b'_def)
qed

lemma demo_seed: "t \<le> 256 \<Longrightarrow> build_seed t demo_tokens = Some (trim_end ''benchmark '')"
  by (simp add: build_seed_def seed_loop.simps demo_tokens_def token_count_def SEED_WORD_def)

lemma mirror_matrix:
  assumes "\<forall>sc\<in>set scs. fst sc \<le> 256 \<and> (snd (snd sc) = 1 \<or> snd (snd sc) = 4)" and "next + length scs < 2 ^ 64"
    and "\<forall>b. next \<le> br_run_id b \<longrightarrow> fst st \<noteq> measured_context (with_seed (trim_end ''benchmark '') b) 0"
  shows "\<exists>ss st'. run_matrix mirror snd (\<lambda>_. 0) demo_plan (\<lambda>_. Inr ()) demo_tokens 0 1 scs next st = Some (Inr ss, st')"
  using assms
proof (induction scs arbitrary: "next" st)
  case (Cons sc scs)
  let ?seed = "trim_end ''benchmark ''"
  obtain t mode c where sc: "sc = (t, mode, c)" by (cases sc)
  define b where "b = \<lparr>br_cache_mode = mode, br_run_id = next, br_metrics = True, br_seed = []\<rparr>"
  have "next + 1 < 2 ^ 64" using Cons.prems(2) by simp
  then have next': "(next + 1) mod 2 ^ 64 = next + 1" by (rule mod_less)
  have conn: "bench_connect (Inr ()) mode True next = (Inr b, next + 1)" using next' by (simp add: bench_connect_def b_def)
  obtain s st1 where s: "run_scenario mirror snd (\<lambda>_. 0) demo_plan demo_tokens ?seed 0 1 (t, mode, c) b st = Some (Inr s, st1)"
    "fst st1 = measured_context (with_seed ?seed b) 0"
    using mirror_scenario [of b mode c st ?seed t] Cons.prems(1,3) by (auto simp: b_def sc)
  have "fst st1 \<noteq> measured_context (with_seed ?seed b2) 0" if "next + 1 \<le> br_run_id b2" for b2
    using that by (auto simp: s(2) measured_context_def with_seed_def b_def dest!: measure_key_inject)
  with Cons.IH [of "next + 1" st1] Cons.prems(1,2) obtain ss st' where
    "run_matrix mirror snd (\<lambda>_. 0) demo_plan (\<lambda>_. Inr ()) demo_tokens 0 1 scs (next + 1) st1 = Some (Inr ss, st')"
    by fastforce
  with s(1) conn demo_seed [of t] Cons.prems(1) show ?case by (simp add: sc)
qed simp

definition demo_settings :: "string \<Rightarrow> string option" where
  "demo_settings k = (if k = ''BENCH_WARMUP'' then Some ''0'' else if k = ''BENCH_MEASURE'' then Some ''1'' else None)"

theorem reported_rows_prove_their_mode_witness:
  "\<exists>mf rows. runner_main demo_settings (\<lambda>_. True) (\<lambda>_. Inr ()) (\<lambda>_. Inr ([], snapshot metrics_new)) (\<lambda>_. Inr demo_tokens)
      (''abc'', (''m'', ''t''), ''cpu'') mirror snd (\<lambda>_. 0) demo_plan (\<lambda>_. Inr ()) 0 = Some (Inr (mf, rows)) \<and> length rows = 16"
proof -
  have "trim ''0'' = ''0''" "trim ''1'' = ''1''" "trim ''artifacts/models/sensitivity'' \<noteq> []"
    by (simp_all add: trim_start_id trim_end_id trim_def ws_at_def ws_end_def)
  moreover have "parse_usize ''0'' = Some 0" "parse_usize ''1'' = Some 1" by (simp_all add: parse_usize_def digit_val_def)
  ultimately have "read_settings demo_settings = Inr (0, 1)" "trim ''artifacts/models/sensitivity'' \<noteq> []"
    by (simp_all add: read_settings_def parse_env_def demo_settings_def)
  moreover have "\<exists>ss st'. run_matrix mirror snd (\<lambda>_. 0) demo_plan (\<lambda>_. Inr ()) demo_tokens 0 1 scenario_matrix 0 ([], snapshot metrics_new) = Some (Inr ss, st')"
    by (rule mirror_matrix)
      (auto simp: scenario_matrix_def TOKEN_LENGTHS_def CONCURRENCIES_def measured_context_def with_seed_def seeded_measure_context_def measure_context_def)
  ultimately obtain mf rows where run: "runner_main demo_settings (\<lambda>_. True) (\<lambda>_. Inr ()) (\<lambda>_. Inr ([], snapshot metrics_new)) (\<lambda>_. Inr demo_tokens)
      (''abc'', (''m'', ''t''), ''cpu'') mirror snd (\<lambda>_. 0) demo_plan (\<lambda>_. Inr ()) 0 = Some (Inr (mf, rows))"
    by (auto simp: runner_main_def demo_settings_def runner_report_def)
  with reported_rows_prove_their_mode [OF run] show ?thesis by blast
qed

end
