(* ===== verification/LoadDriver.thy ===== *)
theory LoadDriver
  imports Percentile Display Wire "HOL-Library.Word"
begin

text \<open>
  The load driver \<open>src/bench/driver/src/main.rs\<close>: which key or corpus entry a request
  uses, the prompt it sends, what counts as a success, the latency statistics and the
  premises a report checks. Tasks, sockets and the clock are not modelled; \<open>f64::powf\<close>,
  \<open>f64::powi\<close>, \<open>f64::ln\<close> and the JSON parser are parameters.
\<close>

unbundle bit_operations_syntax

section \<open>Drawing an index\<close>

definition scramble :: "64 word \<Rightarrow> 64 word" where
  "scramble i =
     (let z = i * 0x9E3779B97F4A7C15;
          z = (z XOR drop_bit 30 z) * 0xBF58476D1CE4E5B9
      in (z XOR drop_bit 27 z) * 0x94D049BB133111EB)"

text \<open>A number in the unit interval: 53 bits over \<open>2 ^ 53\<close>.\<close>

definition unit_draw :: "64 word \<Rightarrow> flt" where
  "unit_draw z = fdiv round64 (nat_as_f64 (unat (drop_bit 11 (z XOR drop_bit 31 z)))) (nat_as_f64 (2 ^ 53))"

definition f64_literal :: "real \<Rightarrow> flt" where
  "f64_literal x = round64 x"

text \<open>\<open>powf\<close> is \<open>f64::powf\<close>; \<open>n\<close> and the result are unsigned 64-bit integers.\<close>

definition corpus_index :: "(flt \<Rightarrow> flt \<Rightarrow> flt) \<Rightarrow> string \<Rightarrow> 64 word \<Rightarrow> nat \<Rightarrow> 64 word \<Rightarrow> nat" where
  "corpus_index powf distribution i0 n offset =
     (if n = 0 then 0
      else (let i = i0 + offset; z = scramble i; u = unit_draw z
            in if distribution = ''unique'' then unat i mod n
               else if distribution = ''hotset'' then
                 (let hot = f64_as_u64 (fmax (fmul round64 (nat_as_f64 n) (f64_literal 0.2)) (Fin 1))
                  in if flt_lt u (f64_literal 0.8) then unat z mod hot
                     else hot + unat z mod max (n - hot) 1)
               else if distribution = ''zipf'' then
                 (let r = powf (nat_as_f64 n) u in min (f64_as_u64 r) (n - 1))
               else unat z mod n))"

section \<open>Keys\<close>

definition hit_key :: "nat \<Rightarrow> nat \<Rightarrow> nat \<Rightarrow> string" where
  "hit_key run_id index keyspace = ''hitkey-'' @ show_nat run_id @ ''-'' @ show_nat (index mod max keyspace 1)"

definition phase_key :: "bool \<Rightarrow> nat \<Rightarrow> nat \<Rightarrow> string" where
  "phase_key measuring run_id index =
     (if measuring then ''measure-'' @ show_nat run_id @ ''-'' @ show_nat index
      else ''warm-'' @ show_nat run_id @ ''-'' @ show_nat index)"

definition context_for_mix :: "string \<Rightarrow> nat \<Rightarrow> nat \<Rightarrow> nat \<Rightarrow> bool \<Rightarrow> flt \<Rightarrow> string" where
  "context_for_mix mode run_id index keyspace measuring hit_ratio =
     (if mode = ''mixed'' then
        (if flt_lt (unit_draw (scramble (of_nat index))) hit_ratio then hit_key run_id index keyspace
         else phase_key measuring run_id index)
      else if mode = ''hit'' then hit_key run_id index keyspace
      else phase_key measuring run_id index)"

definition context_for :: "string \<Rightarrow> nat \<Rightarrow> nat \<Rightarrow> nat \<Rightarrow> bool \<Rightarrow> string" where
  "context_for mode run_id index keyspace measuring = context_for_mix mode run_id index keyspace measuring (Fin 1)"

text \<open>The floor a run that is not a miss run puts under its warm-up; saturating at 64 bits.\<close>

definition raise_warmup :: "string \<Rightarrow> nat \<Rightarrow> nat \<Rightarrow> nat" where
  "raise_warmup mode keyspace warmup =
     (if mode \<noteq> ''miss'' then max warmup (max (min (keyspace * 40) (2 ^ 64 - 1)) 2000) else warmup)"

section \<open>Prompts\<close>

definition FILLER :: string where
  "FILLER = ''the system processes distributed inference requests across heterogeneous compute tiers while maintaining throughput guarantees and bounded tail latency for each tenant ''"

function fill_prompt :: "nat \<Rightarrow> string \<Rightarrow> string" where
  "fill_prompt bytes s = (if length s < bytes then fill_prompt bytes (s @ FILLER) else s)"
  by pat_completeness auto
termination
  by (relation "measure (\<lambda>(bytes, s). bytes - length s)") (simp_all add: FILLER_def)

declare fill_prompt.simps [simp del]

text \<open>\<open>String::truncate\<close>; \<open>None\<close> when it panics because the cut is inside a character.\<close>

definition truncate_string :: "nat \<Rightarrow> string \<Rightarrow> string option" where
  "truncate_string n s = (if length s \<le> n then Some s else if is_char_boundary s n then Some (take n s) else None)"

definition make_prompt :: "string \<Rightarrow> nat \<Rightarrow> string option" where
  "make_prompt key bytes = truncate_string (max bytes (length key + 1)) (fill_prompt bytes (key @ '' ''))"

section \<open>Corpus prompts\<close>

text \<open>Which utterance of a corpus of \<open>n\<close> entries a request uses; the sums do not overflow.\<close>

definition corpus_choice ::
  "(flt \<Rightarrow> flt \<Rightarrow> flt) \<Rightarrow> string \<Rightarrow> string \<Rightarrow> nat \<Rightarrow> nat \<Rightarrow> nat \<Rightarrow> flt \<Rightarrow> nat \<Rightarrow> nat" where
  "corpus_choice powf mode distribution n offset keyspace hit_ratio idx =
     (if mode = ''hit'' then (offset + idx mod max keyspace 1) mod n
      else if mode = ''mixed'' then
        (if flt_lt (unit_draw (scramble (of_nat idx))) hit_ratio then (offset + idx mod max keyspace 1) mod n
         else (offset + keyspace + idx) mod n)
      else corpus_index powf distribution (of_nat idx) n (of_nat offset))"

function pad_text :: "string list \<Rightarrow> nat \<Rightarrow> nat \<Rightarrow> string \<Rightarrow> string" where
  "pad_text corpus bytes k txt =
     (if length txt < bytes
      then (let k' = (k + 7919) mod length corpus in pad_text corpus bytes k' (txt @ '' '' @ corpus ! k'))
      else txt)"
  by pat_completeness auto
termination
  by (relation "measure (\<lambda>(corpus, bytes, k, txt). bytes - length txt)") (simp_all add: Let_def)

declare pad_text.simps [simp del]

fun cut_at_boundary :: "string \<Rightarrow> nat \<Rightarrow> nat" where
  "cut_at_boundary s 0 = 0"
| "cut_at_boundary s (Suc n) = (if is_char_boundary s (Suc n) then Suc n else cut_at_boundary s n)"

definition corpus_text :: "string list \<Rightarrow> nat \<Rightarrow> string \<Rightarrow> nat \<Rightarrow> nat \<Rightarrow> string" where
  "corpus_text corpus bytes salt ci idx =
     (let text0 = corpus ! ci;
          text1 = (if 0 < bytes then
                     (let t = pad_text corpus bytes ci text0
                      in if bytes < length t then take (cut_at_boundary t bytes) t else t)
                   else text0)
      in if salt \<noteq> [] then salt @ '' '' @ show_nat idx @ '' '' @ text1 else text1)"

text \<open>The identity of a corpus file that a report carries: FNV-1a over its bytes.\<close>

definition fnv1a64 :: "string \<Rightarrow> 64 word" where
  "fnv1a64 bytes = foldl (\<lambda>h b. (h XOR of_nat (byte b)) * 0x100000001b3) 0xcbf29ce484222325 bytes"

definition hex_digit :: "nat \<Rightarrow> char" where
  "hex_digit d = (if d < 10 then char_of (48 + d) else char_of (87 + d))"

definition show_hex16 :: "64 word \<Rightarrow> string" where
  "show_hex16 h = List.map (\<lambda>k. hex_digit (unat h div 16 ^ k mod 16)) (List.rev [0..<16])"

definition corpus_hash :: "string option \<Rightarrow> string" where
  "corpus_hash content = (case content of None \<Rightarrow> [] | Some bytes \<Rightarrow> ''fnv1a64:'' @ show_hex16 (fnv1a64 bytes))"

section \<open>Arrivals\<close>

text \<open>
  The open-loop schedule: the gap to the next arrival, and the arrival times in seconds.
  \<open>fln\<close> is \<open>f64::ln\<close>.
\<close>

definition lcg_next :: "64 word \<Rightarrow> 64 word" where
  "lcg_next seed = seed * 6364136223846793005 + 1442695040888963407"

definition arrival_gap :: "(flt \<Rightarrow> flt) \<Rightarrow> string \<Rightarrow> flt \<Rightarrow> 64 word \<Rightarrow> flt \<times> 64 word" where
  "arrival_gap fln arrival mean_gap seed =
     (if arrival = ''constant'' then (mean_gap, seed)
      else (let seed' = lcg_next seed; z = seed' XOR drop_bit 33 seed';
                u = fmax (fdiv round64 (nat_as_f64 (unat (drop_bit 11 z))) (nat_as_f64 (2 ^ 53))) (f64_literal (1 / 10 ^ 12))
            in (fmul round64 (fneg (fln u)) mean_gap, seed')))"

fun arrivals :: "(flt \<Rightarrow> flt) \<Rightarrow> string \<Rightarrow> flt \<Rightarrow> nat \<Rightarrow> 64 word \<Rightarrow> flt \<Rightarrow> flt list" where
  "arrivals fln arrival mean_gap 0 seed t = []"
| "arrivals fln arrival mean_gap (Suc n) seed t =
     (let (gap, seed') = arrival_gap fln arrival mean_gap seed; t' = fadd round64 t gap
      in t' # arrivals fln arrival mean_gap n seed' t')"

section \<open>What counts as a success\<close>

text \<open>\<open>max_by\<close> with a comparison that is \<open>Equal\<close> when undefined: the last of the greatest.\<close>

definition last_max :: "wire_signal list \<Rightarrow> wire_signal option" where
  "last_max ranked =
     (case ranked of [] \<Rightarrow> None
      | s # ss \<Rightarrow> Some (foldl (\<lambda>best t. if flt_partial_cmp (ws_score best) (ws_score t) = Some Greater then best else t) s ss))"

definition show_i32 :: "int \<Rightarrow> string" where
  "show_i32 n = (if n < 0 then CHR ''-'' # show_nat (nat (- n)) else show_nat (nat n))"

definition grpc_verdict :: "int \<Rightarrow> classify_response \<Rightarrow> bool \<times> string" where
  "grpc_verdict cc r =
     (case (rp_status r = 1, last_max (rp_ranked r)) of
        (True, Some t) \<Rightarrow> if ws_label t \<noteq> [] then (True, ws_label t) else (False, ''INVALID_EMPTY_RANKING'')
      | (True, None) \<Rightarrow> (False, ''INVALID_EMPTY_RANKING'')
      | (False, _) \<Rightarrow> if rp_status r = 2 \<and> cc = 2 then (True, ''ABSTAIN'')
                      else (False, ''STATUS_'' @ show_i32 (rp_status r)))"

section \<open>Statistics\<close>

record stats =
  st_count :: nat
  st_min :: flt
  st_mean :: flt
  st_stddev :: flt
  st_p50 :: flt
  st_p90 :: flt
  st_p95 :: flt
  st_p99 :: flt
  st_p999 :: flt
  st_max :: flt

definition stats_default :: stats where
  "stats_default = \<lparr>st_count = 0, st_min = Fin 0, st_mean = Fin 0, st_stddev = Fin 0, st_p50 = Fin 0, st_p90 = Fin 0,
     st_p95 = Fin 0, st_p99 = Fin 0, st_p999 = Fin 0, st_max = Fin 0\<rparr>"

definition as_ms :: "nat \<Rightarrow> flt" where
  "as_ms x = fdiv round64 (nat_as_f64 x) (Fin 1000000)"

definition from_nanos :: "(flt \<Rightarrow> flt) \<Rightarrow> nat list \<Rightarrow> stats" where
  "from_nanos square v =
     (if v = [] then stats_default
      else (let xs = sort v; n = nat_as_f64 (length xs);
                mean = fdiv round64 (fsum round64 (List.map nat_as_f64 xs)) n;
                var = fdiv round64 (fsum round64 (List.map (\<lambda>x. square (fsub round64 (nat_as_f64 x) mean)) xs)) n
            in \<lparr>st_count = length xs, st_min = as_ms (xs ! 0), st_mean = fdiv round64 mean (Fin 1000000),
                st_stddev = fdiv round64 (fsqrt round64 var) (Fin 1000000),
                st_p50 = as_ms (percentile_at xs (Fin 50)), st_p90 = as_ms (percentile_at xs (Fin 90)),
                st_p95 = as_ms (percentile_at xs (Fin 95)), st_p99 = as_ms (percentile_at xs (Fin 99)),
                st_p999 = as_ms (percentile_at xs (f64_literal 99.9)), st_max = as_ms (xs ! (length xs - 1))\<rparr>))"

section \<open>Indices\<close>

lemma round64_53_bits:
  assumes "k < 2 ^ 53" shows "round64 (real k / 2 ^ 53) = Fin (real k / 2 ^ 53)"
proof (cases "k = 0")
  case False
  define x where "x = real k / 2 ^ 53"
  have "real k < 2 ^ 53" using assms by simp
  then have x: "0 < x" "x < 1" using False by (simp_all add: x_def)
  then have "log 2 x < 0" by simp
  then have "\<lfloor>log 2 x\<rfloor> \<le> - 1" by linarith
  then have "ulp_exp 53 (- 1074) x + int 53 \<le> 0" using x(1) by (simp add: ulp_exp_def)
  from round_at_dyadic [OF this, of "int k"]
  have "round_at (ulp_exp 53 (- 1074) x) x = x" by (simp add: x_def)
  then show ?thesis using x
    unfolding x_def [symmetric] round64_def ieee_round_def clip_range_def
    by (auto simp: not_le intro: le_less_trans less_le_trans)
qed simp

lemma unit_draw_value: "unit_draw z = Fin (real (unat (drop_bit 11 (z XOR drop_bit 31 z))) / 2 ^ 53)"
proof -
  have bound: "unat (drop_bit 11 w) < 2 ^ 53" for w :: "64 word"
  proof -
    have "unat w < 2 ^ 11 * 2 ^ 53" using unsigned_less [of w, where 'a = nat] by simp
    then have "unat w div 2 ^ 11 < 2 ^ 53" by (intro less_mult_imp_div_less) (simp add: mult.commute)
    then show ?thesis by (metis drop_bit_eq_div unat_drop_bit_eq)
  qed
  define k where "k = unat (drop_bit 11 (z XOR drop_bit 31 z))"
  have "k < 2 ^ 53" unfolding k_def by (rule bound)
  moreover from this have "nat_as_f64 k = Fin (real k)" by (simp add: nat_as_f64_def f64.rnd_nat)
  moreover have "nat_as_f64 (2 ^ 53) = Fin (2 ^ 53)"
    unfolding nat_as_f64_def using f64.rnd_nat [of "2 ^ 53"] by simp
  ultimately show ?thesis
    unfolding unit_draw_def k_def [symmetric] using round64_53_bits [of k] by simp
qed

text \<open>A fifth of a corpus, as the driver computes it, is less than the corpus of two or more.\<close>

lemma hot_bound:
  assumes "1 \<le> n" and "n \<le> 2 ^ 53"
  defines "hot \<equiv> f64_as_u64 (fmax (fmul round64 (nat_as_f64 n) (f64_literal 0.2)) (Fin 1))"
  shows "1 \<le> hot" and "hot \<le> n div 4 + 1"
proof -
  have "round64 (1 / 4) = Fin (1 / 4)" using round64_dyadic [of 1 2] by simp
  then obtain c where c: "f64_literal 0.2 = Fin c" "0 \<le> c" "c \<le> 1 / 4"
    using f64.rnd_mono [of 0 "0.2"] f64.rnd_mono [of "0.2" "1 / 4"]
    by (auto simp: f64_literal_def dest: flt_le_betweenD)
  have nn: "n div 4 + 1 \<le> 2 ^ 53" using div_le_mono [OF assms(2), of 4] by simp
  have "real n * c \<le> real n * (1 / 4)" using c(3) by (intro mult_left_mono) simp_all
  also have "\<dots> \<le> real (n div 4 + 1)" by linarith
  finally obtain y where y: "round64 (real n * c) = Fin y" "0 \<le> y" "y \<le> real (n div 4 + 1)"
    using f64.rnd_upto [OF _ _ nn] c(2) by (metis mult_nonneg_nonneg of_nat_0_le_iff)
  have n: "nat_as_f64 n = Fin (real n)" using assms(2) by (simp add: nat_as_f64_def f64.rnd_nat)
  have h: "hot = min (nat \<lfloor>max y 1\<rfloor>) (2 ^ 64 - 1)"
    unfolding hot_def n c(1) fmul.simps y(1) by (auto simp: max_def)
  have "1 \<le> \<lfloor>max y 1\<rfloor>" by (simp add: le_floor_iff)
  then show "1 \<le> hot" unfolding h by (simp add: le_nat_iff)
  have "max y 1 \<le> real (n div 4 + 1)" using y(3) by simp
  then have "\<lfloor>max y 1\<rfloor> \<le> int (n div 4 + 1)" by linarith
  then show "hot \<le> n div 4 + 1" unfolding h by (intro min.coboundedI1) (simp add: nat_le_iff)
qed

text \<open>
  The index a draw gives is inside the corpus, for every distribution and whatever
  \<open>powf\<close> returns, with one exception: \<open>hotset\<close> on a corpus of
  one entry.
\<close>

lemma corpus_index_in_range:
  assumes "1 \<le> n" and "n \<le> 2 ^ 53"
  shows "corpus_index powf distribution i n offset < (if distribution = ''hotset'' then max n 2 else n)"
proof -
  define hot where "hot = f64_as_u64 (fmax (fmul round64 (nat_as_f64 n) (f64_literal 0.2)) (Fin 1))"
  note hb = hot_bound [OF assms, folded hot_def]
  have "unat z mod hot < max n 2" for z :: "64 word"
  proof -
    have "unat z mod hot < hot" using hb(1) by simp
    also have "hot \<le> max n 2" using hb(2) assms(1) by linarith
    finally show ?thesis .
  qed
  moreover have "hot + unat z mod max (n - hot) 1 < max n 2" for z :: "64 word"
  proof (cases "n = 1")
    case True
    then show ?thesis using hb by simp
  next
    case False
    then have "hot < n" using hb(2) assms(1) by linarith
    then have "unat z mod max (n - hot) 1 < n - hot" by simp
    then show ?thesis by linarith
  qed
  ultimately show ?thesis
    using assms(1) unfolding corpus_index_def Let_def hot_def [symmetric] by (auto simp: min_less_iff_disj)
qed

lemma corpus_index_in_range_witness: "corpus_index (\<lambda>x _. x) ''zipf'' 3 5 0 < 5"
  using corpus_index_in_range [of 5 "\<lambda>x _. x" "''zipf''" 3 0] by simp

text \<open>
  The exception is real: with a corpus of one entry, the second request of a
  \<open>hotset\<close> run draws entry 1, which does not exist.
\<close>

theorem hotset_out_of_range: "corpus_index powf ''hotset'' 1 1 0 = 1"
proof -
  have draw: "unit_draw (scramble 1) = Fin (7956156453446585 / 2 ^ 53)"
    unfolding unit_draw_value by (simp add: scramble_def Let_def)
  have "round64 (7 / 8) = Fin (7 / 8)" using round64_dyadic [of 7 3] by simp
  then have "\<not> flt_lt (Fin (7956156453446585 / 2 ^ 53)) (f64_literal 0.8)"
    using f64.rnd_mono [of 0 "0.8"] f64.rnd_mono [of "0.8" "7 / 8"]
    by (cases "round64 (4 / 5)") (auto simp: f64_literal_def)
  moreover have "f64_as_u64 (fmax (fmul round64 (nat_as_f64 1) (f64_literal 0.2)) (Fin 1)) = 1"
    using hot_bound [of 1] by simp
  ultimately show ?thesis by (simp add: corpus_index_def Let_def draw)
qed

section \<open>Latency statistics\<close>

lemma fdiv_scale_mono: "flt_le a b \<Longrightarrow> flt_le (fdiv round64 a (Fin 1000000)) (fdiv round64 b (Fin 1000000))"
  by (cases a; cases b) (auto simp: divide_right_mono inf_of_sign_def intro!: f64.rnd_mono)

lemma as_ms_mono: "x \<le> y \<Longrightarrow> flt_le (as_ms x) (as_ms y)"
  unfolding as_ms_def nat_as_f64_def by (intro fdiv_scale_mono f64.rnd_mono) simp

lemma literal_99_9: "\<exists>q. f64_literal 99.9 = Fin q \<and> 99 \<le> q \<and> q \<le> 100"
proof -
  have "round64 99 = Fin 99" "round64 100 = Fin 100"
    using f64.rnd_nat [of 99] f64.rnd_nat [of 100] by simp_all
  then show ?thesis
    using f64.rnd_mono [of 99 "99.9"] f64.rnd_mono [of "99.9" 100]
    by (auto simp: f64_literal_def dest: flt_le_betweenD)
qed

lemma percentile_at_ge_first:
  assumes "sorted xs" and "xs \<noteq> []"
  shows "xs ! 0 \<le> percentile_at xs p"
  using assms min_index [OF assms(2)] by (auto simp: percentile_at_def intro!: sorted_nth_mono)

text \<open>
  The latencies a report prints are ordered: minimum, median, 90th, 95th, 99th and 99.9th
  percentile, maximum, whatever the samples are.
\<close>

theorem latency_summary_is_ordered:
  assumes "length v < 2 ^ 53"
  shows "sorted_wrt flt_le [st_min (from_nanos square v), st_p50 (from_nanos square v), st_p90 (from_nanos square v),
     st_p95 (from_nanos square v), st_p99 (from_nanos square v), st_p999 (from_nanos square v), st_max (from_nanos square v)]"
proof (cases "v = []")
  case True
  then show ?thesis by (simp add: from_nanos_def stats_default_def flt_le_refl)
next
  case False
  define xs where "xs = sort v"
  have xs: "sorted xs" "xs \<noteq> []" "length xs < 2 ^ 53" using False assms by (simp_all add: xs_def flip: set_empty)
  obtain q where q: "f64_literal 99.9 = Fin q" "99 \<le> q" "q \<le> 100" using literal_99_9 by blast
  have last: "xs ! (length xs - Suc 0) = last xs" using xs(2) by (simp add: last_conv_nth)
  have ordered: "xs ! 0 \<le> percentile_at xs (Fin 50)"
    "percentile_at xs (Fin 50) \<le> percentile_at xs (Fin 90)" "percentile_at xs (Fin 90) \<le> percentile_at xs (Fin 95)"
    "percentile_at xs (Fin 95) \<le> percentile_at xs (Fin 99)" "percentile_at xs (Fin 99) \<le> percentile_at xs (Fin q)"
    "percentile_at xs (Fin q) \<le> last xs"
    using percentile_at_ge_first [OF xs(1,2)] percentile_at_le_last [OF xs(1,2)] percentile_at_mono [OF xs(1) _ _ _ xs(3)] q(2,3)
    by simp_all
  have s: "st_min (from_nanos square v) = as_ms (xs ! 0)" "st_p50 (from_nanos square v) = as_ms (percentile_at xs (Fin 50))"
    "st_p90 (from_nanos square v) = as_ms (percentile_at xs (Fin 90))" "st_p95 (from_nanos square v) = as_ms (percentile_at xs (Fin 95))"
    "st_p99 (from_nanos square v) = as_ms (percentile_at xs (Fin 99))" "st_p999 (from_nanos square v) = as_ms (percentile_at xs (Fin q))"
    "st_max (from_nanos square v) = as_ms (last xs)"
    using False by (simp_all add: from_nanos_def Let_def xs_def [symmetric] q(1) last)
  show ?thesis unfolding s using ordered by (simp add: as_ms_mono)
qed

theorem latency_summary_is_ordered_witness:
  "flt_le (st_p50 (from_nanos (\<lambda>x. x) [7000000, 2000000])) (st_p99 (from_nanos (\<lambda>x. x) [7000000, 2000000]))"
  using latency_summary_is_ordered [of "[7000000, 2000000]" "\<lambda>x. x"] by simp

section \<open>Prompts\<close>

lemma fill_prompt_extends: "\<exists>r. fill_prompt bytes s = s @ r \<and> bytes \<le> length (s @ r) \<and> (\<forall>c\<in>set r. \<not> is_cont_byte c)"
proof (induction bytes s rule: fill_prompt.induct)
  case (1 bytes s)
  show ?case
  proof (cases "length s < bytes")
    case True
    with 1 obtain r where r: "fill_prompt bytes (s @ FILLER) = (s @ FILLER) @ r" "bytes \<le> length ((s @ FILLER) @ r)"
      "\<forall>c\<in>set r. \<not> is_cont_byte c" by blast
    have "\<forall>c\<in>set FILLER. \<not> is_cont_byte c" by (simp add: FILLER_def is_cont_byte_def)
    with r True show ?thesis
      by (intro exI [of _ "FILLER @ r"]) (auto simp: fill_prompt.simps [of bytes s])
  next
    case False
    then show ?thesis by (intro exI [of _ "[]"]) (simp add: fill_prompt.simps [of bytes s])
  qed
qed

lemma make_prompt_form:
  "\<exists>r. make_prompt key bytes = Some (key @ CHR '' '' # r) \<and> length (key @ CHR '' '' # r) = max bytes (length key + 1)"
proof -
  obtain r where r: "fill_prompt bytes (key @ '' '') = (key @ '' '') @ r" "bytes \<le> length ((key @ '' '') @ r)"
    "\<forall>c\<in>set r. \<not> is_cont_byte c"
    using fill_prompt_extends by blast
  define n where "n = max bytes (length key + 1)"
  have n: "length key + 1 \<le> n" "n \<le> length ((key @ '' '') @ r)" using r(2) by (simp_all add: n_def)
  have "is_char_boundary ((key @ '' '') @ r) n" if "n < length ((key @ '' '') @ r)"
  proof -
    have "((key @ '' '') @ r) ! n = r ! (n - length (key @ '' ''))" using n(1) by (subst nth_append) simp
    moreover have "n - length (key @ '' '') < length r" using that n(1) by simp
    ultimately show ?thesis using r(3) that by (simp add: is_char_boundary_def)
  qed
  then have "truncate_string n ((key @ '' '') @ r) = Some (take n ((key @ '' '') @ r))"
    using n(2) unfolding truncate_string_def by (cases "n < length ((key @ '' '') @ r)") simp_all
  then have "make_prompt key bytes = Some (take n ((key @ '' '') @ r))"
    unfolding make_prompt_def r(1) n_def by simp
  moreover have "take n ((key @ '' '') @ r) = key @ CHR '' '' # take (n - length key - 1) r"
    using n(1) by (simp add: take_Cons')
  ultimately show ?thesis using n(2) by (intro exI [of _ "take (n - length key - 1) r"]) (simp add: n_def)
qed

text \<open>
  Building a prompt always ends and never cuts inside a character: the prompt has exactly
  the requested length (or that of its key and the space after it) and starts with the
  key, so requests with different keys send different texts.
\<close>

theorem prompts_are_total_and_distinct:
  assumes "CHR '' '' \<notin> set k" and "CHR '' '' \<notin> set k'"
  shows "make_prompt k bytes \<noteq> None \<and> map_option length (make_prompt k bytes) = Some (max bytes (length k + 1)) \<and>
    (make_prompt k bytes = make_prompt k' bytes) = (k = k')"
proof -
  obtain r r' where r: "make_prompt k bytes = Some (k @ CHR '' '' # r)"
    "length (k @ CHR '' '' # r) = max bytes (length k + 1)" "make_prompt k' bytes = Some (k' @ CHR '' '' # r')"
    using make_prompt_form by blast
  have "k = k'" if "k @ CHR '' '' # r = k' @ CHR '' '' # r'"
    using split_at_separator [OF that assms] by simp
  with r show ?thesis by auto
qed

theorem prompts_are_total_and_distinct_witness:
  "make_prompt ''measure-1-0'' 256 \<noteq> make_prompt ''measure-1-1'' 256"
  using prompts_are_total_and_distinct [of "''measure-1-0''" "''measure-1-1''" 256] by simp

section \<open>Key namespaces\<close>

lemma phase_key_inject: "phase_key m r i = phase_key m' r' j \<longleftrightarrow> m = m' \<and> r = r' \<and> i = j"
  by (cases m; cases m') (simp_all add: phase_key_def show_pair_inject)

lemma hit_key_inject: "hit_key r i k = hit_key r' j k' \<longleftrightarrow> r = r' \<and> i mod max k 1 = j mod max k' 1"
  by (simp add: hit_key_def show_pair_inject)

lemma hit_not_phase [simp]: "hit_key r i k \<noteq> phase_key m r' j" "phase_key m r' j \<noteq> hit_key r i k"
  by (auto simp: hit_key_def phase_key_def)

definition draws_warm :: "string \<Rightarrow> nat \<Rightarrow> flt \<Rightarrow> bool" where
  "draws_warm mode index hit_ratio \<longleftrightarrow>
     mode = ''hit'' \<or> mode = ''mixed'' \<and> flt_lt (unit_draw (scramble (of_nat index))) hit_ratio"

lemma context_cases:
  "context_for_mix mode r i ks m q = (if draws_warm mode i q then hit_key r i ks else phase_key m r i)"
  by (simp add: context_for_mix_def draws_warm_def)

text \<open>
  A measured request repeats the key of a warm-up request only when both are drawn from
  the warm keys of the same run: a request that is to miss can never be served from what
  the warm-up of any run has cached. Within a run, two measured requests that are to miss
  never share a key either.
\<close>

theorem measured_misses_are_fresh:
  "(context_for_mix mode r i ks True q = context_for_mix mode' r' j ks' False q') =
     (draws_warm mode i q \<and> draws_warm mode' j q' \<and> r = r' \<and> i mod max ks 1 = j mod max ks' 1) \<and>
   (context_for ''miss'' r i ks m = context_for ''miss'' r' j ks' m') = (m = m' \<and> r = r' \<and> i = j)"
  unfolding context_for_def context_cases by (auto simp: hit_key_inject phase_key_inject draws_warm_def)

text \<open>
  In a mixed run over a corpus, the novel entries are disjoint from the warm slice until
  the draw wraps around the corpus; from then on a request that is to miss repeats an
  entry of the warm slice.
\<close>

theorem novel_entries_until_wrap:
  assumes "j < keyspace" and "keyspace \<le> n" and "idx < n"
    and miss: "\<not> flt_lt (unit_draw (scramble (of_nat idx))) hit_ratio"
  shows "(corpus_choice powf ''mixed'' d n offset keyspace hit_ratio idx =
      corpus_choice powf ''hit'' d n offset keyspace q j) = (keyspace + idx = n + j)"
proof -
  have "((offset + keyspace + idx) mod n = (offset + j) mod n) = (n dvd (offset + keyspace + idx) - (offset + j))"
    using assms(1) by (intro mod_eq_dvd_iff_nat) simp
  also have "(offset + keyspace + idx) - (offset + j) = keyspace + idx - j" by simp
  also have "(n dvd keyspace + idx - j) = (keyspace + idx = n + j)"
  proof
    assume "n dvd keyspace + idx - j"
    then obtain k where k: "keyspace + idx - j = n * k" by blast
    have "0 < n * k" "n * k < n * 2" using assms(1-3) unfolding k [symmetric] by linarith+
    then have "k = 1" by simp
    with k assms(1) show "keyspace + idx = n + j" by simp
  qed (use assms(1) in simp)
  finally show ?thesis using assms(1) miss by (simp add: corpus_choice_def)
qed

theorem novel_entries_until_wrap_witness:
  "corpus_choice powf ''mixed'' [] 10 3 4 NaN 6 = corpus_choice powf ''hit'' [] 10 3 4 NaN 0"
  using novel_entries_until_wrap [of 0 4 10 6 NaN powf "[]" 3 NaN] by simp

section \<open>Successes\<close>

lemma fold_max_in: "foldl (\<lambda>best t. if P best t then best else t) s ss \<in> insert s (set ss)"
  by (induction ss arbitrary: s) auto

lemma last_max_in: "last_max ranked = Some t \<Longrightarrow> t \<in> set ranked"
  using fold_max_in [where P = "\<lambda>best t. flt_partial_cmp (ws_score best) (ws_score t) = Some Greater"]
  by (cases ranked) (auto simp: last_max_def)

lemma fold_max_greatest:
  assumes "\<forall>t\<in>insert s (set ss). ws_score t \<noteq> NaN"
  shows "\<forall>t\<in>insert s (set ss). flt_le (ws_score t)
    (ws_score (foldl (\<lambda>best t. if flt_partial_cmp (ws_score best) (ws_score t) = Some Greater then best else t) s ss))"
  using assms
proof (induction ss arbitrary: s)
  case Nil
  then show ?case by (simp add: flt_le_refl)
next
  case (Cons x ss)
  define b where "b = (if flt_partial_cmp (ws_score s) (ws_score x) = Some Greater then s else x)"
  have "flt_le (ws_score s) (ws_score b) \<and> flt_le (ws_score x) (ws_score b)"
    using Cons.prems by (cases "ws_score s"; cases "ws_score x") (auto simp: b_def flt_le_def cmp_ord_def)
  moreover have "\<forall>t\<in>insert b (set ss). ws_score t \<noteq> NaN" using Cons.prems by (auto simp: b_def)
  from Cons.IH [OF this] have "\<forall>t\<in>insert b (set ss). flt_le (ws_score t)
    (ws_score (foldl (\<lambda>best t. if flt_partial_cmp (ws_score best) (ws_score t) = Some Greater then best else t) b ss))" .
  ultimately show ?case by (auto simp: b_def [symmetric] intro: flt_le_trans)
qed

text \<open>
  A reply counts as a success exactly when the service classified the request and its best
  label is not empty, or abstained from a request declared as a delta; the label recorded
  is one of the ranking's with the greatest score.
\<close>

theorem success_means_classified:
  assumes "\<forall>t\<in>set (rp_ranked r). ws_score t \<noteq> NaN"
  shows "fst (grpc_verdict cc r) =
     (rp_status r = 1 \<and> (\<exists>t. last_max (rp_ranked r) = Some t \<and> ws_label t \<noteq> []) \<or> rp_status r = 2 \<and> cc = 2) \<and>
   (case last_max (rp_ranked r) of None \<Rightarrow> rp_ranked r = []
    | Some t \<Rightarrow> t \<in> set (rp_ranked r) \<and> (\<forall>u\<in>set (rp_ranked r). flt_le (ws_score u) (ws_score t)))"
proof -
  have "case last_max (rp_ranked r) of None \<Rightarrow> rp_ranked r = []
    | Some t \<Rightarrow> t \<in> set (rp_ranked r) \<and> (\<forall>u\<in>set (rp_ranked r). flt_le (ws_score u) (ws_score t))"
    using assms fold_max_greatest last_max_in [of "rp_ranked r"]
    by (cases "rp_ranked r") (auto simp: last_max_def)
  then show ?thesis by (auto simp: grpc_verdict_def split: option.splits bool.splits)
qed

theorem success_means_classified_witness:
  "fst (grpc_verdict 1 \<lparr>rp_request_id = [], rp_classifier_id = [], rp_model_revision = [], rp_tokenizer_revision = [],
     rp_taxonomy_revision = [], rp_status = 1, rp_ranked = [\<lparr>ws_label = ''code'', ws_score = Fin 1\<rparr>]\<rparr>)"
  using success_means_classified [where cc = 1 and r = "\<lparr>rp_request_id = [], rp_classifier_id = [], rp_model_revision = [],
     rp_tokenizer_revision = [], rp_taxonomy_revision = [], rp_status = 1,
     rp_ranked = [\<lparr>ws_label = ''code'', ws_score = Fin 1\<rparr>]\<rparr>"]
  by (simp add: last_max_def)

end
