(* ===== verification/DriverRun.thy ===== *)
theory DriverRun
  imports LoadDriver
begin

text \<open>
  A run of the load driver \<open>src/bench/driver/src/main.rs\<close>: the worker tasks with their
  local samples, the central arrival scheduler, and the main task that warms up, drains,
  opens the measurement window, stops the workers and collects. One atomic access, channel
  operation or lock region is one step, and the tasks interleave in any order; relaxed
  atomics are taken to be sequentially consistent. The clock is not modelled: a sleep is a
  step that may be taken at any time. Counters do not wrap.
\<close>

section \<open>Arguments and prompts\<close>

text \<open>\<open>corpus\<close> is the loaded corpus, empty when none is given.\<close>

record driver_args =
  da_concurrency :: nat
  da_requests :: nat
  da_warmup :: nat
  da_context_bytes :: nat
  da_cache_mode :: string
  da_hit_ratio :: flt
  da_keyspace :: nat
  da_run_id :: nat
  da_salt :: string
  da_offset :: nat
  da_dist :: string
  da_open_loop :: bool
  da_corpus :: "string list"

text \<open>The text of request \<open>idx\<close>; \<open>None\<close> is a panic (an index outside the corpus, or a cut inside a character).\<close>

definition driver_prompt :: "(flt \<Rightarrow> flt \<Rightarrow> flt) \<Rightarrow> driver_args \<Rightarrow> bool \<Rightarrow> nat \<Rightarrow> string option" where
  "driver_prompt powf a measuring idx =
     (if da_corpus a \<noteq> []
      then (let n = length (da_corpus a);
                ci = corpus_choice powf (da_cache_mode a) (da_dist a) n (da_offset a) (da_keyspace a) (da_hit_ratio a) idx
            in if ci < n then Some (corpus_text (da_corpus a) (da_context_bytes a) (da_salt a) ci idx) else None)
      else make_prompt (context_for_mix (da_cache_mode a) (da_run_id a) idx (da_keyspace a) measuring (da_hit_ratio a))
             (da_context_bytes a))"

section \<open>State\<close>

text \<open>
  Where a worker is: at the head of its loop, waiting for a ticket, about to count it, about
  to read the phase, about to draw an index in the phase it read, about to send the text it
  made for that index, in a request, and the two lock regions after the loop.
\<close>

datatype worker_at = WTop | WRecv | WSent | WLoad | WIndex bool | WSend bool nat string | WCall bool nat | WMerge | WTally | WDone | WPanicked

record worker =
  wk_at :: worker_at
  wk_local :: "(nat \<times> nat) list"
  wk_status :: "(string \<times> nat) list"

datatype sched_at = SHead | SDue | SSend | SClosed

datatype main_at = MWarm | MDrained | MResetSent | MOpen | MMeasure | MJoin | MReport

text \<open>
  Two logs of the run, the newest first: for every request whether it was drawn in the
  measured phase, its index and its text. \<open>dr_drawn\<close> has them in the order in which the
  shared counters gave out the indices, \<open>dr_wire\<close> in the order in which they were sent.
\<close>

record driver =
  dr_counter :: nat
  dr_warm_done :: nat
  dr_errors :: nat
  dr_statuses :: "(string \<times> nat) list"
  dr_samples :: "(nat \<times> nat) list"
  dr_stop :: bool
  dr_measuring :: bool
  dr_scheduled :: nat
  dr_sent :: nat
  dr_ticket :: bool
  dr_sched :: sched_at
  dr_main :: main_at
  dr_workers :: "worker list"
  dr_drawn :: "(bool \<times> nat \<times> string) list"
  dr_wire :: "(bool \<times> nat \<times> string) list"

definition driver_start :: "driver_args \<Rightarrow> driver" where
  "driver_start a =
     \<lparr>dr_counter = 0, dr_warm_done = 0, dr_errors = 0, dr_statuses = [], dr_samples = [], dr_stop = False,
      dr_measuring = False, dr_scheduled = 0, dr_sent = 0, dr_ticket = False, dr_sched = SHead, dr_main = MWarm,
      dr_workers = replicate (da_concurrency a) \<lparr>wk_at = WTop, wk_local = [], wk_status = []\<rparr>, dr_drawn = [], dr_wire = []\<rparr>"

section \<open>Steps\<close>

text \<open>Adding to the count of a status, as \<open>entry(k).or_insert(0) += v\<close>.\<close>

fun tally_add :: "string \<Rightarrow> nat \<Rightarrow> (string \<times> nat) list \<Rightarrow> (string \<times> nat) list" where
  "tally_add k v [] = [(k, v)]"
| "tally_add k v ((k', n) # m) = (if k = k' then (k', n + v) # m else (k', n) # tally_add k v m)"

definition set_worker :: "nat \<Rightarrow> worker \<Rightarrow> driver \<Rightarrow> driver" where
  "set_worker w l s = s\<lparr>dr_workers := (dr_workers s)[w := l]\<rparr>"

definition goto_worker :: "nat \<Rightarrow> worker_at \<Rightarrow> driver \<Rightarrow> driver" where
  "goto_worker w pc s = set_worker w ((dr_workers s ! w)\<lparr>wk_at := pc\<rparr>) s"

text \<open>
  One step of worker \<open>w\<close>; \<open>answer\<close> is what the target does with its request: whether it
  succeeded, the status and the latency. \<open>None\<close> when the worker is blocked or has ended.
  Drawing an index is one access of a shared counter, and the text made of it is the worker's
  own; sending it is a step of its own, so another worker may draw and send in between.
\<close>

definition draw_step :: "(flt \<Rightarrow> flt \<Rightarrow> flt) \<Rightarrow> driver_args \<Rightarrow> nat \<Rightarrow> bool \<Rightarrow> nat \<Rightarrow> driver \<Rightarrow> driver" where
  "draw_step powf a w measuring idx s =
     (case driver_prompt powf a measuring idx of
        None \<Rightarrow> goto_worker w WPanicked s
      | Some p \<Rightarrow> goto_worker w (WSend measuring idx p) (s\<lparr>dr_drawn := (measuring, idx, p) # dr_drawn s\<rparr>))"

definition index_step :: "(flt \<Rightarrow> flt \<Rightarrow> flt) \<Rightarrow> driver_args \<Rightarrow> nat \<Rightarrow> bool \<Rightarrow> driver \<Rightarrow> driver" where
  "index_step powf a w measuring s =
     (if measuring
      then (let c = dr_counter s; s1 = s\<lparr>dr_counter := c + 1\<rparr>
            in if 0 < da_requests a \<and> da_requests a \<le> c then goto_worker w WMerge s1
               else draw_step powf a w True c s1)
      else draw_step powf a w False (dr_warm_done s) (s\<lparr>dr_warm_done := dr_warm_done s + 1\<rparr>))"

definition answer_step :: "nat \<Rightarrow> bool \<Rightarrow> bool \<times> string \<times> nat \<Rightarrow> driver \<Rightarrow> driver" where
  "answer_step w measuring answer s =
     (let l = dr_workers s ! w
      in case answer of (ok, status, dt) \<Rightarrow>
        if measuring
        then set_worker w \<lparr>wk_at = WTop, wk_local = wk_local l @ [(dt, if ok then 0 else 1)],
               wk_status = tally_add status 1 (wk_status l)\<rparr>
               (s\<lparr>dr_errors := (if ok then dr_errors s else dr_errors s + 1)\<rparr>)
        else goto_worker w WTop s)"

definition worker_step ::
  "(flt \<Rightarrow> flt \<Rightarrow> flt) \<Rightarrow> driver_args \<Rightarrow> nat \<Rightarrow> bool \<times> string \<times> nat \<Rightarrow> driver \<Rightarrow> driver option" where
  "worker_step powf a w answer s =
     (case wk_at (dr_workers s ! w) of
        WTop \<Rightarrow> Some (goto_worker w (if dr_stop s then WMerge else if da_open_loop a then WRecv else WLoad) s)
      | WRecv \<Rightarrow> if dr_ticket s then Some (goto_worker w WSent (s\<lparr>dr_ticket := False\<rparr>))
                 else if dr_sched s = SClosed then Some (goto_worker w WMerge s) else None
      | WSent \<Rightarrow> Some (goto_worker w WLoad (s\<lparr>dr_sent := dr_sent s + 1\<rparr>))
      | WLoad \<Rightarrow> Some (goto_worker w (WIndex (dr_measuring s)) s)
      | WIndex measuring \<Rightarrow> Some (index_step powf a w measuring s)
      | WSend measuring idx p \<Rightarrow> Some (goto_worker w (WCall measuring idx) (s\<lparr>dr_wire := (measuring, idx, p) # dr_wire s\<rparr>))
      | WCall measuring idx \<Rightarrow> Some (answer_step w measuring answer s)
      | WMerge \<Rightarrow> Some (goto_worker w WTally (s\<lparr>dr_samples := dr_samples s @ wk_local (dr_workers s ! w)\<rparr>))
      | WTally \<Rightarrow> Some (goto_worker w WDone
                   (s\<lparr>dr_statuses := fold (\<lambda>(k, v). tally_add k v) (wk_status (dr_workers s ! w)) (dr_statuses s)\<rparr>))
      | WDone \<Rightarrow> None
      | WPanicked \<Rightarrow> None)"

text \<open>The arrival scheduler of the open loop; a ticket is a message in a channel of one slot.\<close>

definition sched_step :: "driver_args \<Rightarrow> driver \<Rightarrow> driver option" where
  "sched_step a s =
     (if \<not> da_open_loop a then None
      else case dr_sched s of
        SHead \<Rightarrow> Some (s\<lparr>dr_sched := (if dr_stop s then SClosed else SDue)\<rparr>)
      | SDue \<Rightarrow> Some (s\<lparr>dr_scheduled := dr_scheduled s + 1, dr_sched := SSend\<rparr>)
      | SSend \<Rightarrow> if dr_ticket s then None else Some (s\<lparr>dr_ticket := True, dr_sched := SHead\<rparr>)
      | SClosed \<Rightarrow> None)"

definition worker_finished :: "worker \<Rightarrow> bool" where
  "worker_finished l \<longleftrightarrow> wk_at l = WDone \<or> wk_at l = WPanicked"

definition main_step :: "driver_args \<Rightarrow> driver \<Rightarrow> driver option" where
  "main_step a s =
     (case dr_main s of
        MWarm \<Rightarrow> if da_warmup a \<le> dr_warm_done s then Some (s\<lparr>dr_main := MDrained\<rparr>) else None
      | MDrained \<Rightarrow> Some (s\<lparr>dr_scheduled := 0, dr_main := MResetSent\<rparr>)
      | MResetSent \<Rightarrow> Some (s\<lparr>dr_sent := 0, dr_main := MOpen\<rparr>)
      | MOpen \<Rightarrow> Some (s\<lparr>dr_measuring := True, dr_main := MMeasure\<rparr>)
      | MMeasure \<Rightarrow>
          if da_requests a = 0 \<or> da_requests a \<le> dr_counter s \<or> list_all worker_finished (dr_workers s)
          then Some (s\<lparr>dr_stop := True, dr_main := MJoin\<rparr>) else None
      | MJoin \<Rightarrow> if list_all worker_finished (dr_workers s) then Some (s\<lparr>dr_main := MReport\<rparr>) else None
      | MReport \<Rightarrow> None)"

datatype driver_event = EvWorker nat "bool \<times> string \<times> nat" | EvSched | EvMain

fun driver_step :: "(flt \<Rightarrow> flt \<Rightarrow> flt) \<Rightarrow> driver_args \<Rightarrow> driver_event \<Rightarrow> driver \<Rightarrow> driver option" where
  "driver_step powf a (EvWorker w answer) s =
     (if w < length (dr_workers s) then worker_step powf a w answer s else None)"
| "driver_step powf a EvSched s = sched_step a s"
| "driver_step powf a EvMain s = main_step a s"

inductive driver_reachable :: "(flt \<Rightarrow> flt \<Rightarrow> flt) \<Rightarrow> driver_args \<Rightarrow> driver \<Rightarrow> bool" for powf a where
  start: "driver_reachable powf a (driver_start a)"
| step: "driver_reachable powf a s \<Longrightarrow> driver_step powf a e s = Some s' \<Longrightarrow> driver_reachable powf a s'"

fun driver_run :: "(flt \<Rightarrow> flt \<Rightarrow> flt) \<Rightarrow> driver_args \<Rightarrow> driver_event list \<Rightarrow> driver \<Rightarrow> driver option" where
  "driver_run powf a [] s = Some s"
| "driver_run powf a (e # es) s = Option.bind (driver_step powf a e s) (driver_run powf a es)"

lemma driver_run_reachable:
  "driver_reachable powf a s \<Longrightarrow> driver_run powf a es s = Some s' \<Longrightarrow> driver_reachable powf a s'"
  by (induction es arbitrary: s) (auto simp: bind_eq_Some_conv intro: driver_reachable.step)


section \<open>Every request is accounted for\<close>

text \<open>The requests of the measured phase that were drawn and are to be answered.\<close>

definition measured :: "driver_args \<Rightarrow> driver \<Rightarrow> nat" where
  "measured a s = (if da_requests a = 0 then dr_counter s else min (dr_counter s) (da_requests a))"

definition in_call :: "worker \<Rightarrow> nat" where
  "in_call l = (case wk_at l of WSend m i p \<Rightarrow> if m then 1 else 0 | WCall m i \<Rightarrow> if m then 1 else 0 | _ \<Rightarrow> 0)"

definition unmerged :: "(nat \<times> nat \<Rightarrow> nat) \<Rightarrow> worker \<Rightarrow> nat" where
  "unmerged f l = (case wk_at l of WTally \<Rightarrow> 0 | WDone \<Rightarrow> 0 | _ \<Rightarrow> tally f (wk_local l))"

definition untallied :: "worker \<Rightarrow> nat" where
  "untallied l = (case wk_at l of WDone \<Rightarrow> 0 | _ \<Rightarrow> tally snd (wk_status l))"

lemma tally_append [simp]: "tally f (xs @ ys) = tally f xs + tally f ys"
  by (simp add: tally_def)

lemma tally_simps [simp]: "tally f [] = 0" "tally f (x # xs) = f x + tally f xs"
  by (simp_all add: tally_def)

lemma tally_one [simp]: "tally (\<lambda>_. 1) xs = length xs" "tally (\<lambda>_. Suc 0) xs = length xs"
  by (induction xs) simp_all

lemma tally_add_total [simp]: "tally snd (tally_add k v m) = tally snd m + v"
  by (induction k v m rule: tally_add.induct) auto

lemma tally_fold_total [simp]: "tally snd (fold (\<lambda>(k, v). tally_add k v) xs m) = tally snd m + tally snd xs"
  by (induction xs arbitrary: m) auto

text \<open>The indices of one phase in a log.\<close>

definition drawn :: "bool \<Rightarrow> (bool \<times> nat \<times> string) list \<Rightarrow> nat list" where
  "drawn m wire = List.map (\<lambda>e. fst (snd e)) (filter (\<lambda>e. fst e = m) wire)"

lemma drawn_simps [simp]:
  "drawn m [] = []" "drawn m ((m', i, p) # wire) = (if m = m' then i # drawn m wire else drawn m wire)"
  by (auto simp: drawn_def)

lemma drawn_mem: "i \<in> set (drawn m wire) \<longleftrightarrow> (\<exists>p. (m, i, p) \<in> set wire)"
  by (force simp: drawn_def)

text \<open>Every measured request below \<open>n\<close> comes after the warm-up request with its index.\<close>

fun warmed_before :: "nat \<Rightarrow> (bool \<times> nat \<times> string) list \<Rightarrow> bool" where
  "warmed_before n [] = True"
| "warmed_before n ((m, i, p) # wire) = ((m \<and> i < n \<longrightarrow> i \<in> set (drawn False wire)) \<and> warmed_before n wire)"

definition counts_ok :: "driver_args \<Rightarrow> driver \<Rightarrow> bool" where
  "counts_ok a s \<longleftrightarrow>
     length (dr_samples s) + tally (unmerged (\<lambda>_. 1)) (dr_workers s) + tally in_call (dr_workers s) = measured a s \<and>
     tally snd (dr_samples s) + tally (unmerged snd) (dr_workers s) = dr_errors s \<and>
     tally snd (dr_statuses s) + tally untallied (dr_workers s) + tally in_call (dr_workers s) = measured a s"

definition drawn_ok :: "(flt \<Rightarrow> flt \<Rightarrow> flt) \<Rightarrow> driver_args \<Rightarrow> driver \<Rightarrow> bool" where
  "drawn_ok powf a s \<longleftrightarrow>
     drawn True (dr_drawn s) = List.rev [0..<measured a s] \<and>
     drawn False (dr_drawn s) = List.rev [0..<dr_warm_done s] \<and>
     warmed_before (da_warmup a) (dr_drawn s) \<and>
     (\<forall>(m, i, p)\<in>set (dr_drawn s). driver_prompt powf a m i = Some p)"

definition phase_ok :: "driver_args \<Rightarrow> driver \<Rightarrow> bool" where
  "phase_ok a s \<longleftrightarrow>
     (dr_measuring s \<longrightarrow> dr_main s \<noteq> MWarm) \<and>
     (dr_main s \<noteq> MWarm \<longrightarrow> da_warmup a \<le> dr_warm_done s) \<and>
     (dr_sched s = SClosed \<longrightarrow> dr_stop s) \<and>
     (0 < da_requests a \<and> dr_stop s \<longrightarrow> da_requests a \<le> dr_counter s) \<and>
     (dr_main s = MReport \<longrightarrow> list_all worker_finished (dr_workers s))"

definition worker_ok :: "driver_args \<Rightarrow> driver \<Rightarrow> worker \<Rightarrow> bool" where
  "worker_ok a s l \<longleftrightarrow>
     wk_at l \<noteq> WPanicked \<and> (wk_at l = WIndex True \<longrightarrow> dr_measuring s) \<and>
     (wk_at l \<in> {WMerge, WTally, WDone} \<and> 0 < da_requests a \<longrightarrow> da_requests a \<le> dr_counter s)"

definition driver_inv :: "(flt \<Rightarrow> flt \<Rightarrow> flt) \<Rightarrow> driver_args \<Rightarrow> driver \<Rightarrow> bool" where
  "driver_inv powf a s \<longleftrightarrow>
     length (dr_workers s) = da_concurrency a \<and> counts_ok a s \<and> drawn_ok powf a s \<and> phase_ok a s \<and>
     (\<forall>l\<in>set (dr_workers s). worker_ok a s l)"

lemma driver_inv_start: "driver_inv powf a (driver_start a)"
  by (auto simp: driver_inv_def counts_ok_def drawn_ok_def phase_ok_def worker_ok_def driver_start_def measured_def
      unmerged_def untallied_def in_call_def)

text \<open>A step of worker \<open>w\<close> keeps the counts when it keeps the worker's share of them.\<close>

lemma driver_counts_worker:
  assumes "counts_ok a s" and "w < length (dr_workers s)" and "dr_workers s' = (dr_workers s)[w := l']"
    and "length (dr_samples s') + unmerged (\<lambda>_. 1) l' + in_call l' + measured a s =
           length (dr_samples s) + unmerged (\<lambda>_. 1) (dr_workers s ! w) + in_call (dr_workers s ! w) + measured a s'"
    and "tally snd (dr_samples s') + unmerged snd l' + dr_errors s =
           tally snd (dr_samples s) + unmerged snd (dr_workers s ! w) + dr_errors s'"
    and "tally snd (dr_statuses s') + untallied l' + in_call l' + measured a s =
           tally snd (dr_statuses s) + untallied (dr_workers s ! w) + in_call (dr_workers s ! w) + measured a s'"
  shows "counts_ok a s'"
  using assms(1,4-6) tally_update [OF assms(2), of "unmerged (\<lambda>_. 1)" l'] tally_update [OF assms(2), of "unmerged snd" l']
    tally_update [OF assms(2), of in_call l'] tally_update [OF assms(2), of untallied l']
  unfolding counts_ok_def assms(3) by linarith

lemma driver_inv_worker:
  assumes inv: "driver_inv powf a s" and w: "w < length (dr_workers s)" "\<not> worker_finished (dr_workers s ! w)"
    and ws: "dr_workers s' = (dr_workers s)[w := l']" and ok: "counts_ok a s'" "drawn_ok powf a s'" "worker_ok a s' l'"
    and frame: "dr_main s' = dr_main s" "dr_measuring s' = dr_measuring s" "dr_stop s' = dr_stop s" "dr_sched s' = dr_sched s"
      "dr_counter s \<le> dr_counter s'" "dr_warm_done s \<le> dr_warm_done s'"
  shows "driver_inv powf a s'"
proof -
  have "dr_main s \<noteq> MReport" using inv w by (auto simp: driver_inv_def phase_ok_def list_all_iff)
  then have "phase_ok a s'" using inv frame by (auto simp: driver_inv_def phase_ok_def)
  moreover have "worker_ok a s' l" if "l \<in> set (dr_workers s')" for l
  proof -
    from that ws set_update_subset_insert [of "dr_workers s" w l'] consider "l = l'" | "l \<in> set (dr_workers s)" by auto
    then show ?thesis
    proof cases
      case 2
      with inv have "worker_ok a s l" by (simp add: driver_inv_def)
      then show ?thesis using frame unfolding worker_ok_def by auto
    qed (simp add: ok)
  qed
  ultimately show ?thesis using inv ok ws by (simp add: driver_inv_def)
qed

lemma drawn_ok_same:
  "drawn_ok powf a s \<Longrightarrow> dr_drawn s' = dr_drawn s \<Longrightarrow> measured a s' = measured a s \<Longrightarrow> dr_warm_done s' = dr_warm_done s \<Longrightarrow> drawn_ok powf a s'"
  by (simp add: drawn_ok_def)

lemma worker_sel [simp]:
  "dr_workers (set_worker w l s) = (dr_workers s)[w := l]" "dr_drawn (set_worker w l s) = dr_drawn s"
  "dr_counter (set_worker w l s) = dr_counter s" "dr_warm_done (set_worker w l s) = dr_warm_done s"
  "dr_errors (set_worker w l s) = dr_errors s" "dr_statuses (set_worker w l s) = dr_statuses s"
  "dr_samples (set_worker w l s) = dr_samples s" "dr_stop (set_worker w l s) = dr_stop s"
  "dr_measuring (set_worker w l s) = dr_measuring s" "dr_sched (set_worker w l s) = dr_sched s"
  "dr_main (set_worker w l s) = dr_main s"
  by (simp_all add: set_worker_def)

lemma measured_cong: "dr_counter s' = dr_counter s \<Longrightarrow> measured a s' = measured a s"
  by (simp add: measured_def)

lemma measured_set_worker [simp]: "measured a (set_worker w l s) = measured a s"
  by (simp add: measured_def)

lemmas worker_counts = unmerged_def untallied_def in_call_def

text \<open>Moves between places where nothing is pending do not touch the counts.\<close>

definition idle_at :: "worker_at \<Rightarrow> bool" where
  "idle_at pc \<longleftrightarrow> (case pc of WSend m i p \<Rightarrow> False | WCall m i \<Rightarrow> False | WTally \<Rightarrow> False | WDone \<Rightarrow> False | WPanicked \<Rightarrow> False | _ \<Rightarrow> True)"

lemma driver_inv_goto:
  assumes inv: "driver_inv powf a s" and w: "w < length (dr_workers s)"
    and at: "idle_at (wk_at (dr_workers s ! w))" "idle_at pc"
    and ok: "pc = WIndex True \<longrightarrow> dr_measuring s" "pc = WMerge \<and> 0 < da_requests a \<longrightarrow> da_requests a \<le> dr_counter s"
    and s': "s' = goto_worker w pc (s\<lparr>dr_sent := n, dr_ticket := b\<rparr>)"
  shows "driver_inv powf a s'"
proof -
  define l' where "l' = (dr_workers s ! w)\<lparr>wk_at := pc\<rparr>"
  have s'': "s' = set_worker w l' (s\<lparr>dr_sent := n, dr_ticket := b\<rparr>)" by (simp add: s' goto_worker_def l'_def)
  have ok': "counts_ok a s" "drawn_ok powf a s" using inv by (simp_all add: driver_inv_def)
  have share: "unmerged f l' = tally f (wk_local (dr_workers s ! w))" "unmerged f (dr_workers s ! w) = tally f (wk_local (dr_workers s ! w))"
    "untallied l' = untallied (dr_workers s ! w)" "in_call l' = 0" "in_call (dr_workers s ! w) = 0" for f
    using at by (auto simp: idle_at_def worker_counts l'_def split: worker_at.splits)
  have "\<not> worker_finished (dr_workers s ! w)" using at(1) by (auto simp: idle_at_def worker_finished_def)
  moreover have "counts_ok a s'"
    by (rule driver_counts_worker [OF ok'(1) w, where l' = l']) (simp_all add: s'' share measured_def)
  moreover have "worker_ok a s' l'"
    using at(2) ok by (auto simp: worker_ok_def s'' l'_def idle_at_def)
  ultimately show ?thesis
    by (intro driver_inv_worker [OF inv w, where l' = l'] drawn_ok_same [OF ok'(2)]) (simp_all add: s'' measured_def)
qed

lemma driver_inv_worker_step:
  assumes inv: "driver_inv powf a s" and w: "w < length (dr_workers s)"
    and total: "\<And>m i. driver_prompt powf a m i \<noteq> None" and st: "worker_step powf a w answer s = Some s'"
  shows "driver_inv powf a s'"
proof -
  define l where "l = dr_workers s ! w"
  have ok: "counts_ok a s" "drawn_ok powf a s" "phase_ok a s" "worker_ok a s l"
    using inv w by (simp_all add: driver_inv_def l_def)
  show ?thesis
  proof (cases "wk_at l")
    case (WIndex m)
    note at = this
    note unfin = WIndex [unfolded l_def]
    show ?thesis
    proof (cases "m \<and> 0 < da_requests a \<and> da_requests a \<le> dr_counter s")
      case True
      define l' where "l' = l\<lparr>wk_at := WMerge\<rparr>"
      have s': "s' = set_worker w l' (s\<lparr>dr_counter := dr_counter s + 1\<rparr>)"
        using st True at by (simp add: worker_step_def index_step_def goto_worker_def l_def l'_def)
      have m: "measured a s' = measured a s" using True by (simp add: s' measured_def)
      show ?thesis
        by (rule driver_inv_worker [OF inv w _ _ driver_counts_worker [OF ok(1) w] drawn_ok_same [OF ok(2)], where l' = l'])
          (use True at m ok(4) in \<open>auto simp: s' worker_finished_def worker_counts worker_ok_def l'_def simp flip: l_def\<close>)
    next
      case False
      define idx where "idx = (if m then dr_counter s else dr_warm_done s)"
      obtain p where p: "driver_prompt powf a m idx = Some p" using total by fastforce
      define l' where "l' = l\<lparr>wk_at := WSend m idx p\<rparr>"
      define s1 where "s1 = (if m then s\<lparr>dr_counter := dr_counter s + 1\<rparr> else s\<lparr>dr_warm_done := dr_warm_done s + 1\<rparr>)"
      have s': "s' = set_worker w l' (s1\<lparr>dr_drawn := (m, idx, p) # dr_drawn s\<rparr>)"
        using st False at p
        by (auto simp: worker_step_def index_step_def draw_step_def goto_worker_def l_def l'_def s1_def idx_def Let_def split: if_splits)
      have m: "measured a s' = (if m then Suc (dr_counter s) else measured a s)" "m \<Longrightarrow> measured a s = dr_counter s"
        using False by (auto simp: s' s1_def measured_def)
      have "m \<longrightarrow> dr_measuring s" using ok(4) at by (simp add: worker_ok_def)
      then have "m \<longrightarrow> da_warmup a \<le> dr_warm_done s" using ok(3) by (auto simp: phase_ok_def)
      then have "drawn_ok powf a s'"
        using ok(2) p m unfolding drawn_ok_def by (auto simp: s' s1_def idx_def)
      moreover have "counts_ok a s'"
        by (rule driver_counts_worker [OF ok(1) w, where l' = l'])
          (use at m in \<open>auto simp: s' s1_def worker_counts l'_def simp flip: l_def\<close>)
      ultimately show ?thesis
        by (intro driver_inv_worker [OF inv w, where l' = l'])
          (use at in \<open>auto simp: s' s1_def worker_finished_def worker_ok_def l'_def simp flip: l_def\<close>)
    qed
  next
    case (WSend m i p)
    define l' where "l' = l\<lparr>wk_at := WCall m i\<rparr>"
    have s': "s' = set_worker w l' (s\<lparr>dr_wire := (m, i, p) # dr_wire s\<rparr>)"
      using st WSend by (simp add: worker_step_def goto_worker_def l_def l'_def)
    show ?thesis
      by (rule driver_inv_worker [OF inv w _ _ driver_counts_worker [OF ok(1) w] drawn_ok_same [OF ok(2)], where l' = l'])
        (use WSend ok(4) in \<open>auto simp: s' worker_finished_def worker_counts worker_ok_def l'_def measured_def simp flip: l_def\<close>)
  next
    case (WCall m i)
    obtain good status dt where ans: "answer = (good, status, dt)" by (cases answer)
    define l' where "l' = (if m then \<lparr>wk_at = WTop, wk_local = wk_local l @ [(dt, if good then 0 else 1)],
        wk_status = tally_add status 1 (wk_status l)\<rparr> else l\<lparr>wk_at := WTop\<rparr>)"
    have s': "s' = set_worker w l' (s\<lparr>dr_errors := (if m \<and> \<not> good then dr_errors s + 1 else dr_errors s)\<rparr>)"
      using st WCall by (auto simp: worker_step_def answer_step_def goto_worker_def ans Let_def l_def l'_def)
    have share: "unmerged f l = tally f (wk_local l)" "untallied l = tally snd (wk_status l)" "in_call l = (if m then 1 else 0)"
      "unmerged f l' = tally f (wk_local l) + (if m then f (dt, if good then 0 else 1) else 0)"
      "untallied l' = tally snd (wk_status l) + (if m then 1 else 0)" "in_call l' = 0" "wk_at l' = WTop" for f
      using WCall by (cases m; simp add: worker_counts l'_def)+
    have "counts_ok a s'"
      by (rule driver_counts_worker [OF ok(1) w, where l' = l']) (simp_all add: s' share measured_def flip: l_def)
    moreover have "\<not> worker_finished (dr_workers s ! w)" using WCall by (simp add: worker_finished_def l_def)
    ultimately show ?thesis
      by (intro driver_inv_worker [OF inv w, where l' = l'] drawn_ok_same [OF ok(2)])
        (simp_all add: s' measured_def worker_ok_def share)
  next
    case WMerge
    define l' where "l' = l\<lparr>wk_at := WTally\<rparr>"
    have s': "s' = set_worker w l' (s\<lparr>dr_samples := dr_samples s @ wk_local l\<rparr>)"
      using st WMerge by (simp add: worker_step_def goto_worker_def l_def l'_def)
    show ?thesis
      by (rule driver_inv_worker [OF inv w _ _ driver_counts_worker [OF ok(1) w] drawn_ok_same [OF ok(2)], where l' = l'])
        (use WMerge ok(4) in \<open>auto simp: s' worker_finished_def worker_counts worker_ok_def l'_def measured_def simp flip: l_def\<close>)
  next
    case WTally
    define l' where "l' = l\<lparr>wk_at := WDone\<rparr>"
    have s': "s' = set_worker w l' (s\<lparr>dr_statuses := fold (\<lambda>(k, v). tally_add k v) (wk_status l) (dr_statuses s)\<rparr>)"
      using st WTally by (simp add: worker_step_def goto_worker_def l_def l'_def)
    show ?thesis
      by (rule driver_inv_worker [OF inv w _ _ driver_counts_worker [OF ok(1) w] drawn_ok_same [OF ok(2)], where l' = l'])
        (use WTally ok(4) in \<open>auto simp: s' worker_finished_def worker_counts worker_ok_def l'_def measured_def simp flip: l_def\<close>)
  next
    case WTop
    have "dr_stop s \<and> 0 < da_requests a \<longrightarrow> da_requests a \<le> dr_counter s" using ok(3) by (auto simp: phase_ok_def)
    with WTop st show ?thesis
      by (intro driver_inv_goto [OF inv w, where n = "dr_sent s" and b = "dr_ticket s"
            and pc = "if dr_stop s then WMerge else if da_open_loop a then WRecv else WLoad"])
        (auto simp: worker_step_def idle_at_def simp flip: l_def split: if_splits)
  next
    case WRecv
    have "dr_sched s = SClosed \<and> 0 < da_requests a \<longrightarrow> da_requests a \<le> dr_counter s" using ok(3) by (auto simp: phase_ok_def)
    with WRecv st show ?thesis
      by (intro driver_inv_goto [OF inv w, where n = "dr_sent s" and b = False and pc = "if dr_ticket s then WSent else WMerge"])
        (auto simp: worker_step_def idle_at_def goto_worker_def set_worker_def simp flip: l_def split: if_splits)
  next
    case WSent
    with st show ?thesis
      by (intro driver_inv_goto [OF inv w, where n = "dr_sent s + 1" and b = "dr_ticket s" and pc = WLoad])
        (auto simp: worker_step_def idle_at_def simp flip: l_def)
  next
    case WLoad
    with st show ?thesis
      by (intro driver_inv_goto [OF inv w, where n = "dr_sent s" and b = "dr_ticket s" and pc = "WIndex (dr_measuring s)"])
        (auto simp: worker_step_def idle_at_def simp flip: l_def)
  qed (use st in \<open>simp_all add: worker_step_def flip: l_def\<close>)
qed

text \<open>Steps of the other two tasks touch neither the workers nor the counts.\<close>

lemma driver_inv_other:
  assumes "driver_inv powf a s" and "phase_ok a s'" and "dr_workers s' = dr_workers s" and "dr_counter s' = dr_counter s"
    and "dr_samples s' = dr_samples s" and "dr_errors s' = dr_errors s" and "dr_statuses s' = dr_statuses s"
    and "dr_drawn s' = dr_drawn s" and "dr_warm_done s' = dr_warm_done s" and "dr_measuring s \<longrightarrow> dr_measuring s'"
  shows "driver_inv powf a s'"
proof -
  have "measured a s' = measured a s" using assms(4) by (rule measured_cong)
  moreover have "worker_ok a s' l" if "worker_ok a s l" for l
    using that assms(4,10) by (auto simp: worker_ok_def)
  ultimately show ?thesis using assms by (simp add: driver_inv_def counts_ok_def drawn_ok_def)
qed

lemma driver_inv_step:
  assumes inv: "driver_inv powf a s" and total: "\<And>m i. driver_prompt powf a m i \<noteq> None"
    and conc: "0 < da_concurrency a" and st: "driver_step powf a e s = Some s'"
  shows "driver_inv powf a s'"
proof (cases e)
  case (EvWorker w answer)
  with st driver_inv_worker_step [OF inv _ total] show ?thesis by (auto split: if_splits)
next
  case EvSched
  then have sched: "sched_step a s = Some s'" using st by simp
  have ph: "phase_ok a s" using inv by (simp add: driver_inv_def)
  show ?thesis
  proof (cases "dr_sched s")
    case SSend
    with sched have "s' = s\<lparr>dr_ticket := True, dr_sched := SHead\<rparr>" by (simp add: sched_step_def split: if_splits)
    with ph show ?thesis by (intro driver_inv_other [OF inv]) (auto simp: phase_ok_def)
  qed (use sched ph in \<open>auto simp: sched_step_def phase_ok_def intro!: driver_inv_other [OF inv] split: if_splits\<close>)
next
  case EvMain
  then have main: "main_step a s = Some s'" using st by simp
  have fin: "da_requests a \<le> dr_counter s" if "list_all worker_finished (dr_workers s)" "0 < da_requests a"
  proof -
    have "dr_workers s ! 0 \<in> set (dr_workers s)" using inv conc by (simp add: driver_inv_def)
    then show ?thesis using that inv by (auto simp: driver_inv_def worker_ok_def worker_finished_def list_all_iff)
  qed
  have ph: "phase_ok a s" using inv by (simp add: driver_inv_def)
  show ?thesis
  proof (cases "dr_main s")
    case MMeasure
    with main have "s' = s\<lparr>dr_stop := True, dr_main := MJoin\<rparr>" "0 < da_requests a \<longrightarrow> da_requests a \<le> dr_counter s"
      using fin by (auto simp: main_step_def split: if_splits)
    with ph MMeasure show ?thesis by (intro driver_inv_other [OF inv]) (auto simp: phase_ok_def)
  qed (use main ph in \<open>auto simp: main_step_def phase_ok_def intro!: driver_inv_other [OF inv] split: if_splits\<close>)
qed

lemma driver_reachable_inv:
  assumes "driver_reachable powf a s" and "\<And>m i. driver_prompt powf a m i \<noteq> None" and "0 < da_concurrency a"
  shows "driver_inv powf a s"
  using assms(1)
proof induction
  case start
  show ?case by (rule driver_inv_start)
next
  case (step s e s')
  from step.IH assms(2,3) step.hyps(2) show ?case by (rule driver_inv_step)
qed

section \<open>What was drawn was sent\<close>

text \<open>What was drawn was sent, or is in the hands of a worker about to send it.\<close>

definition holding :: "worker \<Rightarrow> (bool \<times> nat \<times> string) list" where
  "holding l = (case wk_at l of WSend m i p \<Rightarrow> [(m, i, p)] | _ \<Rightarrow> [])"

definition sent_ok :: "driver \<Rightarrow> bool" where
  "sent_ok s \<longleftrightarrow> mset (dr_drawn s) = mset (dr_wire s @ concat (List.map holding (dr_workers s)))"

lemma mset_concat_update:
  assumes "w < length ws"
  shows "mset (concat (List.map f (ws[w := l']))) + mset (f (ws ! w)) = mset (concat (List.map f ws)) + mset (f l')"
  using assms by (induction ws arbitrary: w) (auto simp: nth_Cons split: nat.split)

lemma sent_ok_worker:
  assumes "sent_ok s" and "w < length (dr_workers s)" and "dr_workers s' = (dr_workers s)[w := l']"
    and "mset (dr_drawn s') + mset (dr_wire s @ holding (dr_workers s ! w)) = mset (dr_drawn s) + mset (dr_wire s' @ holding l')"
  shows "sent_ok s'"
proof -
  let ?c = "mset (concat (List.map holding (dr_workers s)))" and ?c' = "mset (concat (List.map holding ((dr_workers s)[w := l'])))"
  have "mset (dr_drawn s') + mset (dr_wire s @ holding (dr_workers s ! w)) = mset (dr_wire s) + (mset (dr_wire s') + (?c + mset (holding l')))"
    using assms(1,4) by (simp add: sent_ok_def ac_simps)
  also have "?c + mset (holding l') = ?c' + mset (holding (dr_workers s ! w))"
    using mset_concat_update [OF assms(2), of holding l'] by simp
  finally have "mset (dr_drawn s') = mset (dr_wire s') + ?c'" by (simp add: ac_simps)
  then show ?thesis by (simp add: sent_ok_def assms(3))
qed

lemma sent_ok_worker_step:
  assumes "sent_ok s" and w: "w < length (dr_workers s)" and st: "worker_step powf a w answer s = Some s'"
  shows "sent_ok s'"
proof -
  have "dr_workers s' = (dr_workers s)[w := dr_workers s' ! w] \<and>
    mset (dr_drawn s') + mset (dr_wire s @ holding (dr_workers s ! w)) =
      mset (dr_drawn s) + mset (dr_wire s' @ holding (dr_workers s' ! w))"
    using st w
    by (cases "wk_at (dr_workers s ! w)")
      (auto simp: worker_step_def index_step_def draw_step_def answer_step_def goto_worker_def set_worker_def holding_def Let_def
        split: if_splits option.splits prod.splits)
  then show ?thesis using sent_ok_worker [OF assms(1) w] by blast
qed

lemma driver_reachable_sent: "driver_reachable powf a s \<Longrightarrow> sent_ok s"
proof (induction rule: driver_reachable.induct)
  case start
  show ?case by (simp add: sent_ok_def driver_start_def holding_def)
next
  case (step s e s')
  show ?case
  proof (cases e)
    case (EvWorker w answer)
    with step.hyps(2) sent_ok_worker_step [OF step.IH] show ?thesis by (auto split: if_splits)
  next
    case EvSched
    with step show ?thesis by (auto simp: sched_step_def sent_ok_def split: if_splits sched_at.splits)
  next
    case EvMain
    with step show ?thesis by (auto simp: main_step_def sent_ok_def split: if_splits main_at.splits)
  qed
qed

lemma all_sent:
  assumes "sent_ok s" and "list_all worker_finished (dr_workers s)"
  shows "mset (dr_wire s) = mset (dr_drawn s)"
proof -
  have "concat (List.map holding (dr_workers s)) = []"
    using assms(2) by (auto simp: list_all_iff worker_finished_def holding_def)
  then show ?thesis using assms(1) by (simp add: sent_ok_def)
qed

section \<open>What the measured requests are\<close>

lemma prompts_never_panic:
  assumes "length (da_corpus a) \<le> 2 ^ 53" and "da_dist a = ''hotset'' \<longrightarrow> length (da_corpus a) \<noteq> 1"
  shows "driver_prompt powf a m i \<noteq> None"
proof (cases "da_corpus a = []")
  case True
  then show ?thesis using make_prompt_form by (fastforce simp: driver_prompt_def)
next
  case False
  define n where "n = length (da_corpus a)"
  have n: "1 \<le> n" "n \<le> 2 ^ 53" using False assms(1) by (cases "da_corpus a"; simp add: n_def)+
  have "corpus_index powf (da_dist a) (of_nat i) n (of_nat (da_offset a)) < n"
    using corpus_index_in_range [OF n, of powf "da_dist a" "of_nat i" "of_nat (da_offset a)"] assms(2) n(1)
    by (auto simp: n_def split: if_splits)
  then have "corpus_choice powf (da_cache_mode a) (da_dist a) n (da_offset a) (da_keyspace a) (da_hit_ratio a) i < n"
    using n(1) by (simp add: corpus_choice_def)
  then show ?thesis using False by (simp add: driver_prompt_def n_def)
qed

lemma reported_counts:
  assumes "driver_reachable powf a s" and "dr_main s = MReport"
    and "0 < da_concurrency a" and "length (da_corpus a) \<le> 2 ^ 53"
    and "da_dist a = ''hotset'' \<longrightarrow> length (da_corpus a) \<noteq> 1"
  shows "length (dr_samples s) = (if da_requests a = 0 then dr_counter s else da_requests a) \<and>
    drawn True (dr_drawn s) = List.rev [0..<length (dr_samples s)] \<and> mset (dr_wire s) = mset (dr_drawn s) \<and>
    dr_errors s = tally snd (dr_samples s) \<and> tally snd (dr_statuses s) = length (dr_samples s)"
proof -
  have inv: "driver_inv powf a s" using driver_reachable_inv [OF assms(1) prompts_never_panic [OF assms(4,5)] assms(3)] .
  then have dn: "wk_at l = WDone" if "l \<in> set (dr_workers s)" for l
    using that assms(2) by (auto simp: driver_inv_def phase_ok_def worker_ok_def worker_finished_def list_all_iff)
  have zero: "tally f (dr_workers s) = 0" if "\<And>l. wk_at l = WDone \<Longrightarrow> f l = 0" for f
    using that dn by (auto simp: tally_def)
  have "tally (unmerged f) (dr_workers s) = 0" "tally untallied (dr_workers s) = 0" "tally in_call (dr_workers s) = 0" for f
    by (rule zero, simp add: worker_counts)+
  moreover have "dr_workers s ! 0 \<in> set (dr_workers s)" using inv assms(3) by (simp add: driver_inv_def)
  with inv dn have "0 < da_requests a \<longrightarrow> da_requests a \<le> dr_counter s" by (auto simp: driver_inv_def worker_ok_def)
  moreover have "list_all worker_finished (dr_workers s)" using inv assms(2) by (simp add: driver_inv_def phase_ok_def)
  then have "mset (dr_wire s) = mset (dr_drawn s)" by (rule all_sent [OF driver_reachable_sent [OF assms(1)]])
  ultimately show ?thesis using inv by (auto simp: driver_inv_def counts_ok_def drawn_ok_def measured_def min_def)
qed

text \<open>
  C22. Whatever the interleaving of workers, scheduler and main task: when the driver
  writes its report, every request of the measured phase that was drawn is in it exactly
  once. With a request count the measured indices are 0 to that count, drawn in this
  order, and what was drawn is what was sent, each request once; the samples, the errors
  and the status counts agree with each other.
\<close>

theorem measured_requests_are_accounted_for:
  assumes "driver_reachable powf a s" and "dr_main s = MReport"
    and "0 < da_concurrency a" and "length (da_corpus a) \<le> 2 ^ 53"
    and "da_dist a = ''hotset'' \<longrightarrow> length (da_corpus a) \<noteq> 1"
  shows "length (dr_samples s) = (if da_requests a = 0 then dr_counter s else da_requests a) \<and>
    drawn True (dr_drawn s) = List.rev [0..<length (dr_samples s)] \<and> mset (dr_wire s) = mset (dr_drawn s) \<and>
    dr_errors s = tally snd (dr_samples s) \<and> tally snd (dr_statuses s) = length (dr_samples s)"
  by (rule reported_counts [OF assms])

lemma phase_key_no_space: "CHR '' '' \<notin> set (phase_key m r i)"
  by (auto simp: phase_key_def show_nat_no [of "CHR '' ''"] digit_val_def)

lemma drawn_distinct:
  assumes "distinct (drawn True wire)" and "distinct (drawn False wire)"
  shows "distinct (List.map (\<lambda>e. (fst e, fst (snd e))) wire)"
  using assms
proof (induction wire)
  case (Cons e wire)
  obtain m i p where e: "e = (m, i, p)" by (cases e)
  have "i \<notin> set (drawn m wire)" using Cons.prems by (cases m) (simp_all add: e)
  then have "(m, i) \<notin> set (List.map (\<lambda>e. (fst e, fst (snd e))) wire)" by (auto simp: drawn_mem)
  moreover have "distinct (drawn True wire)" "distinct (drawn False wire)"
    using Cons.prems by (cases m; simp add: e)+
  ultimately show ?case using Cons.IH by (simp add: e)
qed simp

text \<open>
  C33. Without a corpus, the texts of a miss run are pairwise different, warm-up and
  measured phase included, so no measured request repeats an earlier one.
\<close>

theorem synthetic_misses_never_repeat:
  assumes "driver_reachable powf a s" and "0 < da_concurrency a" and "da_corpus a = []" and "da_cache_mode a = ''miss''"
  shows "distinct (List.map (\<lambda>e. snd (snd e)) (dr_wire s))"
proof -
  have "driver_inv powf a s"
    by (rule driver_reachable_inv [OF assms(1) prompts_never_panic assms(2)]) (simp_all add: assms(3))
  then have w: "drawn_ok powf a s" by (simp add: driver_inv_def)
  have prompt: "\<exists>r. p = phase_key m (da_run_id a) i @ CHR '' '' # r \<and> driver_prompt powf a m i = Some p"
    if "(m, i, p) \<in> set (dr_drawn s)" for m i p
  proof -
    have "driver_prompt powf a m i = Some p" using w that by (auto simp: drawn_ok_def)
    moreover from this have "make_prompt (phase_key m (da_run_id a) i) (da_context_bytes a) = Some p"
      by (simp add: driver_prompt_def assms(3,4) context_for_mix_def)
    ultimately show ?thesis using make_prompt_form [of "phase_key m (da_run_id a) i" "da_context_bytes a"] by auto
  qed
  have d: "distinct (List.map (\<lambda>e. (fst e, fst (snd e))) (dr_drawn s))"
    by (rule drawn_distinct) (use w in \<open>simp_all add: drawn_ok_def\<close>)
  have "inj_on (\<lambda>e. snd (snd e)) (set (dr_drawn s))"
  proof (rule inj_onI)
    fix e e' assume e: "e \<in> set (dr_drawn s)" "e' \<in> set (dr_drawn s)" "snd (snd e) = snd (snd e')"
    obtain m i p m' j where eq: "e = (m, i, p)" "e' = (m', j, p)" using e(3) by (cases e; cases e') auto
    obtain r r' where "p = phase_key m (da_run_id a) i @ CHR '' '' # r" "p = phase_key m' (da_run_id a) j @ CHR '' '' # r'"
      using prompt [OF e(1) [unfolded eq]] prompt [OF e(2) [unfolded eq]] by blast
    then have "phase_key m (da_run_id a) i @ CHR '' '' # r = phase_key m' (da_run_id a) j @ CHR '' '' # r'" by simp
    from split_at_separator [OF this phase_key_no_space phase_key_no_space]
    have "phase_key m (da_run_id a) i = phase_key m' (da_run_id a) j" by blast
    then show "e = e'" by (simp add: eq phase_key_inject)
  qed
  with d have "distinct (List.map (\<lambda>e. snd (snd e)) (dr_drawn s))" by (simp add: distinct_map)
  moreover have "mset (List.map (\<lambda>e. snd (snd e)) (dr_drawn s)) =
      mset (List.map (\<lambda>e. snd (snd e)) (dr_wire s @ concat (List.map holding (dr_workers s))))"
    using driver_reachable_sent [OF assms(1)] unfolding sent_ok_def mset_map by simp
  ultimately have "distinct (List.map (\<lambda>e. snd (snd e)) (dr_wire s @ concat (List.map holding (dr_workers s))))"
    using mset_eq_imp_distinct_iff by blast
  then show ?thesis by simp
qed

lemma warmed_before_split:
  "warmed_before n (later @ (True, i, p) # earlier) \<Longrightarrow> i < n \<Longrightarrow> i \<in> set (drawn False earlier)"
  by (induction later) auto

text \<open>
  C35. A run with a corpus repeats its warm-up, whatever the cache mode, the sampling and
  the salt: warm-up and measured phase count from zero over the same texts, so a measured
  request with an index below the warm-up has, byte for byte, the text of a warm-up
  request whose index was drawn before its own. When it is sent, that warm-up request has
  been sent or is in the hands of a worker that is about to send it, and when the report
  is written the target has seen both.
\<close>

theorem corpus_runs_repeat_the_warm_up:
  assumes "driver_reachable powf a s" and "0 < da_concurrency a" and "da_corpus a \<noteq> []"
    and "length (da_corpus a) \<le> 2 ^ 53" and "da_dist a = ''hotset'' \<longrightarrow> length (da_corpus a) \<noteq> 1"
    and "(True, i, p) \<in> set (dr_wire s)" and "i < da_warmup a"
  shows "(\<exists>later earlier. dr_drawn s = later @ (True, i, p) # earlier \<and> (False, i, p) \<in> set earlier) \<and>
    ((False, i, p) \<in> set (dr_wire s) \<or> (\<exists>l\<in>set (dr_workers s). wk_at l = WSend False i p)) \<and>
    (dr_main s = MReport \<longrightarrow> (False, i, p) \<in> set (dr_wire s))"
proof -
  have inv: "driver_inv powf a s" using driver_reachable_inv [OF assms(1) prompts_never_panic [OF assms(4,5)] assms(2)] .
  then have w: "drawn_ok powf a s" by (simp add: driver_inv_def)
  have sent: "set (dr_drawn s) = set (dr_wire s @ concat (List.map holding (dr_workers s)))"
    using driver_reachable_sent [OF assms(1)] unfolding sent_ok_def by (rule mset_eq_setD)
  then have "(True, i, p) \<in> set (dr_drawn s)" using assms(6) by simp
  then obtain later earlier where d: "dr_drawn s = later @ (True, i, p) # earlier" by (meson split_list)
  have "warmed_before (da_warmup a) (later @ (True, i, p) # earlier)" using w unfolding d [symmetric] by (simp add: drawn_ok_def)
  then have "i \<in> set (drawn False earlier)" using warmed_before_split assms(7) by blast
  then obtain q where q: "(False, i, q) \<in> set earlier" by (auto simp: drawn_mem)
  then have "driver_prompt powf a False i = Some q" "driver_prompt powf a True i = Some p"
    using w bspec [of "set (dr_drawn s)" _ "(False, i, q)"] unfolding d drawn_ok_def by (fastforce simp: d)+
  then have early: "(False, i, p) \<in> set earlier" using assms(3) q by (simp add: driver_prompt_def)
  then have "(False, i, p) \<in> set (dr_drawn s)" by (simp add: d)
  then have held: "(False, i, p) \<in> set (dr_wire s) \<or> (\<exists>l\<in>set (dr_workers s). wk_at l = WSend False i p)"
    unfolding sent by (auto simp: holding_def split: worker_at.splits)
  have "wk_at l \<noteq> WSend False i p" if "dr_main s = MReport" "l \<in> set (dr_workers s)" for l
    using inv that by (auto simp: driver_inv_def phase_ok_def list_all_iff worker_finished_def)
  with d early held show ?thesis by blast
qed

section \<open>Losing every worker\<close>

text \<open>
  The loop of the warm-up does not look at the workers, unlike the loop of the measured
  phase: when all of them have ended, in a panic for instance, the driver waits forever.
\<close>

lemma warm_up_waits_for_dead_workers:
  assumes "dr_main s = MWarm" and "dr_warm_done s < da_warmup a" and "list_all worker_finished (dr_workers s)"
    and "driver_run powf a es s = Some s'"
  shows "dr_main s' = MWarm"
  using assms
proof (induction es arbitrary: s)
  case (Cons e es)
  then obtain s1 where s1: "driver_step powf a e s = Some s1" "driver_run powf a es s1 = Some s'"
    by (auto simp: bind_eq_Some_conv)
  have "dr_main s1 = MWarm \<and> dr_warm_done s1 = dr_warm_done s \<and> dr_workers s1 = dr_workers s"
  proof (cases e)
    case (EvWorker w answer)
    then have "worker_finished (dr_workers s ! w)" "worker_step powf a w answer s = Some s1"
      using s1(1) Cons.prems(3) by (auto simp: list_all_iff split: if_splits)
    then show ?thesis by (auto simp: worker_finished_def worker_step_def)
  next
    case EvSched
    with s1(1) Cons.prems(1) show ?thesis by (auto simp: sched_step_def split: sched_at.splits if_splits)
  qed (use s1(1) Cons.prems in \<open>simp add: main_step_def\<close>)
  with Cons.IH [of s1] s1(2) Cons.prems show ?case by simp
qed simp

section \<open>A run\<close>

definition demo_driver :: "string list \<Rightarrow> driver_args" where
  "demo_driver corpus =
     \<lparr>da_concurrency = 1, da_requests = 1, da_warmup = 1, da_context_bytes = 0, da_cache_mode = ''miss'', da_hit_ratio = Fin 0,
      da_keyspace = 1, da_run_id = 7, da_salt = ''s'', da_offset = 0, da_dist = ''unique'', da_open_loop = False, da_corpus = corpus\<rparr>"

text \<open>One worker: a warm-up request, then the measured one, then the end of the run.\<close>

definition demo_run :: "bool \<Rightarrow> driver_event list" where
  "demo_run ok = (let t = EvWorker 0 (ok, ''a'', 5)
     in [t, t, t, t, t, EvMain, EvMain, EvMain, EvMain, t, t, t, t, t, EvMain, t, t, t, EvMain])"

lemmas driver_steps = driver_start_def worker_step_def index_step_def draw_step_def answer_step_def goto_worker_def set_worker_def
  main_step_def worker_finished_def

lemma demo_driver_run:
  assumes "driver_prompt powf (demo_driver corpus) False 0 = Some p" and "driver_prompt powf (demo_driver corpus) True 0 = Some q"
  obtains s where "driver_run powf (demo_driver corpus) (demo_run ok) (driver_start (demo_driver corpus)) = Some s"
    "dr_main s = MReport" "dr_samples s = [(5, if ok then 0 else 1)]" "dr_wire s = [(True, 0, q), (False, 0, p)]"
proof -
  have a: "da_concurrency (demo_driver corpus) = 1" "da_requests (demo_driver corpus) = 1" "da_warmup (demo_driver corpus) = 1"
    "da_open_loop (demo_driver corpus) = False" by (simp_all add: demo_driver_def)
  show ?thesis using that assms by (cases ok) (simp_all add: demo_run_def Let_def driver_steps a)
qed

theorem measured_requests_are_accounted_for_witness:
  "\<exists>s. driver_run (\<lambda>x _. x) (demo_driver []) (demo_run True) (driver_start (demo_driver [])) = Some s \<and>
     length (dr_samples s) = 1 \<and> drawn True (dr_drawn s) = [0] \<and> length (dr_wire s) = 2 \<and> tally snd (dr_statuses s) = 1"
proof -
  obtain p q where "driver_prompt (\<lambda>x _. x) (demo_driver []) False 0 = Some p" "driver_prompt (\<lambda>x _. x) (demo_driver []) True 0 = Some q"
    using prompts_never_panic [of "demo_driver []" "\<lambda>x _. x"] by (fastforce simp: demo_driver_def)
  then obtain s where s: "driver_run (\<lambda>x _. x) (demo_driver []) (demo_run True) (driver_start (demo_driver [])) = Some s"
    "dr_main s = MReport" "dr_wire s = [(True, 0, q), (False, 0, p)]" by (rule demo_driver_run)
  from measured_requests_are_accounted_for [OF driver_run_reachable [OF driver_reachable.start s(1)] s(2)]
  have "length (dr_samples s) = 1 \<and> drawn True (dr_drawn s) = [0] \<and> length (dr_wire s) = 2 \<and> tally snd (dr_statuses s) = 1"
    by (simp add: demo_driver_def s(3))
  with s(1) show ?thesis by blast
qed

theorem synthetic_misses_never_repeat_witness:
  "\<exists>s p q. driver_run (\<lambda>x _. x) (demo_driver []) (demo_run True) (driver_start (demo_driver [])) = Some s \<and>
     dr_wire s = [(True, 0, q), (False, 0, p)] \<and> p \<noteq> q"
proof -
  obtain p q where "driver_prompt (\<lambda>x _. x) (demo_driver []) False 0 = Some p" "driver_prompt (\<lambda>x _. x) (demo_driver []) True 0 = Some q"
    using prompts_never_panic [of "demo_driver []" "\<lambda>x _. x"] by (fastforce simp: demo_driver_def)
  then obtain s where s: "driver_run (\<lambda>x _. x) (demo_driver []) (demo_run True) (driver_start (demo_driver [])) = Some s"
    "dr_wire s = [(True, 0, q), (False, 0, p)]" by (rule demo_driver_run)
  from synthetic_misses_never_repeat [OF driver_run_reachable [OF driver_reachable.start s(1)]] s(2)
  have "p \<noteq> q" by (auto simp: demo_driver_def)
  with s show ?thesis by blast
qed

theorem corpus_runs_repeat_the_warm_up_witness:
  "\<exists>s p. driver_run (\<lambda>x _. x) (demo_driver [''u'', ''v'']) (demo_run True) (driver_start (demo_driver [''u'', ''v''])) = Some s \<and>
     dr_wire s = [(True, 0, p), (False, 0, p)]"
proof -
  obtain p q where "driver_prompt (\<lambda>x _. x) (demo_driver [''u'', ''v'']) False 0 = Some p"
      "driver_prompt (\<lambda>x _. x) (demo_driver [''u'', ''v'']) True 0 = Some q"
    using prompts_never_panic [of "demo_driver [''u'', ''v'']" "\<lambda>x _. x"] by (fastforce simp: demo_driver_def)
  then obtain s where s: "driver_run (\<lambda>x _. x) (demo_driver [''u'', ''v'']) (demo_run True) (driver_start (demo_driver [''u'', ''v''])) = Some s"
    "dr_main s = MReport" "dr_wire s = [(True, 0, q), (False, 0, p)]" by (rule demo_driver_run)
  from corpus_runs_repeat_the_warm_up [OF driver_run_reachable [OF driver_reachable.start s(1)] _ _ _ _ , of 0 q] s(2,3)
  have "q = p" by (auto simp: demo_driver_def)
  with s show ?thesis by auto
qed

text \<open>
  Nothing orders the sends themselves: a worker that is held up after drawing the last
  warm-up index is overtaken by the measured request that repeats its text.
\<close>

lemma measured_request_overtakes:
  assumes "driver_prompt powf (a\<lparr>da_concurrency := 2\<rparr>) False 0 = Some p" "driver_prompt powf (a\<lparr>da_concurrency := 2\<rparr>) True 0 = Some q"
    and "a = demo_driver corpus"
  shows "\<exists>s. driver_run powf (a\<lparr>da_concurrency := 2\<rparr>)
      (replicate 3 (EvWorker 0 x) @ replicate 4 EvMain @ replicate 4 (EvWorker 1 x) @ [EvWorker 0 x])
      (driver_start (a\<lparr>da_concurrency := 2\<rparr>)) = Some s \<and>
    dr_drawn s = [(True, 0, q), (False, 0, p)] \<and> dr_wire s = [(False, 0, p), (True, 0, q)]"
proof -
  have a: "da_requests a = 1" "da_warmup a = 1" "da_open_loop a = False" by (simp_all add: assms(3) demo_driver_def)
  show ?thesis using assms(1,2) by (simp add: driver_steps a eval_nat_numeral)
qed

end
