(* ===== verification/DriverReport.thy ===== *)
theory DriverReport
  imports DriverRun EmbeddingLoad
begin

text \<open>
  The rest of the load driver \<open>src/bench/driver/src/main.rs\<close>: reading a corpus, what
  counts as a success over HTTP, the report of a run, the premises it checks of itself and
  the raw samples. JSON is the parameter \<open>json_ops\<close>, with \<open>Value::as_f64\<close> as \<open>jf\<close>; the
  report keeps the computed fields, not the copies of the arguments, and a premise note is a
  constructor with the numbers its text prints.
\<close>

section \<open>The corpus\<close>

text \<open>\<open>lines\<close> is what \<open>str::lines\<close> gives of the file, or nothing if it cannot be read.\<close>

definition load_corpus :: "'j json_ops \<Rightarrow> string list \<Rightarrow> string list" where
  "load_corpus js lines = List.map_filter (\<lambda>v. Option.bind (js_get js v ''text'') (js_str js)) (List.map_filter (parsed js) lines)"

section \<open>Successes over HTTP\<close>

text \<open>A reply with its status code and body, or the text of a transport error.\<close>

datatype http_outcome = HttpReply nat string | HttpError string

definition is_success :: "nat \<Rightarrow> bool" where
  "is_success code \<longleftrightarrow> 200 \<le> code \<and> code < 300"

text \<open>The classify mode: the reply is to be a list of labels whose scores sum to about one.\<close>

definition classify_verdict :: "'j json_ops \<Rightarrow> ('j \<Rightarrow> flt option) \<Rightarrow> http_outcome \<Rightarrow> bool \<times> string" where
  "classify_verdict js jf out =
     (case out of
        HttpError e \<Rightarrow> (False, ''TRANSPORT_'' @ e)
      | HttpReply code body \<Rightarrow>
          if \<not> is_success code then (False, ''HTTP_'' @ show_nat code)
          else (case Option.bind (parsed js body) (js_array js) of
                  Some (v # vs) \<Rightarrow>
                    (let total = fsum round64 (List.map_filter (\<lambda>x. Option.bind (js_get js x ''score'') jf) (v # vs))
                     in if flt_lt (f64_literal 0.01) (fabs (fsub round64 total (Fin 1))) then (False, ''SCORES_NOT_NORMALISED'')
                        else (True, case Option.bind (js_get js v ''label'') (js_str js) of None \<Rightarrow> ''?'' | Some l \<Rightarrow> l))
                | _ \<Rightarrow> (False, ''BAD_CLASSIFY_BODY'')))"

text \<open>The gateway mode: a completion with at least one choice.\<close>

definition chat_verdict :: "'j json_ops \<Rightarrow> http_outcome \<Rightarrow> bool \<times> string" where
  "chat_verdict js out =
     (case out of
        HttpError e \<Rightarrow> (False, ''TRANSPORT_'' @ e)
      | HttpReply code body \<Rightarrow>
          if \<not> is_success code then (False, ''HTTP_'' @ show_nat code)
          else (case Option.bind (Option.bind (parsed js body) (\<lambda>v. js_get js v ''choices'')) (js_array js) of
                  Some (c # cs) \<Rightarrow> (True, ''HTTP_200'')
                | _ \<Rightarrow> (False, ''HTTP_200_EMPTY_CHOICES'')))"

section \<open>The report\<close>

record driver_report =
  rr_measured :: nat
  rr_wall :: flt
  rr_throughput_rps :: flt
  rr_throughput_rpm :: flt
  rr_load_mode :: string
  rr_scheduled :: nat
  rr_sent :: nat
  rr_actual_offer_rps :: flt
  rr_offer_attainment :: flt
  rr_completed_rps :: flt
  rr_rejected_rps :: flt
  rr_rate_attainment :: flt
  rr_corpus_count :: nat
  rr_implied_mean_ms :: flt
  rr_errors :: nat
  rr_error_rate_pct :: flt
  rr_status_counts :: "(string \<times> nat) list"
  rr_latency :: stats

text \<open>\<open>rate\<close> and \<open>arrival\<close> are the arguments of the open loop, \<open>wall\<close> the measured seconds.\<close>

definition build_report :: "(flt \<Rightarrow> flt) \<Rightarrow> driver_args \<Rightarrow> flt \<Rightarrow> string \<Rightarrow> flt \<Rightarrow> driver \<Rightarrow> driver_report" where
  "build_report square a rate arrival wall s =
     (let n = length (dr_samples s); errs = dr_errors s; ok_count = n - errs;
          secs = fmax wall (f64_literal (1 / 10 ^ 9));
          rps = fdiv round64 (nat_as_f64 ok_count) secs;
          offer = fdiv round64 (nat_as_f64 (dr_scheduled s)) secs
      in \<lparr>rr_measured = n, rr_wall = wall, rr_throughput_rps = rps, rr_throughput_rpm = fmul round64 rps (Fin 60),
          rr_load_mode = (if da_open_loop a then ''open-loop-'' @ arrival else ''closed-loop''),
          rr_scheduled = dr_scheduled s, rr_sent = dr_sent s, rr_actual_offer_rps = offer,
          rr_offer_attainment = (if da_open_loop a \<and> flt_lt (Fin 0) rate then fdiv round64 offer rate else Fin 1),
          rr_completed_rps = rps, rr_rejected_rps = fdiv round64 (nat_as_f64 errs) secs,
          rr_rate_attainment = (if da_open_loop a \<and> flt_lt (Fin 0) rate then fdiv round64 rps rate else Fin 1),
          rr_corpus_count = length (da_corpus a),
          rr_implied_mean_ms =
            (if flt_lt (Fin 0) rps then fmul round64 (fdiv round64 (nat_as_f64 (da_concurrency a)) rps) (Fin 1000) else Fin 0),
          rr_errors = errs,
          rr_error_rate_pct = (if 0 < n then fmul round64 (fdiv round64 (nat_as_f64 errs) (nat_as_f64 n)) (Fin 100) else Fin 0),
          rr_status_counts = dr_statuses s, rr_latency = from_nanos square (List.map fst (dr_samples s))\<rparr>)"

section \<open>Premises\<close>

datatype premise_note =
    OfferOutside flt flt flt
  | TargetRejected flt flt
  | GeneratorTooSlow flt flt flt
  | LittleDivergence flt flt flt
  | CorpusWrapped nat nat flt
  | TooFewRequests nat

definition in_band :: "real \<Rightarrow> real \<Rightarrow> flt \<Rightarrow> bool" where
  "in_band lo hi x \<longleftrightarrow> flt_le (f64_literal lo) x \<and> flt_le x (f64_literal hi)"

definition attainment_notes :: "driver_args \<Rightarrow> flt \<Rightarrow> driver_report \<Rightarrow> premise_note list" where
  "attainment_notes a rate r =
     (if da_open_loop a \<and> \<not> in_band 0.98 1.02 (rr_offer_attainment r)
      then [OfferOutside (rr_offer_attainment r) (rr_actual_offer_rps r) rate] else []) @
     (if da_open_loop a \<and> flt_lt (rr_rate_attainment r) (f64_literal 0.98)
      then (if flt_lt (Fin 5) (rr_error_rate_pct r)
            then [TargetRejected (rr_rate_attainment r) (rr_error_rate_pct r)]
            else [GeneratorTooSlow (rr_rate_attainment r) (rr_error_rate_pct r) rate])
      else [])"

definition little_notes :: "driver_args \<Rightarrow> driver_report \<Rightarrow> premise_note list" where
  "little_notes a r =
     (let m = st_mean (rr_latency r)
      in if \<not> da_open_loop a \<and> flt_lt (Fin 0) m
         then (let ratio = fdiv round64 (rr_implied_mean_ms r) m
               in if in_band 0.7 1.4 ratio then [] else [LittleDivergence (rr_implied_mean_ms r) m ratio])
         else [])"

definition size_notes :: "driver_args \<Rightarrow> driver_report \<Rightarrow> premise_note list" where
  "size_notes a r =
     (let n = length (da_corpus a)
      in (if da_dist a = ''unique'' \<and> da_corpus a \<noteq> [] \<and> n < rr_measured r
          then [CorpusWrapped (rr_measured r) n (fdiv round64 (nat_as_f64 (rr_measured r)) (nat_as_f64 n))] else []) @
         (if rr_measured r < 200 then [TooFewRequests (rr_measured r)] else []))"

definition premise_notes :: "driver_args \<Rightarrow> flt \<Rightarrow> driver_report \<Rightarrow> premise_note list" where
  "premise_notes a rate r = attainment_notes a rate r @ little_notes a r @ size_notes a r"

definition premises_passed :: "driver_args \<Rightarrow> flt \<Rightarrow> driver_report \<Rightarrow> bool" where
  "premises_passed a rate r \<longleftrightarrow> premise_notes a rate r = []"

text \<open>The raw samples, one line each.\<close>

definition raw_lines :: "driver \<Rightarrow> string list" where
  "raw_lines s = ''latency_ns,err'' # List.map (\<lambda>(d, e). show_nat d @ '','' @ show_nat e) (dr_samples s)"

section \<open>Verdicts\<close>

text \<open>
  A request counts as a success only if the reply is a success and its body says so: over
  HTTP a completion with a choice, or labels whose scores sum to one within a hundredth.
\<close>

theorem http_success_needs_a_good_body:
  "(fst (chat_verdict js out) \<longrightarrow> (\<exists>code body v cs. out = HttpReply code body \<and> is_success code \<and> js_parse js body = Inr v \<and>
      Option.bind (js_get js v ''choices'') (js_array js) = Some cs \<and> cs \<noteq> [])) \<and>
   (fst (classify_verdict js jf out) \<longrightarrow> (\<exists>code body v vs. out = HttpReply code body \<and> is_success code \<and> js_parse js body = Inr v \<and>
      js_array js v = Some vs \<and> vs \<noteq> [] \<and>
      \<not> flt_lt (f64_literal 0.01) (fabs (fsub round64 (fsum round64 (List.map_filter (\<lambda>x. Option.bind (js_get js x ''score'') jf) vs)) (Fin 1)))))"
  by (cases out)
    (auto simp: chat_verdict_def classify_verdict_def parsed_def Let_def bind_eq_Some_conv
      split: sum.splits option.splits list.splits if_splits)

section \<open>A run that failed never passes\<close>

lemma from_nanos_mean_nil: "from_nanos square [] = stats_default"
  by (simp add: from_nanos_def)

lemma round64_const_le:
  assumes "x \<le> y" and "round64 y = Fin y"
  shows "flt_le (round64 x) (Fin y)"
  using f64.rnd_mono [OF assms(1)] assms(2) by simp

lemma f64_literal_pos:
  assumes "1 / 2 ^ k \<le> x" and "k \<le> 52" and "x \<le> 2"
  shows "\<exists>q. f64_literal x = Fin q \<and> 0 < q"
proof -
  have "round64 (1 / 2 ^ k) = Fin (1 / 2 ^ k)" using round64_dyadic [of 1 k] assms(2) by simp
  then have "flt_le (Fin (1 / 2 ^ k)) (f64_literal x)"
    using f64.rnd_mono [OF assms(1)] by (simp add: f64_literal_def)
  moreover have "flt_le (f64_literal x) (Fin 2)"
    using f64.rnd_nat [of 2] f64.rnd_mono [OF assms(3)] by (simp add: f64_literal_def)
  ultimately obtain q where "f64_literal x = Fin q" "1 / 2 ^ k \<le> q"
    using flt_le_betweenD by blast
  moreover have "(0 :: real) < 1 / 2 ^ k" by simp
  ultimately show ?thesis using less_le_trans by blast
qed

lemma fdiv_zero: "flt_lt (Fin 0) y \<Longrightarrow> fdiv round64 (Fin 0) y = Fin 0"
  by (cases y) (auto simp: flt_lt_def)

lemma seconds_positive: "flt_lt (Fin 0) (fmax wall (f64_literal (1 / 10 ^ 9)))"
proof -
  obtain q where "f64_literal (1 / 10 ^ 9) = Fin q" "0 < q"
    using f64_literal_pos [of 30 "1 / 10 ^ 9"] by auto
  then show ?thesis by (cases wall) (auto simp: flt_lt_def)
qed

lemma below_literal: "1 / 2 ^ k \<le> x \<Longrightarrow> k \<le> 52 \<Longrightarrow> x \<le> 2 \<Longrightarrow> flt_lt (Fin 0) (f64_literal x)"
  using f64_literal_pos [of k x] by auto

text \<open>
  C36. A run in which every request failed never passes its own premises, in the closed
  loop (if its requests took any time) and in the open loop.
\<close>

theorem failed_runs_never_pass:
  assumes "driver_reachable powf a s" and "dr_main s = MReport" and "0 < da_concurrency a"
    and "length (da_corpus a) \<le> 2 ^ 53" and "da_dist a = ''hotset'' \<longrightarrow> length (da_corpus a) \<noteq> 1"
    and "list_all (\<lambda>(d, e). e = 1) (dr_samples s)"
    and "if da_open_loop a then flt_lt (Fin 0) rate else flt_lt (Fin 0) (st_mean (from_nanos square (List.map fst (dr_samples s))))"
  shows "\<not> premises_passed a rate (build_report square a rate arrival wall s)"
proof -
  have "list_all (\<lambda>(d, e). e = 1) xs \<Longrightarrow> tally snd xs = length xs" for xs :: "(nat \<times> nat) list"
    by (induction xs) auto
  with assms(6) have errs: "dr_errors s = length (dr_samples s)" using reported_counts [OF assms(1-5)] by simp
  define r where "r = build_report square a rate arrival wall s"
  have rps: "rr_throughput_rps r = Fin 0" "rr_completed_rps r = Fin 0"
    using fdiv_zero [OF seconds_positive] by (simp_all add: r_def build_report_def Let_def errs nat_as_f64_def)
  show ?thesis
  proof (cases "da_open_loop a")
    case True
    with assms(7) have "rr_rate_attainment r = Fin 0"
      using rps by (simp add: r_def build_report_def Let_def fdiv_zero)
    moreover have "flt_lt (Fin 0) (f64_literal 0.98)" by (rule below_literal [of 1]) simp_all
    ultimately have "attainment_notes a rate r \<noteq> []" using True by (simp add: attainment_notes_def)
    then show ?thesis by (simp add: premises_passed_def premise_notes_def flip: r_def)
  next
    case False
    with assms(7) have m: "flt_lt (Fin 0) (st_mean (rr_latency r))" by (simp add: r_def build_report_def Let_def)
    have "rr_implied_mean_ms r = Fin 0" using rps by (simp add: r_def build_report_def Let_def)
    with m have ratio: "fdiv round64 (rr_implied_mean_ms r) (st_mean (rr_latency r)) = Fin 0" by (simp add: fdiv_zero)
    have "flt_lt (Fin 0) (f64_literal 0.7)" by (rule below_literal [of 1]) simp_all
    then have "\<not> in_band 0.7 1.4 (Fin 0)" by (cases "f64_literal 0.7") (simp_all add: in_band_def flt_lt_def flt_le_def)
    with ratio m False have "little_notes a r \<noteq> []" by (simp add: little_notes_def Let_def)
    then show ?thesis by (simp add: premises_passed_def premise_notes_def flip: r_def)
  qed
qed

lemma demo_mean: "flt_lt (Fin 0) (st_mean (from_nanos square [5]))"
proof -
  have "round64 5 = Fin 5" "round64 1 = Fin 1" using f64.rnd_nat [of 5] by simp_all
  moreover have "flt_lt (Fin 0) (f64_literal (5 / 1000000))" by (rule below_literal [of 20]) simp_all
  ultimately show ?thesis by (simp add: from_nanos_def nat_as_f64_def fsum_def f64_literal_def Let_def)
qed

theorem failed_runs_never_pass_witness:
  "\<exists>s. driver_run (\<lambda>x _. x) (demo_driver []) (demo_run False) (driver_start (demo_driver [])) = Some s \<and>
     \<not> premises_passed (demo_driver []) (Fin 0) (build_report (\<lambda>x. x) (demo_driver []) (Fin 0) [] (Fin 1) s)"
proof -
  obtain p q where "driver_prompt (\<lambda>x _. x) (demo_driver []) False 0 = Some p" "driver_prompt (\<lambda>x _. x) (demo_driver []) True 0 = Some q"
    using prompts_never_panic [of "demo_driver []" "\<lambda>x _. x"] by (fastforce simp: demo_driver_def)
  then obtain s where s: "driver_run (\<lambda>x _. x) (demo_driver []) (demo_run False) (driver_start (demo_driver [])) = Some s"
    "dr_main s = MReport" "dr_samples s = [(5, if False then 0 else 1)]" by (rule demo_driver_run)
  from failed_runs_never_pass [OF driver_run_reachable [OF driver_reachable.start s(1)] s(2), of "Fin 0" "\<lambda>x. x" "[]" "Fin 1"]
  have "\<not> premises_passed (demo_driver []) (Fin 0) (build_report (\<lambda>x. x) (demo_driver []) (Fin 0) [] (Fin 1) s)"
    by (simp add: demo_driver_def s(3) demo_mean)
  with s(1) show ?thesis by blast
qed

theorem http_success_needs_a_good_body_witness:
  "\<exists>js. fst (chat_verdict (js :: string json_ops) (HttpReply 200 ''x'')) \<and> Option.bind (js_get js ''x'' ''choices'') (js_array js) \<noteq> Some []"
proof -
  define js where "js = \<lparr>js_parse = Inr, js_get = (\<lambda>v _. Some v), js_str = Some, js_bool = (\<lambda>_. None), js_u64 = (\<lambda>_. None),
    js_array = (\<lambda>v. Some [v]), js_null = (\<lambda>_. False)\<rparr>"
  have "fst (chat_verdict js (HttpReply 200 ''x''))" by (simp add: js_def chat_verdict_def is_success_def parsed_def)
  moreover from http_success_needs_a_good_body [of js "HttpReply 200 ''x''"] this
  have "Option.bind (js_get js ''x'' ''choices'') (js_array js) \<noteq> Some []" by (auto simp: js_def)
  ultimately show ?thesis by blast
qed

end
