(* ===== verification/RoundError.thy ===== *)
theory RoundError
  imports FloatRange
begin

text \<open>
  The error of rounding, and of a sum of rounded additions: rounding to \<open>p\<close> bits changes a
  value by at most one part in \<open>2 ^ p\<close> of it plus half of the least subnormal, and a sum of
  terms that are not negative is off by that for every addition.
\<close>

lemma ulp_bound:
  assumes "x \<noteq> 0"
  shows "2 powi ulp_exp p emin x \<le> 2 powi emin + 2 powi (1 - int p) * \<bar>x\<bar>"
proof (cases "\<lfloor>log 2 \<bar>x\<bar>\<rfloor> + 1 - int p \<le> emin")
  case True
  then show ?thesis by (simp add: ulp_exp_def)
next
  case False
  have x: "0 < \<bar>x\<bar>" using assms by simp
  have "(2 :: real) powi \<lfloor>log 2 \<bar>x\<bar>\<rfloor> = 2 powr of_int \<lfloor>log 2 \<bar>x\<bar>\<rfloor>" by (rule powr_real_of_int' [symmetric]) simp_all
  also have "\<dots> \<le> 2 powr log 2 \<bar>x\<bar>" by simp
  also have "\<dots> = \<bar>x\<bar>" using x by simp
  finally have le: "2 powi \<lfloor>log 2 \<bar>x\<bar>\<rfloor> \<le> \<bar>x\<bar>" .
  have "(2 :: real) powi ulp_exp p emin x = 2 powi ((1 - int p) + \<lfloor>log 2 \<bar>x\<bar>\<rfloor>)"
    using False by (simp add: ulp_exp_def max_def algebra_simps)
  also have "\<dots> = 2 powi (1 - int p) * 2 powi \<lfloor>log 2 \<bar>x\<bar>\<rfloor>" by (rule power_int_add) simp
  also have "\<dots> \<le> 2 powi (1 - int p) * \<bar>x\<bar>" using le by (intro mult_left_mono) simp_all
  also have "\<dots> \<le> 2 powi emin + 2 powi (1 - int p) * \<bar>x\<bar>" by simp
  finally show ?thesis .
qed

lemma ieee_round_error:
  assumes "ieee_round p emin emax x = Fin y"
  shows "\<bar>y - x\<bar> \<le> (2 powi emin + 2 powi (1 - int p) * \<bar>x\<bar>) / 2"
proof (cases "x = 0")
  case True
  moreover have "\<not> (2 :: real) ^ emax \<le> 0" "\<not> (0 :: real) \<le> - (2 ^ emax)" by (simp_all add: not_le)
  ultimately have "y = 0" using assms by (simp add: ieee_round_def clip_range_def)
  then show ?thesis using True by simp
next
  case False
  have "y = round_at (ulp_exp p emin x) x"
    using assms by (auto simp: ieee_round_def clip_range_def split: if_splits)
  then have "\<bar>y - x\<bar> \<le> 2 powi ulp_exp p emin x / 2" using round_at_error by simp
  also have "\<dots> \<le> (2 powi emin + 2 powi (1 - int p) * \<bar>x\<bar>) / 2" using ulp_bound [OF False] by (rule divide_right_mono) simp
  finally show ?thesis .
qed

text \<open>The two widths, with a common bound for the subnormal part.\<close>

lemma powi_small: "e \<le> - 149 \<Longrightarrow> (2 :: real) powi e / 2 \<le> 1 / 2 ^ 100"
proof -
  assume "e \<le> - 149"
  then have "(2 :: real) powi e \<le> 2 powi (- 100)" by (intro power_int_increasing) simp_all
  then show ?thesis by (simp add: power_int_minus divide_simps)
qed

lemma round32_error: "round32 x = Fin y \<Longrightarrow> \<bar>y - x\<bar> \<le> \<bar>x\<bar> / 2 ^ 24 + 1 / 2 ^ 100"
  using ieee_round_error [of 24 "- 149" 128 x y] powi_small [of "- 149"]
  by (simp add: round32_def power_int_minus field_simps)

lemma round64_near: "round64 x = Fin y \<Longrightarrow> \<bar>y - x\<bar> \<le> \<bar>x\<bar> / 2 ^ 53 + 1 / 2 ^ 100"
  using ieee_round_error [of 53 "- 1074" 1024 x y] powi_small [of "- 1074"]
  by (simp add: round64_def power_int_minus field_simps)

section \<open>The form of a rounded value\<close>

lemma round64_form:
  assumes "round64 x = Fin y" and "0 \<le> x"
  obtains n e where "y = real n * 2 powi e" "n < 2 ^ 53" "- 1074 \<le> e"
proof (cases "x = 0")
  case True
  with assms(1) that [of 0 0] show thesis by simp
next
  case False
  define u where "u = ulp_exp 53 (- 1074) x"
  define k where "k = round_even (x / 2 powi u)"
  have u: "- 1074 \<le> u" "\<lfloor>log 2 x\<rfloor> + 1 \<le> u + 53" using assms(2) by (simp_all add: u_def ulp_exp_def)
  have y: "y = of_int k * 2 powi u"
    using assms(1) by (auto simp: round64_def ieee_round_def clip_range_def round_at_def k_def u_def split: if_splits)
  have "log 2 x < of_int (u + 53)" using u(2) by linarith
  then have "x < 2 powr of_int (u + 53)" using assms(2) False by (simp add: log_less_iff)
  also have "\<dots> = 2 powi (u + 53)" by (rule powr_real_of_int') simp_all
  also have "\<dots> = 2 ^ 53 * 2 powi u" by (simp add: power_int_add)
  finally have "x / 2 powi u \<le> of_int (2 ^ 53)" by (simp add: divide_le_eq)
  then have k53: "k \<le> 2 ^ 53" unfolding k_def by (rule round_even_le)
  have k0: "0 \<le> k" unfolding k_def by (rule round_even_ge) (simp add: assms(2))
  show thesis
  proof (cases "k = 2 ^ 53")
    case True
    then have "y = real 1 * 2 powi (u + 53)" by (simp add: y power_int_add)
    then show ?thesis using that [of 1 "u + 53"] u(1) by simp
  next
    case False
    then have "k < int (2 ^ 53)" using k53 by simp
    then have "nat k < 2 ^ 53" using k0 nat_less_iff by blast
    moreover have "y = real (nat k) * 2 powi u" using k0 by (simp add: y)
    ultimately show ?thesis using that u(1) by blast
  qed
qed

text \<open>Twice a rounded value of the unit interval is exact.\<close>

lemma round64_double:
  assumes "round64 x = Fin y" and "0 \<le> x" and "y \<le> 1"
  shows "round64 (2 * y) = Fin (2 * y)"
proof -
  obtain n e where f: "y = real n * 2 powi e" "n < 2 ^ 53" "- 1074 \<le> e" using round64_form [OF assms(1,2)] .
  show ?thesis
  proof (cases "n = 0")
    case False
    have "e \<le> 0"
    proof (rule ccontr)
      assume "\<not> e \<le> 0"
      then have "(2 :: real) powi 1 \<le> 2 powi e" by (intro power_int_increasing) simp_all
      also have "\<dots> \<le> real n * 2 powi e" using False by simp
      finally show False using assms(3) f(1) by simp
    qed
    with round64_scaled [OF f(2), of "e + 1"] f(3) show ?thesis by (simp add: f(1) power_int_add mult.commute mult.left_commute)
  qed (simp add: f(1))
qed

section \<open>Sums\<close>

text \<open>
  A rounding whose error on values up to \<open>n\<close> is at most \<open>n * eps\<close>; a sum of \<open>n\<close> terms of
  the unit interval makes that error at most \<open>n\<close> times.
\<close>

locale near_rounding = rounding rnd exact_upto for rnd :: rounding_fn and exact_upto :: nat +
  fixes eps :: real
  assumes near: "rnd x = Fin y \<Longrightarrow> \<bar>x\<bar> \<le> real n \<Longrightarrow> 1 \<le> n \<Longrightarrow> \<bar>y - x\<bar> \<le> real n * eps"
begin

lemma fsum_unit_error:
  assumes "\<forall>x\<in>set xs. 0 \<le> x \<and> x \<le> 1" and "length xs \<le> exact_upto"
  shows "\<exists>s. fsum rnd (List.map Fin xs) = Fin s \<and> 0 \<le> s \<and> s \<le> real (length xs) \<and>
    \<bar>s - sum_list xs\<bar> \<le> real (length xs) * (real (length xs) * eps)"
  using assms
proof (induction xs rule: rev_induct)
  case Nil
  then show ?case by (simp add: fsum_def)
next
  case (snoc x xs)
  define n where "n = length xs"
  obtain r where r: "fsum rnd (List.map Fin xs) = Fin r" "0 \<le> r" "r \<le> real n"
    "\<bar>r - sum_list xs\<bar> \<le> real n * (real n * eps)"
    using snoc.IH snoc.prems by (auto simp: n_def)
  have x: "0 \<le> x" "x \<le> 1" using snoc.prems(1) by auto
  have rx: "0 \<le> r + x" "r + x \<le> real (Suc n)" using r x by simp_all
  from rnd_upto [OF rx] snoc.prems(2) obtain s where s: "rnd (r + x) = Fin s" "0 \<le> s" "s \<le> real (Suc n)"
    by (auto simp: n_def)
  have e: "\<bar>s - (r + x)\<bar> \<le> real (Suc n) * eps" by (rule near [OF s(1)]) (use rx in simp_all)
  have "0 \<le> eps" using near [of 0 0 1] by simp
  then have "real n * (real n * eps) \<le> real n * (real (Suc n) * eps)"
    by (intro mult_left_mono mult_right_mono) simp_all
  with e r(4) have "\<bar>s - (sum_list xs + x)\<bar> \<le> real n * (real (Suc n) * eps) + real (Suc n) * eps" by linarith
  also have "\<dots> = real (Suc n) * (real (Suc n) * eps)" by (simp add: algebra_simps)
  finally show ?case using s r(1) by (simp add: fsum_def n_def)
qed

end

interpretation near32: near_rounding round32 "2 ^ 24" "1 / 2 ^ 23"
proof unfold_locales
  fix x y and n :: nat
  assume "round32 x = Fin y" "\<bar>x\<bar> \<le> real n" "1 \<le> n"
  moreover have "(1 :: real) / 2 ^ 100 \<le> 1 / 2 ^ 24" by simp
  ultimately show "\<bar>y - x\<bar> \<le> real n * (1 / 2 ^ 23)" using round32_error [of x y] by simp
qed

interpretation near64: near_rounding round64 "2 ^ 53" "1 / 2 ^ 52"
proof unfold_locales
  fix x y and n :: nat
  assume "round64 x = Fin y" "\<bar>x\<bar> \<le> real n" "1 \<le> n"
  moreover have "(1 :: real) / 2 ^ 100 \<le> 1 / 2 ^ 53" by simp
  ultimately show "\<bar>y - x\<bar> \<le> real n * (1 / 2 ^ 52)" using round64_near [of x y] by simp
qed

end
