(* ===== verification/VsrAdapter.thy ===== *)
theory VsrAdapter
  imports DriverReport Head RoundError
begin

text \<open>
  The adapter \<open>src/bench/round2/vsr-adapter/src/main.rs\<close>, which serves a ranking over the
  HTTP contract of a router: its routes and access key, the request it makes of the
  classifier, and the softmax that turns the ranking into scores that sum to one. The
  classifier is the parameter \<open>call\<close> (a response, or a status code), reading the body is
  \<open>inputs\<close>, the exponential of \<open>f32\<close> is \<open>fexp\<close>; the listener is not modelled.
\<close>

section \<open>Scores\<close>

definition vsr_temperature :: "string option \<Rightarrow> flt" where
  "vsr_temperature var =
     (case Option.bind var parse_f32 of Some t \<Rightarrow> if flt_lt (Fin 0) t then t else Fin 1 | None \<Rightarrow> Fin 1)"

definition vsr_scores :: "(flt \<Rightarrow> flt) \<Rightarrow> flt \<Rightarrow> (string \<times> flt) list \<Rightarrow> (string \<times> flt) list" where
  "vsr_scores fexp temp raw =
     (let maxv = foldl fmax NInf (List.map snd raw);
          exps = List.map (\<lambda>(_, v). fexp (fdiv round32 (fsub round32 v maxv) temp)) raw;
          total = fsum round32 exps
      in map2 (\<lambda>(label, _) e. (label, fdiv round32 e total)) raw exps)"

section \<open>Requests\<close>

text \<open>The authorization header is absent when there is none or it is not text; the body when it cannot be read.\<close>

record vsr_request =
  vq_path :: string
  vq_method :: string
  vq_authorization :: "string option"
  vq_body :: "string option"

datatype vsr_body = VsrHealthy | VsrNotFound | VsrUnauthorized | VsrUnreadable | VsrBadRequest string
  | VsrNoRanking int | VsrUpstream int | VsrScores "(string \<times> flt) list"

definition vsr_access_key :: "string option \<Rightarrow> string option" where
  "vsr_access_key var = (case var of Some [] \<Rightarrow> None | v \<Rightarrow> v)"

definition bearer :: "string option \<Rightarrow> string" where
  "bearer auth =
     (case auth of None \<Rightarrow> [] | Some v \<Rightarrow> if take 7 v = ''Bearer '' then drop 7 v else [])"

definition vsr_rpc :: "nat \<Rightarrow> string \<Rightarrow> classify_request" where
  "vsr_rpc pid text =
     \<lparr>rq_request_id = ''vsr-'' @ show_nat pid, rq_session_id = [], rq_context = text, rq_signals = [], rq_completeness = 1\<rparr>"

definition vsr_answer :: "(flt \<Rightarrow> flt) \<Rightarrow> flt \<Rightarrow> int + classify_response \<Rightarrow> nat \<times> vsr_body" where
  "vsr_answer fexp temp reply =
     (case reply of
        Inl code \<Rightarrow> (502, VsrUpstream code)
      | Inr r \<Rightarrow>
          if rp_status r \<noteq> 1 \<or> rp_ranked r = [] then (503, VsrNoRanking (rp_status r))
          else (200, VsrScores (vsr_scores fexp temp (List.map (\<lambda>s. (ws_label s, fcast round32 (ws_score s))) (rp_ranked r)))))"

definition vsr_handle ::
  "(flt \<Rightarrow> flt) \<Rightarrow> string option \<Rightarrow> string option \<Rightarrow> nat \<Rightarrow> (string \<Rightarrow> string + string) \<Rightarrow>
     (classify_request \<Rightarrow> 's \<Rightarrow> (int + classify_response) \<times> 's) \<Rightarrow> vsr_request \<Rightarrow> 's \<Rightarrow> (nat \<times> vsr_body) \<times> 's" where
  "vsr_handle fexp key temp_var pid inputs call req s =
     (if vq_path req = ''/health'' then ((200, VsrHealthy), s)
      else if vq_method req \<noteq> ''POST'' \<or> vq_path req \<noteq> ''/classify'' then ((404, VsrNotFound), s)
      else if (case key of Some k \<Rightarrow> bearer (vq_authorization req) \<noteq> k | None \<Rightarrow> False) then ((401, VsrUnauthorized), s)
      else (case vq_body req of
              None \<Rightarrow> ((400, VsrUnreadable), s)
            | Some body \<Rightarrow>
                (case inputs body of
                   Inl e \<Rightarrow> ((400, VsrBadRequest e), s)
                 | Inr text \<Rightarrow>
                     (let (reply, s') = call (vsr_rpc pid text) s
                      in (vsr_answer fexp (vsr_temperature temp_var) reply, s')))))"

text \<open>
  With an access key the classifier is only reached by a POST to the classify route that
  carries exactly that key, and always with a complete context; every other request is
  answered without it. Scores are only served from a ranking the classifier returned.
\<close>

theorem adapter_guards_the_classifier:
  assumes "vsr_handle fexp (vsr_access_key var) temp pid inputs call req s = ((code, body), s')"
  shows "(s' = s \<and> code \<in> {200, 400, 401, 404} \<and> (code = 200 \<longrightarrow> body = VsrHealthy)) \<or>
    (vq_method req = ''POST'' \<and> vq_path req = ''/classify'' \<and>
     (\<forall>k. var = Some k \<longrightarrow> k \<noteq> [] \<longrightarrow> vq_authorization req = Some (''Bearer '' @ k)) \<and>
     (\<exists>inp reply. call (vsr_rpc pid inp) s = (reply, s') \<and> rq_completeness (vsr_rpc pid inp) = 1 \<and>
        (code = 200 \<longrightarrow> (\<exists>r. reply = Inr r \<and> rp_status r = 1 \<and> rp_ranked r \<noteq> []))))"
proof (cases "vq_path req = ''/classify'' \<and> vq_method req = ''POST''")
  case False
  then show ?thesis using assms by (auto simp: vsr_handle_def split: if_splits)
next
  case route: True
  show ?thesis
  proof (cases "case vsr_access_key var of Some k \<Rightarrow> bearer (vq_authorization req) \<noteq> k | None \<Rightarrow> False")
    case True
    then show ?thesis using assms route by (auto simp: vsr_handle_def split: option.splits)
  next
    case False
    have auth: "vq_authorization req = Some (''Bearer '' @ k)" if "var = Some k" "k \<noteq> []" for k
    proof -
      have "bearer (vq_authorization req) = k" using False that by (cases k) (simp_all add: vsr_access_key_def)
      with that(2) obtain v where v: "vq_authorization req = Some v" "take 7 v = ''Bearer ''" "drop 7 v = k"
        by (auto simp: bearer_def split: option.splits if_splits)
      then show ?thesis using append_take_drop_id [of 7 v] by simp
    qed
    show ?thesis
    proof (cases "vq_body req")
      case None
      then show ?thesis using assms route False by (simp add: vsr_handle_def)
    next
      case (Some b)
      show ?thesis
      proof (cases "inputs b")
        case (Inl e)
        then show ?thesis using assms route False Some by (simp add: vsr_handle_def)
      next
        case (Inr inp)
        obtain reply s1 where call: "call (vsr_rpc pid inp) s = (reply, s1)" by fastforce
        have out: "s' = s1" "(code, body) = vsr_answer fexp (vsr_temperature temp) reply"
          using assms route False by (simp_all add: vsr_handle_def Some Inr call)
        have "code = 200 \<longrightarrow> (\<exists>r. reply = Inr r \<and> rp_status r = 1 \<and> rp_ranked r \<noteq> [])"
          using out(2) by (auto simp: vsr_answer_def split: sum.splits if_splits)
        moreover have "rq_completeness (vsr_rpc pid inp) = 1" by (simp add: vsr_rpc_def)
        ultimately show ?thesis using route auth call out(1) by blast
      qed
    qed
  qed
qed

theorem adapter_guards_the_classifier_witness:
  "\<exists>s'. vsr_handle exp_ieee (vsr_access_key (Some ''k'')) None 1 Inr (\<lambda>rq n. (Inl 14, n + 1))
      \<lparr>vq_path = ''/classify'', vq_method = ''POST'', vq_authorization = Some ''Bearer k'', vq_body = Some ''x''\<rparr> (0 :: nat)
      = ((502, VsrUpstream 14), s') \<and> s' = 1 \<and> ''Bearer k'' = ''Bearer '' @ ''k''"
proof -
  have h: "vsr_handle exp_ieee (vsr_access_key (Some ''k'')) None 1 Inr (\<lambda>rq n. (Inl 14, n + 1))
      \<lparr>vq_path = ''/classify'', vq_method = ''POST'', vq_authorization = Some ''Bearer k'', vq_body = Some ''x''\<rparr> (0 :: nat)
      = ((502, VsrUpstream 14), 1)"
    by (simp add: vsr_handle_def vsr_access_key_def bearer_def vsr_answer_def)
  from adapter_guards_the_classifier [OF h] h show ?thesis by auto
qed

section \<open>The softmax\<close>

lemma fdiv_pos_mono:
  assumes "0 < t" and "flt_le a b"
  shows "flt_le (fdiv round32 a (Fin t)) (fdiv round32 b (Fin t))"
  using assms by (cases a; cases b) (auto simp: divide_right_mono inf_of_sign_def intro!: f32.rnd_mono)

context exponential
begin

definition vsr_term :: "real \<Rightarrow> real \<Rightarrow> real \<Rightarrow> real" where
  "vsr_term t m x = (case fexp (fdiv round32 (fsub round32 (Fin x) (Fin m)) (Fin t)) of Fin z \<Rightarrow> z | _ \<Rightarrow> 0)"

lemma vsr_term_mono:
  "0 < t \<Longrightarrow> x \<le> y \<Longrightarrow> flt_le (fexp (fdiv round32 (fsub round32 (Fin x) (Fin m)) (Fin t)))
     (fexp (fdiv round32 (fsub round32 (Fin y) (Fin m)) (Fin t)))"
  by (intro exp_mono fdiv_pos_mono) (simp_all add: fsub_def f32.rnd_mono)

lemma vsr_term:
  assumes "0 < t" and "x \<le> m"
  shows "fexp (fdiv round32 (fsub round32 (Fin x) (Fin m)) (Fin t)) = Fin (vsr_term t m x)"
    and "0 \<le> vsr_term t m x" and "vsr_term t m x \<le> 1" and "vsr_term t m m = 1"
proof -
  have top: "fexp (fdiv round32 (fsub round32 (Fin m) (Fin m)) (Fin t)) = Fin 1"
    using assms(1) by (simp add: fsub_def exp_zero)
  have le: "flt_le (fdiv round32 (fsub round32 (Fin x) (Fin m)) (Fin t)) (Fin 0)"
    using fdiv_pos_mono [OF assms(1), of "fsub round32 (Fin x) (Fin m)" "Fin 0"] f32.rnd_mono [of "x - m" 0] assms
    by (simp add: fsub_def)
  then have "fdiv round32 (fsub round32 (Fin x) (Fin m)) (Fin t) \<noteq> NaN" by auto
  then have "flt_le (Fin 0) (fexp (fdiv round32 (fsub round32 (Fin x) (Fin m)) (Fin t)))" by (rule exp_nonneg)
  with exp_mono [OF le] exp_zero obtain z where
    "fexp (fdiv round32 (fsub round32 (Fin x) (Fin m)) (Fin t)) = Fin z" "0 \<le> z" "z \<le> 1"
    by (auto dest: flt_le_betweenD)
  with top show "fexp (fdiv round32 (fsub round32 (Fin x) (Fin m)) (Fin t)) = Fin (vsr_term t m x)"
    "0 \<le> vsr_term t m x" "vsr_term t m x \<le> 1" "vsr_term t m m = 1" by (simp_all add: vsr_term_def)
qed

text \<open>The shape of the scores of a ranking with finite scores.\<close>

lemma vsr_scores_finite:
  assumes "xs \<noteq> []" and "length xs \<le> 2 ^ 24" and "0 < t" and "length ls = length xs"
  obtains m total where "m \<in> set xs" "\<forall>x\<in>set xs. x \<le> m" "1 \<le> total"
    "\<bar>total - sum_list (List.map (vsr_term t m) xs)\<bar> \<le> real (length xs) * (real (length xs) * (1 / 2 ^ 23))"
    "vsr_scores fexp (Fin t) (zip ls (List.map Fin xs)) = zip ls (List.map (\<lambda>x. round32 (vsr_term t m x / total)) xs)"
proof -
  obtain y ys where xs: "xs = y # ys" using assms(1) by (cases xs) auto
  define m where "m = foldl max y ys"
  have mx: "foldl fmax NInf (List.map Fin xs) = Fin m" by (simp add: xs m_def foldl_fmax_Fin)
  have m: "m \<in> set xs" "\<forall>x\<in>set xs. x \<le> m"
    using foldl_max_bounds [where m = y and xs = ys] by (auto simp: xs m_def)
  define es where "es = List.map (vsr_term t m) xs"
  have unit: "\<forall>e\<in>set es. 0 \<le> e \<and> e \<le> 1" using m(2) vsr_term [OF assms(3)] by (auto simp: es_def)
  have "1 \<in> set es" using m(1) vsr_term(4) [OF assms(3), of m m] by (force simp: es_def)
  with fsum_unit [OF unit] near32.fsum_unit_error [OF unit] assms(2) obtain total where
    total: "fsum round32 (List.map Fin es) = Fin total" "1 \<le> total"
      "\<bar>total - sum_list es\<bar> \<le> real (length xs) * (real (length xs) * (1 / 2 ^ 23))"
    by (auto simp: es_def)
  have zip_es: "List.map (\<lambda>(_, v). fexp (fdiv round32 (fsub round32 v (Fin m)) (Fin t))) (zip ls (List.map Fin xs)) = List.map Fin es"
    using assms(4) m(2) vsr_term(1) [OF assms(3)]
    by (intro nth_equalityI) (auto simp: es_def)
  have "List.map snd (zip ls (List.map Fin xs)) = List.map Fin xs" using assms(4) by simp
  then have "vsr_scores fexp (Fin t) (zip ls (List.map Fin xs)) =
      map2 (\<lambda>(label, _) e. (label, fdiv round32 e (Fin total))) (zip ls (List.map Fin xs)) (List.map Fin es)"
    by (simp add: vsr_scores_def mx zip_es total(1) Let_def)
  also have "\<dots> = zip ls (List.map (\<lambda>x. round32 (vsr_term t m x / total)) xs)"
    using assms(4) total(2) by (intro nth_equalityI) (auto simp: es_def)
  finally show thesis using that [OF m total(2)] total(3) by (simp add: es_def)
qed


lemma vsr_scores_order:
  assumes "xs \<noteq> []" and "length xs \<le> 2 ^ 24" and "0 < t" and "length ls = length xs"
  shows "\<exists>ps. vsr_scores fexp (Fin t) (zip ls (List.map Fin xs)) = zip ls (List.map Fin ps) \<and> length ps = length xs \<and>
    set ps \<subseteq> {0..1} \<and> (\<forall>i<length xs. \<forall>j<length xs. xs ! i \<le> xs ! j \<longrightarrow> ps ! i \<le> ps ! j)"
proof -
  from vsr_scores_finite [OF assms] obtain m total where m: "\<forall>x\<in>set xs. x \<le> m" "1 \<le> total"
    "vsr_scores fexp (Fin t) (zip ls (List.map Fin xs)) = zip ls (List.map (\<lambda>x. round32 (vsr_term t m x / total)) xs)" by metis
  have "\<exists>z. round32 (vsr_term t m x / total) = Fin z \<and> 0 \<le> z \<and> z \<le> 1" if "x \<in> set xs" for x
  proof -
    have "0 \<le> vsr_term t m x" "vsr_term t m x \<le> total"
      using vsr_term(2,3) [OF assms(3), of x m] m(1,2) that by auto
    then have "0 \<le> vsr_term t m x / total" "vsr_term t m x / total \<le> 1"
      using m(2) by (simp_all add: divide_le_eq)
    from f32.rnd_unit [OF this] show ?thesis by blast
  qed
  then obtain f where f: "\<forall>x\<in>set xs. round32 (vsr_term t m x / total) = Fin (f x) \<and> 0 \<le> f x \<and> f x \<le> 1" by metis
  have "f x \<le> f y" if "x \<in> set xs" "y \<in> set xs" "x \<le> y" for x y
  proof -
    have "vsr_term t m x \<le> vsr_term t m y"
      using vsr_term_mono [OF assms(3) that(3), of m] vsr_term(1) [OF assms(3)] m(1) that(1,2) by auto
    then have "vsr_term t m x / total \<le> vsr_term t m y / total" using m(2) by (simp add: divide_right_mono)
    from f32.rnd_mono [OF this] show ?thesis using f that(1,2) by auto
  qed
  with f m(3) show ?thesis
    by (intro exI [of _ "List.map f xs"]) (auto cong: map_cong)
qed

text \<open>The scores sum to one, up to rounding, whatever a reader makes of the last bit of each.\<close>

lemma vsr_scores_sum:
  assumes "xs \<noteq> []" and "length xs \<le> 200" and "0 < t" and "length ls = length xs"
    and sc: "vsr_scores fexp (Fin t) (zip ls (List.map Fin xs)) = zip ls (List.map Fin ps)" "length ps = length xs"
    and ds: "list_all2 (\<lambda>d p. 0 \<le> d \<and> d \<le> 1 \<and> \<bar>d - p\<bar> \<le> 1 / 2 ^ 24) ds ps"
  shows "\<exists>s. fsum round64 (List.map Fin ds) = Fin s \<and> \<bar>s - 1\<bar> \<le> 1 / 128"
proof -
  define n where "n = real (length xs)"
  have n: "1 \<le> n" "n \<le> 200" using assms(1,2) by (cases xs; simp add: n_def)+
  have "length xs \<le> 2 ^ 24" using assms(2) by simp
  from vsr_scores_finite [OF assms(1) this assms(3,4)] obtain m total where m: "\<forall>x\<in>set xs. x \<le> m" "1 \<le> total"
    "\<bar>total - sum_list (List.map (vsr_term t m) xs)\<bar> \<le> n * (n * (1 / 2 ^ 23))"
    "vsr_scores fexp (Fin t) (zip ls (List.map Fin xs)) = zip ls (List.map (\<lambda>x. round32 (vsr_term t m x / total)) xs)"
    unfolding n_def by metis
  define qs where "qs = List.map (\<lambda>x. vsr_term t m x / total) xs"
  have "List.map Fin ps = List.map round32 qs"
    using m(4) sc assms(4) by (simp add: qs_def comp_def) (metis length_map map_snd_zip)
  then have pq: "round32 (qs ! i) = Fin (ps ! i)" if "i < length xs" for i
    using that sc(2) by (metis length_map nth_map qs_def)
  have len: "length qs = length xs" "length ds = length xs" using ds sc(2) by (simp_all add: qs_def list_all2_lengthD)
  have near: "\<bar>ds ! i - qs ! i\<bar> \<le> 1 / 2 ^ 22" if "i < length xs" for i
  proof -
    have "0 \<le> qs ! i" "qs ! i \<le> 1"
      using vsr_term(2,3) [OF assms(3), of "xs ! i" m] m(1,2) that by (auto simp: qs_def divide_le_eq)
    then have "\<bar>ps ! i - qs ! i\<bar> \<le> 1 / 2 ^ 23" using near32.near [OF pq [OF that], of 1] by simp
    moreover have "\<bar>ds ! i - ps ! i\<bar> \<le> 1 / 2 ^ 24" using ds that sc(2) len by (simp add: list_all2_conv_all_nth)
    moreover have "\<bar>ds ! i - qs ! i\<bar> \<le> \<bar>ds ! i - ps ! i\<bar> + \<bar>ps ! i - qs ! i\<bar>" by linarith
    ultimately show ?thesis by simp
  qed
  have "\<bar>sum_list ds - sum_list qs\<bar> = \<bar>\<Sum>i<length xs. ds ! i - qs ! i\<bar>"
    by (simp add: len sum_list_sum_nth sum_subtractf atLeast0LessThan)
  also have "\<dots> \<le> (\<Sum>i<length xs. \<bar>ds ! i - qs ! i\<bar>)" by (rule sum_abs)
  also have "\<dots> \<le> (\<Sum>i<length xs. 1 / 2 ^ 22)" by (intro sum_mono near) simp
  also have "\<dots> = n / 2 ^ 22" by (simp add: n_def)
  finally have dq: "\<bar>sum_list ds - sum_list qs\<bar> \<le> 200 / 2 ^ 22" using n(2) by simp
  have nn: "n * n \<le> 200 * 200" using n by (intro mult_mono) simp_all
  have "sum_list qs = sum_list (List.map (vsr_term t m) xs) / total"
    unfolding qs_def divide_inverse by (rule sum_list_mult_const)
  then have "sum_list qs - 1 = - ((total - sum_list (List.map (vsr_term t m) xs)) / total)"
    using m(2) by (simp add: field_simps)
  then have "\<bar>sum_list qs - 1\<bar> = \<bar>total - sum_list (List.map (vsr_term t m) xs)\<bar> / total"
    using m(2) by (simp add: abs_divide)
  also have "\<dots> \<le> \<bar>total - sum_list (List.map (vsr_term t m) xs)\<bar> / 1" using m(2) by (intro divide_left_mono) simp_all
  finally have q1: "\<bar>sum_list qs - 1\<bar> \<le> 40000 / 2 ^ 23" using m(3) nn by simp
  have unit: "\<forall>d\<in>set ds. 0 \<le> d \<and> d \<le> 1" using ds by (auto simp: list_all2_conv_all_nth in_set_conv_nth)
  from near64.fsum_unit_error [OF this] len assms(2) obtain s where
    s: "fsum round64 (List.map Fin ds) = Fin s" "\<bar>s - sum_list ds\<bar> \<le> n * (n * (1 / 2 ^ 52))"
    by (auto simp: n_def)
  have "\<bar>s - sum_list ds\<bar> \<le> 40000 / 2 ^ 52" using s(2) nn by simp
  moreover have "\<bar>s - 1\<bar> \<le> \<bar>s - sum_list ds\<bar> + \<bar>sum_list ds - sum_list qs\<bar> + \<bar>sum_list qs - 1\<bar>" by linarith
  ultimately have "\<bar>s - 1\<bar> \<le> 1 / 128" using dq q1 by simp
  with s(1) show ?thesis by blast
qed

end


text \<open>
  On a ranking with finite scores and a positive temperature, the served scores are
  between 0 and 1, keep the labels in their order, and a label that ranked at least as
  high as another never gets a lower score.
\<close>

theorem adapter_scores_keep_the_order:
  assumes "xs \<noteq> []" and "length xs \<le> 2 ^ 24" and "0 < t" and "length ls = length xs"
  shows "\<exists>ps. vsr_scores exp_ieee (Fin t) (zip ls (List.map Fin xs)) = zip ls (List.map Fin ps) \<and> length ps = length xs \<and>
    set ps \<subseteq> {0..1} \<and> (\<forall>i<length xs. \<forall>j<length xs. xs ! i \<le> xs ! j \<longrightarrow> ps ! i \<le> ps ! j)"
  using assms by (rule ieee.vsr_scores_order)

theorem adapter_scores_keep_the_order_witness:
  "\<exists>ps. vsr_scores exp_ieee (Fin (1 / 2)) [(''a'', Fin 1), (''b'', Fin 0)] = zip [''a'', ''b''] (List.map Fin ps) \<and> length ps = 2 \<and> ps ! 1 \<le> ps ! 0"
proof -
  obtain ps where ps: "vsr_scores exp_ieee (Fin (1 / 2)) (zip [''a'', ''b''] (List.map Fin [1, 0])) = zip [''a'', ''b''] (List.map Fin ps)"
    "length ps = length [1, 0 :: real]"
    "\<forall>i<length [1, 0 :: real]. \<forall>j<length [1, 0 :: real]. [1, 0 :: real] ! i \<le> [1, 0] ! j \<longrightarrow> ps ! i \<le> ps ! j"
    using adapter_scores_keep_the_order [of "[1, 0]" "1 / 2" "[''a'', ''b'']"] by auto
  have "ps ! 1 \<le> ps ! 0" using ps(3) [rule_format, of 1 0] by simp
  with ps(1,2) show ?thesis by (intro exI [of _ ps]) simp
qed

text \<open>
  The scores are not those of the ranking: with one label, any score becomes 1.
\<close>

lemma adapter_rescales:
  assumes "0 < t"
  shows "vsr_scores exp_ieee (Fin t) [(l, Fin x)] = [(l, Fin 1)]"
  using assms by (simp add: vsr_scores_def fsub_def fsum_def Let_def)

section \<open>The driver and the adapter\<close>

text \<open>
  What is used of JSON: a body that encodes scores is read as a list of the same length,
  with the labels as they were and each score off by at most half a unit in the last place
  of \<open>f32\<close> (the encoder prints the shortest decimal that reads back as the same \<open>f32\<close>).
\<close>

definition reads_scores :: "'j json_ops \<Rightarrow> ('j \<Rightarrow> flt option) \<Rightarrow> string \<Rightarrow> (string \<times> flt) list \<Rightarrow> bool" where
  "reads_scores js jf body scores \<longleftrightarrow>
     (\<exists>v vs. js_parse js body = Inr v \<and> js_array js v = Some vs \<and>
        list_all2 (\<lambda>x (l, p). Option.bind (js_get js x ''label'') (js_str js) = Some l \<and>
          (\<exists>d z. Option.bind (js_get js x ''score'') jf = Some (Fin d) \<and> p = Fin z \<and> 0 \<le> d \<and> d \<le> 1 \<and> \<bar>d - z\<bar> \<le> 1 / 2 ^ 24)) vs scores)"

lemma accepted_sum:
  assumes "\<bar>s - 1\<bar> \<le> 1 / 128"
  shows "\<not> flt_lt (f64_literal 0.01) (fabs (fsub round64 (Fin s) (Fin 1)))"
proof -
  have eighth: "round64 (1 / 128) = Fin (1 / 128)" using round64_dyadic [of 1 7] by simp
  from round64_range [OF assms this] obtain y where y: "round64 (s - 1) = Fin y" "\<bar>y\<bar> \<le> 1 / 128"
    by (auto simp: fin_le_def)
  have "flt_le (Fin (1 / 128)) (f64_literal 0.01)" using f64.rnd_mono [of "1 / 128" "0.01"] eighth by (simp add: f64_literal_def)
  with y show ?thesis by (cases "f64_literal 0.01") (auto simp: fsub_def flt_lt_def)
qed

text \<open>
  C23. What the adapter serves the load driver accepts: of a ranking of up to 200 labels
  with finite scores, at any positive temperature, the driver's classify mode reads the
  reply as normalised, counts a success and takes the first label as the answer.
\<close>

theorem driver_accepts_the_adapter:
  assumes "xs \<noteq> []" and "length xs \<le> 200" and "0 < t" and "length ls = length xs"
    and "reads_scores js jf body (vsr_scores exp_ieee (Fin t) (zip ls (List.map Fin xs)))"
  shows "classify_verdict js jf (HttpReply 200 body) = (True, hd ls)"
proof -
  define scores where "scores = vsr_scores exp_ieee (Fin t) (zip ls (List.map Fin xs))"
  have "length xs \<le> 2 ^ 24" using assms(2) by simp
  from ieee.vsr_scores_order [OF assms(1) this assms(3,4)] obtain ps where
    ps: "scores = zip ls (List.map Fin ps)" "length ps = length xs" unfolding scores_def by metis
  obtain v vs where v: "js_parse js body = Inr v" "js_array js v = Some vs"
    "list_all2 (\<lambda>x (l, p). Option.bind (js_get js x ''label'') (js_str js) = Some l \<and>
       (\<exists>d z. Option.bind (js_get js x ''score'') jf = Some (Fin d) \<and> p = Fin z \<and> 0 \<le> d \<and> d \<le> 1 \<and> \<bar>d - z\<bar> \<le> 1 / 2 ^ 24)) vs scores"
    using assms(5) unfolding reads_scores_def scores_def by blast
  define d where "d x = (case Option.bind (js_get js x ''score'') jf of Some (Fin y) \<Rightarrow> y | _ \<Rightarrow> 0)" for x
  have len: "length vs = length xs" using list_all2_lengthD [OF v(3)] ps assms(4) by simp
  have each: "Option.bind (js_get js (vs ! i) ''label'') (js_str js) = Some (ls ! i) \<and>
      Option.bind (js_get js (vs ! i) ''score'') jf = Some (Fin (d (vs ! i))) \<and>
      0 \<le> d (vs ! i) \<and> d (vs ! i) \<le> 1 \<and> \<bar>d (vs ! i) - ps ! i\<bar> \<le> 1 / 2 ^ 24" if "i < length xs" for i
    using list_all2_nthD [OF v(3), of i] that len ps assms(4) by (auto simp: d_def)
  have "list_all2 (\<lambda>d p. 0 \<le> d \<and> d \<le> 1 \<and> \<bar>d - p\<bar> \<le> 1 / 2 ^ 24) (List.map d vs) ps"
    using each len ps(2) by (auto simp: list_all2_conv_all_nth)
  from ieee.vsr_scores_sum [OF assms(1-4) ps(1) [unfolded scores_def] ps(2) this] obtain s where
    s: "fsum round64 (List.map Fin (List.map d vs)) = Fin s" "\<bar>s - 1\<bar> \<le> 1 / 128" by blast
  have "\<forall>x\<in>set vs. Option.bind (js_get js x ''score'') jf = Some (Fin (d x))"
    using each len by (auto simp: in_set_conv_nth)
  then have "List.map_filter (\<lambda>x. Option.bind (js_get js x ''score'') jf) vs = List.map Fin (List.map d vs)"
    by (induction vs) (simp_all add: List.map_filter_def)
  with s have total: "fsum round64 (List.map_filter (\<lambda>x. Option.bind (js_get js x ''score'') jf) vs) = Fin s" by simp
  obtain x us where vs: "vs = x # us" using len assms(1) by (cases vs) auto
  have "Option.bind (js_get js x ''label'') (js_str js) = Some (hd ls)"
    using each [of 0] assms(1,4) by (cases ls) (auto simp: vs)
  then show ?thesis
    using total accepted_sum [OF s(2)] unfolding vs
    by (simp add: classify_verdict_def is_success_def parsed_def v(1,2) vs Let_def)
qed

text \<open>A reader of one score, for the witness.\<close>

definition one_score_json :: "string json_ops" where
  "one_score_json = \<lparr>js_parse = Inr, js_get = (\<lambda>v k. Some k), js_str = (\<lambda>_. Some ''l''), js_bool = (\<lambda>_. None), js_u64 = (\<lambda>_. None),
     js_array = (\<lambda>v. Some [v]), js_null = (\<lambda>_. False)\<rparr>"

theorem driver_accepts_the_adapter_witness:
  "classify_verdict one_score_json (\<lambda>_. Some (Fin 1)) (HttpReply 200 ''x'') = (True, ''l'') \<and>
   vsr_scores exp_ieee (Fin 2) [(''l'', Fin (-3))] = [(''l'', Fin 1)]"
proof -
  have "reads_scores one_score_json (\<lambda>_. Some (Fin 1)) ''x'' (vsr_scores exp_ieee (Fin 2) (zip [''l''] (List.map Fin [-3])))"
    by (simp add: adapter_rescales reads_scores_def one_score_json_def)
  from driver_accepts_the_adapter [OF _ _ _ _ this] show ?thesis by (simp add: adapter_rescales)
qed

end
