(* ===== verification/Programs.thy ===== *)
theory Programs
  imports EmbeddingLoad TextCache Display Wire
begin

text \<open>
  The command-line programs around the library: \<open>src/src/bin/classify.rs\<close> (its arguments, the
  texts it classifies and what it prints of a ranking), the start of \<open>src/src/bin/server.rs\<close>,
  and \<open>src/src/bin/gateway-probe.rs\<close> (what it sends and how it summarises the samples).
  The environment, the standard input, the clock and the client are parameters.
\<close>

section \<open>The arguments of the classify program\<close>

text \<open>The value of a flag: what follows its first occurrence.\<close>

fun flag_value :: "string \<Rightarrow> string list \<Rightarrow> string option" where
  "flag_value name [] = None"
| "flag_value name (a # as) = (if a = name then (case as of [] \<Rightarrow> None | v # _ \<Rightarrow> Some v) else flag_value name as)"

definition is_flag :: "string \<Rightarrow> bool" where
  "is_flag a \<longleftrightarrow> take 2 a = ''--''"

text \<open>Every argument that is neither a flag nor the value of one; only \<open>--json\<close> has no value.\<close>

fun text_args :: "bool \<Rightarrow> string list \<Rightarrow> string list" where
  "text_args skip [] = []"
| "text_args skip (a # as) =
     (if skip then text_args False as
      else if is_flag a then text_args (a \<noteq> ''--json'') as
      else a # text_args False as)"

definition join_words :: "string list \<Rightarrow> string" where
  "join_words ws = (case ws of [] \<Rightarrow> [] | w # rest \<Rightarrow> foldl (\<lambda>acc x. acc @ CHR '' '' # x) w rest)"

record cli_options =
  op_json :: bool
  op_classifier :: string
  op_model :: "string option"
  op_words :: "string list"

definition cli_options_of :: "string list \<Rightarrow> cli_options" where
  "cli_options_of argv =
     \<lparr>op_json = list_ex (\<lambda>a. a = ''--json'') argv,
      op_classifier = (case flag_value ''--classifier'' argv of None \<Rightarrow> DEFAULT_CLASSIFIER | Some s \<Rightarrow> s),
      op_model = flag_value ''--model'' argv, op_words = text_args False argv\<rparr>"

text \<open>The directory of the model follows the classifier unless it is given.\<close>

definition cli_model_dir :: "cli_options \<Rightarrow> classifier_definition \<Rightarrow> string" where
  "cli_model_dir opts d = (case op_model opts of Some dir \<Rightarrow> dir | None \<Rightarrow> ''artifacts/models/'' @ cd_classifier_id d)"

definition cli_inputs :: "cli_options \<Rightarrow> string list \<Rightarrow> string list" where
  "cli_inputs opts stdin_lines = (if op_words opts \<noteq> [] then [join_words (op_words opts)] else filter (\<lambda>l. trim l \<noteq> []) stdin_lines)"

section \<open>Its output\<close>

text \<open>\<open>f64::round\<close>, away from zero on ties.\<close>

primrec fround :: "flt \<Rightarrow> flt" where
  "fround NaN = NaN"
| "fround NInf = NInf"
| "fround PInf = PInf"
| "fround (Fin x) = Fin (if x < 0 then - of_int \<lfloor>1 / 2 - x\<rfloor> else of_int \<lfloor>x + 1 / 2\<rfloor>)"

definition bar_length :: "flt \<Rightarrow> flt \<Rightarrow> nat" where
  "bar_length best s =
     (let frac = (if flt_lt (Fin 0) best then flt_clamp (Fin 0) (Fin 1) (fdiv round64 s best) else Fin 0)
      in f64_as_u64 (fround (fmul round64 frac (Fin 24))))"

text \<open>One line of the table: whether it is the first, the label, the score and the bar.\<close>

datatype cli_output =
    CliFailed classify_error
  | CliJson string string string string "(string \<times> flt) list"
  | CliTable string "(bool \<times> string \<times> flt \<times> nat) list" flt

definition score_at :: "ranked_signal list \<Rightarrow> nat \<Rightarrow> flt" where
  "score_at rs i = (if i < length rs then score (rs ! i) else Fin 0)"

definition cli_table :: "string \<Rightarrow> classification_result \<Rightarrow> cli_output" where
  "cli_table t r =
     (let rs = res_ranked r; best = score_at rs 0
      in CliTable t (List.map (\<lambda>(i, s). (i = 0, sig_id s, score s, bar_length best (score s))) (enumerate 0 rs))
           (fsub round64 best (score_at rs 1)))"

definition cli_print :: "bool \<Rightarrow> string \<Rightarrow> outcome \<Rightarrow> cli_output" where
  "cli_print json t res =
     (case res of
        Inl e \<Rightarrow> CliFailed e
      | Inr r \<Rightarrow>
          if json then CliJson t (res_classifier_id r) (res_model_revision r) (res_taxonomy_revision r)
                         (List.map (\<lambda>s. (sig_id s, score s)) (res_ranked r))
          else cli_table t r)"

text \<open>How the program ends: help, a process exit with its code, or the outputs in order.\<close>

datatype cli_end = CliHelp | CliExit nat | CliDone "cli_output list"

fun cli_classify_all ::
  "candle_classifier \<Rightarrow> bool \<Rightarrow> string \<Rightarrow> string list \<Rightarrow> candle_counters \<times> metrics \<Rightarrow> cli_output list \<times> candle_counters \<times> metrics" where
  "cli_classify_all cl json signal [] st = ([], st)"
| "cli_classify_all cl json signal (t # ts) st =
     (let (res, st') = runtime_classify (candle_runtime cl)
            \<lparr>in_text = t, requested_signals = [signal], session_metadata = Map.empty, completeness = Unspecified\<rparr> st;
          (outs, st'') = cli_classify_all cl json signal ts st'
      in (cli_print json t res # outs, st''))"

text \<open>
  \<open>definition\<close> is \<open>ClassifierDefinition::resolve\<close>, \<open>load\<close> is \<open>from_modelcar_with\<close> (\<open>None\<close>
  when it panics).
\<close>

definition cli_main ::
  "(string \<Rightarrow> taxonomy_error + classifier_definition) \<Rightarrow> (string \<Rightarrow> classifier_definition \<Rightarrow> (classify_error + candle_classifier) option) \<Rightarrow>
     string list \<Rightarrow> string list \<Rightarrow> candle_counters \<times> metrics \<Rightarrow> cli_end option" where
  "cli_main resolved load argv stdin_lines st =
     (if list_ex (\<lambda>a. a = ''--help'' \<or> a = ''-h'') argv then Some CliHelp
      else (let opts = cli_options_of argv
            in case resolved (op_classifier opts) of
                 Inl _ \<Rightarrow> Some (CliExit 2)
               | Inr d \<Rightarrow>
                   (case load (cli_model_dir opts d) d of
                      None \<Rightarrow> None
                    | Some (Inl _) \<Rightarrow> Some (CliExit 1)
                    | Some (Inr cl) \<Rightarrow>
                        (let inputs = cli_inputs opts stdin_lines
                         in if inputs = [] then Some (CliExit 2)
                            else Some (CliDone (fst (cli_classify_all cl (op_json opts) (cd_signal d) inputs st)))))))"

section \<open>Reading the arguments back\<close>

datatype cli_item = Word string | JsonFlag | ValueFlag string string

primrec render_item :: "cli_item \<Rightarrow> string list" where
  "render_item (Word w) = [w]"
| "render_item JsonFlag = [''--json'']"
| "render_item (ValueFlag name v) = [name, v]"

fun well_formed_item :: "cli_item \<Rightarrow> bool" where
  "well_formed_item (Word w) = (\<not> is_flag w)"
| "well_formed_item JsonFlag = True"
| "well_formed_item (ValueFlag name v) = (is_flag name \<and> name \<noteq> ''--json'' \<and> \<not> is_flag v)"

fun item_words :: "cli_item list \<Rightarrow> string list" where
  "item_words [] = []"
| "item_words (Word w # is) = w # item_words is"
| "item_words (i # is) = item_words is"

fun item_value :: "string \<Rightarrow> cli_item list \<Rightarrow> string option" where
  "item_value name [] = None"
| "item_value name (ValueFlag n v # is) = (if n = name then Some v else item_value name is)"
| "item_value name (i # is) = item_value name is"

definition render :: "cli_item list \<Rightarrow> string list" where
  "render is = concat (List.map render_item is)"

lemma json_is_flag: "is_flag ''--json''"
  by (simp add: is_flag_def)

lemma render_simps [simp]: "render [] = []" "render (i # is) = render_item i @ render is"
  by (simp_all add: render_def)

lemma text_args_render:
  "list_all well_formed_item is \<Longrightarrow> text_args False (render is) = item_words is"
  by (induction "is" rule: item_words.induct) (auto simp: json_is_flag)

lemma flag_value_render:
  assumes "list_all well_formed_item is" and "is_flag name" and "name \<noteq> ''--json''"
  shows "flag_value name (render is) = item_value name is"
  using assms(1)
proof (induction "is")
  case (Cons i "is")
  then show ?case using assms(2,3) by (cases i) auto
qed simp

lemma json_render:
  "list_all well_formed_item is \<Longrightarrow> ''--json'' \<in> set (render is) \<longleftrightarrow> JsonFlag \<in> set is"
proof (induction "is")
  case (Cons i "is")
  then show ?case using json_is_flag by (cases i) auto
qed simp

text \<open>
  A command line made of words, \<open>--json\<close> and flags with values, in any order,
  is read back as it was meant: the words in their order, and for each flag its first
  value (for words and values that do not start with two dashes).
\<close>

theorem arguments_read_back:
  assumes "list_all well_formed_item is"
  shows "op_words (cli_options_of (render is)) = item_words is \<and>
    op_model (cli_options_of (render is)) = item_value ''--model'' is \<and>
    op_classifier (cli_options_of (render is)) = (case item_value ''--classifier'' is of None \<Rightarrow> DEFAULT_CLASSIFIER | Some v \<Rightarrow> v) \<and>
    op_json (cli_options_of (render is)) = (JsonFlag \<in> set is)"
  using text_args_render [OF assms] flag_value_render [OF assms, of "''--model''"]
    flag_value_render [OF assms, of "''--classifier''"] json_render [OF assms]
  by (simp add: cli_options_of_def is_flag_def list_ex_iff)

theorem arguments_read_back_witness:
  "op_words (cli_options_of [''a'', ''--json'', ''--model'', ''m'', ''b'']) = [''a'', ''b''] \<and>
   op_model (cli_options_of [''a'', ''--json'', ''--model'', ''m'', ''b'']) = Some ''m''"
  using arguments_read_back [of "[Word ''a'', JsonFlag, ValueFlag ''--model'' ''m'', Word ''b'']"]
  by (simp add: is_flag_def)

section \<open>The table\<close>

lemma fround_range:
  assumes "0 \<le> x" and "x \<le> 24"
  shows "f64_as_u64 (fround (Fin x)) \<le> 24"
proof -
  have "\<lfloor>x + 1 / 2\<rfloor> \<le> 24" using assms(2) by linarith
  then have "nat \<lfloor>x + 1 / 2\<rfloor> \<le> nat 24" by (rule nat_mono)
  then have "nat \<lfloor>x + 1 / 2\<rfloor> \<le> 24" by (simp only: nat_numeral)
  then show ?thesis using assms(1) by (simp add: min.coboundedI1)
qed

lemma flt_clamp_unit:
  "flt_clamp (Fin 0) (Fin 1) a = NaN \<or> (\<exists>y. flt_clamp (Fin 0) (Fin 1) a = Fin y \<and> 0 \<le> y \<and> y \<le> 1)"
  by (cases a) (auto simp: flt_clamp_def flt_lt_def)

text \<open>
  No bar of the table is longer than 24 characters, whatever the scores; and of a ranking
  with a positive best score, the first bar has the full length.
\<close>

theorem bars_fit:
  "bar_length best s \<le> 24 \<and> (best = Fin x \<and> 0 < x \<longrightarrow> bar_length best best = 24)"
proof
  have r24: "round64 24 = Fin 24" using f64.rnd_nat [of 24] by simp
  define frac where "frac = (if flt_lt (Fin 0) best then flt_clamp (Fin 0) (Fin 1) (fdiv round64 s best) else Fin 0)"
  have bar: "bar_length best s = f64_as_u64 (fround (fmul round64 frac (Fin 24)))"
    by (simp add: bar_length_def frac_def Let_def)
  consider "frac = NaN" | y where "frac = Fin y" "0 \<le> y" "y \<le> 1"
    using flt_clamp_unit [of "fdiv round64 s best"] by (cases "flt_lt (Fin 0) best") (auto simp: frac_def)
  then show "bar_length best s \<le> 24"
  proof cases
    case 2
    then have "0 \<le> y * 24" "y * 24 \<le> real 24" by simp_all
    from f64.rnd_upto [OF this] obtain z where "round64 (y * 24) = Fin z" "0 \<le> z" "z \<le> 24" by auto
    with fround_range 2(1) show ?thesis by (simp add: bar)
  qed (simp add: bar)
  show "best = Fin x \<and> 0 < x \<longrightarrow> bar_length best best = 24"
    using r24 by (auto simp: bar_length_def flt_clamp_def Let_def)
qed

theorem bars_fit_witness: "bar_length (Fin 3) (Fin 3) = 24"
  using bars_fit [of "Fin 3" "Fin 3" 3] by simp

section \<open>The start of the server\<close>

definition DEFAULT_LISTEN :: string where "DEFAULT_LISTEN = ''0.0.0.0:50051''"

definition DEFAULT_MODEL_DIR :: string where "DEFAULT_MODEL_DIR = ''/models''"

datatype start_error = EmptyModelDir | NotReady string classify_error | BindFailed string

text \<open>
  \<open>load\<close> is \<open>load_and_warm_modelcar\<close> on the directory; \<open>bind\<close> opens the listener and
  changes the world \<open>'w\<close>. \<open>None\<close> is a panic while loading.
\<close>

definition server_main ::
  "string option \<Rightarrow> string option \<Rightarrow> (string \<Rightarrow> (classify_error + candle_classifier \<times> candle_counters \<times> metrics) option) \<Rightarrow>
     (string \<Rightarrow> candle_classifier \<Rightarrow> 'w \<Rightarrow> (string + unit) \<times> 'w) \<Rightarrow> 'w \<Rightarrow> (start_error + candle_classifier \<times> candle_counters \<times> metrics) option \<times> 'w" where
  "server_main listen_var dir_var load bind w =
     (let listen = (case listen_var of None \<Rightarrow> DEFAULT_LISTEN | Some l \<Rightarrow> l);
          dir = (case dir_var of None \<Rightarrow> DEFAULT_MODEL_DIR | Some d \<Rightarrow> d)
      in if trim dir = [] then (Some (Inl EmptyModelDir), w)
         else (case load dir of
                 None \<Rightarrow> (None, w)
               | Some (Inl e) \<Rightarrow> (Some (Inl (NotReady dir e)), w)
               | Some (Inr (cl, st)) \<Rightarrow>
                   (case bind listen cl w of
                      (Inl e, w') \<Rightarrow> (Some (Inl (BindFailed e)), w')
                    | (Inr _, w') \<Rightarrow> (Some (Inr (cl, st)), w'))))"

text \<open>The periodic line of the metrics thread: nothing when nothing was served since the last one.\<close>

definition log_interval :: "string option \<Rightarrow> nat" where
  "log_interval var = (case Option.bind var parse_usize of Some n \<Rightarrow> n | None \<Rightarrow> 30)"

record metrics_line =
  ml_served :: nat
  ml_hits :: nat
  ml_misses :: nat
  ml_coalesced :: nat
  ml_stages :: "(64 word option \<times> 64 word option) list"

definition metrics_log_step :: "metrics \<Rightarrow> nat \<Rightarrow> metrics_line option \<times> nat" where
  "metrics_log_step m last_total =
     (let served = ms_cache_hits m + ms_cache_misses m + ms_cache_coalesced m
      in if served = last_total then (None, last_total)
         else (Some \<lparr>ml_served = served, ml_hits = ms_cache_hits m, ml_misses = ms_cache_misses m,
                 ml_coalesced = ms_cache_coalesced m,
                 ml_stages = List.map (\<lambda>st. let p = stage_percentiles st m in (p50 p, p99 p))
                   [StageQueue, StageTokenize, StageForward, StageTotal]\<rparr>, served))"

text \<open>
  The server opens its listener only for a classifier that was loaded from the chosen
  directory, has all its files, and answered a warm-up forward; on any other outcome
  nothing is opened.
\<close>

theorem server_opens_only_when_warm:
  assumes "server_main listen_var dir_var (\<lambda>dir. load_and_warm_modelcar le disk hex fexp dir defn st0) bind w = (out, w')"
  shows "w' = w \<and> (\<forall>x. out \<noteq> Some (Inr x)) \<or>
    (\<exists>dir cl st r. dir = (case dir_var of None \<Rightarrow> DEFAULT_MODEL_DIR | Some d \<Rightarrow> d) \<and>
       load_and_warm_modelcar le disk hex fexp dir defn st0 = Some (Inr (cl, st)) \<and>
       runtime_classify (candle_runtime cl) warmup_input st0 = (Inr r, st) \<and>
       w' = snd (bind (case listen_var of None \<Rightarrow> DEFAULT_LISTEN | Some l \<Rightarrow> l) cl w))"
proof -
  define dir where "dir = (case dir_var of None \<Rightarrow> DEFAULT_MODEL_DIR | Some d \<Rightarrow> d)"
  show ?thesis
  proof (cases "trim dir = []")
    case True
    then show ?thesis using assms by (auto simp: server_main_def Let_def simp flip: dir_def)
  next
    case False
    show ?thesis
    proof (cases "load_and_warm_modelcar le disk hex fexp dir defn st0")
      case None
      then show ?thesis using assms False by (auto simp: server_main_def Let_def simp flip: dir_def)
    next
      case (Some res)
      show ?thesis
      proof (cases res)
        case (Inl e)
        then show ?thesis using assms False Some by (auto simp: server_main_def Let_def simp flip: dir_def)
      next
        case (Inr p)
        obtain cl st where p: "p = (cl, st)" by (cases p)
        have "\<exists>r. runtime_classify (candle_runtime cl) warmup_input st0 = (Inr r, st)"
          using Some Inr p by (auto simp: load_and_warm_modelcar_def Let_def split: sum.splits option.splits prod.splits)
        moreover have "w' = snd (bind (case listen_var of None \<Rightarrow> DEFAULT_LISTEN | Some l \<Rightarrow> l) cl w)"
          using assms False Some Inr p by (auto simp: server_main_def Let_def split: prod.splits sum.splits simp flip: dir_def)
        ultimately show ?thesis using Some Inr p unfolding dir_def by blast
      qed
    qed
  qed
qed

theorem server_opens_only_when_warm_witness:
  "\<exists>cl st. server_main None (Some ''/m'') (\<lambda>dir. load_and_warm_modelcar demo_bert_env (\<lambda>_. demo_dir) (\<lambda>b. ''h'') exp_ieee dir
        (Inr demo_definition) (\<lparr>tokenizer_calls = 0, forward_calls = 0\<rparr>, metrics_new))
      (\<lambda>addr cl opened. (Inr (), addr # opened)) [] = (Some (Inr (cl, st)), [DEFAULT_LISTEN]) \<and>
    (\<exists>r. runtime_classify (candle_runtime cl) warmup_input (\<lparr>tokenizer_calls = 0, forward_calls = 0\<rparr>, metrics_new) = (Inr r, st))"
proof -
  obtain cl st where load: "load_and_warm_modelcar demo_bert_env (\<lambda>_. demo_dir) (\<lambda>b. ''h'') exp_ieee ''/m'' (Inr demo_definition)
      (\<lparr>tokenizer_calls = 0, forward_calls = 0\<rparr>, metrics_new) = Some (Inr (cl, st))"
    using demo_warms by blast
  have "trim ''/m'' \<noteq> []" by (simp add: trim_start_id trim_end_id trim_def ws_at_def ws_end_def)
  then have run: "server_main None (Some ''/m'') (\<lambda>dir. load_and_warm_modelcar demo_bert_env (\<lambda>_. demo_dir) (\<lambda>b. ''h'') exp_ieee dir
        (Inr demo_definition) (\<lparr>tokenizer_calls = 0, forward_calls = 0\<rparr>, metrics_new))
      (\<lambda>addr cl opened. (Inr (), addr # opened)) [] = (Some (Inr (cl, st)), [DEFAULT_LISTEN])"
    by (simp add: server_main_def load)
  from server_opens_only_when_warm [OF run] load run show ?thesis by auto
qed

section \<open>The gateway probe\<close>

text \<open>The samples are microseconds, sorted; the result is in milliseconds.\<close>

definition probe_percentile :: "nat list \<Rightarrow> real \<Rightarrow> flt" where
  "probe_percentile xs q =
     (if xs = [] then Fin 0
      else (let i = f64_as_u64 (fround (fmul round64 (fsub round64 (nat_as_f64 (length xs)) (Fin 1)) (round64 q)))
            in fdiv round64 (nat_as_f64 (xs ! i)) (Fin 1000)))"

datatype probe_phase = ProbeWarm | ProbeMiss | ProbeHit

definition probe_text :: "probe_phase \<Rightarrow> nat \<Rightarrow> string" where
  "probe_text phase i =
     (case phase of
        ProbeWarm \<Rightarrow> ''warmup prompt '' @ show_nat i
      | ProbeMiss \<Rightarrow> ''distinct probe prompt '' @ show_nat i @ '' concerning an unrelated subject entirely''
      | ProbeHit \<Rightarrow> ''a single stable prompt served repeatedly from the result cache'')"

definition hit_warm_id :: string where "hit_warm_id = ''hit-warm''"

definition probe_id :: "probe_phase \<Rightarrow> nat \<Rightarrow> string" where
  "probe_id phase i =
     (case phase of ProbeWarm \<Rightarrow> ''warm-'' | ProbeMiss \<Rightarrow> ''miss-'' | ProbeHit \<Rightarrow> ''hit-'') @ show_nat i"

definition probe_request :: "string \<Rightarrow> string \<Rightarrow> classify_request" where
  "probe_request i t =
     \<lparr>rq_request_id = i, rq_session_id = ''probe-session'', rq_context = t, rq_signals = [], rq_completeness = 0\<rparr>"

definition probe_requests :: "probe_phase \<Rightarrow> nat \<Rightarrow> classify_request list" where
  "probe_requests phase n = List.map (\<lambda>i. probe_request (probe_id phase i) (probe_text phase i)) [0..<n]"

text \<open>
  A client answers a request with the response and the microseconds it took, or fails;
  \<open>None\<close> is the panic of \<open>expect\<close>, or of the assertion that a response is ranked.
\<close>

type_synonym 's probe_client = "classify_request \<Rightarrow> 's \<Rightarrow> (classify_response \<times> nat) option \<times> 's"

fun probe_calls :: "'s probe_client \<Rightarrow> bool \<Rightarrow> classify_request list \<Rightarrow> 's \<Rightarrow> nat list option \<times> 's" where
  "probe_calls call ranked [] s = (Some [], s)"
| "probe_calls call ranked (r # rs) s =
     (case call r s of
        (None, s1) \<Rightarrow> (None, s1)
      | (Some (resp, us), s1) \<Rightarrow>
          if ranked \<and> rp_ranked resp = [] then (None, s1)
          else (case probe_calls call ranked rs s1 of (samples, s2) \<Rightarrow> (map_option ((#) us) samples, s2)))"

record probe_stats =
  pb_p50 :: flt
  pb_p95 :: flt
  pb_p99 :: flt
  pb_max :: flt

definition probe_stats_of :: "nat list \<Rightarrow> probe_stats" where
  "probe_stats_of samples =
     (let xs = sort samples
      in \<lparr>pb_p50 = probe_percentile xs 0.50, pb_p95 = probe_percentile xs 0.95, pb_p99 = probe_percentile xs 0.99,
          pb_max = probe_percentile xs 1\<rparr>)"

definition probe_main :: "'s probe_client \<Rightarrow> nat \<Rightarrow> 's \<Rightarrow> (probe_stats \<times> probe_stats) option \<times> 's" where
  "probe_main call n s =
     (case probe_calls call False (probe_requests ProbeWarm 5) s of
        (None, s1) \<Rightarrow> (None, s1)
      | (Some _, s1) \<Rightarrow>
          (case probe_calls call True (probe_requests ProbeMiss n) s1 of
             (None, s2) \<Rightarrow> (None, s2)
           | (Some miss, s2) \<Rightarrow>
               (case probe_calls call False [probe_request hit_warm_id (probe_text ProbeHit 0)] s2 of
                  (None, s3) \<Rightarrow> (None, s3)
                | (Some _, s3) \<Rightarrow>
                    (case probe_calls call False (probe_requests ProbeHit n) s3 of
                       (hits, s4) \<Rightarrow> (map_option (\<lambda>hit. (probe_stats_of miss, probe_stats_of hit)) hits, s4)))))"

section \<open>What the probe sends\<close>

definition probe_texts :: "nat \<Rightarrow> string list" where
  "probe_texts samples =
     List.map (probe_text ProbeWarm) [0..<5] @ List.map (probe_text ProbeMiss) [0..<samples] @
     replicate (samples + 1) (probe_text ProbeHit 0)"

text \<open>A client that keeps what it was sent.\<close>

definition recorded :: "(classify_request \<Rightarrow> classify_request list \<Rightarrow> (classify_response \<times> nat) option) \<Rightarrow> classify_request list probe_client" where
  "recorded answer r sent = (answer r sent, sent @ [r])"

lemma probe_calls_Cons:
  "probe_calls (recorded answer) ranked (r # rs) sent =
     (case answer r sent of
        None \<Rightarrow> (None, sent @ [r])
      | Some (resp, us) \<Rightarrow>
          if ranked \<and> rp_ranked resp = [] then (None, sent @ [r])
          else map_prod (map_option ((#) us)) id (probe_calls (recorded answer) ranked rs (sent @ [r])))"
  by (auto simp: recorded_def map_prod_def split: option.split prod.split)

lemma probe_calls_sent:
  "probe_calls (recorded answer) ranked rs sent = (out, sent') \<Longrightarrow>
     \<exists>k\<le>length rs. sent' = sent @ take k rs \<and> (out \<noteq> None \<longrightarrow> k = length rs)"
proof (induction rs arbitrary: sent out sent')
  case (Cons r rs)
  obtain samples sent2 where rest: "probe_calls (recorded answer) ranked rs (sent @ [r]) = (samples, sent2)" by fastforce
  from Cons.prems consider "out = None" "sent' = sent @ [r]" | us where "out = map_option ((#) us) samples" "sent' = sent2"
    unfolding probe_calls_Cons rest by (auto split: option.splits if_splits)
  then show ?case
  proof cases
    case 1
    then show ?thesis by (intro exI [of _ 1]) simp
  next
    case 2
    from Cons.IH [OF rest] obtain k where "k \<le> length rs" "sent2 = (sent @ [r]) @ take k rs" "samples \<noteq> None \<longrightarrow> k = length rs"
      by blast
    then show ?thesis using 2 by (intro exI [of _ "Suc k"]) simp
  qed
qed simp

lemma probe_miss_inject: "probe_text ProbeMiss i = probe_text ProbeMiss j \<longleftrightarrow> i = j"
proof
  assume "probe_text ProbeMiss i = probe_text ProbeMiss j"
  then have "show_nat i @ CHR '' '' # ''concerning an unrelated subject entirely'' = show_nat j @ CHR '' '' # ''concerning an unrelated subject entirely''"
    by (simp add: probe_text_def)
  then show "i = j" by simp
qed simp

lemma probe_texts_miss:
  assumes "i < samples"
  shows "probe_texts samples ! (5 + i) = probe_text ProbeMiss i" and "probe_text ProbeMiss i \<notin> set (take (5 + i) (probe_texts samples))"
proof -
  have t: "take (5 + i) (probe_texts samples) = List.map (probe_text ProbeWarm) [0..<5] @ List.map (probe_text ProbeMiss) [0..<i]"
    using assms by (simp add: probe_texts_def take_map take_upt)
  have "probe_text ProbeMiss i \<noteq> probe_text ProbeWarm j" for j by (simp add: probe_text_def)
  then show "probe_text ProbeMiss i \<notin> set (take (5 + i) (probe_texts samples))"
    unfolding t by (auto simp: probe_miss_inject)
  show "probe_texts samples ! (5 + i) = probe_text ProbeMiss i"
    using assms by (simp add: probe_texts_def nth_append)
qed

lemma probe_requests_texts:
  "List.map rq_context (probe_requests ProbeWarm 5 @ probe_requests ProbeMiss n @
     probe_request hit_warm_id (probe_text ProbeHit 0) # probe_requests ProbeHit n) = probe_texts n"
proof -
  have "List.map (\<lambda>i. probe_text ProbeHit i) [0..<n] = replicate n (probe_text ProbeHit 0)"
    by (simp add: probe_text_def map_replicate_const)
  then show ?thesis by (simp add: probe_requests_def probe_request_def probe_texts_def comp_def)
qed

lemma probe_main_sent:
  assumes "probe_main (recorded answer) n [] = (out, sent)"
  shows "\<exists>k. sent = take k (probe_requests ProbeWarm 5 @ probe_requests ProbeMiss n @
     probe_request hit_warm_id (probe_text ProbeHit 0) # probe_requests ProbeHit n)"
    (is "\<exists>k. sent = take k (?w @ ?m @ ?h # ?hs)")
proof -
  obtain o1 s1 where 1: "probe_calls (recorded answer) False ?w [] = (o1, s1)" by fastforce
  obtain o2 s2 where 2: "probe_calls (recorded answer) True ?m s1 = (o2, s2)" by fastforce
  obtain o3 s3 where 3: "probe_calls (recorded answer) False [?h] s2 = (o3, s3)" by fastforce
  obtain o4 s4 where 4: "probe_calls (recorded answer) False ?hs s3 = (o4, s4)" by fastforce
  obtain k1 where k1: "k1 \<le> length ?w" "s1 = take k1 ?w" "o1 \<noteq> None \<longrightarrow> k1 = length ?w" using probe_calls_sent [OF 1] by auto
  obtain k2 where k2: "k2 \<le> length ?m" "s2 = s1 @ take k2 ?m" "o2 \<noteq> None \<longrightarrow> k2 = length ?m" using probe_calls_sent [OF 2] by auto
  obtain k3 where k3: "k3 \<le> 1" "s3 = s2 @ take k3 [?h]" "o3 \<noteq> None \<longrightarrow> k3 = 1" using probe_calls_sent [OF 3] by auto
  obtain k4 where k4: "k4 \<le> length ?hs" "s4 = s3 @ take k4 ?hs" using probe_calls_sent [OF 4] by auto
  consider "o1 = None" "sent = s1" | "o1 \<noteq> None" "o2 = None" "sent = s2" | "o1 \<noteq> None" "o2 \<noteq> None" "o3 = None" "sent = s3"
    | "o1 \<noteq> None" "o2 \<noteq> None" "o3 \<noteq> None" "sent = s4"
    using assms 1 2 3 4 unfolding probe_main_def by (auto split: option.splits)
  then show ?thesis
  proof cases
    case 1
    then show ?thesis using k1 by (intro exI [of _ k1]) simp
  next
    case 2
    then show ?thesis using k1 k2 by (intro exI [of _ "length ?w + k2"]) simp
  next
    case 3
    then show ?thesis using k1 k2 k3 by (intro exI [of _ "length ?w + length ?m + k3"]) (cases k3; simp)
  next
    case 4
    then show ?thesis using k1 k2 k3 k4 by (intro exI [of _ "length ?w + length ?m + Suc k4"]) simp
  qed
qed

text \<open>
  Whatever the service answers, the texts the probe sends are a prefix of the warm-up
  texts, the miss texts and the hit text, and no miss text was sent before in the run: no
  request of the miss phase can be answered from what the run itself has cached.
\<close>

theorem probe_misses_are_new:
  assumes "probe_main (recorded answer) samples [] = (out, sent)" and "i < samples" and "5 + i < length sent"
  shows "List.map rq_context sent = take (length sent) (probe_texts samples) \<and>
    rq_context (sent ! (5 + i)) = probe_text ProbeMiss i \<and> probe_text ProbeMiss i \<notin> rq_context ` set (take (5 + i) sent)"
proof -
  from probe_main_sent [OF assms(1)] obtain k where k: "List.map rq_context sent = take k (probe_texts samples)"
    by (metis take_map probe_requests_texts)
  then have len: "List.map rq_context sent = take (length sent) (probe_texts samples)"
    by (metis append_eq_conv_conj append_take_drop_id length_map)
  have "rq_context (sent ! (5 + i)) = probe_texts samples ! (5 + i)"
    using assms(3) arg_cong [OF len, of "\<lambda>xs. xs ! (5 + i)"] by simp
  moreover have "rq_context ` set (take (5 + i) sent) = set (take (5 + i) (probe_texts samples))"
    using assms(3) arg_cong [OF len, of "\<lambda>xs. set (take (5 + i) xs)"] by (simp add: take_map min_def)
  ultimately show ?thesis using len probe_texts_miss [OF assms(2)] by simp
qed

definition demo_answer :: "classify_request \<Rightarrow> classify_request list \<Rightarrow> (classify_response \<times> nat) option" where
  "demo_answer r sent = (if length sent < 6 then Some
     (\<lparr>rp_request_id = rq_request_id r, rp_classifier_id = [], rp_model_revision = [], rp_tokenizer_revision = [],
       rp_taxonomy_revision = [], rp_status = 1, rp_ranked = [\<lparr>ws_label = ''a'', ws_score = Fin 1\<rparr>]\<rparr>, 3) else None)"

theorem probe_misses_are_new_witness:
  "\<exists>sent. probe_main (recorded demo_answer) 2 [] = (None, sent) \<and> length sent = 7 \<and>
     rq_context (sent ! 6) = probe_text ProbeMiss 1 \<and> probe_text ProbeMiss 1 \<notin> rq_context ` set (take 6 sent)"
proof -
  obtain sent where run: "probe_main (recorded demo_answer) 2 [] = (None, sent)" and len: "length sent = 7"
    by (simp add: probe_main_def probe_requests_def upt_rec probe_calls_Cons demo_answer_def del: probe_calls.simps(2))
  from probe_misses_are_new [OF run, of 1] len run show ?thesis by auto
qed

end
