(* ===== verification/EvalClassifier.thy ===== *)
theory EvalClassifier
  imports Head RoundError Programs
begin

text \<open>
  The offline evaluation \<open>src/src/bin/eval-classifier.rs\<close> of a classifier definition on a
  labelled dataset: the single-precision scores, the prediction with its confidence, the
  counts, the metrics per label and the report. The embedder is a parameter (\<open>None\<close> when it
  fails), and so are JSON, the files and the clock; a result of \<open>None\<close> is a panic. The layout
  of the printed tables is not modelled.
\<close>

section \<open>Scores\<close>

definition nat_as_f32 :: "nat \<Rightarrow> flt" where
  "nat_as_f32 n = round32 (real n)"

definition norm32 :: "flt list \<Rightarrow> flt" where
  "norm32 a = fsqrt round32 (fsum round32 (List.map (\<lambda>x. fmul round32 x x) a))"

definition eval_cosine :: "flt list \<Rightarrow> flt list \<Rightarrow> flt" where
  "eval_cosine a b =
     (let dot = fsum round32 (List.map (\<lambda>(x, y). fmul round32 x y) (zip a b)); na = norm32 a; nb = norm32 b
      in if flt_eq na (Fin 0) \<or> flt_eq nb (Fin 0) then Fin 0 else fdiv round32 dot (fmul round32 na nb))"

text \<open>
  Sorting by descending key with \<open>partial_cmp(..).unwrap()\<close>: it panics on a NaN, unless
  there is nothing to compare.
\<close>

definition sort_desc :: "('a \<Rightarrow> flt) \<Rightarrow> 'a list \<Rightarrow> 'a list option" where
  "sort_desc key xs =
     (if length xs \<le> 1 \<or> list_all (\<lambda>x. key x \<noteq> NaN) xs
      then Some (stable_sort (\<lambda>a b. partial_or_equal (key b) (key a)) xs) else None)"

definition eval_label_score :: "nat \<Rightarrow> flt list \<Rightarrow> flt list list \<Rightarrow> flt option" where
  "eval_label_score top_k emb vecs =
     (case sort_desc (\<lambda>x. x) (List.map (eval_cosine emb) vecs) of
        None \<Rightarrow> None
      | Some sims \<Rightarrow>
          (let k = min top_k (length sims)
           in Some (fdiv round32 (fsum round32 (take k sims)) (nat_as_f32 k))))"

definition F32_MIN :: flt where "F32_MIN = Fin (- ((2 - 1 / 2 ^ 23) * 2 ^ 127))"

text \<open>The predicted label and the softmax confidence in it.\<close>

definition eval_predict :: "(flt \<Rightarrow> flt) \<Rightarrow> nat \<Rightarrow> (string \<times> flt list list) list \<Rightarrow> flt list \<Rightarrow> (string \<times> flt) option" where
  "eval_predict fexp top_k anchors emb =
     (case collect_opt (List.map (\<lambda>(l, vecs). map_option (Pair l) (eval_label_score top_k emb vecs)) anchors) of
        None \<Rightarrow> None
      | Some scores \<Rightarrow>
          (case sort_desc snd scores of
             None \<Rightarrow> None
           | Some ranked \<Rightarrow>
               (let mx = foldl fmax F32_MIN (List.map snd ranked);
                    exps = List.map (\<lambda>s. fexp (fsub round32 (snd s) mx)) ranked
                in case ranked of
                     [] \<Rightarrow> None
                   | best # rest \<Rightarrow> Some (fst best, fdiv round32 (hd exps) (fsum round32 exps)))))"

section \<open>The dataset\<close>

record eval_item =
  ei_text :: string
  ei_truth :: string
  ei_hard :: bool

definition eval_item_of :: "'j json_ops \<Rightarrow> 'j \<Rightarrow> eval_item option" where
  "eval_item_of js v =
     (case (Option.bind (js_get js v ''text'') (js_str js), Option.bind (js_get js v ''tier'') (js_str js)) of
        (Some t, Some truth) \<Rightarrow>
          Some \<lparr>ei_text = t, ei_truth = truth,
                ei_hard = (case Option.bind (js_get js v ''hard'') (js_bool js) of None \<Rightarrow> False | Some h \<Rightarrow> h)\<rparr>
      | _ \<Rightarrow> None)"

section \<open>Counting\<close>

text \<open>The confusion counts are zero where nothing was counted.\<close>

record eval_state =
  ev_confusion :: "string \<times> string \<Rightarrow> nat"
  ev_correct :: nat
  ev_hard_total :: nat
  ev_hard_correct :: nat
  ev_errors :: "(string \<times> string \<times> string \<times> flt) list"
  ev_confidences :: "(flt \<times> bool) list"

definition eval_start :: eval_state where
  "eval_start = \<lparr>ev_confusion = (\<lambda>_. 0), ev_correct = 0, ev_hard_total = 0, ev_hard_correct = 0, ev_errors = [], ev_confidences = []\<rparr>"

definition eval_count :: "eval_item \<Rightarrow> string \<times> flt \<Rightarrow> eval_state \<Rightarrow> eval_state" where
  "eval_count i p s =
     (let (pred, conf) = p; ok = (pred = ei_truth i); key = (ei_truth i, pred)
      in \<lparr>ev_confusion = (ev_confusion s)(key := ev_confusion s key + 1),
          ev_correct = (if ok then ev_correct s + 1 else ev_correct s),
          ev_hard_total = (if ei_hard i then ev_hard_total s + 1 else ev_hard_total s),
          ev_hard_correct = (if ei_hard i \<and> ok then ev_hard_correct s + 1 else ev_hard_correct s),
          ev_errors = (if ok then ev_errors s else ev_errors s @ [(ei_text i, ei_truth i, pred, conf)]),
          ev_confidences = ev_confidences s @ [(conf, ok)]\<rparr>)"

fun eval_items ::
  "(flt \<Rightarrow> flt) \<Rightarrow> (string \<Rightarrow> flt list option) \<Rightarrow> nat \<Rightarrow> (string \<times> flt list list) list \<Rightarrow> eval_item list \<Rightarrow> eval_state \<Rightarrow> eval_state option" where
  "eval_items fexp model top_k anchors [] s = Some s"
| "eval_items fexp model top_k anchors (i # is) s =
     (case Option.bind (model (ei_text i)) (eval_predict fexp top_k anchors) of
        None \<Rightarrow> None
      | Some p \<Rightarrow> eval_items fexp model top_k anchors is (eval_count i p s))"

section \<open>Metrics and report\<close>

record label_metrics =
  lm_precision :: flt
  lm_recall :: flt
  lm_f1 :: flt
  lm_support :: nat

definition label_metrics_of :: "string list \<Rightarrow> (string \<times> string \<Rightarrow> nat) \<Rightarrow> string \<Rightarrow> label_metrics" where
  "label_metrics_of labels conf l =
     (let tp = nat_as_f64 (conf (l, l));
          fp = fsub round64 (fsum round64 (List.map (\<lambda>t. nat_as_f64 (conf (t, l))) labels)) tp;
          fneg = fsub round64 (fsum round64 (List.map (\<lambda>p. nat_as_f64 (conf (l, p))) labels)) tp;
          tpfp = fadd round64 tp fp; tpfn = fadd round64 tp fneg;
          p = (if flt_lt (Fin 0) tpfp then fdiv round64 tp tpfp else Fin 0);
          r = (if flt_lt (Fin 0) tpfn then fdiv round64 tp tpfn else Fin 0);
          pr = fadd round64 p r;
          f1 = (if flt_lt (Fin 0) pr then fdiv round64 (fmul round64 (fmul round64 (Fin 2) p) r) pr else Fin 0)
      in \<lparr>lm_precision = p, lm_recall = r, lm_f1 = f1, lm_support = f64_as_u64 tpfn\<rparr>)"

definition macro_f1 :: "string list \<Rightarrow> (string \<times> string \<Rightarrow> nat) \<Rightarrow> flt" where
  "macro_f1 labels conf =
     fdiv round64 (fsum round64 (List.map (\<lambda>l. lm_f1 (label_metrics_of labels conf l)) labels)) (nat_as_f64 (length labels))"

text \<open>\<open>&s[..s.len().min(n)]\<close>: the index may fall inside a character.\<close>

definition excerpt :: "nat \<Rightarrow> string \<Rightarrow> string option" where
  "excerpt n s = (let k = min (length s) n in if is_char_boundary s k then Some (take k s) else None)"

record eval_report =
  er_n :: nat
  er_accuracy :: flt
  er_macro_f1 :: flt
  er_hard_accuracy :: flt
  er_p50_ms :: flt
  er_p99_ms :: flt
  er_confusion :: "nat list list"

text \<open>
  What is printed and written after the last item; \<open>latencies\<close> are the microseconds of the
  items. The tables print an excerpt of every label and of the first 25 misclassified texts.
\<close>

definition eval_report_of :: "string list \<Rightarrow> nat list \<Rightarrow> eval_state \<Rightarrow> eval_report option" where
  "eval_report_of labels latencies s =
     (let n = length latencies; xs = sort latencies
      in if list_all (\<lambda>l. excerpt 12 l \<noteq> None) labels \<and> n \<noteq> 0 \<and>
            list_all (\<lambda>(t, _). excerpt 72 t \<noteq> None) (take 25 (ev_errors s))
         then Some
           \<lparr>er_n = n, er_accuracy = fdiv round64 (nat_as_f64 (ev_correct s)) (nat_as_f64 n),
            er_macro_f1 = macro_f1 labels (ev_confusion s),
            er_hard_accuracy = (if 0 < ev_hard_total s
              then fdiv round64 (nat_as_f64 (ev_hard_correct s)) (nat_as_f64 (ev_hard_total s)) else Fin 0),
            er_p50_ms = fdiv round64 (nat_as_f64 (xs ! (n div 2))) (Fin 1000),
            er_p99_ms = fdiv round64 (nat_as_f64 (xs ! (f64_as_u64 (fmul round64 (nat_as_f64 n) (round64 0.99)) mod n))) (Fin 1000),
            er_confusion = List.map (\<lambda>t. List.map (\<lambda>p. ev_confusion s (t, p)) labels) labels\<rparr>
         else None)"

section \<open>The program\<close>

definition eval_arg :: "string list \<Rightarrow> string \<Rightarrow> string option \<Rightarrow> string option" where
  "eval_arg argv name default_value = (case flag_value name argv of Some v \<Rightarrow> Some v | None \<Rightarrow> default_value)"

definition eval_labels :: "'j json_ops \<Rightarrow> 'j \<Rightarrow> string list option" where
  "eval_labels js d = Option.bind (Option.bind (js_get js d ''labels'') (js_array js)) (\<lambda>vs. collect_opt (List.map (js_str js) vs))"

definition eval_top_k :: "'j json_ops \<Rightarrow> 'j \<Rightarrow> nat" where
  "eval_top_k js d = (case Option.bind (js_get js d ''top_k'') (js_u64 js) of None \<Rightarrow> 3 | Some k \<Rightarrow> k)"

definition eval_anchors :: "'j json_ops \<Rightarrow> 'j \<Rightarrow> (string \<Rightarrow> flt list option) \<Rightarrow> string \<Rightarrow> (string \<times> flt list list) option" where
  "eval_anchors js d model l =
     map_option (Pair l)
       (Option.bind (Option.bind (Option.bind (js_get js d ''anchors'') (\<lambda>v. js_get js v l)) (js_array js))
          (\<lambda>ts. collect_opt (List.map (\<lambda>t. Option.bind (js_str js t) model) ts)))"

definition eval_dataset :: "'j json_ops \<Rightarrow> string list \<Rightarrow> eval_item list option" where
  "eval_dataset js lines =
     Option.bind (collect_opt (List.map (parsed js) (filter (\<lambda>l. trim l \<noteq> []) lines)))
       (\<lambda>vs. collect_opt (List.map (eval_item_of js) vs))"

text \<open>
  The files are \<open>None\<close> when they cannot be read, the dataset is its lines, the embedder is
  \<open>None\<close> when it does not load.
\<close>

definition eval_main ::
  "'j json_ops \<Rightarrow> (flt \<Rightarrow> flt) \<Rightarrow> string option \<Rightarrow> (string \<Rightarrow> flt list option) option \<Rightarrow> string list option \<Rightarrow> nat list \<Rightarrow> eval_report option" where
  "eval_main js fexp def_file embedder data_file latencies =
     Option.bind (Option.bind def_file (parsed js)) (\<lambda>d.
     Option.bind (eval_labels js d) (\<lambda>labels.
     Option.bind embedder (\<lambda>model.
     Option.bind (collect_opt (List.map (eval_anchors js d model) labels)) (\<lambda>anchors.
     Option.bind (Option.bind data_file (eval_dataset js)) (\<lambda>is.
     Option.bind (eval_items fexp model (eval_top_k js d) anchors is eval_start) (\<lambda>s.
     eval_report_of labels latencies s))))))"

section \<open>The counts\<close>

lemma sum_fun_upd_Suc:
  assumes "finite A" and "a \<in> A"
  shows "(\<Sum>x\<in>A. (f(a := Suc (f a))) x) = Suc (\<Sum>x\<in>A. f x)"
proof -
  have "(\<Sum>x\<in>A. (f(a := Suc (f a))) x) = Suc (f a) + (\<Sum>x\<in>A - {a}. (f(a := Suc (f a))) x)"
    using sum.remove [OF assms, of "f(a := Suc (f a))"] by simp
  also have "(\<Sum>x\<in>A - {a}. (f(a := Suc (f a))) x) = (\<Sum>x\<in>A - {a}. f x)" by (rule sum.cong) auto
  also have "Suc (f a) + (\<Sum>x\<in>A - {a}. f x) = Suc (\<Sum>x\<in>A. f x)"
    using sum.remove [OF assms, of f] by simp
  finally show ?thesis .
qed

lemma eval_predict_label:
  assumes "eval_predict fexp top_k anchors emb = Some (l, c)"
  shows "l \<in> fst ` set anchors"
proof -
  have "collect_opt (List.map (\<lambda>(l, vecs). map_option (Pair l) (g vecs)) as) = Some ss \<Longrightarrow> List.map fst ss = List.map fst as"
    for g as and ss :: "(string \<times> flt) list"
  proof (induction as arbitrary: ss)
    case (Cons a as)
    then show ?case by (cases a; cases "g (snd a)") auto
  qed simp
  moreover obtain scores where sc:
    "collect_opt (List.map (\<lambda>(l, vecs). map_option (Pair l) (eval_label_score top_k emb vecs)) anchors) = Some scores"
    using assms by (auto simp: eval_predict_def split: option.splits)
  ultimately have "List.map fst scores = List.map fst anchors" by blast
  moreover obtain ranked where ranked: "sort_desc snd scores = Some ranked"
    using assms sc by (auto simp: eval_predict_def split: option.splits)
  moreover have "l \<in> fst ` set ranked"
    using assms sc ranked by (cases ranked) (auto simp: eval_predict_def Let_def)
  moreover have "set ranked = set scores" using ranked by (auto simp: sort_desc_def split: if_splits)
  ultimately show ?thesis by (metis list.set_map)
qed

definition eval_inv :: "string set \<Rightarrow> string set \<Rightarrow> nat \<Rightarrow> eval_state \<Rightarrow> bool" where
  "eval_inv truths labels n s \<longleftrightarrow>
     (\<Sum>k\<in>truths \<times> labels. ev_confusion s k) = n \<and>
     (\<Sum>l\<in>truths \<inter> labels. ev_confusion s (l, l)) = ev_correct s \<and>
     ev_correct s + length (ev_errors s) = n \<and> ev_hard_correct s \<le> ev_hard_total s \<and> ev_hard_total s \<le> n \<and>
     length (ev_confidences s) = n"

lemma eval_inv_count:
  assumes inv: "eval_inv truths labels n s" and fin: "finite truths" "finite labels"
    and mem: "ei_truth i \<in> truths" "pred \<in> labels"
  shows "eval_inv truths labels (Suc n) (eval_count i (pred, conf) s)"
proof -
  define key where "key = (ei_truth i, pred)"
  define f where "f = ev_confusion s"
  have total: "(\<Sum>k\<in>truths \<times> labels. (f(key := Suc (f key))) k) = Suc (\<Sum>k\<in>truths \<times> labels. f k)"
    by (rule sum_fun_upd_Suc) (use fin mem in \<open>simp_all add: key_def\<close>)
  have diag: "(\<Sum>l\<in>truths \<inter> labels. (f(key := Suc (f key))) (l, l)) =
      (if pred = ei_truth i then Suc (\<Sum>l\<in>truths \<inter> labels. f (l, l)) else (\<Sum>l\<in>truths \<inter> labels. f (l, l)))"
  proof (cases "pred = ei_truth i")
    case True
    define g where "g l = f (l, l)" for l
    have "(\<lambda>l. (f(key := Suc (f key))) (l, l)) = g(pred := Suc (g pred))"
      by (rule ext) (simp add: key_def g_def True)
    then have "(\<Sum>l\<in>truths \<inter> labels. (f(key := Suc (f key))) (l, l)) = (\<Sum>l\<in>truths \<inter> labels. (g(pred := Suc (g pred))) l)" by (simp only:)
    also have "\<dots> = Suc (\<Sum>l\<in>truths \<inter> labels. g l)"
      by (rule sum_fun_upd_Suc) (use fin mem True in simp_all)
    finally show ?thesis using True by (simp add: g_def)
  next
    case False
    then have "(f(key := Suc (f key))) (l, l) = f (l, l)" for l by (auto simp: key_def)
    with False show ?thesis by simp
  qed
  show ?thesis
    using inv total diag unfolding eval_inv_def
    by (simp add: eval_count_def Let_def f_def key_def)
qed

lemma eval_items_inv:
  assumes "eval_items fexp model top_k anchors is s = Some s'" and "eval_inv truths (fst ` set anchors) n s"
    and "finite truths" and "ei_truth ` set is \<subseteq> truths"
  shows "eval_inv truths (fst ` set anchors) (n + length is) s'"
  using assms(1,2,4)
proof (induction "is" arbitrary: n s)
  case (Cons i "is")
  obtain pred conf where p: "Option.bind (model (ei_text i)) (eval_predict fexp top_k anchors) = Some (pred, conf)"
    "eval_items fexp model top_k anchors is (eval_count i (pred, conf) s) = Some s'"
    using Cons.prems(1) by (auto split: option.splits)
  have "pred \<in> fst ` set anchors" using p(1) eval_predict_label by (auto simp: bind_eq_Some_conv)
  with Cons.prems(2,3) have "eval_inv truths (fst ` set anchors) (Suc n) (eval_count i (pred, conf) s)"
    by (intro eval_inv_count) (use assms(3) in simp_all)
  from Cons.IH [OF p(2) this] Cons.prems(3) show ?case by simp
qed simp

text \<open>
  When every item has been evaluated, the confusion counts add up to the dataset, its
  diagonal to the correct items, and every item is either correct or listed as an error;
  each predicted label is one of the classifier's, whatever the dataset declares.
\<close>

theorem evaluation_counts_every_item:
  assumes "eval_items fexp model top_k anchors is eval_start = Some s"
  shows "(\<Sum>k\<in>ei_truth ` set is \<times> fst ` set anchors. ev_confusion s k) = length is \<and>
    (\<Sum>l\<in>ei_truth ` set is \<inter> fst ` set anchors. ev_confusion s (l, l)) = ev_correct s \<and>
    ev_correct s + length (ev_errors s) = length is \<and>
    ev_hard_correct s \<le> ev_hard_total s \<and> ev_hard_total s \<le> length is \<and> length (ev_confidences s) = length is"
proof -
  have "eval_inv (ei_truth ` set is) (fst ` set anchors) 0 eval_start" by (simp add: eval_inv_def eval_start_def)
  from eval_items_inv [OF assms this] show ?thesis by (simp add: eval_inv_def)
qed

section \<open>The metrics\<close>

lemma fsum_nats:
  assumes "sum_list ns \<le> 2 ^ 53"
  shows "fsum round64 (List.map nat_as_f64 ns) = Fin (real (sum_list ns))"
  using assms
proof (induction ns rule: rev_induct)
  case (snoc n ns)
  then have "sum_list ns \<le> 2 ^ 53" "n \<le> 2 ^ 53" "sum_list ns + n \<le> 2 ^ 53" by simp_all
  with snoc.IH f64.rnd_nat [of "sum_list ns + n"] f64.rnd_nat [of n] show ?case by (simp add: fsum_def nat_as_f64_def)
qed (simp add: fsum_def)

definition column :: "string list \<Rightarrow> (string \<times> string \<Rightarrow> nat) \<Rightarrow> string \<Rightarrow> nat" where
  "column labels conf l = (\<Sum>t\<leftarrow>labels. conf (t, l))"

definition row :: "string list \<Rightarrow> (string \<times> string \<Rightarrow> nat) \<Rightarrow> string \<Rightarrow> nat" where
  "row labels conf l = (\<Sum>p\<leftarrow>labels. conf (l, p))"

lemma ratio_of_counts:
  assumes "sum_list (List.map f labels) = num" and "num \<le> 2 ^ 53" and "l \<in> set labels"
  defines "other \<equiv> fsub round64 (fsum round64 (List.map (\<lambda>x. nat_as_f64 (f x)) labels)) (nat_as_f64 (f l))"
  shows "fadd round64 (nat_as_f64 (f l)) other = Fin (real num)" and "f l \<le> num"
proof -
  show le: "f l \<le> num" using assms(1,3) member_le_sum_list [of "f l" "List.map f labels"] by auto
  have "fsum round64 (List.map (\<lambda>x. nat_as_f64 (f x)) labels) = Fin (real num)"
    using fsum_nats [of "List.map f labels"] assms(1,2) by (simp add: comp_def)
  moreover have a: "nat_as_f64 (f l) = Fin (real (f l))" using le assms(2) by (simp add: nat_as_f64_def f64.rnd_nat)
  moreover have "round64 (real num - real (f l)) = Fin (real num - real (f l))"
    using f64.rnd_nat [of "num - f l"] le assms(2) by (simp add: of_nat_diff)
  ultimately have "other = Fin (real num - real (f l))" by (simp add: other_def fsub_def)
  with a f64.rnd_nat [OF assms(2)] show "fadd round64 (nat_as_f64 (f l)) other = Fin (real num)" by simp
qed

lemma f1_unit:
  assumes p: "round64 x = Fin p" "0 \<le> x" "0 \<le> p" "p \<le> 1" and r: "0 \<le> r" "r \<le> 1"
  defines "pr \<equiv> fadd round64 (Fin p) (Fin r)"
  shows "\<exists>z. (if flt_lt (Fin 0) pr then fdiv round64 (fmul round64 (fmul round64 (Fin 2) (Fin p)) (Fin r)) pr else Fin 0) = Fin z
    \<and> 0 \<le> z \<and> z \<le> 1"
proof -
  have two: "fmul round64 (Fin 2) (Fin p) = Fin (2 * p)" using round64_double [OF p(1,2,4)] by simp
  have "p * r \<le> p" "p * r \<le> r" using p(3,4) r by (simp_all add: mult_left_le mult_left_le_one_le)
  then have "2 * p * r \<le> p + r" by linarith
  from f64.rnd_mono [OF this] have le: "flt_le (round64 (2 * p * r)) (round64 (p + r))" .
  have "0 \<le> p + r" "p + r \<le> real 2" using p(3,4) r by simp_all
  from f64.rnd_upto [OF this] obtain v where v: "round64 (p + r) = Fin v" by auto
  have "flt_le (Fin 0) (round64 (2 * p * r))" using p(3) r(1) by (intro f64.rnd_nonneg) simp
  with le v obtain u where u: "round64 (2 * p * r) = Fin u" "0 \<le> u" "u \<le> v" by (auto dest: flt_le_betweenD)
  show ?thesis
  proof (cases "0 < v")
    case True
    then have "0 \<le> u / v" "u / v \<le> 1" using u by (simp_all add: divide_le_eq)
    from f64.rnd_unit [OF this] show ?thesis using True u(1) v two by (auto simp: pr_def)
  qed (simp add: pr_def v)
qed

text \<open>
  For a declared label precision and recall are the correctly rounded ratios of the counts
  (0 when nothing was predicted, or nothing is to be found), the support is exact, and the
  F1 score is between 0 and 1, for up to \<open>2 ^ 53\<close> items.
\<close>

theorem metrics_are_rounded_ratios:
  assumes "l \<in> set labels" and "column labels conf l \<le> 2 ^ 53" and "row labels conf l \<le> 2 ^ 53"
  shows "lm_precision (label_metrics_of labels conf l) =
      (if column labels conf l = 0 then Fin 0 else round64 (real (conf (l, l)) / real (column labels conf l))) \<and>
    lm_recall (label_metrics_of labels conf l) =
      (if row labels conf l = 0 then Fin 0 else round64 (real (conf (l, l)) / real (row labels conf l))) \<and>
    lm_support (label_metrics_of labels conf l) = row labels conf l \<and>
    (\<exists>z. lm_f1 (label_metrics_of labels conf l) = Fin z \<and> 0 \<le> z \<and> z \<le> 1)"
proof -
  define a where "a = conf (l, l)"
  define c where "c = column labels conf l"
  define w where "w = row labels conf l"
  note col = ratio_of_counts [of "\<lambda>t. conf (t, l)" labels c l, OF _ _ assms(1)]
  note rw = ratio_of_counts [of "\<lambda>p. conf (l, p)" labels w l, OF _ _ assms(1)]
  have c: "fadd round64 (nat_as_f64 a) (fsub round64 (fsum round64 (List.map (\<lambda>t. nat_as_f64 (conf (t, l))) labels)) (nat_as_f64 a)) = Fin (real c)"
    "a \<le> c" using col assms(2) by (simp_all add: a_def c_def column_def)
  have w: "fadd round64 (nat_as_f64 a) (fsub round64 (fsum round64 (List.map (\<lambda>p. nat_as_f64 (conf (l, p))) labels)) (nat_as_f64 a)) = Fin (real w)"
    "a \<le> w" using rw assms(3) by (simp_all add: a_def w_def row_def)
  have a: "nat_as_f64 a = Fin (real a)" using c(2) assms(2) by (simp add: nat_as_f64_def f64.rnd_nat c_def)
  define p where "p = (if c = 0 then Fin 0 else round64 (real a / real c))"
  define r where "r = (if w = 0 then Fin 0 else round64 (real a / real w))"
  have unit: "\<exists>y. (if n = 0 then Fin 0 else round64 (real a / real n)) = Fin y \<and> 0 \<le> y \<and> y \<le> 1 \<and> (\<exists>x\<ge>0. round64 x = Fin y)"
    if "a \<le> n" for n
  proof (cases "n = 0")
    case True
    then show ?thesis by (intro exI [of _ 0]) (auto intro: exI [of _ 0])
  next
    case False
    then have "0 \<le> real a / real n" "real a / real n \<le> 1" using that by (simp_all add: divide_le_eq)
    moreover from f64.rnd_unit [OF this] obtain z where "round64 (real a / real n) = Fin z" "0 \<le> z" "z \<le> 1" .
    ultimately show ?thesis using False by (auto intro: exI [of _ "real a / real n"])
  qed
  obtain p' x where p': "p = Fin p'" "0 \<le> p'" "p' \<le> 1" "round64 x = Fin p'" "0 \<le> x"
    using unit [OF c(2)] unfolding p_def by metis
  obtain r' where r': "r = Fin r'" "0 \<le> r'" "r' \<le> 1" using unit [OF w(2)] unfolding r_def by metis
  have pr: "(if flt_lt (Fin 0) (Fin (real c)) then fdiv round64 (nat_as_f64 a) (Fin (real c)) else Fin 0) = p"
    "(if flt_lt (Fin 0) (Fin (real w)) then fdiv round64 (nat_as_f64 a) (Fin (real w)) else Fin 0) = r"
    by (simp_all add: p_def r_def a)
  have m: "label_metrics_of labels conf l =
      \<lparr>lm_precision = p, lm_recall = r,
       lm_f1 = (if flt_lt (Fin 0) (fadd round64 p r) then fdiv round64 (fmul round64 (fmul round64 (Fin 2) p) r) (fadd round64 p r) else Fin 0),
       lm_support = f64_as_u64 (Fin (real w))\<rparr>"
    unfolding label_metrics_of_def Let_def a_def [symmetric] c(1) w(1) pr ..
  have "f64_as_u64 (Fin (real w)) = w" using assms(3) by (simp add: w_def min_def)
  then have sel: "lm_precision (label_metrics_of labels conf l) = p" "lm_recall (label_metrics_of labels conf l) = r"
    "lm_support (label_metrics_of labels conf l) = w" by (simp_all add: m)
  have f1: "\<exists>z. lm_f1 (label_metrics_of labels conf l) = Fin z \<and> 0 \<le> z \<and> z \<le> 1"
    using f1_unit [OF p'(4,5,2,3) r'(2,3)] unfolding m label_metrics.select_convs p'(1) r'(1) .
  show ?thesis unfolding sel p_def r_def unfolding a_def c_def w_def by (intro conjI refl f1)
qed

section \<open>The report\<close>

text \<open>
  C38. After a complete evaluation the report is still lost, in a panic, exactly when the
  dataset is empty, or the excerpt of a label or of one of the first 25 misclassified
  texts would be cut inside a character. When it is written, accuracy is in the unit
  interval.
\<close>

theorem report_is_lost_iff:
  assumes "eval_items fexp model top_k anchors is eval_start = Some s" and "length latencies = length is" and "length is \<le> 2 ^ 53"
  shows "(eval_report_of labels latencies s = None) =
      (is = [] \<or> (\<exists>l\<in>set labels. 12 < length l \<and> \<not> is_char_boundary l 12) \<or>
       (\<exists>e\<in>set (take 25 (ev_errors s)). 72 < length (fst e) \<and> \<not> is_char_boundary (fst e) 72)) \<and>
    (\<forall>r. eval_report_of labels latencies s = Some r \<longrightarrow> (\<exists>z. er_accuracy r = Fin z \<and> 0 \<le> z \<and> z \<le> 1))"
proof -
  have ex: "(excerpt n t = None) = (n < length t \<and> \<not> is_char_boundary t n)" for n t
    by (cases "n < length t") (simp_all add: excerpt_def Let_def min_def is_char_boundary_def)
  have "eval_inv (ei_truth ` set is) (fst ` set anchors) 0 eval_start" by (simp add: eval_inv_def eval_start_def)
  from eval_items_inv [OF assms(1) this] have le: "ev_correct s \<le> length is" by (simp add: eval_inv_def)
  have acc: "\<exists>z. fdiv round64 (nat_as_f64 (ev_correct s)) (nat_as_f64 (length is)) = Fin z \<and> 0 \<le> z \<and> z \<le> 1" if "is \<noteq> []"
  proof -
    have "0 \<le> real (ev_correct s) / real (length is)" "real (ev_correct s) / real (length is) \<le> 1"
      using le that by (simp_all add: divide_le_eq)
    from f64.rnd_unit [OF this] obtain z where "round64 (real (ev_correct s) / real (length is)) = Fin z" "0 \<le> z" "z \<le> 1" .
    then show ?thesis using le assms(3) that by (simp add: nat_as_f64_def f64.rnd_nat)
  qed
  show ?thesis
    using acc assms(2) by (auto simp: eval_report_of_def Let_def list_all_iff split_beta ex split: if_splits)
qed

section \<open>An evaluation\<close>

definition demo_item :: eval_item where
  "demo_item = \<lparr>ei_text = ''t'', ei_truth = ''b'', ei_hard = False\<rparr>"

lemma demo_predict: "eval_predict exp_ieee 3 [(''a'', [[Fin 1]])] [Fin 1] = Some (''a'', Fin 1)"
proof -
  have "flt_le F32_MIN (Fin 1)" by (simp add: F32_MIN_def)
  then have "fmax F32_MIN (Fin 1) = Fin 1" by (simp add: F32_MIN_def)
  then show ?thesis
    by (simp add: eval_predict_def eval_label_score_def sort_desc_def eval_cosine_def norm32_def fsum_def nat_as_f32_def
        fsub_def Let_def)
qed

lemma demo_evaluation:
  "eval_items exp_ieee (\<lambda>_. Some [Fin 1]) 3 [(''a'', [[Fin 1]])] [demo_item] eval_start =
     Some (eval_count demo_item (''a'', Fin 1) eval_start)"
  by (simp add: demo_predict)

theorem evaluation_counts_every_item_witness:
  "\<exists>s. eval_items exp_ieee (\<lambda>_. Some [Fin 1]) 3 [(''a'', [[Fin 1]])] [demo_item] eval_start = Some s \<and>
     ev_correct s + length (ev_errors s) = 1 \<and> length (ev_confidences s) = 1"
  using demo_evaluation evaluation_counts_every_item [OF demo_evaluation] by simp

theorem report_is_lost_iff_witness:
  "\<exists>s. eval_items exp_ieee (\<lambda>_. Some [Fin 1]) 3 [(''a'', [[Fin 1]])] [demo_item] eval_start = Some s \<and>
     eval_report_of [''a''] [5] s \<noteq> None"
proof -
  define s where "s = eval_count demo_item (''a'', Fin 1) eval_start"
  have "ev_errors s = [(''t'', ''b'', ''a'', Fin 1)]" by (simp add: s_def eval_count_def demo_item_def eval_start_def)
  then have "eval_report_of [''a''] [5] s \<noteq> None"
    using report_is_lost_iff [OF demo_evaluation, of "[5]" "[''a'']"] by (simp add: s_def)
  with demo_evaluation show ?thesis by (simp add: s_def)
qed

definition demo_confusion :: "string \<times> string \<Rightarrow> nat" where
  "demo_confusion = (\<lambda>(t, p). if t = p then 3 else 1)"

theorem metrics_are_rounded_ratios_witness:
  "lm_support (label_metrics_of [''a'', ''b''] demo_confusion ''a'') = 4 \<and>
   lm_precision (label_metrics_of [''a'', ''b''] demo_confusion ''a'') = round64 (3 / 4)"
proof -
  have "column [''a'', ''b''] demo_confusion ''a'' = 4" "row [''a'', ''b''] demo_confusion ''a'' = 4"
    by (simp_all add: column_def row_def demo_confusion_def)
  with metrics_are_rounded_ratios [of "''a''" "[''a'', ''b'']" demo_confusion] show ?thesis
    by (simp add: demo_confusion_def)
qed

end
