(* ===== verification/TextLocks.thy ===== *)
theory TextLocks
  imports TextCache
begin

text \<open>
  The in-process text cache of \<open>src/src/cache/text.rs\<close> under concurrent calls: \<open>TextCache\<close>
  takes each method as one step, here the mutexes it takes to be so are steps of their own.
  \<open>lookup\<close> locks \<open>index\<close> and then \<open>entries\<close>; \<open>insert\<close> locks \<open>entries\<close>, then \<open>index\<close>,
  and \<open>cursor\<close> when the ring is full. A thread waits while another one holds the mutex it
  asks for, does its work when it has them all, and drops its guards when its method returns.
  A release build aborts on a panic, so no mutex is ever poisoned and the early returns on a
  poisoned one are not taken. The servers of the repository are built without this tier; a
  client of the library attaches it with \<open>with_text_prefilter\<close>.
\<close>

section \<open>Threads and their steps\<close>

datatype tl_op = TLookup signature string | TInsert signature classification_result string

text \<open>
  Where a thread is: in a call with none, one or two of its mutexes or with the cursor as
  well, or returned.
\<close>

datatype tl_at = TStart | TFirst | TBoth | TCursor | TReturned "classification_result option"

record tl_thread =
  tt_op :: tl_op
  tt_at :: tl_at

record text_shared =
  ts_cache :: text_cache
  ts_threads :: "tl_thread list"

datatype tc_lock = LockIndex | LockEntries | LockCursor

fun tl_held :: "tl_op \<Rightarrow> tl_at \<Rightarrow> tc_lock list" where
  "tl_held (TLookup sig identity) TFirst = [LockIndex]"
| "tl_held (TLookup sig identity) TBoth = [LockIndex, LockEntries]"
| "tl_held (TInsert sig result identity) TFirst = [LockEntries]"
| "tl_held (TInsert sig result identity) TBoth = [LockEntries, LockIndex]"
| "tl_held (TInsert sig result identity) TCursor = [LockEntries, LockIndex, LockCursor]"
| "tl_held _ _ = []"

definition tl_free :: "tc_lock \<Rightarrow> text_shared \<Rightarrow> bool" where
  "tl_free l s \<longleftrightarrow> list_all (\<lambda>t. l \<notin> set (tl_held (tt_op t) (tt_at t))) (ts_threads s)"

definition tl_goto :: "nat \<Rightarrow> tl_at \<Rightarrow> text_shared \<Rightarrow> text_shared" where
  "tl_goto i pc s = s\<lparr>ts_threads := (ts_threads s)[i := (ts_threads s ! i)\<lparr>tt_at := pc\<rparr>]\<rparr>"

definition tl_acquire :: "tc_lock \<Rightarrow> nat \<Rightarrow> tl_at \<Rightarrow> text_shared \<Rightarrow> text_shared option" where
  "tl_acquire l i pc s = (if tl_free l s then Some (tl_goto i pc s) else None)"

fun lookup_step ::
  "(nat \<Rightarrow> u64 list \<Rightarrow> u64) \<Rightarrow> nat \<Rightarrow> signature \<Rightarrow> string \<Rightarrow> tl_at \<Rightarrow> text_shared \<Rightarrow> text_shared option" where
  "lookup_step hband i sig identity TStart s = tl_acquire LockIndex i TFirst s"
| "lookup_step hband i sig identity TFirst s = tl_acquire LockEntries i TBoth s"
| "lookup_step hband i sig identity TBoth s =
     Some (tl_goto i (TReturned (text_lookup hband sig identity (ts_cache s))) s)"
| "lookup_step hband i sig identity _ s = None"

fun insert_step ::
  "(nat \<Rightarrow> u64 list \<Rightarrow> u64) \<Rightarrow> nat \<Rightarrow> signature \<Rightarrow> classification_result \<Rightarrow> string \<Rightarrow> tl_at \<Rightarrow> text_shared \<Rightarrow>
     text_shared option" where
  "insert_step hband i sig result identity TStart s = tl_acquire LockEntries i TFirst s"
| "insert_step hband i sig result identity TFirst s = tl_acquire LockIndex i TBoth s"
| "insert_step hband i sig result identity TBoth s =
     (if length (tc_entries (ts_cache s)) < tc_capacity (ts_cache s)
      then Some (tl_goto i (TReturned None) (s\<lparr>ts_cache := text_insert hband sig result identity (ts_cache s)\<rparr>))
      else tl_acquire LockCursor i TCursor s)"
| "insert_step hband i sig result identity TCursor s =
     Some (tl_goto i (TReturned None) (s\<lparr>ts_cache := text_insert hband sig result identity (ts_cache s)\<rparr>))"
| "insert_step hband i sig result identity _ s = None"

text \<open>A thread that has returned may call again.\<close>

definition tl_inside :: "tl_thread \<Rightarrow> bool" where
  "tl_inside t \<longleftrightarrow> (case tt_at t of TReturned r \<Rightarrow> False | _ \<Rightarrow> True)"

datatype tl_event = TCall nat tl_op | TStep nat

definition tl_thread_step :: "(nat \<Rightarrow> u64 list \<Rightarrow> u64) \<Rightarrow> nat \<Rightarrow> text_shared \<Rightarrow> text_shared option" where
  "tl_thread_step hband i s =
     (case tt_op (ts_threads s ! i) of
        TLookup sig identity \<Rightarrow> lookup_step hband i sig identity (tt_at (ts_threads s ! i)) s
      | TInsert sig result identity \<Rightarrow> insert_step hband i sig result identity (tt_at (ts_threads s ! i)) s)"

fun tl_step :: "(nat \<Rightarrow> u64 list \<Rightarrow> u64) \<Rightarrow> tl_event \<Rightarrow> text_shared \<Rightarrow> text_shared option" where
  "tl_step hband (TCall i oper) s =
     (if i < length (ts_threads s) \<and> \<not> tl_inside (ts_threads s ! i)
      then Some (s\<lparr>ts_threads := (ts_threads s)[i := \<lparr>tt_op = oper, tt_at = TStart\<rparr>]\<rparr>) else None)"
| "tl_step hband (TStep i) s = (if i < length (ts_threads s) then tl_thread_step hband i s else None)"

fun tl_run :: "(nat \<Rightarrow> u64 list \<Rightarrow> u64) \<Rightarrow> tl_event list \<Rightarrow> text_shared \<Rightarrow> text_shared option" where
  "tl_run hband [] s = Some s"
| "tl_run hband (e # es) s = Option.bind (tl_step hband e s) (tl_run hband es)"

text \<open>A new cache, and a thread at the start of each of the given calls.\<close>

definition tl_start :: "nat \<Rightarrow> flt \<Rightarrow> tl_op list \<Rightarrow> text_shared" where
  "tl_start capacity threshold calls =
     \<lparr>ts_cache = text_cache_new capacity threshold,
      ts_threads = List.map (\<lambda>oper. \<lparr>tt_op = oper, tt_at = TStart\<rparr>) calls\<rparr>"

inductive tl_reachable :: "(nat \<Rightarrow> u64 list \<Rightarrow> u64) \<Rightarrow> text_shared \<Rightarrow> text_shared \<Rightarrow> bool" for hband s0 where
  start: "tl_reachable hband s0 s0"
| step: "tl_reachable hband s0 s \<Longrightarrow> tl_step hband e s = Some s' \<Longrightarrow> tl_reachable hband s0 s'"

lemma tl_run_reachable:
  "tl_reachable hband s0 s \<Longrightarrow> tl_run hband es s = Some s' \<Longrightarrow> tl_reachable hband s0 s'"
  by (induction es arbitrary: s) (auto simp: bind_eq_Some_conv intro: tl_reachable.step)

text \<open>
  Stuck: some thread is in a call, and no thread in a call has a step. Crossed: a lookup
  holds \<open>index\<close> and an insert \<open>entries\<close>, each waiting for the other's.
\<close>

definition tl_stuck :: "(nat \<Rightarrow> u64 list \<Rightarrow> u64) \<Rightarrow> text_shared \<Rightarrow> bool" where
  "tl_stuck hband s \<longleftrightarrow> list_ex tl_inside (ts_threads s) \<and>
     list_all (\<lambda>i. tl_inside (ts_threads s ! i) \<longrightarrow> tl_step hband (TStep i) s = None) [0..<length (ts_threads s)]"

definition is_lookup :: "tl_op \<Rightarrow> bool" where
  "is_lookup oper \<longleftrightarrow> (case oper of TLookup _ _ \<Rightarrow> True | TInsert _ _ _ \<Rightarrow> False)"

definition waits_as :: "bool \<Rightarrow> tl_thread \<Rightarrow> bool" where
  "waits_as lookup t \<longleftrightarrow> tt_at t = TFirst \<and> is_lookup (tt_op t) = lookup"

definition tl_crossed :: "text_shared \<Rightarrow> bool" where
  "tl_crossed s \<longleftrightarrow> list_ex (waits_as True) (ts_threads s) \<and> list_ex (waits_as False) (ts_threads s)"

section \<open>Who holds what\<close>

definition held_by :: "text_shared \<Rightarrow> nat \<Rightarrow> tc_lock list" where
  "held_by s i = tl_held (tt_op (ts_threads s ! i)) (tt_at (ts_threads s ! i))"

definition tl_inv :: "(nat \<Rightarrow> u64 list \<Rightarrow> u64) \<Rightarrow> text_shared \<Rightarrow> bool" where
  "tl_inv hband s \<longleftrightarrow> tc_inv hband (ts_cache s) \<and>
     (\<forall>i < length (ts_threads s). \<forall>j < length (ts_threads s). \<forall>l.
        l \<in> set (held_by s i) \<longrightarrow> l \<in> set (held_by s j) \<longrightarrow> i = j) \<and>
     (\<forall>t \<in> set (ts_threads s). tt_at t = TCursor \<longrightarrow> \<not> is_lookup (tt_op t))"

lemma tl_free_iff: "tl_free l s \<longleftrightarrow> (\<forall>i < length (ts_threads s). l \<notin> set (held_by s i))"
  by (simp add: tl_free_def list_all_length held_by_def)

lemma tl_inv_start: "tl_inv hband (tl_start capacity threshold calls)"
  by (auto simp: tl_inv_def tl_start_def tc_inv_new held_by_def elim!: tl_held.elims)

text \<open>A step gives its thread nothing that another one holds.\<close>

lemma tl_inv_update:
  assumes "tl_inv hband s" and "i < length (ts_threads s)" and "ts_threads s' = (ts_threads s)[i := t]"
    and "tc_inv hband (ts_cache s')" and "tt_at t = TCursor \<longrightarrow> \<not> is_lookup (tt_op t)"
    and "\<And>l. l \<in> set (tl_held (tt_op t) (tt_at t)) \<Longrightarrow> l \<in> set (held_by s i) \<or> tl_free l s"
  shows "tl_inv hband s'"
proof -
  have held: "held_by s' j = (if j = i then tl_held (tt_op t) (tt_at t) else held_by s j)" for j
    using assms(2) by (simp add: held_by_def assms(3))
  have "j = k" if "j < length (ts_threads s)" "k < length (ts_threads s)" "l \<in> set (held_by s' j)" "l \<in> set (held_by s' k)" for j k l
  proof -
    have excl: "j = k" if "j < length (ts_threads s)" "k < length (ts_threads s)" "l \<in> set (held_by s j)" "l \<in> set (held_by s k)" for j k
      using that assms(1) unfolding tl_inv_def by blast
    show ?thesis
      using that excl assms(2) assms(6) [of l] unfolding held tl_free_iff by (cases "j = i"; cases "k = i") auto
  qed
  then show ?thesis
    using assms(1,4,5) by (auto simp: tl_inv_def assms(3) dest!: subsetD [OF set_update_subset_insert])
qed

lemma tl_inv_step:
  assumes inv: "tl_inv hband s" and st: "tl_step hband e s = Some s'"
  shows "tl_inv hband s'"
proof (cases e)
  case (TCall i oper)
  with st show ?thesis
    by (intro tl_inv_update [OF inv, of i _ "\<lparr>tt_op = oper, tt_at = TStart\<rparr>"])
      (use inv in \<open>auto simp: tl_inv_def split: if_splits elim!: tl_held.elims\<close>)
next
  case (TStep i)
  then have i: "i < length (ts_threads s)" and ts: "tl_thread_step hband i s = Some s'" using st by (auto split: if_splits)
  have c: "tc_inv hband (ts_cache s)" using inv by (simp add: tl_inv_def)
  have mem: "ts_threads s ! i \<in> set (ts_threads s)" using i by simp
  have "ts_threads s' = (ts_threads s)[i := ts_threads s' ! i] \<and> tc_inv hband (ts_cache s') \<and>
    (tt_at (ts_threads s' ! i) = TCursor \<longrightarrow> \<not> is_lookup (tt_op (ts_threads s' ! i))) \<and>
    (\<forall>l \<in> set (tl_held (tt_op (ts_threads s' ! i)) (tt_at (ts_threads s' ! i))). l \<in> set (held_by s i) \<or> tl_free l s)"
    using ts i c
    by (cases "tt_op (ts_threads s ! i)"; cases "tt_at (ts_threads s ! i)")
      (auto simp: tl_thread_step_def tl_acquire_def tl_goto_def is_lookup_def held_by_def tc_inv_insert split: if_splits)
  then show ?thesis by (intro tl_inv_update [OF inv i]) auto
qed

lemma tl_reachable_inv:
  "tl_reachable hband (tl_start capacity threshold calls) s \<Longrightarrow> tl_inv hband s"
  by (induction rule: tl_reachable.induct) (auto intro: tl_inv_start tl_inv_step)

section \<open>When no thread can go on\<close>

text \<open>Which mutex a thread in a call waits for; a thread that waits for none has a step.\<close>

lemma waiting_thread:
  assumes "tl_inv hband s" and "i < length (ts_threads s)" and "tl_inside (ts_threads s ! i)"
    and "tl_step hband (TStep i) s = None"
  obtains l where "\<not> tl_free l s" and
    "(tt_at (ts_threads s ! i) = TStart \<and> l = (if is_lookup (tt_op (ts_threads s ! i)) then LockIndex else LockEntries)) \<or>
     (tt_at (ts_threads s ! i) = TFirst \<and> l = (if is_lookup (tt_op (ts_threads s ! i)) then LockEntries else LockIndex)) \<or>
     (tt_at (ts_threads s ! i) = TBoth \<and> l = LockCursor)"
proof -
  have "tt_at (ts_threads s ! i) = TCursor \<longrightarrow> \<not> is_lookup (tt_op (ts_threads s ! i))"
    using assms(1,2) by (simp add: tl_inv_def)
  with assms(2-4) that show ?thesis
    by (cases "tt_op (ts_threads s ! i)"; cases "tt_at (ts_threads s ! i)")
      (auto simp: tl_thread_step_def tl_acquire_def tl_inside_def is_lookup_def split: if_splits)
qed

lemma holder:
  assumes "\<not> tl_free l s"
  obtains j where "j < length (ts_threads s)" and "l \<in> set (held_by s j)" and "tl_inside (ts_threads s ! j)"
proof -
  obtain j where j: "j < length (ts_threads s)" "l \<in> set (held_by s j)" using assms by (auto simp: tl_free_iff)
  then have "tl_inside (ts_threads s ! j)" by (auto simp: held_by_def tl_inside_def elim!: tl_held.elims split: tl_at.split)
  with j show ?thesis by (rule that)
qed

lemma held_inside: "l \<in> set (held_by s j) \<Longrightarrow> tt_at (ts_threads s ! j) \<noteq> TStart"
  by (auto simp: held_by_def)

lemma held_cursor: "LockCursor \<in> set (held_by s j) \<Longrightarrow> tt_at (ts_threads s ! j) = TCursor"
  by (cases "tt_op (ts_threads s ! j)"; cases "tt_at (ts_threads s ! j)") (auto simp: held_by_def)

lemma held_first:
  assumes "l \<in> set (held_by s j)" and "tt_at (ts_threads s ! j) = TFirst"
  shows "l = (if is_lookup (tt_op (ts_threads s ! j)) then LockIndex else LockEntries)"
  using assms by (cases "tt_op (ts_threads s ! j)") (auto simp: held_by_def is_lookup_def)

lemma first_holds:
  "tt_at (ts_threads s ! j) = TFirst \<Longrightarrow> (if is_lookup (tt_op (ts_threads s ! j)) then LockIndex else LockEntries) \<in> set (held_by s j)"
  by (cases "tt_op (ts_threads s ! j)") (auto simp: held_by_def is_lookup_def)

lemma stuck_crossed:
  assumes inv: "tl_inv hband s" and stuck: "tl_stuck hband s"
  shows "tl_crossed s"
proof -
  have none: "tl_step hband (TStep i) s = None" if "i < length (ts_threads s)" "tl_inside (ts_threads s ! i)" for i
    using stuck that by (simp add: tl_stuck_def list_all_length)
  have cursor: "tl_free LockCursor s"
  proof (rule ccontr)
    assume "\<not> tl_free LockCursor s"
    then obtain j where j: "j < length (ts_threads s)" "LockCursor \<in> set (held_by s j)" "tl_inside (ts_threads s ! j)" by (rule holder)
    show False
      by (rule waiting_thread [OF inv j(1,3) none [OF j(1,3)]]) (use held_cursor [OF j(2)] in auto)
  qed
  have first: "\<exists>l. \<not> tl_free l s \<and>
      (tt_at (ts_threads s ! i) = TStart \<and> l \<in> {LockIndex, LockEntries} \<or>
       tt_at (ts_threads s ! i) = TFirst \<and> l = (if is_lookup (tt_op (ts_threads s ! i)) then LockEntries else LockIndex))"
    if "i < length (ts_threads s)" "tl_inside (ts_threads s ! i)" for i
    by (rule waiting_thread [OF inv that none [OF that]]) (use cursor in \<open>auto split: if_splits\<close>)
  have held: "\<exists>j < length (ts_threads s). waits_as (l = LockIndex) (ts_threads s ! j)" if taken: "\<not> tl_free l s" for l
  proof -
    obtain j where j: "j < length (ts_threads s)" "l \<in> set (held_by s j)" "tl_inside (ts_threads s ! j)" using taken by (rule holder)
    then have "tt_at (ts_threads s ! j) = TFirst" using first [OF j(1,3)] held_inside [OF j(2)] by blast
    then show ?thesis using held_first [OF j(2)] j(1) by (auto simp: waits_as_def split: if_splits)
  qed
  have other: "\<exists>j < length (ts_threads s). waits_as (\<not> b) (ts_threads s ! j)"
    if "j < length (ts_threads s)" "waits_as b (ts_threads s ! j)" for j b
    using first [OF that(1)] that(2) held by (cases b) (fastforce simp: waits_as_def tl_inside_def)+
  obtain i where "i < length (ts_threads s)" "tl_inside (ts_threads s ! i)"
    using stuck by (auto simp: tl_stuck_def list_ex_length)
  from first [OF this] held obtain b j where "j < length (ts_threads s)" "waits_as b (ts_threads s ! j)" by blast
  with other [OF this] show ?thesis by (cases b) (auto simp: tl_crossed_def list_ex_length)
qed

lemma crossed_stuck:
  assumes inv: "tl_inv hband s" and crossed: "tl_crossed s"
  shows "tl_stuck hband s"
proof -
  obtain i j where i: "i < length (ts_threads s)" "waits_as True (ts_threads s ! i)"
    and j: "j < length (ts_threads s)" "waits_as False (ts_threads s ! j)"
    using crossed by (auto simp: tl_crossed_def list_ex_length)
  have held: "LockIndex \<in> set (held_by s i)" "LockEntries \<in> set (held_by s j)"
    using first_holds [of s i] first_holds [of s j] i(2) j(2) by (auto simp: waits_as_def)
  then have taken: "\<not> tl_free LockIndex s" "\<not> tl_free LockEntries s" using i(1) j(1) by (auto simp: tl_free_iff)
  have "tl_step hband (TStep k) s = None" if k: "k < length (ts_threads s)" for k
  proof -
    have "LockIndex \<in> set (held_by s k) \<longrightarrow> k = i" using inv i(1) k held(1) unfolding tl_inv_def by blast
    then have "LockIndex \<in> set (held_by s k) \<longrightarrow> tt_at (ts_threads s ! k) = TFirst" using i(2) by (auto simp: waits_as_def)
    moreover have "tt_at (ts_threads s ! k) = TCursor \<longrightarrow> \<not> is_lookup (tt_op (ts_threads s ! k))"
      using inv k by (simp add: tl_inv_def)
    ultimately show ?thesis
      using taken by (cases "tt_op (ts_threads s ! k)"; cases "tt_at (ts_threads s ! k)")
        (auto simp: tl_thread_step_def tl_acquire_def held_by_def is_lookup_def)
  qed
  moreover have "list_ex tl_inside (ts_threads s)"
    using i by (auto simp: list_ex_length waits_as_def tl_inside_def)
  ultimately show ?thesis by (simp add: tl_stuck_def list_all_length)
qed

text \<open>Once crossed, only threads outside can do anything: begin a call and wait.\<close>

lemma crossed_step:
  assumes inv: "tl_inv hband s" and crossed: "tl_crossed s" and st: "tl_step hband e s = Some s'"
  shows "tl_crossed s' \<and> ts_cache s' = ts_cache s \<and> length (ts_threads s') = length (ts_threads s) \<and>
    (\<forall>i < length (ts_threads s). tl_inside (ts_threads s ! i) \<longrightarrow> ts_threads s' ! i = ts_threads s ! i)"
proof (cases e)
  case (TStep i)
  have "tl_inside (ts_threads s ! i)" if "tl_step hband (TStep i) s \<noteq> None"
    using that by (cases "tt_op (ts_threads s ! i)"; cases "tt_at (ts_threads s ! i)")
      (auto simp: tl_thread_step_def tl_inside_def split: if_splits)
  then have "tl_step hband (TStep i) s = None"
    using crossed_stuck [OF inv crossed] by (cases "tl_step hband (TStep i) s") (auto simp: tl_stuck_def list_all_length split: if_splits)
  with st TStep show ?thesis by simp
next
  case (TCall i oper)
  with st have i: "i < length (ts_threads s)" "\<not> tl_inside (ts_threads s ! i)"
    and s': "s' = s\<lparr>ts_threads := (ts_threads s)[i := \<lparr>tt_op = oper, tt_at = TStart\<rparr>]\<rparr>" by (auto split: if_splits)
  have keep: "ts_threads s' ! k = ts_threads s ! k" if "tl_inside (ts_threads s ! k)" for k
    using i that by (cases "k = i") (simp_all add: s')
  have "waits_as b t \<Longrightarrow> tl_inside t" for b t by (simp add: waits_as_def tl_inside_def)
  then have "list_ex (waits_as b) (ts_threads s')" if "list_ex (waits_as b) (ts_threads s)" for b
    using that keep by (fastforce simp: list_ex_length s')
  then show ?thesis using crossed keep by (simp add: tl_crossed_def s')
qed

lemma crossed_run:
  "tl_inv hband s \<Longrightarrow> tl_crossed s \<Longrightarrow> tl_run hband es s = Some s' \<Longrightarrow>
    ts_cache s' = ts_cache s \<and> length (ts_threads s') = length (ts_threads s) \<and>
    (\<forall>i < length (ts_threads s). tl_inside (ts_threads s ! i) \<longrightarrow> ts_threads s' ! i = ts_threads s ! i)"
proof (induction es arbitrary: s)
  case (Cons e es)
  then obtain s1 where s1: "tl_step hband e s = Some s1" "tl_run hband es s1 = Some s'" by (auto simp: bind_eq_Some_conv)
  from crossed_step [OF Cons.prems(1,2) s1(1)] Cons.IH [OF tl_inv_step [OF Cons.prems(1) s1(1)] _ s1(2)]
  show ?case by auto
qed simp

text \<open>Two threads cross in two steps, from any cache.\<close>

lemma crossing_reached:
  assumes "i < length calls" and "j < length calls" and "is_lookup (calls ! i)" and "\<not> is_lookup (calls ! j)"
  shows "\<exists>s. tl_run hband [TStep i, TStep j] (tl_start capacity threshold calls) = Some s \<and> tl_crossed s"
proof -
  obtain sig identity where l: "calls ! i = TLookup sig identity" using assms(3) by (auto simp: is_lookup_def split: tl_op.splits)
  obtain sig' result identity' where r: "calls ! j = TInsert sig' result identity'"
    using assms(4) by (auto simp: is_lookup_def split: tl_op.splits)
  have ij: "i \<noteq> j" using assms(3,4) by auto
  let ?s0 = "tl_start capacity threshold calls"
  have "tl_free LockIndex ?s0" by (auto simp: tl_free_iff held_by_def tl_start_def)
  then have s1: "tl_step hband (TStep i) ?s0 = Some (tl_goto i TFirst ?s0)"
    using assms(1) l by (simp add: tl_thread_step_def tl_acquire_def tl_start_def)
  have "tl_free LockEntries (tl_goto i TFirst ?s0)"
    using l assms(1) by (auto simp: tl_free_iff held_by_def tl_goto_def tl_start_def nth_list_update)
  then have s2: "tl_step hband (TStep j) (tl_goto i TFirst ?s0) = Some (tl_goto j TFirst (tl_goto i TFirst ?s0))"
    using assms(1,2) ij r by (simp add: tl_thread_step_def tl_acquire_def tl_goto_def tl_start_def)
  have "tl_crossed (tl_goto j TFirst (tl_goto i TFirst ?s0))"
    unfolding tl_crossed_def list_ex_length
    by (rule conjI; rule exI [of _ i] exI [of _ j]) (use assms ij in \<open>simp_all add: tl_goto_def tl_start_def waits_as_def\<close>)
  with s1 s2 show ?thesis by simp
qed

text \<open>
  C40. Concurrent calls of the in-process text cache block each other for ever in exactly
  one way: a lookup that has locked \<open>index\<close> and an insert that has locked
  \<open>entries\<close>, each waiting for the other. Any calls among which there are a
  lookup and an insert can come to this; from then on nothing changes the cache and no
  call that has begun returns, whatever else is called; and in every other reachable state
  with a call under way some call can go on.
\<close>

theorem text_cache_lock_inversion:
  assumes "tl_reachable hband (tl_start capacity threshold calls) s"
  shows "tl_stuck hband s = tl_crossed s \<and>
    (list_ex is_lookup calls \<and> list_ex (\<lambda>c. \<not> is_lookup c) calls \<longrightarrow>
       (\<exists>s'. tl_reachable hband (tl_start capacity threshold calls) s' \<and> tl_crossed s')) \<and>
    (tl_crossed s \<longrightarrow> (\<forall>es s'. tl_run hband es s = Some s' \<longrightarrow>
       ts_cache s' = ts_cache s \<and>
       (\<forall>i < length (ts_threads s). tl_inside (ts_threads s ! i) \<longrightarrow> ts_threads s' ! i = ts_threads s ! i)))"
proof (intro conjI)
  have inv: "tl_inv hband s" using assms by (rule tl_reachable_inv)
  show "tl_stuck hband s = tl_crossed s" using stuck_crossed [OF inv] crossed_stuck [OF inv] by blast
  show "tl_crossed s \<longrightarrow> (\<forall>es s'. tl_run hband es s = Some s' \<longrightarrow> ts_cache s' = ts_cache s \<and>
       (\<forall>i < length (ts_threads s). tl_inside (ts_threads s ! i) \<longrightarrow> ts_threads s' ! i = ts_threads s ! i))"
    using crossed_run [OF inv] by blast
  show "list_ex is_lookup calls \<and> list_ex (\<lambda>c. \<not> is_lookup c) calls \<longrightarrow>
       (\<exists>s'. tl_reachable hband (tl_start capacity threshold calls) s' \<and> tl_crossed s')"
    using crossing_reached [of _ calls _ hband capacity threshold] tl_run_reachable [OF tl_reachable.start]
    unfolding list_ex_length by meson
qed

theorem text_cache_lock_inversion_witness:
  "\<exists>s. tl_run (\<lambda>_ _. 0) [TStep 0, TStep 1]
       (tl_start 4 (Fin 1) [TLookup zero_sig ''id'', TInsert zero_sig demo_result ''id'']) = Some s \<and>
     tl_crossed s \<and> tl_stuck (\<lambda>_ _. 0) s"
proof -
  let ?calls = "[TLookup zero_sig ''id'', TInsert zero_sig demo_result ''id'']"
  obtain s where s: "tl_run (\<lambda>_ _. 0) [TStep 0, TStep 1] (tl_start 4 (Fin 1) ?calls) = Some s" "tl_crossed s"
    using crossing_reached [of 0 ?calls 1 "\<lambda>_ _. 0" 4 "Fin 1"] by (auto simp: is_lookup_def)
  from text_cache_lock_inversion [OF tl_run_reachable [OF tl_reachable.start s(1)]] s show ?thesis by blast
qed

end
