(* ===== verification/ModernAttention.thy ===== *)
theory ModernAttention
  imports ModernBert
begin

text \<open>
  The inside of the layers of \<open>src/src/modernbert.rs\<close>: attention, the feed-forward block, and the
  two models built on the encoder. The tensor operations are those of the library, the fields
  of \<open>layer_ops\<close>; what the code does with them, in which order and with which sizes, is the
  repository's. The shapes the operations document decide when the encoder answers.
\<close>

section \<open>Tensor operations\<close>

text \<open>
  Each operation with its error. \<open>to_mask\<close> makes the tensor of an attention mask, \<open>to_pad\<close> the one
  of a padding mask; \<open>to_chunk2\<close> halves the last dimension (it has two halves here, as the size
  is twice the intermediate size of a checkpoint).
\<close>

record 't layer_ops =
  to_shape :: "'t \<Rightarrow> nat list"
  to_dims3 :: "'t \<Rightarrow> string + nat \<times> nat \<times> nat"
  to_reshape :: "nat list \<Rightarrow> 't op"
  to_permute :: "nat list \<Rightarrow> 't op"
  to_get :: "nat \<Rightarrow> 't op"
  to_contiguous :: "'t op"
  to_rope :: "'t \<Rightarrow> flt list list \<Rightarrow> flt list list \<Rightarrow> string + 't"
  to_scale :: "'t \<Rightarrow> flt \<Rightarrow> string + 't"
  to_matmul :: "'t \<Rightarrow> 't \<Rightarrow> string + 't"
  to_transpose :: "nat \<Rightarrow> nat \<Rightarrow> 't op"
  to_mask :: "flt list list \<Rightarrow> 't"
  to_broadcast_add :: "'t \<Rightarrow> 't \<Rightarrow> string + 't"
  to_softmax :: "'t op"
  to_chunk2 :: "'t \<Rightarrow> string + 't \<times> 't"
  to_gelu_erf :: "'t op"
  to_add :: "'t \<Rightarrow> 't \<Rightarrow> string + 't"
  to_mul :: "'t \<Rightarrow> 't \<Rightarrow> string + 't"
  to_pad :: "flt list \<Rightarrow> 't"
  to_unsqueeze_last :: "'t op"
  to_broadcast_mul :: "'t \<Rightarrow> 't \<Rightarrow> string + 't"
  to_broadcast_div :: "'t \<Rightarrow> 't \<Rightarrow> string + 't"
  to_sum1 :: "'t op"
  to_sum_keepdim1 :: "'t op"
  to_first_token :: "'t op"

text \<open>A linear layer without or with a bias, of an input and an output size, at a path of the checkpoint.\<close>

type_synonym 't linears = "nat \<Rightarrow> nat \<Rightarrow> string \<Rightarrow> string + 't op"

section \<open>Attention\<close>

definition apply_rotary_emb_qkv :: "'t layer_ops \<Rightarrow> rotary \<Rightarrow> 't \<Rightarrow> 't \<Rightarrow> string + 't \<times> 't" where
  "apply_rotary_emb_qkv tn rot q k =
     bind_res (to_contiguous tn q) (\<lambda>q1. bind_res (to_rope tn q1 (rot_cos rot) (rot_sin rot)) (\<lambda>q_embed.
     bind_res (to_contiguous tn k) (\<lambda>k1. bind_res (to_rope tn k1 (rot_cos rot) (rot_sin rot)) (\<lambda>k_embed.
       Inr (q_embed, k_embed)))))"

record 't attention =
  at_qkv :: "'t op"
  at_proj :: "'t op"
  at_heads :: nat
  at_head_size :: nat
  at_rotary :: rotary

text \<open>A head count of zero panics earlier, when the rotary tables are made (\<open>rotary_new\<close>).\<close>

definition attention_load :: "'t linears \<Rightarrow> modern_config \<Rightarrow> string \<Rightarrow> rotary \<Rightarrow> string + 't attention" where
  "attention_load linear_no_bias c path rot =
     (let h = mc_hidden_size c
      in bind_res (linear_no_bias h (h * 3) (path @ ''.Wqkv'')) (\<lambda>qkv.
         bind_res (linear_no_bias h h (path @ ''.Wo'')) (\<lambda>proj.
           Inr \<lparr>at_qkv = qkv, at_proj = proj, at_heads = mc_num_attention_heads c,
                at_head_size = h div mc_num_attention_heads c, at_rotary = rot\<rparr>)))"

text \<open>The second half of the forward pass, from the rotated embeddings on.\<close>

definition attend ::
  "(flt \<Rightarrow> flt \<Rightarrow> flt) \<Rightarrow> 't layer_ops \<Rightarrow> 't attention \<Rightarrow> nat list \<Rightarrow> 't \<Rightarrow> 't \<Rightarrow> 't \<Rightarrow> flt list list \<Rightarrow> string + 't" where
  "attend powf tn a dims q k v att_mask =
     bind_res (apply_rotary_emb_qkv tn (at_rotary a) q k) (\<lambda>(qr, kr).
     bind_res (to_scale tn qr (powf (nat_as_f64 (at_head_size a)) (Fin (- (1 / 2))))) (\<lambda>qs.
     bind_res (to_transpose tn 2 3 kr) (\<lambda>kt.
     bind_res (to_matmul tn qs kt) (\<lambda>att0.
     bind_res (to_broadcast_add tn att0 (to_mask tn att_mask)) (\<lambda>att1.
     bind_res (to_softmax tn att1) (\<lambda>att.
     bind_res (to_matmul tn att v) (\<lambda>o1.
     bind_res (to_transpose tn 1 2 o1) (\<lambda>o2.
     bind_res (to_reshape tn dims o2) (\<lambda>o3.
     bind_res (at_proj a o3) (to_reshape tn dims))))))))))"

definition attention_forward ::
  "(flt \<Rightarrow> flt \<Rightarrow> flt) \<Rightarrow> 't layer_ops \<Rightarrow> 't attention \<Rightarrow> 't \<Rightarrow> flt list list \<Rightarrow> string + 't" where
  "attention_forward powf tn a hidden att_mask =
     bind_res (to_dims3 tn hidden) (\<lambda>(b, seq_len, d).
     bind_res (at_qkv a hidden) (\<lambda>x.
     bind_res (to_reshape tn [b, seq_len, 3, at_heads a, at_head_size a] x) (\<lambda>r.
     bind_res (to_permute tn [2, 0, 3, 1, 4] r) (\<lambda>qkv.
     bind_res (to_get tn 0 qkv) (\<lambda>q. bind_res (to_get tn 1 qkv) (\<lambda>k. bind_res (to_get tn 2 qkv) (\<lambda>v.
       attend powf tn a [b, seq_len, d] q k v att_mask)))))))"

section \<open>Feed-forward\<close>

record 't mlp =
  ml_wi :: "'t op"
  ml_wo :: "'t op"

definition mlp_load :: "'t linears \<Rightarrow> modern_config \<Rightarrow> string \<Rightarrow> string + 't mlp" where
  "mlp_load linear_no_bias c path =
     bind_res (linear_no_bias (mc_hidden_size c) (mc_intermediate_size c * 2) (path @ ''.Wi'')) (\<lambda>wi.
     bind_res (linear_no_bias (mc_intermediate_size c) (mc_hidden_size c) (path @ ''.Wo'')) (\<lambda>wo.
       Inr \<lparr>ml_wi = wi, ml_wo = wo\<rparr>))"

definition mlp_forward :: "'t layer_ops \<Rightarrow> 't mlp \<Rightarrow> 't op" where
  "mlp_forward tn m xs =
     bind_res (ml_wi m xs) (\<lambda>x. bind_res (to_chunk2 tn x) (\<lambda>(x0, x1).
     bind_res (to_gelu_erf tn x0) (\<lambda>g. bind_res (to_mul tn g x1) (ml_wo m))))"

text \<open>The checkpoint that \<open>modern_load\<close> loads from, with these layers.\<close>

definition encoder_checkpoint :: "(flt \<Rightarrow> flt \<Rightarrow> flt) \<Rightarrow> 't layer_ops \<Rightarrow> 't linears \<Rightarrow> 't checkpoint \<Rightarrow> 't checkpoint" where
  "encoder_checkpoint powf tn linear_no_bias ck =
     ck\<lparr>ck_attention := (\<lambda>c path rot. bind_res (attention_load linear_no_bias c path rot) (\<lambda>a. Inr (attention_forward powf tn a))),
        ck_mlp := (\<lambda>c path. bind_res (mlp_load linear_no_bias c path) (\<lambda>m. Inr (mlp_forward tn m)))\<rparr>"

section \<open>The models on top\<close>

record 't prediction_head =
  ph_dense :: "'t op"
  ph_norm :: "'t op"

definition prediction_head_load :: "'t linears \<Rightarrow> 't checkpoint \<Rightarrow> modern_config \<Rightarrow> string \<Rightarrow> string + 't prediction_head" where
  "prediction_head_load linear_no_bias ck c path =
     bind_res (linear_no_bias (mc_hidden_size c) (mc_hidden_size c) (path @ ''.dense'')) (\<lambda>dense.
     bind_res (ck_norm ck (mc_hidden_size c) (mc_layer_norm_eps c) (path @ ''.norm'')) (\<lambda>nrm.
       Inr \<lparr>ph_dense = dense, ph_norm = nrm\<rparr>))"

definition prediction_head_forward :: "'t layer_ops \<Rightarrow> 't prediction_head \<Rightarrow> 't op" where
  "prediction_head_forward tn h xs = bind_res (ph_dense h xs) (\<lambda>x. bind_res (to_gelu_erf tn x) (ph_norm h))"

text \<open>
  \<open>tied\<close> makes the decoder of a vocabulary and a hidden size from the embedding weights and the
  bias, each given by its path.
\<close>

definition decoder_load :: "(nat \<Rightarrow> nat \<Rightarrow> string \<Rightarrow> string \<Rightarrow> string + 't op) \<Rightarrow> modern_config \<Rightarrow> string + 't op" where
  "decoder_load tied c =
     tied (mc_vocab_size c) (mc_hidden_size c) ''model.embeddings.tok_embeddings.weight'' ''decoder.bias''"

record 't masked_lm =
  lm_model :: "'t modern_bert"
  lm_decoder :: "'t op"
  lm_head :: "'t prediction_head"

definition masked_lm_load ::
  "'t checkpoint \<Rightarrow> 't linears \<Rightarrow> (nat \<Rightarrow> nat \<Rightarrow> string \<Rightarrow> string \<Rightarrow> string + 't op) \<Rightarrow>
     (modern_config \<Rightarrow> flt \<Rightarrow> rotary option) \<Rightarrow> modern_config \<Rightarrow> (string + 't masked_lm) option" where
  "masked_lm_load ck linear_no_bias tied rotary_of c =
     map_option (\<lambda>r. bind_res r (\<lambda>model. bind_res (decoder_load tied c) (\<lambda>decoder.
       bind_res (prediction_head_load linear_no_bias ck c ''head'') (\<lambda>h.
         Inr \<lparr>lm_model = model, lm_decoder = decoder, lm_head = h\<rparr>))))
       (modern_load ck rotary_of c)"

definition masked_lm_forward :: "'t layer_ops \<Rightarrow> 't masked_lm \<Rightarrow> nat list \<Rightarrow> flt list \<Rightarrow> string + 't" where
  "masked_lm_forward tn m ids pad =
     bind_res (modern_forward (to_add tn) (lm_model m) ids pad) (\<lambda>xs.
     bind_res (prediction_head_forward tn (lm_head m) xs) (lm_decoder m))"

datatype classifier_pooling = PoolCls | PoolMean

record classifier_config =
  cc_id2label :: "(string \<times> string) list"
  cc_label2id :: "(string \<times> string) list"
  cc_pooling :: classifier_pooling

definition sequence_classifier_load :: "'t linears \<Rightarrow> modern_config \<Rightarrow> classifier_config option \<Rightarrow> string + 't op" where
  "sequence_classifier_load linear_bias c cc =
     linear_bias (mc_hidden_size c) (case cc of Some k \<Rightarrow> length (cc_id2label k) | None \<Rightarrow> 0) ''classifier''"

definition sequence_classifier_forward :: "'t layer_ops \<Rightarrow> 't op \<Rightarrow> 't op" where
  "sequence_classifier_forward tn classifier xs = bind_res (classifier xs) (to_softmax tn)"

record 't sequence_model =
  sm_model :: "'t modern_bert"
  sm_head :: "'t prediction_head"
  sm_classifier :: "'t op"
  sm_pooling :: classifier_pooling

definition sequence_model_load ::
  "'t checkpoint \<Rightarrow> 't linears \<Rightarrow> 't linears \<Rightarrow> (modern_config \<Rightarrow> flt \<Rightarrow> rotary option) \<Rightarrow> modern_config \<Rightarrow>
     classifier_config option \<Rightarrow> (string + 't sequence_model) option" where
  "sequence_model_load ck linear_no_bias linear_bias rotary_of c cc =
     map_option (\<lambda>r. bind_res r (\<lambda>model. bind_res (sequence_classifier_load linear_bias c cc) (\<lambda>classifier.
       bind_res (prediction_head_load linear_no_bias ck c ''head'') (\<lambda>h.
         Inr \<lparr>sm_model = model, sm_head = h, sm_classifier = classifier,
              sm_pooling = (case cc of Some k \<Rightarrow> cc_pooling k | None \<Rightarrow> PoolCls)\<rparr>))))
       (modern_load ck rotary_of c)"

text \<open>The library's \<open>contiguous\<close> of the hidden state of the first token is part of \<open>to_first_token\<close>.\<close>

definition pooled_state :: "'t layer_ops \<Rightarrow> classifier_pooling \<Rightarrow> 't \<Rightarrow> flt list \<Rightarrow> string + 't" where
  "pooled_state tn pooling output pad =
     (case pooling of
        PoolCls \<Rightarrow> to_first_token tn output
      | PoolMean \<Rightarrow>
          bind_res (to_unsqueeze_last tn (to_pad tn pad)) (\<lambda>unsqueezed_mask.
          bind_res (to_broadcast_mul tn output unsqueezed_mask) (\<lambda>masked.
          bind_res (to_sum1 tn masked) (\<lambda>sum_output.
          bind_res (to_sum_keepdim1 tn (to_pad tn pad)) (\<lambda>count. to_broadcast_div tn sum_output count)))))"

definition sequence_model_forward :: "'t layer_ops \<Rightarrow> 't sequence_model \<Rightarrow> nat list \<Rightarrow> flt list \<Rightarrow> string + 't" where
  "sequence_model_forward tn m ids pad =
     bind_res (modern_forward (to_add tn) (sm_model m) ids pad) (\<lambda>output.
     bind_res (pooled_state tn (sm_pooling m) output pad) (\<lambda>state.
     bind_res (prediction_head_forward tn (sm_head m) state) (sequence_classifier_forward tn (sm_classifier m))))"

section \<open>Shapes\<close>

text \<open>
  \<open>answers tn r s P\<close>: the operation returns a tensor of shape \<open>s\<close> if \<open>P\<close> holds, and an error
  otherwise.
\<close>

definition answers :: "'t layer_ops \<Rightarrow> string + 't \<Rightarrow> nat list \<Rightarrow> bool \<Rightarrow> bool" where
  "answers tn r s P \<longleftrightarrow> (if P then \<exists>y. r = Inr y \<and> to_shape tn y = s else \<exists>e. r = Inl e)"

lemma answers_Inr [simp]: "answers tn (Inr y) s P \<longleftrightarrow> P \<and> to_shape tn y = s"
  by (auto simp: answers_def)

lemma answers_bind:
  assumes "answers tn r s P" and "\<And>y. to_shape tn y = s \<Longrightarrow> answers tn (f y) s' Q"
  shows "answers tn (bind_res r f) s' (P \<and> Q)"
  using assms by (cases r) (auto simp: answers_def split: if_splits)

lemma answers_then:
  assumes "answers tn r s True" and "\<And>y. to_shape tn y = s \<Longrightarrow> answers tn (f y) s' Q"
  shows "answers tn (bind_res r f) s' Q"
  using answers_bind [OF assms] by simp

text \<open>A table of a rotary embedding: as many rows as positions, each of the same width.\<close>

definition table_of :: "nat \<Rightarrow> nat \<Rightarrow> flt list list \<Rightarrow> bool" where
  "table_of positions width t \<longleftrightarrow> length t = positions \<and> (\<forall>row\<in>set t. length row = width)"

text \<open>What the library documents of the operations, for the ranks the code uses.\<close>

definition attention_shapes :: "'t layer_ops \<Rightarrow> bool" where
  "attention_shapes tn \<longleftrightarrow>
     (\<forall>x b n d. to_shape tn x = [b, n, d] \<longrightarrow> to_dims3 tn x = Inr (b, n, d)) \<and>
     (\<forall>x s. answers tn (to_reshape tn s x) s (prod_list (to_shape tn x) = prod_list s)) \<and>
     (\<forall>x a b c d e. to_shape tn x = [a, b, c, d, e] \<longrightarrow> answers tn (to_permute tn [2, 0, 3, 1, 4] x) [c, a, d, b, e] True) \<and>
     (\<forall>x i a s. to_shape tn x = a # s \<and> i < a \<longrightarrow> answers tn (to_get tn i x) s True) \<and>
     (\<forall>x. answers tn (to_contiguous tn x) (to_shape tn x) True) \<and>
     (\<forall>x cos sin m k b h n e. to_shape tn x = [b, h, n, e] \<and> 0 < n \<and> table_of m k cos \<and> table_of m k sin \<longrightarrow>
        answers tn (to_rope tn x cos sin) [b, h, n, e] (k * 2 = e \<and> n \<le> m)) \<and>
     (\<forall>x u. answers tn (to_scale tn x u) (to_shape tn x) True) \<and>
     (\<forall>x y a b n k m. to_shape tn x = [a, b, n, k] \<and> to_shape tn y = [a, b, k, m] \<longrightarrow> answers tn (to_matmul tn x y) [a, b, n, m] True) \<and>
     (\<forall>x a b c d. to_shape tn x = [a, b, c, d] \<longrightarrow>
        answers tn (to_transpose tn 2 3 x) [a, b, d, c] True \<and> answers tn (to_transpose tn 1 2 x) [a, c, b, d] True)"

definition mask_shapes :: "'t layer_ops \<Rightarrow> bool" where
  "mask_shapes tn \<longleftrightarrow>
     (\<forall>n rows. table_of n n rows \<longrightarrow> to_shape tn (to_mask tn rows) = [1, 1, n, n]) \<and>
     (\<forall>x y a h n m. to_shape tn x = [a, h, n, m] \<and> to_shape tn y = [1, 1, n, m] \<longrightarrow> answers tn (to_broadcast_add tn x y) [a, h, n, m] True) \<and>
     (\<forall>x. answers tn (to_softmax tn x) (to_shape tn x) True)"

definition mlp_shapes :: "'t layer_ops \<Rightarrow> bool" where
  "mlp_shapes tn \<longleftrightarrow>
     (\<forall>x s k. to_shape tn x = s @ [k * 2] \<longrightarrow> (\<exists>x0 x1. to_chunk2 tn x = Inr (x0, x1) \<and> to_shape tn x0 = s @ [k] \<and> to_shape tn x1 = s @ [k])) \<and>
     (\<forall>x. answers tn (to_gelu_erf tn x) (to_shape tn x) True) \<and>
     (\<forall>x y s. to_shape tn x = s \<and> to_shape tn y = s \<longrightarrow> answers tn (to_mul tn x y) s True \<and> answers tn (to_add tn x y) s True)"

definition pooling_shapes :: "'t layer_ops \<Rightarrow> bool" where
  "pooling_shapes tn \<longleftrightarrow>
     (\<forall>pad. to_shape tn (to_pad tn pad) = [1, length pad]) \<and>
     (\<forall>x. answers tn (to_unsqueeze_last tn x) (to_shape tn x @ [1]) True) \<and>
     (\<forall>x y b n d. to_shape tn x = [b, n, d] \<and> to_shape tn y = [b, n, 1] \<longrightarrow> answers tn (to_broadcast_mul tn x y) [b, n, d] True) \<and>
     (\<forall>x y b d. to_shape tn x = [b, d] \<and> to_shape tn y = [b, 1] \<longrightarrow> answers tn (to_broadcast_div tn x y) [b, d] True) \<and>
     (\<forall>x b n s. to_shape tn x = b # n # s \<longrightarrow> answers tn (to_sum1 tn x) (b # s) True \<and> answers tn (to_sum_keepdim1 tn x) (b # 1 # s) True) \<and>
     (\<forall>x b n d. to_shape tn x = [b, n, d] \<and> 0 < n \<longrightarrow> answers tn (to_first_token tn x) [b, d] True)"

text \<open>
  A layer of the checkpoint has the sizes it was loaded with; an embedding knows the tokens of
  its vocabulary.
\<close>

definition linear_shapes :: "'t layer_ops \<Rightarrow> 't linears \<Rightarrow> bool" where
  "linear_shapes tn lin \<longleftrightarrow>
     (\<forall>i n path f x s. lin i n path = Inr f \<and> to_shape tn x = s @ [i] \<and> s \<noteq> [] \<longrightarrow> answers tn (f x) (s @ [n]) True)"

definition checkpoint_shapes :: "'t layer_ops \<Rightarrow> 't checkpoint \<Rightarrow> bool" where
  "checkpoint_shapes tn ck \<longleftrightarrow>
     (\<forall>vocab d path f ids. ck_embedding ck vocab d path = Inr f \<longrightarrow> answers tn (f ids) [1, length ids, d] (\<forall>k\<in>set ids. k < vocab)) \<and>
     (\<forall>d eps path f x s. ck_norm ck d eps path = Inr f \<and> to_shape tn x = s @ [d] \<longrightarrow> answers tn (f x) (s @ [d]) True)"

section \<open>When attention answers\<close>

lemma attention_laws:
  assumes "attention_shapes tn"
  shows "to_shape tn x = [b, n, d] \<Longrightarrow> to_dims3 tn x = Inr (b, n, d)"
    and "answers tn (to_reshape tn s x) s (prod_list (to_shape tn x) = prod_list s)"
    and "to_shape tn x = [b, n, d, h, e] \<Longrightarrow> answers tn (to_permute tn [2, 0, 3, 1, 4] x) [d, b, h, n, e] True"
    and "to_shape tn x = b # s \<Longrightarrow> i < b \<Longrightarrow> answers tn (to_get tn i x) s True"
    and "to_shape tn x = s \<Longrightarrow> answers tn (to_contiguous tn x) s True"
    and "to_shape tn x = [b, h, n, e] \<Longrightarrow> 0 < n \<Longrightarrow> table_of m k tc \<Longrightarrow> table_of m k ts \<Longrightarrow>
      answers tn (to_rope tn x tc ts) [b, h, n, e] (k * 2 = e \<and> n \<le> m)"
    and "to_shape tn x = s \<Longrightarrow> answers tn (to_scale tn x u) s True"
    and "to_shape tn x = [b, h, n, k] \<Longrightarrow> to_shape tn y = [b, h, k, m] \<Longrightarrow> answers tn (to_matmul tn x y) [b, h, n, m] True"
    and "to_shape tn x = [b, h, n, e] \<Longrightarrow> answers tn (to_transpose tn 2 3 x) [b, h, e, n] True"
    and "to_shape tn x = [b, h, n, e] \<Longrightarrow> answers tn (to_transpose tn 1 2 x) [b, n, h, e] True"
  using assms by (auto simp: attention_shapes_def)

lemma mask_laws:
  assumes "mask_shapes tn"
  shows "table_of n n rows \<Longrightarrow> to_shape tn x = [b, h, n, n] \<Longrightarrow> answers tn (to_broadcast_add tn x (to_mask tn rows)) [b, h, n, n] True"
    and "to_shape tn x = s \<Longrightarrow> answers tn (to_softmax tn x) s True"
  using assms by (auto simp: mask_shapes_def)

lemma linear_law:
  assumes "linear_shapes tn lin" and "lin i n path = Inr f" and "to_shape tn x = s @ [i]" and "s \<noteq> []"
  shows "answers tn (f x) (s @ [n]) True"
  using assms unfolding linear_shapes_def by metis

lemma rotary_answers:
  assumes "attention_shapes tn" and "table_of m k (rot_cos rot)" and "table_of m k (rot_sin rot)" and "0 < n"
    and "to_shape tn q = [b, h, n, e]" and "to_shape tn x = [b, h, n, e]"
    and "\<And>y z. to_shape tn y = [b, h, n, e] \<Longrightarrow> to_shape tn z = [b, h, n, e] \<Longrightarrow> answers tn (f y z) s True"
  shows "answers tn (bind_res (apply_rotary_emb_qkv tn rot q x) (\<lambda>(y, z). f y z)) s (k * 2 = e \<and> n \<le> m)"
proof -
  have r: "answers tn (to_rope tn y (rot_cos rot) (rot_sin rot)) [b, h, n, e] (k * 2 = e \<and> n \<le> m)"
    if "to_shape tn y = [b, h, n, e]" for y
    by (rule attention_laws(6) [OF assms(1) that assms(4,2,3)])
  obtain q1 x1 where 1: "to_contiguous tn q = Inr q1" "to_contiguous tn x = Inr x1" "to_shape tn q1 = [b, h, n, e]" "to_shape tn x1 = [b, h, n, e]"
    using attention_laws(5) [OF assms(1,5)] attention_laws(5) [OF assms(1,6)] by (auto simp: answers_def)
  show ?thesis using r [OF 1(3)] r [OF 1(4)] assms(7)
    by (auto simp: apply_rotary_emb_qkv_def 1 answers_def split: if_splits)
qed

lemma attend_answers:
  assumes laws: "attention_shapes tn" "mask_shapes tn" and proj: "\<And>y. to_shape tn y = [1, n, d] \<Longrightarrow> answers tn (at_proj a y) [1, n, d] True"
    and rot: "table_of m k (rot_cos (at_rotary a))" "table_of m k (rot_sin (at_rotary a))" and n: "0 < n" and tab: "table_of n n att_mask"
    and shapes: "to_shape tn q = [1, h, n, e]" "to_shape tn x = [1, h, n, e]" "to_shape tn v = [1, h, n, e]" and d: "h * e = d"
  shows "answers tn (attend powf tn a [1, n, d] q x v att_mask) [1, n, d] (k * 2 = e \<and> n \<le> m)"
  unfolding attend_def
proof (rule rotary_answers [OF laws(1) rot n shapes(1,2)])
  note A = attention_laws [OF laws(1)]
  fix y z assume yz: "to_shape tn y = [1, h, n, e]" "to_shape tn z = [1, h, n, e]"
  have reshape: "to_shape tn u = [1, n, h, e] \<Longrightarrow> answers tn (to_reshape tn [1, n, d] u) [1, n, d] True"
    "to_shape tn u = [1, n, d] \<Longrightarrow> answers tn (to_reshape tn [1, n, d] u) [1, n, d] True" for u
    using A(2) [of "[1, n, d]" u] d by simp_all
  show "answers tn (bind_res (to_scale tn y (powf (nat_as_f64 (at_head_size a)) (Fin (- (1 / 2))))) (\<lambda>qs.
     bind_res (to_transpose tn 2 3 z) (\<lambda>kt. bind_res (to_matmul tn qs kt) (\<lambda>att0.
     bind_res (to_broadcast_add tn att0 (to_mask tn att_mask)) (\<lambda>att1. bind_res (to_softmax tn att1) (\<lambda>att.
     bind_res (to_matmul tn att v) (\<lambda>o1. bind_res (to_transpose tn 1 2 o1) (\<lambda>o2.
     bind_res (to_reshape tn [1, n, d] o2) (\<lambda>o3. bind_res (at_proj a o3) (to_reshape tn [1, n, d])))))))))) [1, n, d] True"
    by (rule answers_then [OF A(7) [OF yz(1)]], rule answers_then [OF A(9) [OF yz(2)]], rule answers_then [OF A(8)], assumption,
        assumption, rule answers_then [OF mask_laws(1) [OF laws(2) tab]], assumption, rule answers_then [OF mask_laws(2) [OF laws(2)]],
        assumption, rule answers_then [OF A(8)], assumption, rule shapes(3), rule answers_then [OF A(10)], assumption,
        rule answers_then [OF reshape(1)], assumption, rule answers_then [OF proj], assumption, erule reshape(2))
qed

lemma attention_answers:
  assumes laws: "attention_shapes tn" "mask_shapes tn" "linear_shapes tn lin"
    and load: "attention_load lin c path rot = Inr a"
    and rot: "table_of m k (rot_cos rot)" "table_of m k (rot_sin rot)"
    and x: "to_shape tn x = [1, n, mc_hidden_size c]" and n: "0 < n" and tab: "table_of n n att_mask"
  defines "hs \<equiv> mc_hidden_size c div mc_num_attention_heads c"
  shows "answers tn (attention_forward powf tn a x att_mask) [1, n, mc_hidden_size c]
    (mc_num_attention_heads c * hs = mc_hidden_size c \<and> k * 2 = hs \<and> n \<le> m)"
proof -
  define d h where "d = mc_hidden_size c" and "h = mc_num_attention_heads c"
  obtain p1 p2 where lin: "lin d (d * 3) p1 = Inr (at_qkv a)" "lin d d p2 = Inr (at_proj a)"
    and a: "at_rotary a = rot" "at_heads a = h" "at_head_size a = hs"
    using load by (auto simp: attention_load_def Let_def bind_res_Inr_iff d_def h_def hs_def)
  have linear: "answers tn (at_qkv a y) [1, n, d * 3] True" "answers tn (at_proj a y) [1, n, d] True" if "to_shape tn y = [1, n, d]" for y
    using linear_law [OF laws(3) lin(1), of y "[1, n]"] linear_law [OF laws(3) lin(2), of y "[1, n]"] that by simp_all
  note A = attention_laws [OF laws(1)]
  have split: "answers tn (to_reshape tn [1, n, 3, h, hs] y) [1, n, 3, h, hs] (h * hs = d)" if "to_shape tn y = [1, n, d * 3]" for y
    using A(2) [of "[1, n, 3, h, hs]" y] that n by (simp add: eq_commute [of d])
  have rest: "answers tn (attend powf tn a [1, n, d] q y v att_mask) [1, n, d] (k * 2 = hs \<and> n \<le> m)"
    if "h * hs = d" "to_shape tn q = [1, h, n, hs]" "to_shape tn y = [1, h, n, hs]" "to_shape tn v = [1, h, n, hs]" for q y v
    by (rule attend_answers [OF laws(1,2) linear(2) _ _ n tab that(2-4,1)]) (simp_all add: a rot)
  obtain y where y: "at_qkv a x = Inr y" "to_shape tn y = [1, n, d * 3]"
    using linear(1) x by (auto simp: answers_def d_def)
  show ?thesis
  proof (cases "h * hs = d")
    case True
    have "answers tn (bind_res (to_reshape tn [1, n, 3, h, hs] y) (\<lambda>r. bind_res (to_permute tn [2, 0, 3, 1, 4] r) (\<lambda>qkv.
      bind_res (to_get tn 0 qkv) (\<lambda>q. bind_res (to_get tn 1 qkv) (\<lambda>k. bind_res (to_get tn 2 qkv) (\<lambda>v.
        attend powf tn a [1, n, d] q k v att_mask)))))) [1, n, d] (k * 2 = hs \<and> n \<le> m)"
      by (rule answers_then [OF split [OF y(2), unfolded eqTrueI [OF True]]], rule answers_then [OF A(3)], assumption,
          rule answers_then [OF A(4)], assumption, simp, rule answers_then [OF A(4)], assumption, simp,
          rule answers_then [OF A(4)], assumption, simp, rule rest [OF True])
    then show ?thesis using A(1) [OF x] True by (simp add: attention_forward_def y(1) a flip: d_def h_def)
  next
    case False
    with split [OF y(2)] obtain e where "to_reshape tn [1, n, 3, h, hs] y = Inl e" by (auto simp: answers_def)
    then show ?thesis using A(1) [OF x] False by (simp add: attention_forward_def y(1) a answers_def flip: d_def h_def)
  qed
qed

section \<open>When the encoder answers\<close>

lemma mlp_laws:
  assumes "mlp_shapes tn"
  shows "to_shape tn x = s @ [k * 2] \<Longrightarrow>
      \<exists>x0 x1. to_chunk2 tn x = Inr (x0, x1) \<and> to_shape tn x0 = s @ [k] \<and> to_shape tn x1 = s @ [k]"
    and "to_shape tn x = s \<Longrightarrow> answers tn (to_gelu_erf tn x) s True"
    and "to_shape tn x = s \<Longrightarrow> to_shape tn y = s \<Longrightarrow> answers tn (to_mul tn x y) s True"
    and "to_shape tn x = s \<Longrightarrow> to_shape tn y = s \<Longrightarrow> answers tn (to_add tn x y) s True"
  using assms unfolding mlp_shapes_def by blast+

lemma mlp_answers:
  assumes laws: "mlp_shapes tn" "linear_shapes tn lin" and load: "mlp_load lin c path = Inr m"
    and x: "to_shape tn x = [1, n, mc_hidden_size c]"
  shows "answers tn (mlp_forward tn m x) [1, n, mc_hidden_size c] True"
proof -
  define d i where "d = mc_hidden_size c" and "i = mc_intermediate_size c"
  obtain p1 p2 where lin: "lin d (i * 2) p1 = Inr (ml_wi m)" "lin i d p2 = Inr (ml_wo m)"
    using load by (auto simp: mlp_load_def bind_res_Inr_iff d_def i_def)
  obtain y where y: "ml_wi m x = Inr y" "to_shape tn y = [1, n] @ [i * 2]"
    using linear_law [OF laws(2) lin(1), of x "[1, n]"] x by (auto simp: answers_def d_def)
  obtain x0 x1 where c: "to_chunk2 tn y = Inr (x0, x1)" "to_shape tn x0 = [1, n, i]" "to_shape tn x1 = [1, n, i]"
    using mlp_laws(1) [OF laws(1) y(2)] by auto
  obtain g where g: "to_gelu_erf tn x0 = Inr g" "to_shape tn g = [1, n, i]"
    using mlp_laws(2) [OF laws(1) c(2)] by (auto simp: answers_def)
  obtain z where z: "to_mul tn g x1 = Inr z" "to_shape tn z = [1, n, i]"
    using mlp_laws(3) [OF laws(1) g(2) c(3)] by (auto simp: answers_def)
  show ?thesis using linear_law [OF laws(2) lin(2), of z "[1, n]"] z(2)
    by (simp add: mlp_forward_def y(1) c(1) g(1) z(1) flip: d_def)
qed

text \<open>
  The positions fit the rotary tables, and the heads share the hidden size evenly, in
  components that come in pairs.
\<close>

definition attention_fits :: "modern_config \<Rightarrow> nat \<Rightarrow> bool" where
  "attention_fits c n \<longleftrightarrow>
     (let hs = mc_hidden_size c div mc_num_attention_heads c
      in mc_num_attention_heads c * hs = mc_hidden_size c \<and> even hs \<and> n \<le> mc_max_position_embeddings c)"

definition rotary_fits :: "modern_config \<Rightarrow> rotary \<Rightarrow> bool" where
  "rotary_fits c rot \<longleftrightarrow>
     (let w = (mc_hidden_size c div mc_num_attention_heads c + 1) div 2
      in table_of (mc_max_position_embeddings c) w (rot_cos rot) \<and> table_of (mc_max_position_embeddings c) w (rot_sin rot))"

lemma table_layer_mask:
  "table_of n n g \<Longrightarrow> table_of n n l \<Longrightarrow> table_of n n (layer_mask uses_local g l)"
  by (auto simp: table_of_def layer_mask_def in_set_zip)

lemma table_global_mask: "table_of (length pad) (length pad) (prepare_4d_attention_mask pad)"
  by (simp add: table_of_def prepare_4d_attention_mask_def)

lemma table_local_mask: "table_of n n (get_local_attention_mask n w)"
  by (auto simp: table_of_def get_local_attention_mask_def)

lemma rotary_new_fits:
  assumes "rotary_new powf fln fsin fcos c theta = Some rot"
  shows "rotary_fits c rot"
proof -
  define hs where "hs = mc_hidden_size c div mc_num_attention_heads c"
  have "length (inv_freq powf fln c theta hs) = (hs + 1) div 2"
    by (simp add: inv_freq_def Let_def split: option.splits)
  with assms show ?thesis
    by (auto simp: rotary_new_def rotary_fits_def table_of_def rotary_table_def Let_def hs_def split: if_splits)
qed

definition library_shapes :: "'t layer_ops \<Rightarrow> 't linears \<Rightarrow> 't checkpoint \<Rightarrow> bool" where
  "library_shapes tn lin ck \<longleftrightarrow>
     attention_shapes tn \<and> mask_shapes tn \<and> mlp_shapes tn \<and> linear_shapes tn lin \<and> checkpoint_shapes tn ck"

lemma norm_law:
  assumes "checkpoint_shapes tn ck" and "ck_norm ck d eps path = Inr f" and "to_shape tn x = [1, n, d]"
  shows "answers tn (f x) [1, n, d] True"
proof -
  have "\<And>x s. to_shape tn x = s @ [d] \<Longrightarrow> answers tn (f x) (s @ [d]) True"
    using assms(1,2) unfolding checkpoint_shapes_def by blast
  from this [of x "[1, n]"] assms(3) show ?thesis by simp
qed

lemma checkpoint_norm [simp]: "ck_norm (encoder_checkpoint powf tn lin ck) = ck_norm ck"
  "ck_embedding (encoder_checkpoint powf tn lin ck) = ck_embedding ck"
  by (simp_all add: encoder_checkpoint_def)

lemma layer_answers:
  assumes laws: "library_shapes tn lin ck" and load: "layer_load (encoder_checkpoint powf tn lin ck) c path rot loc = Inr l"
    and rot: "rotary_fits c rot" and n: "0 < n" and g: "table_of n n g" and lm: "table_of n n lm"
    and x: "to_shape tn x = [1, n, mc_hidden_size c]"
  shows "answers tn (layer_forward (to_add tn) g lm l x) [1, n, mc_hidden_size c] (attention_fits c n)"
proof -
  define d where "d = mc_hidden_size c"
  have L: "attention_shapes tn" "mask_shapes tn" "mlp_shapes tn" "linear_shapes tn lin" "checkpoint_shapes tn ck"
    using laws by (simp_all add: library_shapes_def)
  obtain a m where a: "attention_load lin c (path @ ''.attn'') rot = Inr a" "ly_attn l = attention_forward powf tn a"
    and m: "mlp_load lin c (path @ ''.mlp'') = Inr m" "ly_mlp l = mlp_forward tn m"
    and nrm: "ck_norm ck d (mc_layer_norm_eps c) (path @ ''.mlp_norm'') = Inr (ly_mlp_norm l)"
      "ly_attn_norm l = None \<or> (\<exists>f. ly_attn_norm l = Some f \<and> ck_norm ck d (mc_layer_norm_eps c) (path @ ''.attn_norm'') = Inr f)"
    using load by (auto simp: layer_load_def Let_def bind_res_Inr_iff encoder_checkpoint_def d_def split: sum.splits)
  define hs where "hs = mc_hidden_size c div mc_num_attention_heads c"
  have half: "(hs + 1) div 2 * 2 = hs \<longleftrightarrow> even hs" by presburger
  have tables: "table_of (mc_max_position_embeddings c) ((hs + 1) div 2) (rot_cos rot)"
    "table_of (mc_max_position_embeddings c) ((hs + 1) div 2) (rot_sin rot)"
    using rot by (simp_all add: rotary_fits_def Let_def hs_def)
  have att: "answers tn (ly_attn l y (layer_mask (ly_local l) g lm)) [1, n, d] (attention_fits c n)" if "to_shape tn y = [1, n, d]" for y
    using attention_answers [OF L(1,2,4) a(1) tables that [unfolded d_def] n table_layer_mask [OF g lm], folded hs_def]
    unfolding half by (simp add: a(2) d_def attention_fits_def Let_def flip: hs_def)
  have pre: "answers tn (case ly_attn_norm l of None \<Rightarrow> Inr x | Some f \<Rightarrow> f x) [1, n, d] True"
    using nrm(2) norm_law [OF L(5) _ x] x by (auto simp: d_def)
  have "answers tn (layer_forward (to_add tn) g lm l x) [1, n, d] (attention_fits c n \<and> True)"
    unfolding layer_forward_def
    by (rule answers_then [OF pre], rule answers_bind [OF att], assumption, rule answers_then [OF mlp_laws(4) [OF L(3) _ x [folded d_def]]],
        assumption, rule answers_then [OF norm_law [OF L(5) nrm(1)]], assumption,
        rule answers_then [OF mlp_answers [OF L(3,4) m(1), folded m(2) d_def]], assumption, rule mlp_laws(4) [OF L(3)], assumption, assumption)
  then show ?thesis by (simp add: d_def)
qed

lemma layers_answer:
  assumes laws: "library_shapes tn lin ck" and load: "layers_load (encoder_checkpoint powf tn lin ck) c gr lr ks = Some (Inr ls)"
    and rot: "rotary_fits c gr" "rotary_fits c lr" and n: "0 < n" and g: "table_of n n g" and lm: "table_of n n lm"
    and x: "to_shape tn x = [1, n, mc_hidden_size c]"
  shows "answers tn (layers_forward (to_add tn) g lm ls x) [1, n, mc_hidden_size c] (ks = [] \<or> attention_fits c n)"
  using load x
proof (induction ks arbitrary: ls x)
  case (Cons k ks)
  let ?rot = "if k mod mc_global_attn_every_n_layers c \<noteq> 0 then lr else gr"
  obtain l ls' where l: "layer_load (encoder_checkpoint powf tn lin ck) c (''model.layers.'' @ show_nat k) ?rot
      (k mod mc_global_attn_every_n_layers c \<noteq> 0) = Inr l"
    "layers_load (encoder_checkpoint powf tn lin ck) c gr lr ks = Some (Inr ls')" "ls = l # ls'"
    using Cons.prems(1) by (auto simp: Let_def bind_res_Inr_iff split: if_splits sum.splits)
  have "rotary_fits c ?rot" using rot by simp
  from layer_answers [OF laws l(1) this n g lm Cons.prems(2)]
  have "answers tn (layers_forward (to_add tn) g lm ls x) [1, n, mc_hidden_size c] (attention_fits c n \<and> (ks = [] \<or> attention_fits c n))"
    unfolding l(3) layers_forward.simps by (rule answers_bind) (rule Cons.IH [OF l(2)])
  moreover have "(attention_fits c n \<and> (ks = [] \<or> attention_fits c n)) = attention_fits c n" by auto
  ultimately show ?case by simp
qed simp

lemma encoder_answers:
  assumes "library_shapes tn lin ck"
    and "modern_load (encoder_checkpoint powf tn lin ck) (rotary_new pf fln fsin fcos) c = Some (Inr m)"
    and "ids \<noteq> []" and "length pad = length ids"
  shows "answers tn (modern_forward (to_add tn) m ids pad) [1, length ids, mc_hidden_size c]
    ((\<forall>k\<in>set ids. k < mc_vocab_size c) \<and> (mc_num_hidden_layers c = 0 \<or> attention_fits c (length ids)))"
proof -
  have L: "checkpoint_shapes tn ck" using assms(1) by (simp add: library_shapes_def)
  obtain gr lr p q where rot: "rotary_new pf fln fsin fcos c (mc_global_rope_theta c) = Some gr" "rotary_new pf fln fsin fcos c (mc_local_rope_theta c) = Some lr"
    and emb: "ck_embedding ck (mc_vocab_size c) (mc_hidden_size c) p = Inr (mb_embed m)"
    and nrm: "ck_norm ck (mc_hidden_size c) (mc_layer_norm_eps c) q = Inr (mb_norm m)"
    and ls: "layers_load (encoder_checkpoint powf tn lin ck) c gr lr [0..<mc_num_hidden_layers c] = Some (Inr (mb_layers m))"
    and fin: "\<exists>r. ck_norm ck (mc_hidden_size c) (mc_layer_norm_eps c) r = Inr (mb_final_norm m)"
    using assms(2) by (auto simp: modern_load_def bind_res_Inr_iff split: sum.splits option.splits prod.splits) blast
  obtain r where fin: "ck_norm ck (mc_hidden_size c) (mc_layer_norm_eps c) r = Inr (mb_final_norm m)" using fin by blast
  define n where "n = length ids"
  have n: "0 < n" using assms(3) by (simp add: n_def)
  have g: "table_of n n (prepare_4d_attention_mask pad)" using table_global_mask [of pad] assms(4) by (simp add: n_def)
  have emb': "answers tn (mb_embed m ids) [1, n, mc_hidden_size c] (\<forall>k\<in>set ids. k < mc_vocab_size c)"
    using L emb unfolding checkpoint_shapes_def n_def by blast
  have "answers tn (modern_forward (to_add tn) m ids pad) [1, n, mc_hidden_size c]
    ((\<forall>k\<in>set ids. k < mc_vocab_size c) \<and> (([0..<mc_num_hidden_layers c] = [] \<or> attention_fits c n) \<and> True))"
    unfolding modern_forward_def Let_def n_def [symmetric]
    by (rule answers_bind [OF emb'], rule answers_then [OF norm_law [OF L nrm]], assumption,
        rule answers_bind [OF layers_answer [OF assms(1) ls rotary_new_fits [OF rot(1)] rotary_new_fits [OF rot(2)] n g table_local_mask]],
        assumption, rule norm_law [OF L fin])
  then show ?thesis by (simp add: n_def)
qed


text \<open>
  C21. When a loaded encoder answers. On a checkpoint whose layers have the sizes of the
  configuration, and tensor operations with the shapes their library documents, the
  forward pass returns one vector of the hidden size per token exactly when every token is
  in the vocabulary, the positions fit the rotary tables, and the heads share the hidden
  size in pairs of components; in every other case it is an error, never a tensor of
  another shape.
\<close>

theorem encoder_answers_iff:
  assumes "library_shapes tn lin ck"
    and "modern_load (encoder_checkpoint powf tn lin ck) (rotary_new pf fln fsin fcos) c = Some (Inr m)"
    and "ids \<noteq> []" and "length pad = length ids"
  defines "hs \<equiv> mc_hidden_size c div mc_num_attention_heads c"
  shows "if (\<forall>k\<in>set ids. k < mc_vocab_size c) \<and> (mc_num_hidden_layers c = 0 \<or>
        mc_num_attention_heads c * hs = mc_hidden_size c \<and> even hs \<and> length ids \<le> mc_max_position_embeddings c)
    then \<exists>y. modern_forward (to_add tn) m ids pad = Inr y \<and> to_shape tn y = [1, length ids, mc_hidden_size c]
    else \<exists>e. modern_forward (to_add tn) m ids pad = Inl e"
  using encoder_answers [OF assms(1-4)] by (simp only: answers_def attention_fits_def Let_def hs_def)

section \<open>The sequence classifier\<close>

lemma pooling_laws:
  assumes "pooling_shapes tn"
  shows "to_shape tn (to_pad tn pad) = [1, length pad]"
    and "to_shape tn x = s \<Longrightarrow> answers tn (to_unsqueeze_last tn x) (s @ [1]) True"
    and "to_shape tn x = [b, n, d] \<Longrightarrow> to_shape tn y = [b, n, 1] \<Longrightarrow> answers tn (to_broadcast_mul tn x y) [b, n, d] True"
    and "to_shape tn x = [b, d] \<Longrightarrow> to_shape tn y = [b, 1] \<Longrightarrow> answers tn (to_broadcast_div tn x y) [b, d] True"
    and "to_shape tn x = b # n # s \<Longrightarrow> answers tn (to_sum1 tn x) (b # s) True"
    and "to_shape tn x = b # n # s \<Longrightarrow> answers tn (to_sum_keepdim1 tn x) (b # 1 # s) True"
    and "to_shape tn x = [b, n, d] \<Longrightarrow> 0 < n \<Longrightarrow> answers tn (to_first_token tn x) [b, d] True"
  using assms by (auto simp: pooling_shapes_def)

lemma pooled_answers:
  assumes laws: "pooling_shapes tn" and x: "to_shape tn x = [1, n, d]" and n: "0 < n" and pad: "length pad = n"
  shows "answers tn (pooled_state tn pooling x pad) [1, d] True"
proof (cases pooling)
  case PoolCls
  then show ?thesis using pooling_laws(7) [OF laws x n] by (simp add: pooled_state_def)
next
  case PoolMean
  note P = pooling_laws [OF laws]
  have m: "to_shape tn (to_pad tn pad) = [1, n]" using P(1) [of pad] pad by simp
  have "answers tn (bind_res (to_unsqueeze_last tn (to_pad tn pad)) (\<lambda>u. bind_res (to_broadcast_mul tn x u) (\<lambda>masked.
      bind_res (to_sum1 tn masked) (\<lambda>total. bind_res (to_sum_keepdim1 tn (to_pad tn pad)) (\<lambda>count. to_broadcast_div tn total count))))) [1, d] True"
    by (rule answers_then [OF P(2) [OF m]], rule answers_then [OF P(3) [OF x]], simp, rule answers_then [OF P(5)], assumption,
        rule answers_then [OF P(6) [OF m]], rule P(4), assumption, assumption)
  then show ?thesis by (simp add: PoolMean pooled_state_def)
qed

text \<open>
  A loaded sequence classifier returns one score per label of its configuration exactly
  when its encoder answers, and an error otherwise, with either pooling.
\<close>

theorem sequence_model_answers:
  assumes laws: "library_shapes tn lin ck" "linear_shapes tn lin_bias" "pooling_shapes tn"
    and load: "sequence_model_load (encoder_checkpoint powf tn lin ck) lin lin_bias (rotary_new pf fln fsin fcos) c (Some cc) = Some (Inr m)"
    and ids: "ids \<noteq> []" and pad: "length pad = length ids"
  shows "answers tn (sequence_model_forward tn m ids pad) [1, length (cc_id2label cc)]
    ((\<forall>k\<in>set ids. k < mc_vocab_size c) \<and> (mc_num_hidden_layers c = 0 \<or> attention_fits c (length ids)))"
proof -
  define d where "d = mc_hidden_size c"
  have L: "mask_shapes tn" "mlp_shapes tn" "linear_shapes tn lin" "checkpoint_shapes tn ck" using laws(1) by (simp_all add: library_shapes_def)
  have enc: "modern_load (encoder_checkpoint powf tn lin ck) (rotary_new pf fln fsin fcos) c = Some (Inr (sm_model m))"
    and cls: "\<exists>p. lin_bias d (length (cc_id2label cc)) p = Inr (sm_classifier m)"
    and head: "\<exists>p q. lin d d p = Inr (ph_dense (sm_head m)) \<and> ck_norm ck d (mc_layer_norm_eps c) q = Inr (ph_norm (sm_head m))"
    using load by (auto simp: sequence_model_load_def sequence_classifier_load_def prediction_head_load_def bind_res_Inr_iff d_def)
  have dense: "answers tn (ph_dense (sm_head m) y) [1, d] True" if "to_shape tn y = [1, d]" for y
    using linear_law [OF L(3), of d d _ _ y "[1]"] head that by auto
  have norm: "answers tn (ph_norm (sm_head m) y) [1, d] True" if "to_shape tn y = [1, d]" for y
  proof -
    obtain q where "ck_norm ck d (mc_layer_norm_eps c) q = Inr (ph_norm (sm_head m))" using head by blast
    then have "\<And>x s. to_shape tn x = s @ [d] \<Longrightarrow> answers tn (ph_norm (sm_head m) x) (s @ [d]) True"
      using L(4) unfolding checkpoint_shapes_def by blast
    from this [of y "[1]"] that show ?thesis by simp
  qed
  have score: "answers tn (sm_classifier m y) [1, length (cc_id2label cc)] True" if "to_shape tn y = [1, d]" for y
    using linear_law [OF laws(2), of d "length (cc_id2label cc)" _ _ y "[1]"] cls that by auto
  have "answers tn (sequence_model_forward tn m ids pad) [1, length (cc_id2label cc)]
      (((\<forall>k\<in>set ids. k < mc_vocab_size c) \<and> (mc_num_hidden_layers c = 0 \<or> attention_fits c (length ids))) \<and> True)"
    unfolding sequence_model_forward_def
  proof (rule answers_bind [OF encoder_answers [OF laws(1) enc ids pad]])
    fix y assume "to_shape tn y = [1, length ids, mc_hidden_size c]"
    from pooled_answers [OF laws(3) this _ pad] ids
    have pooled: "answers tn (pooled_state tn (sm_pooling m) y pad) [1, d] True" by (simp add: d_def)
    show "answers tn (bind_res (pooled_state tn (sm_pooling m) y pad) (\<lambda>state. bind_res (prediction_head_forward tn (sm_head m) state)
        (sequence_classifier_forward tn (sm_classifier m)))) [1, length (cc_id2label cc)] True"
      unfolding prediction_head_forward_def sequence_classifier_forward_def
      by (rule answers_then [OF pooled], rule answers_then, rule answers_then [OF dense], assumption,
          rule answers_then [OF mlp_laws(2) [OF L(2)]], assumption, rule norm, assumption, rule answers_then [OF score], assumption,
          rule mask_laws(2) [OF L(1)])
  qed
  then show ?thesis by simp
qed

section \<open>A library of shapes\<close>

text \<open>The operations on shapes alone, and the checkpoint they make of a configuration.\<close>

definition shape_ops :: "nat list layer_ops" where
  "shape_ops =
     \<lparr>to_shape = (\<lambda>x. x), to_dims3 = (\<lambda>x. case x of [b, n, d] \<Rightarrow> Inr (b, n, d) | _ \<Rightarrow> Inl ''rank''),
      to_reshape = (\<lambda>s x. if prod_list x = prod_list s then Inr s else Inl ''reshape''),
      to_permute = (\<lambda>p x. Inr (List.map ((!) x) p)),
      to_get = (\<lambda>i x. case x of a # s \<Rightarrow> if i < a then Inr s else Inl ''index'' | [] \<Rightarrow> Inl ''rank''),
      to_contiguous = Inr,
      to_rope = (\<lambda>x tc ts. if tc \<noteq> [] \<and> length (hd tc) * 2 = x ! 3 \<and> x ! 2 \<le> length tc then Inr x else Inl ''rope''),
      to_scale = (\<lambda>x u. Inr x), to_matmul = (\<lambda>x y. Inr (butlast x @ [last y])),
      to_transpose = (\<lambda>i j x. case x of [a, b, c, d] \<Rightarrow> Inr (if i = 2 then [a, b, d, c] else [a, c, b, d]) | _ \<Rightarrow> Inl ''rank''),
      to_mask = (\<lambda>rows. [1, 1, length rows, length rows]), to_broadcast_add = (\<lambda>x y. Inr x), to_softmax = Inr,
      to_chunk2 = (\<lambda>x. Inr (butlast x @ [last x div 2], butlast x @ [last x div 2])), to_gelu_erf = Inr,
      to_add = (\<lambda>x y. Inr x), to_mul = (\<lambda>x y. Inr x), to_pad = (\<lambda>p. [1, length p]), to_unsqueeze_last = (\<lambda>x. Inr (x @ [1])),
      to_broadcast_mul = (\<lambda>x y. Inr x), to_broadcast_div = (\<lambda>x y. Inr x), to_sum1 = (\<lambda>x. Inr (hd x # drop 2 x)),
      to_sum_keepdim1 = (\<lambda>x. Inr (hd x # 1 # drop 2 x)),
      to_first_token = (\<lambda>x. if 0 < x ! 1 then Inr [x ! 0, x ! 2] else Inl ''index'')\<rparr>"

definition sized_linear :: "nat list linears" where
  "sized_linear i n path = Inr (\<lambda>x. Inr (butlast x @ [n]))"

definition sized_checkpoint :: "nat list checkpoint" where
  "sized_checkpoint =
     \<lparr>ck_embedding = (\<lambda>vocab d _. Inr (\<lambda>ids. if \<forall>k\<in>set ids. k < vocab then Inr [1, length ids, d] else Inl ''index'')),
      ck_norm = (\<lambda>_ _ _. Inr Inr), ck_attention = (\<lambda>_ _ _. Inl []), ck_mlp = (\<lambda>_ _. Inl [])\<rparr>"

lemma shape_rope:
  assumes "to_shape shape_ops x = [b, h, n, e]" and "0 < n" and "table_of m k tc"
  shows "answers shape_ops (to_rope shape_ops x tc ts) [b, h, n, e] (k * 2 = e \<and> n \<le> m)"
  using assms by (cases tc) (auto simp: shape_ops_def answers_def table_of_def)

lemma shape_ops_library: "library_shapes shape_ops sized_linear sized_checkpoint"
proof -
  have "attention_shapes shape_ops" unfolding attention_shapes_def
    by (intro conjI allI impI; (elim conjE)?; (rule shape_rope; assumption | simp add: shape_ops_def answers_def))
  moreover have "mask_shapes shape_ops" "mlp_shapes shape_ops"
    by (auto simp: mask_shapes_def mlp_shapes_def shape_ops_def table_of_def)
  moreover have "linear_shapes shape_ops sized_linear" "checkpoint_shapes shape_ops sized_checkpoint"
    by (auto simp: linear_shapes_def checkpoint_shapes_def shape_ops_def sized_linear_def sized_checkpoint_def answers_def)
  ultimately show ?thesis by (simp add: library_shapes_def)
qed

lemma shape_model_loads:
  "\<exists>m. modern_load (encoder_checkpoint (\<lambda>_ _. Fin 1) shape_ops sized_linear sized_checkpoint)
     (rotary_new (\<lambda>_ _. Fin 2) demo_ln (\<lambda>x. x) (\<lambda>x. x)) demo_modern = Some (Inr m)"
  by (simp add: modern_load_def encoder_checkpoint_def sized_checkpoint_def sized_linear_def demo_modern_def rotary_new_def
      upt_rec layer_load_def attention_load_def mlp_load_def Let_def)

theorem encoder_answers_iff_witness:
  "\<exists>m. modern_load (encoder_checkpoint (\<lambda>_ _. Fin 1) shape_ops sized_linear sized_checkpoint)
       (rotary_new (\<lambda>_ _. Fin 2) demo_ln (\<lambda>x. x) (\<lambda>x. x)) demo_modern = Some (Inr m) \<and>
     modern_forward (to_add shape_ops) m [1, 2, 3] (replicate 3 (Fin 1)) = Inr [1, 3, 16] \<and>
     (\<exists>e. modern_forward (to_add shape_ops) m (replicate 9 1) (replicate 9 (Fin 1)) = Inl e)"
proof -
  obtain m where m: "modern_load (encoder_checkpoint (\<lambda>_ _. Fin 1) shape_ops sized_linear sized_checkpoint)
     (rotary_new (\<lambda>_ _. Fin 2) demo_ln (\<lambda>x. x) (\<lambda>x. x)) demo_modern = Some (Inr m)"
    using shape_model_loads by blast
  have "if (\<forall>k\<in>set ids. k < 16) \<and> length ids \<le> 8 then modern_forward (to_add shape_ops) m ids pad = Inr [1, length ids, 16]
      else \<exists>e. modern_forward (to_add shape_ops) m ids pad = Inl e" if "ids \<noteq> []" "length pad = length ids" for ids pad
    using encoder_answers_iff [OF shape_ops_library m that] by (auto simp: demo_modern_def shape_ops_def split: if_splits)
  from this [of "[1, 2, 3]" "replicate 3 (Fin 1)"] this [of "replicate 9 1" "replicate 9 (Fin 1)"] m
  show ?thesis by auto
qed

end
