(* ===== verification/Tokenizer.thy ===== *)
theory Tokenizer
  imports Backends EmbeddingLoad
begin

text \<open>
  The wrapper of \<open>src/src/tokenizer.rs\<close> around the tokenizers library, a parameter, and the
  deterministic fixtures of \<open>src/src/classify.rs\<close> that are built with it: what a server without
  a model directory serves.
\<close>

section \<open>The tokenizer\<close>

record 'k tokenizers_lib =
  tk_from_file :: "string \<Rightarrow> string + 'k"
  tk_encode :: "'k \<Rightarrow> string \<Rightarrow> bool \<Rightarrow> string + nat list"

datatype tokenizer_error = TokenizersError string

primrec show_tokenizer_error :: "tokenizer_error \<Rightarrow> string" where
  "show_tokenizer_error (TokenizersError e) = ''tokenizer error: '' @ e"

definition tokenizer_load :: "'k tokenizers_lib \<Rightarrow> string \<Rightarrow> tokenizer_error + 'k" where
  "tokenizer_load lib path = map_err TokenizersError (tk_from_file lib path)"

definition tokenizer_tokenize :: "'k tokenizers_lib \<Rightarrow> 'k \<Rightarrow> string \<Rightarrow> tokenizer_error + nat list" where
  "tokenizer_tokenize lib k text = map_err TokenizersError (tk_encode lib k text True)"

section \<open>The deterministic fixtures\<close>

text \<open>
  \<open>load_prototypes\<close> asserts the shape of the fixture: \<open>None\<close> is its panic. \<open>as_f64\<close> is the
  accessor of a JSON number.
\<close>

definition prototype_of :: "'j json_ops \<Rightarrow> ('j \<Rightarrow> flt option) \<Rightarrow> 'j \<Rightarrow> prototype option" where
  "prototype_of js as_f64 obj =
     Option.bind (Option.bind (js_get js obj ''id'') (js_str js)) (\<lambda>i.
     Option.bind (Option.bind (js_get js obj ''vector'') (js_array js)) (\<lambda>vs.
     map_option (\<lambda>xs. \<lparr>proto_id = i, proto_vector = List.map (fcast round32) xs\<rparr>) (collect_opt (List.map as_f64 vs))))"

definition load_prototypes :: "'j json_ops \<Rightarrow> ('j \<Rightarrow> flt option) \<Rightarrow> string + string \<Rightarrow> prototype list option" where
  "load_prototypes js as_f64 file =
     Option.bind (ok_of file) (\<lambda>raw. Option.bind (parsed js raw) (\<lambda>root.
       if Option.bind (js_get js root ''label'') (js_str js) \<noteq> Some ''synthetic_for_mechanics_only'' then None
       else if Option.bind (js_get js root ''dim'') (js_u64 js) \<noteq> Some SYNTHETIC_DIM then None
       else Option.bind (Option.bind (js_get js root ''prototypes'') (js_array js)) (\<lambda>objs.
              collect_opt (List.map (prototype_of js as_f64) objs))))"

definition synthetic_fixtures ::
  "'j json_ops \<Rightarrow> ('j \<Rightarrow> flt option) \<Rightarrow> (string \<Rightarrow> string + string) \<Rightarrow> 'k tokenizers_lib \<Rightarrow>
     string \<Rightarrow> ((string \<Rightarrow> string + nat list) \<times> prototype list) option" where
  "synthetic_fixtures js as_f64 read lib dir =
     Option.bind (ok_of (tokenizer_load lib (path_join dir ''tokenizer.json''))) (\<lambda>k.
     map_option (Pair (\<lambda>text. map_err show_tokenizer_error (tokenizer_tokenize lib k text))) (load_prototypes js as_f64 (read (path_join dir ''synthetic-prototypes.json''))))"

text \<open>The stage times and the order of an inconsistent sort are parameters of the record.\<close>

definition synthetic_service ::
  "(string \<Rightarrow> nat) \<Rightarrow> (flt list \<Rightarrow> nat) \<Rightarrow> (string \<times> flt) list \<Rightarrow> (string \<Rightarrow> string + nat list) \<times> prototype list \<Rightarrow> classify_service" where
  "synthetic_service tokenize_ns rank_ns unspecified fixtures =
     \<lparr>cs_tokenize = fst fixtures, cs_prototypes = snd fixtures, cs_tokenize_ns = tokenize_ns, cs_rank_ns = rank_ns,
      cs_unspecified = unspecified\<rparr>"

end
