(* ===== verification/GrpcServer.thy ===== *)
theory GrpcServer
  imports GrpcClassify Health Tokenizer
begin

text \<open>
  The server of \<open>src/src/grpc/classify.rs\<close> around the classify handler: how it is bound, over
  the deterministic service or a loaded classifier, the health service that shares its
  listener, the count of accepted connections, and the blocking clients of
  \<open>grpc/classify.rs\<close> and \<open>grpc/health.rs\<close>. The runtime, the sockets and the channel are calls of
  \<open>tokio\<close> and \<open>tonic\<close> and parameters; what arrives at the listener is a list of events.
\<close>

section \<open>Binding\<close>

record 'l net_ops =
  nt_runtime :: "string + unit"
  nt_listen :: "string \<Rightarrow> string + 'l"
  nt_local_addr :: "'l \<Rightarrow> string + string"

text \<open>\<open>'s\<close> is the classify service; its metrics and telemetry are the server's.\<close>

record 's grpc_server =
  gv_service :: 's
  gv_health :: health_service
  gv_addr :: string
  gv_readiness :: readiness
  gv_accepted :: "64 word"

definition serve :: "'l net_ops \<Rightarrow> string \<Rightarrow> 's \<Rightarrow> readiness \<Rightarrow> string + 's grpc_server" where
  "serve net addr service r =
     bind_res (nt_runtime net) (\<lambda>_. bind_res (nt_listen net addr) (\<lambda>listener. bind_res (nt_local_addr net listener) (\<lambda>bound.
       Inr \<lparr>gv_service = service, gv_health = health_new r [SERVICE_NAME], gv_addr = bound, gv_readiness = r, gv_accepted = 0\<rparr>)))"

text \<open>
  The service over the deterministic backend, which keeps no state, and the one over a loaded
  classifier, with no semantic tier or with the one in Redis.
\<close>

definition core_with_metrics :: "'r \<Rightarrow> metrics \<Rightarrow> ('r, unit, unit) service_core" where
  "core_with_metrics backend m = core_new backend () () m"

definition core_with_semantic_cache :: "'r \<Rightarrow> metrics \<Rightarrow> 'b \<Rightarrow> ('r, unit, 'b) service_core" where
  "core_with_semantic_cache backend m semantic = core_new backend () semantic m"

definition with_executor :: "'r \<Rightarrow> telemetry \<Rightarrow> metrics \<Rightarrow> ('r, unit, unit) classify_server" where
  "with_executor backend t m = server_new t (core_with_metrics backend m)"

definition with_executor_and_cache :: "'r \<Rightarrow> telemetry \<Rightarrow> metrics \<Rightarrow> 'b \<Rightarrow> ('r, unit, 'b) classify_server" where
  "with_executor_and_cache backend t m semantic = server_new t (core_with_semantic_cache backend m semantic)"

definition bind_with_metrics :: "'l net_ops \<Rightarrow> nat option \<Rightarrow> string \<Rightarrow> metrics \<Rightarrow> string + (unit, unit, unit) classify_server grpc_server" where
  "bind_with_metrics net capacity addr m = serve net addr (with_executor () (telemetry_new capacity) m) RReady"

definition bind_synthetic :: "'l net_ops \<Rightarrow> nat option \<Rightarrow> string \<Rightarrow> string + (unit, unit, unit) classify_server grpc_server" where
  "bind_synthetic net capacity addr = serve net addr (with_executor () (telemetry_new capacity) metrics_new) RReady"

datatype 'x bound_service =
    ExactOnly "(candle_counters, unit, unit) classify_server"
  | WithRedis "(candle_counters, unit, 'x redis_tier) classify_server"

text \<open>
  \<open>opened\<close> opens a Redis address, \<open>None\<close> in a binary built without the tier; \<open>get\<close> reads the
  environment, \<open>m\<close> and \<open>counters\<close> are the classifier's registry and call counters.
\<close>

definition bind_with_classifier ::
  "'l net_ops \<Rightarrow> nat option \<Rightarrow> (string \<Rightarrow> string + 'x) option \<Rightarrow> (string \<Rightarrow> string option) \<Rightarrow>
     candle_counters \<Rightarrow> metrics \<Rightarrow> string \<Rightarrow> string + 'x bound_service grpc_server" where
  "bind_with_classifier net capacity opened get counters m addr =
     (let t = telemetry_new capacity;
          semantic = select_semantic (map_option (\<lambda>f cfg. map_sum id Some (redis_connect f cfg)) opened) None (from_env_with get);
          service = (case semantic of
                       None \<Rightarrow> ExactOnly (with_executor_and_cache counters t m ())
                     | Some b \<Rightarrow> WithRedis (with_executor_and_cache counters t m b))
      in serve net addr service RReady)"

section \<open>Serving\<close>

definition bound_classify ::
  "grpc_params \<Rightarrow> candle_classifier \<Rightarrow> 'x redis_env \<Rightarrow> (string \<Rightarrow> signature) \<Rightarrow> (string \<Rightarrow> string) \<Rightarrow> call_env \<Rightarrow> classify_request \<Rightarrow>
     'x bound_service \<Rightarrow> ((grpc_status + classify_response) \<times> 'x bound_service) option" where
  "bound_classify gp cl renv sg hash call req b =
     (case b of
        ExactOnly s \<Rightarrow> map_option (map_prod id ExactOnly) (grpc_classify gp (served_env (candle_runtime cl) noop_text sg hash) call req s)
      | WithRedis s \<Rightarrow> map_option (map_prod id WithRedis) (grpc_classify gp (redis_served_env (candle_runtime cl) noop_text renv sg hash) call req s))"

definition bound_abandoned ::
  "grpc_params \<Rightarrow> candle_classifier \<Rightarrow> 'x redis_env \<Rightarrow> (string \<Rightarrow> signature) \<Rightarrow> (string \<Rightarrow> string) \<Rightarrow> call_env \<Rightarrow> classify_request \<Rightarrow>
     abandoned \<Rightarrow> 'x bound_service \<Rightarrow> 'x bound_service option" where
  "bound_abandoned gp cl renv sg hash call req gone b =
     (case b of
        ExactOnly s \<Rightarrow> map_option ExactOnly (grpc_abandoned gp (served_env (candle_runtime cl) noop_text sg hash) call req gone s)
      | WithRedis s \<Rightarrow> map_option WithRedis (grpc_abandoned gp (redis_served_env (candle_runtime cl) noop_text renv sg hash) call req gone s))"

definition bound_writer :: "'x redis_env \<Rightarrow> 'x bound_service \<Rightarrow> 'x bound_service" where
  "bound_writer renv b =
     (case b of ExactOnly s \<Rightarrow> ExactOnly s | WithRedis s \<Rightarrow> WithRedis (s\<lparr>gs_core := core_writer renv (gs_core s)\<rparr>))"

text \<open>
  What happens at a server: the listener yields a connection or an error, a call of one of the
  two services arrives, a classify call arrives whose caller goes away before it is answered,
  or the write-back thread of the Redis tier takes a turn.
\<close>

datatype net_event =
  Incoming bool | Classifies call_env classify_request | Abandons call_env classify_request abandoned
| Checks string | Watches string | WriterTurn

datatype net_answer =
  Accepted | NotAccepted | Classified "grpc_status + classify_response" | Checked "grpc_status + int" | Watching "int list" | NoAnswer

definition server_step ::
  "(call_env \<Rightarrow> classify_request \<Rightarrow> 's \<Rightarrow> ((grpc_status + classify_response) \<times> 's) option) \<Rightarrow>
     (call_env \<Rightarrow> classify_request \<Rightarrow> abandoned \<Rightarrow> 's \<Rightarrow> 's option) \<Rightarrow> ('s \<Rightarrow> 's) \<Rightarrow>
     net_event \<Rightarrow> 's grpc_server \<Rightarrow> (net_answer \<times> 's grpc_server) option" where
  "server_step classify abandon writer e sv =
     (case e of
        Incoming ok \<Rightarrow> Some (if ok then (Accepted, sv\<lparr>gv_accepted := gv_accepted sv + 1\<rparr>) else (NotAccepted, sv))
      | Classifies call req \<Rightarrow> map_option (\<lambda>(r, s). (Classified r, sv\<lparr>gv_service := s\<rparr>)) (classify call req (gv_service sv))
      | Abandons call req gone \<Rightarrow> map_option (\<lambda>s. (NoAnswer, sv\<lparr>gv_service := s\<rparr>)) (abandon call req gone (gv_service sv))
      | Checks service \<Rightarrow> Some (Checked (health_check (gv_health sv) service), sv)
      | Watches service \<Rightarrow> Some (Watching (health_watch (gv_health sv) service), sv)
      | WriterTurn \<Rightarrow> Some (NoAnswer, sv\<lparr>gv_service := writer (gv_service sv)\<rparr>))"

fun server_run ::
  "(call_env \<Rightarrow> classify_request \<Rightarrow> 's \<Rightarrow> ((grpc_status + classify_response) \<times> 's) option) \<Rightarrow>
     (call_env \<Rightarrow> classify_request \<Rightarrow> abandoned \<Rightarrow> 's \<Rightarrow> 's option) \<Rightarrow> ('s \<Rightarrow> 's) \<Rightarrow>
     net_event list \<Rightarrow> 's grpc_server \<Rightarrow> (net_answer list \<times> 's grpc_server) option" where
  "server_run classify abandon writer [] sv = Some ([], sv)"
| "server_run classify abandon writer (e # es) sv =
     (case server_step classify abandon writer e sv of
        None \<Rightarrow> None
      | Some (a, sv1) \<Rightarrow> map_option (\<lambda>(as, sv2). (a # as, sv2)) (server_run classify abandon writer es sv1))"

section \<open>Clients\<close>

datatype io_error = IoInvalidInput string | IoOther string

record 'c channel_ops =
  co_runtime :: "string + unit"
  co_endpoint :: "string \<Rightarrow> string + string"
  co_connect :: "string \<Rightarrow> string + 'c"

text \<open>Both clients connect in the same way, and keep the channel they got.\<close>

definition client_connect :: "'c channel_ops \<Rightarrow> string \<Rightarrow> io_error + 'c" where
  "client_connect co addr =
     bind_res (map_err IoOther (co_runtime co)) (\<lambda>_.
     bind_res (map_err IoInvalidInput (co_endpoint co (''http://'' @ addr))) (\<lambda>endpoint.
     map_err IoOther (co_connect co endpoint)))"

text \<open>
  A call of the channel gives the response or the status that arrived; a watch gives the first
  item of its stream, if the stream has one.
\<close>

definition read_health :: "int \<Rightarrow> grpc_status + serving_status" where
  "read_health n =
     (case read_serving n of
        Some st \<Rightarrow> Inr st | None \<Rightarrow> Inl \<lparr>st_code = CodeInternal, st_message = ''invalid serving status on the wire''\<rparr>)"

definition client_check :: "grpc_status + int \<Rightarrow> grpc_status + serving_status" where
  "client_check reply = bind_res reply read_health"

definition client_watch :: "grpc_status + (grpc_status + int) option \<Rightarrow> grpc_status + serving_status" where
  "client_watch reply =
     bind_res reply (\<lambda>first.
       case first of
         None \<Rightarrow> Inl \<lparr>st_code = CodeUnavailable, st_message = ''health watch ended without a status''\<rparr>
       | Some r \<Rightarrow> bind_res r read_health)"

section \<open>What a bound server answers\<close>

text \<open>\<open>answered cl e a\<close>: the answer \<open>a\<close> to the event \<open>e\<close>, as the clients read it.\<close>

definition answered :: "candle_classifier \<Rightarrow> net_event \<Rightarrow> net_answer \<Rightarrow> bool" where
  "answered cl e a \<longleftrightarrow>
     (case e of
        Incoming ok \<Rightarrow> a = (if ok then Accepted else NotAccepted)
      | Classifies call req \<Rightarrow>
          (case a of
             Classified (Inr p) \<Rightarrow> result_revisions (snd (read_response p)) = meta_revisions (candle_metadata cl)
           | Classified (Inl st) \<Rightarrow> True | _ \<Rightarrow> False)
      | Abandons call req gone \<Rightarrow> a = NoAnswer
      | Checks service \<Rightarrow>
          (case a of
             Checked r \<Rightarrow> map_err st_code (client_check r) = (if service \<in> {[], SERVICE_NAME} then Inr Serving else Inl NotFound)
           | _ \<Rightarrow> False)
      | Watches service \<Rightarrow>
          (case a of
             Watching ns \<Rightarrow> client_watch (Inr (map_option Inr (find (\<lambda>_. True) ns))) =
               Inr (if service \<in> {[], SERVICE_NAME} then Serving else ServiceUnknown)
           | _ \<Rightarrow> False)
      | WriterTurn \<Rightarrow> a = NoAnswer)"

definition bound_ok ::
  "bool \<Rightarrow> candle_classifier \<Rightarrow> 'x redis_env \<Rightarrow> ('x \<Rightarrow> (string \<times> string) set) \<Rightarrow> (string \<Rightarrow> string \<Rightarrow> bool) \<Rightarrow> 'x bound_service \<Rightarrow> bool" where
  "bound_ok sh cl renv stored matches b \<longleftrightarrow>
     (case b of
        ExactOnly s \<Rightarrow> candle_default.core_ok cl (gs_core s)
      | WithRedis s \<Rightarrow> candle_redis.core_ok sh cl renv stored matches (gs_core s))"

text \<open>
  What a client reads is the single-precision form of a result of the classifier, and of which
  shape it is on a finite model: well formed from a server without Redis, and with the shape
  that a trip through JSON leaves from one with it, if the codec keeps it (\<open>sh\<close>).
\<close>

definition exact_only :: "'x bound_service \<Rightarrow> bool" where
  "exact_only b = (case b of ExactOnly s \<Rightarrow> True | WithRedis s \<Rightarrow> False)"

definition typed_response :: "bool \<Rightarrow> candle_classifier \<Rightarrow> bool \<Rightarrow> classify_response \<Rightarrow> bool" where
  "typed_response sh cl exact p \<longleftrightarrow>
     (\<exists>r. snd (read_response p) = f32_result r \<and> result_revisions r = meta_revisions (candle_metadata cl) \<and>
        (finite_model cl \<longrightarrow> (if exact then well_formed cl r else sh \<longrightarrow> shaped cl r)))"

lemma typed_revisions:
  "typed_response sh cl exact p \<Longrightarrow> result_revisions (snd (read_response p)) = meta_revisions (candle_metadata cl)"
  by (auto simp: typed_response_def)

lemma map_sum_Some: "map_sum id Some x = Inr (Some b) \<longleftrightarrow> x = Inr b"
  by (cases x) simp_all

lemma bound_classify_ok:
  assumes "bound_ok sh cl renv stored matches b" and "bound_classify gp cl renv sg hash call req b = Some (res, b')"
  shows "bound_ok sh cl renv stored matches b' \<and> exact_only b' = exact_only b \<and>
    (\<forall>p. res = Inr p \<longrightarrow> typed_response sh cl (exact_only b) p)"
proof (cases b)
  case (ExactOnly s)
  then obtain s' where s': "grpc_classify gp (served_env (candle_runtime cl) noop_text sg hash) call req s = Some (res, s')" "b' = ExactOnly s'"
    using assms(2) by (auto simp: bound_classify_def)
  have "candle_default.core_ok cl (gs_core s)" using assms(1) by (simp add: ExactOnly bound_ok_def)
  from candle_default.grpc_ok [OF this s'(1)] show ?thesis
    by (auto simp: ExactOnly s'(2) bound_ok_def exact_only_def typed_response_def candle_default.sent_good_def
        candle_good_def carries_identity_def)
next
  case (WithRedis s)
  then obtain s' where s': "grpc_classify gp (redis_served_env (candle_runtime cl) noop_text renv sg hash) call req s = Some (res, s')" "b' = WithRedis s'"
    using assms(2) by (auto simp: bound_classify_def)
  have "candle_redis.core_ok sh cl renv stored matches (gs_core s)" using assms(1) by (simp add: WithRedis bound_ok_def)
  from candle_redis.grpc_ok [OF this s'(1)] show ?thesis
    by (auto simp: WithRedis s'(2) bound_ok_def exact_only_def typed_response_def candle_redis.sent_good_def
        redis_good_def carries_identity_def)
qed

lemma bound_abandoned_ok:
  assumes "bound_ok sh cl renv stored matches b" and "bound_abandoned gp cl renv sg hash call req gone b = Some b'"
  shows "bound_ok sh cl renv stored matches b' \<and> exact_only b' = exact_only b"
proof (cases b)
  case (ExactOnly s)
  with assms candle_default.grpc_abandoned_ok [of cl s] show ?thesis
    by (auto simp: bound_abandoned_def bound_ok_def exact_only_def)
next
  case (WithRedis s)
  with assms candle_redis.grpc_abandoned_ok [of sh cl renv stored matches s] show ?thesis
    by (auto simp: bound_abandoned_def bound_ok_def exact_only_def)
qed

lemma bound_writer_ok:
  "bound_ok sh cl renv stored matches b \<Longrightarrow>
     bound_ok sh cl renv stored matches (bound_writer renv b) \<and> exact_only (bound_writer renv b) = exact_only b"
  by (auto simp: bound_ok_def bound_writer_def exact_only_def intro: core_writer_ok [THEN conjunct1] split: bound_service.splits)

lemma ready_health:
  "answered cl (Checks service) (Checked (health_check (health_new RReady [SERVICE_NAME]) service))"
  "answered cl (Watches service) (Watching (health_watch (health_new RReady [SERVICE_NAME]) service))"
  using read_serving_number [of Serving] read_serving_number [of ServiceUnknown]
  by (auto simp: answered_def health_check_def health_watch_def health_status_def health_new_def is_ready_def client_check_def
      client_watch_def read_health_def read_serving_def)

definition server_ok ::
  "bool \<Rightarrow> candle_classifier \<Rightarrow> 'x redis_env \<Rightarrow> ('x \<Rightarrow> (string \<times> string) set) \<Rightarrow> (string \<Rightarrow> string \<Rightarrow> bool) \<Rightarrow> 'x bound_service grpc_server \<Rightarrow> bool" where
  "server_ok sh cl renv stored matches sv \<longleftrightarrow>
     bound_ok sh cl renv stored matches (gv_service sv) \<and> gv_health sv = health_new RReady [SERVICE_NAME] \<and> gv_readiness sv = RReady"

lemma answered_classify:
  "(\<And>p. res = Inr p \<Longrightarrow> typed_response sh cl exact p) \<Longrightarrow> answered cl (Classifies call req) (Classified res)"
  by (cases res) (auto simp: answered_def dest: typed_revisions)

lemma server_step_ok:
  assumes "server_ok sh cl renv stored matches sv"
    and "server_step (bound_classify gp cl renv sg hash) (bound_abandoned gp cl renv sg hash) (bound_writer renv) e sv = Some (a, sv')"
  shows "server_ok sh cl renv stored matches sv' \<and> answered cl e a \<and>
    gv_accepted sv' = gv_accepted sv + (if e = Incoming True then 1 else 0) \<and>
    exact_only (gv_service sv') = exact_only (gv_service sv) \<and>
    (\<forall>p. a = Classified (Inr p) \<longrightarrow> typed_response sh cl (exact_only (gv_service sv)) p)"
proof (cases e)
  case (Classifies call req)
  then obtain res b where b: "bound_classify gp cl renv sg hash call req (gv_service sv) = Some (res, b)"
    "a = Classified res" "sv' = sv\<lparr>gv_service := b\<rparr>"
    using assms(2) by (auto simp: server_step_def)
  have "bound_ok sh cl renv stored matches (gv_service sv)" using assms(1) by (simp add: server_ok_def)
  note ok = bound_classify_ok [OF this b(1)]
  then have "answered cl e a" unfolding Classifies b(2) by (intro answered_classify) blast
  with ok assms(1) show ?thesis by (auto simp: server_ok_def Classifies b(2,3))
next
  case (Abandons call req gone)
  then show ?thesis using assms bound_abandoned_ok by (fastforce simp: server_ok_def server_step_def answered_def)
next
  case WriterTurn
  have "bound_ok sh cl renv stored matches (gv_service sv)" using assms(1) by (simp add: server_ok_def)
  from bound_writer_ok [OF this] show ?thesis using assms WriterTurn
    by (auto simp: server_ok_def server_step_def answered_def)
qed (use assms ready_health in \<open>auto simp: server_ok_def server_step_def answered_def [of _ "Incoming _"] split: if_splits\<close>)

lemma server_run_ok:
  assumes "server_ok sh cl renv stored matches sv"
    and "server_run (bound_classify gp cl renv sg hash) (bound_abandoned gp cl renv sg hash) (bound_writer renv) es sv = Some (as, sv')"
  shows "server_ok sh cl renv stored matches sv' \<and> list_all2 (answered cl) es as \<and>
    gv_accepted sv' = gv_accepted sv + of_nat (length (filter (\<lambda>e. e = Incoming True) es)) \<and>
    (\<forall>p. Classified (Inr p) \<in> set as \<longrightarrow> typed_response sh cl (exact_only (gv_service sv)) p)"
  using assms
proof (induction es arbitrary: sv as)
  case (Cons e es)
  obtain a sv1 as1 where s: "server_step (bound_classify gp cl renv sg hash) (bound_abandoned gp cl renv sg hash) (bound_writer renv) e sv = Some (a, sv1)"
    "server_run (bound_classify gp cl renv sg hash) (bound_abandoned gp cl renv sg hash) (bound_writer renv) es sv1 = Some (as1, sv')" "as = a # as1"
    using Cons.prems(2) by (auto split: option.splits)
  from server_step_ok [OF Cons.prems(1) s(1)] Cons.IH [OF _ s(2)] show ?case by (auto simp: s(3) algebra_simps)
qed simp

text \<open>A server as it is bound: the entries a Redis already holds are to be good already.\<close>

lemma bound_fresh_ok:
  assumes "redis_lawful renv stored matches" and "revisions_survive renv" and "sh \<Longrightarrow> shape_survives renv"
    and "\<And>f url x ident p r. opened = Some f \<Longrightarrow> f url = Inr x \<Longrightarrow> matches (candle_tag cl) ident \<Longrightarrow> (ident, p) \<in> stored x \<Longrightarrow>
           re_decode renv (from_utf8_lossy p) = Some r \<Longrightarrow> redis_good sh cl r"
    and "bind_with_classifier net capacity opened get counters m addr = Inr sv"
  shows "server_ok sh cl renv stored matches sv \<and> gv_accepted sv = 0"
proof -
  define semantic where "semantic = select_semantic (map_option (\<lambda>f cfg. map_sum id Some (redis_connect f cfg)) opened) None (from_env_with get)"
  have sv: "gv_health sv = health_new RReady [SERVICE_NAME]" "gv_readiness sv = RReady" "gv_accepted sv = 0"
    "gv_service sv = (case semantic of None \<Rightarrow> ExactOnly (with_executor_and_cache counters (telemetry_new capacity) m ())
                      | Some b \<Rightarrow> WithRedis (with_executor_and_cache counters (telemetry_new capacity) m b))"
    using assms(5) by (auto simp: bind_with_classifier_def Let_def semantic_def serve_def bind_res_Inr_iff)
  have "bound_ok sh cl renv stored matches (gv_service sv)"
  proof (cases semantic)
    case None
    then show ?thesis by (simp add: sv(4) bound_ok_def with_executor_and_cache_def core_with_semantic_cache_def server_new_def core_new_def
          candle_default.core_ok_def candle_default.world_ok_def)
  next
    case (Some b)
    then obtain f cfg where f: "opened = Some f" "redis_connect f cfg = Inr b"
      by (auto simp: semantic_def select_semantic_def Let_def map_sum_Some split: if_splits option.splits sum.splits)
    then obtain url where url: "f url = Inr (rd_server b)" by (auto simp: redis_connect_def bind_res_Inr_iff split: option.splits)
    have "candle_redis.core_ok sh cl renv stored matches (core_new counters () b m)"
      using assms(3) by (intro redis_fresh_ok [OF assms(1,2) f(2)] assms(4) [OF f(1) url])
    then show ?thesis
      by (auto simp: sv(4) Some bound_ok_def with_executor_and_cache_def core_with_semantic_cache_def server_new_def)
  qed
  then show ?thesis by (simp add: server_ok_def sv)
qed

text \<open>
  C3. Whatever arrives at a server that was bound over a loaded classifier, in any order
  and with any environment: the health of the server and of its classify service is always
  answered as serving and any other name as unknown, every response to a classify call
  carries the identity of the classifier, be it computed or from a cache, and the server
  has counted exactly the connections its listener accepted. The entries a Redis already
  holds under the classifier's tag are assumed to be its own.
\<close>

theorem bound_server_answers:
  assumes "redis_lawful renv stored matches" and "revisions_survive renv"
    and "\<And>f url x ident p r. opened = Some f \<Longrightarrow> f url = Inr x \<Longrightarrow> matches (candle_tag cl) ident \<Longrightarrow> (ident, p) \<in> stored x \<Longrightarrow>
           re_decode renv (from_utf8_lossy p) = Some r \<Longrightarrow> result_revisions r = meta_revisions (candle_metadata cl)"
    and "bind_with_classifier net capacity opened get counters m addr = Inr sv"
    and "server_run (bound_classify gp cl renv sg hash) (bound_abandoned gp cl renv sg hash) (bound_writer renv) es sv = Some (as, sv')"
  shows "list_all2 (answered cl) es as \<and> gv_readiness sv' = RReady \<and>
    gv_accepted sv' = of_nat (length (filter (\<lambda>e. e = Incoming True) es))"
proof -
  have "server_ok False cl renv stored matches sv \<and> gv_accepted sv = 0"
    using assms(3) by (intro bound_fresh_ok [OF assms(1,2) _ _ assms(4)]) (auto simp: redis_good_def carries_identity_def)
  with server_run_ok [of False, OF _ assms(5)] show ?thesis by (auto simp: server_ok_def)
qed


text \<open>
  A server over the finite model with a Redis tier that is empty: a connection, a probe, a call
  and a turn of the write-back thread.
\<close>

definition demo_net :: "unit net_ops" where
  "demo_net = \<lparr>nt_runtime = Inr (), nt_listen = (\<lambda>_. Inr ()), nt_local_addr = (\<lambda>_. Inr ''127.0.0.1:9'')\<rparr>"

definition redis_vars :: "string \<Rightarrow> string option" where
  "redis_vars = [''LLM_D_SC_CACHE'' \<mapsto> ''redis-semantic'', ''LLM_D_SC_REDIS_URL'' \<mapsto> ''redis:'']"

lemma redis_vars_semantic:
  "\<exists>b. select_semantic (map_option (\<lambda>f cfg. map_sum id Some (redis_connect f cfg)) (Some (\<lambda>_. Inr x))) None (from_env_with redis_vars) = Some b"
proof -
  have t: "trim ''redis:'' \<noteq> []" by code_simp
  obtain cfg where "from_env_with redis_vars = Inr cfg" "strategy cfg = ''redis-semantic''" "redis_url cfg = Some ''redis:''"
    using default_threshold_unit t
    by (auto simp: redis_vars_def from_env_with_def KNOWN_CACHE_STRATEGIES_def unwrap_or_def filter_opt_def Let_def bind_res_def)
  then show ?thesis by (simp add: select_semantic_def Let_def redis_connect_def)
qed

definition no_entries :: "string \<Rightarrow> string + (string \<times> string) list" where
  "no_entries = (\<lambda>_. Inr [])"

text \<open>
  A codec that knows one result, and the server of the demonstration with what arrives at it:
  a caller that leaves, a call that is computed, a turn of the write-back thread, and the same
  call again.
\<close>

definition one_result_redis :: "classification_result \<Rightarrow> (string \<times> string) list redis_env" where
  "one_result_redis own = demo_redis
     \<lparr>re_encode := (\<lambda>r. if r = own then ''json'' else ''other''),
      re_decode := (\<lambda>p. if p = ''json'' then Some own else None)\<rparr>"

abbreviation demo_renv :: "(string \<times> string) list redis_env" where
  "demo_renv \<equiv> one_result_redis (insufficient_context_abstention (candle_metadata finite_demo))"

lemma one_result_laws:
  "redis_lawful (one_result_redis own) set (\<lambda>tag ident. tag = ident)" "revisions_survive (one_result_redis own)"
  "list_all (\<lambda>s. is_finite (score s)) (res_ranked own) \<Longrightarrow> shape_survives (one_result_redis own)"
  using demo_lawful
  by (auto simp: redis_lawful_def one_result_redis_def revisions_survive_def shape_survives_def lossy_json split: if_splits)

abbreviation demo_full :: classify_request where
  "demo_full \<equiv> demo_delta\<lparr>rq_completeness := 1\<rparr>"

abbreviation demo_bound :: "(string \<times> string) list bound_service grpc_server" where
  "demo_bound \<equiv> projr (bind_with_classifier demo_net None (Some no_entries) redis_vars
     \<lparr>tokenizer_calls = 0, forward_calls = 0\<rparr> metrics_new ''a'')"

abbreviation demo_events :: "net_event list" where
  "demo_events \<equiv> [Incoming True, Checks SERVICE_NAME, Abandons demo_call demo_full (GoneQueued 9),
     Classifies demo_call demo_full, WriterTurn, Classifies demo_call demo_full]"

abbreviation demo_run :: "(net_answer list \<times> (string \<times> string) list bound_service grpc_server) option" where
  "demo_run \<equiv> server_run (bound_classify demo_params finite_demo demo_renv (\<lambda>_. zero_sig) (\<lambda>s. s))
     (bound_abandoned demo_params finite_demo demo_renv (\<lambda>_. zero_sig) (\<lambda>s. s)) (bound_writer demo_renv) demo_events demo_bound"

lemma demo_bind:
  "bind_with_classifier demo_net None (Some no_entries) redis_vars \<lparr>tokenizer_calls = 0, forward_calls = 0\<rparr> metrics_new ''a'' = Inr demo_bound"
  "\<exists>b. gv_service demo_bound = WithRedis b"
proof -
  obtain tier where "select_semantic (map_option (\<lambda>f cfg. map_sum id Some (redis_connect f cfg)) (Some no_entries)) None (from_env_with redis_vars) = Some tier"
    using redis_vars_semantic [of "[]"] unfolding no_entries_def by blast
  then show "bind_with_classifier demo_net None (Some no_entries) redis_vars \<lparr>tokenizer_calls = 0, forward_calls = 0\<rparr> metrics_new ''a'' = Inr demo_bound"
    "\<exists>b. gv_service demo_bound = WithRedis b"
    by (simp_all add: bind_with_classifier_def Let_def serve_def demo_net_def)
qed

lemma demo_full_served:
  assumes "ce_runtime env = candle_runtime finite_demo"
  shows "\<exists>p s'. grpc_classify demo_params env demo_call demo_full s = Some (Inr p, s')"
proof -
  obtain r c' where "core_classify env (request_input demo_full) (map_metrics (record_stage StageQueue 4) (gs_core s)) = (Inr r, c')"
    using total_runtime_classifies [OF finite_demo_total assms] by blast
  then show ?thesis
    by (auto simp: grpc_classify_def demo_params_def demo_call_def demo_delta_def request_deadline_def Let_def
      await_outcome_def executor_serve_def deadline_passed_def simp del: record_stage.simps)
qed

lemma demo_serves: "\<exists>a b p c q sv'. demo_run = Some ([a, b, NoAnswer, Classified (Inr p), c, Classified (Inr q)], sv')"
proof -
  obtain b where b: "gv_service demo_bound = WithRedis b" using demo_bind(2) by blast
  define env where "env = redis_served_env (candle_runtime finite_demo) noop_text demo_renv (\<lambda>_. zero_sig) (\<lambda>s. s)"
  have served: "\<exists>p s'. grpc_classify demo_params env demo_call demo_full s = Some (Inr p, s')" for s
    by (rule demo_full_served) (simp add: env_def)
  obtain b1 where b1: "grpc_abandoned demo_params env demo_call demo_full (GoneQueued 9) b = Some b1"
    by (simp add: grpc_abandoned_def demo_params_def demo_call_def demo_delta_def request_deadline_def)
  obtain p b2 where b2: "grpc_classify demo_params env demo_call demo_full b1 = Some (Inr p, b2)" using served by blast
  obtain q b3 where b3: "grpc_classify demo_params env demo_call demo_full (b2\<lparr>gs_core := core_writer demo_renv (gs_core b2)\<rparr>) = Some (Inr q, b3)"
    using served by blast
  show ?thesis
    by (simp add: server_step_def bound_classify_def bound_abandoned_def bound_writer_def b env_def [symmetric] b1 b2 b3)
qed

theorem bound_server_answers_witness:
  "\<exists>as sv'. demo_run = Some (as, sv') \<and> list_all2 (answered finite_demo) demo_events as \<and> gv_accepted sv' = 1"
proof -
  obtain as sv' where run: "demo_run = Some (as, sv')" using demo_serves by blast
  have "list_all2 (answered finite_demo) demo_events as \<and> gv_readiness sv' = RReady \<and> gv_accepted sv' = of_nat (length (filter (\<lambda>e. e = Incoming True) demo_events))"
    by (rule bound_server_answers [OF one_result_laws(1,2) _ demo_bind(1) run]) (auto simp: no_entries_def)
  with run show ?thesis by simp
qed


end
