(* ===== verification/PlaygroundServer.thy ===== *)
theory PlaygroundServer
  imports Playground
begin

text \<open>
  The program around the handlers of \<open>src/src/bin/playground.rs\<close>: loading the classifiers it was
  asked for, the routes of its HTTP loop, which answers one request at a time, and the
  information page. Hosting a loaded classifier (binding its server and connecting a client)
  and the HTTP library are parameters; bodies are the records that are rendered.
\<close>

section \<open>Loading\<close>

text \<open>
  \<open>resolved\<close> is \<open>ClassifierDefinition::resolve\<close>, \<open>host\<close> binds a server over the classifier and
  connects to it; \<open>None\<close> is a panic of the load.
\<close>

definition load_classifier ::
  "('j, 'b, 't) load_env \<Rightarrow> disk \<Rightarrow> (string \<Rightarrow> string) \<Rightarrow> (flt \<Rightarrow> flt) \<Rightarrow> (string \<Rightarrow> taxonomy_error + classifier_definition) \<Rightarrow>
     (candle_classifier \<Rightarrow> 's \<Rightarrow> (string + 's transport \<times> ('s \<Rightarrow> metrics_snapshot)) \<times> 's) \<Rightarrow>
     string \<Rightarrow> string \<Rightarrow> 's \<Rightarrow> ((string + 's play_classifier) \<times> 's) option" where
  "load_classifier le disk hex fexp resolved host name model_dir st =
     (case resolved name of
        Inl e \<Rightarrow> Some (Inl (''no taxonomy definition for '' @ [CHR 0x27] @ name @ [CHR 0x27] @ '': '' @ show_taxonomy_error e), st)
      | Inr d \<Rightarrow>
          (case from_modelcar_with le disk hex fexp model_dir d of
             None \<Rightarrow> None
           | Some (Inl e) \<Rightarrow> Some (Inl (''could not load model at '' @ model_dir @ '': '' @ show_classify_error e), st)
           | Some (Inr cl) \<Rightarrow>
               (case host cl st of
                  (Inl e, st1) \<Rightarrow> Some (Inl e, st1)
                | (Inr (call, snap), st1) \<Rightarrow>
                    (let (c, st2) = attach_classifier name (meta_classifier_id (candle_metadata cl)) call snap st1
                     in Some (Inr c, st2)))))"

text \<open>\<open>names.split(',')\<close>.\<close>

fun split_commas :: "string \<Rightarrow> string list" where
  "split_commas [] = [[]]"
| "split_commas (c # s) =
     (if c = CHR '','' then [] # split_commas s
      else (case split_commas s of [] \<Rightarrow> [[c]] | w # ws \<Rightarrow> (c # w) # ws))"

definition classifier_names :: "string \<Rightarrow> string list" where
  "classifier_names names = filter (\<lambda>s. s \<noteq> []) (List.map trim (split_commas names))"

text \<open>A name without weights, or that does not load, is skipped.\<close>

fun load_named ::
  "(string \<Rightarrow> bool) \<Rightarrow> (string \<Rightarrow> string \<Rightarrow> 's \<Rightarrow> ((string + 's play_classifier) \<times> 's) option) \<Rightarrow> string \<Rightarrow> string list \<Rightarrow> 's \<Rightarrow>
     ('s play_classifier list \<times> 's) option" where
  "load_named file_exists load models_dir [] st = Some ([], st)"
| "load_named file_exists load models_dir (name # names) st =
     (let model_dir = models_dir @ ''/'' @ name
      in if \<not> file_exists (model_dir @ ''/model.safetensors'') then load_named file_exists load models_dir names st
         else (case load name model_dir st of
                 None \<Rightarrow> None
               | Some (Inl e, st1) \<Rightarrow> load_named file_exists load models_dir names st1
               | Some (Inr c, st1) \<Rightarrow> map_option (\<lambda>(cs, st2). (c # cs, st2)) (load_named file_exists load models_dir names st1)))"

section \<open>Routes\<close>

datatype http_method = HttpGet | HttpPost | HttpOther

record http_request =
  hq_method :: http_method
  hq_url :: string
  hq_body :: string

record play_info =
  pi_strategy :: string
  pi_redis_url :: "string option"
  pi_threshold :: flt
  pi_classifiers :: "(string \<times> string \<times> string list \<times> play_totals) list"

definition info_json :: "'s play_classifier list \<Rightarrow> cache_config \<Rightarrow> 's \<Rightarrow> play_info" where
  "info_json cls cfg st =
     \<lparr>pi_strategy = strategy cfg, pi_redis_url = redis_url cfg, pi_threshold = threshold cfg,
      pi_classifiers = List.map (\<lambda>c. (pc_name c, pc_classifier_id c, pc_labels c, totals_json (pc_snapshot c st) (pc_baseline c))) cls\<rparr>"

datatype play_body = IndexPage | InfoBody play_info | ReportBody play_report | ErrorBody string | UpstreamBody string | TextBody string

definition error_json :: "string \<Rightarrow> play_body" where
  "error_json message = ErrorBody message"

record http_reply =
  hr_status :: nat
  hr_type :: string
  hr_body :: play_body
  hr_cache :: "cache_status option"

text \<open>\<open>ps_seq\<close> and \<open>ps_servers\<close> are what the classify handler works on, \<open>ps_chat\<close> the chat route.\<close>

record ('s, 'x, 'u) play_session =
  ps_seq :: nat
  ps_servers :: 's
  ps_chat :: "(chat_ctx \<times> 'x response_cache) option"
  ps_upstream :: 'u

definition play_chat ::
  "'j json_ops \<Rightarrow> 'x redis_env \<Rightarrow> (string \<Rightarrow> string \<Rightarrow> nat \<Rightarrow> 'u \<Rightarrow> upstream_reply \<times> 'u) \<Rightarrow> string \<Rightarrow>
     (chat_ctx \<times> 'x response_cache) option \<Rightarrow> 'u \<Rightarrow>
     (string + (nat \<times> cache_status \<times> string)) \<times> (chat_ctx \<times> 'x response_cache) option \<times> 'u" where
  "play_chat js env post raw chat u =
     (case chat of
        None \<Rightarrow> (Inl ''response cache route is disabled (LLM_D_SC_VLLM_URL not set)'', None, u)
      | Some (ctx, c) \<Rightarrow> (case handle_chat js env post (Some ctx) raw (c, u) of (r, c', u') \<Rightarrow> (r, Some (ctx, c'), u')))"

definition play_step ::
  "'j json_ops \<Rightarrow> (grpc_code \<Rightarrow> string) \<Rightarrow> 'x redis_env \<Rightarrow> (string \<Rightarrow> string \<Rightarrow> nat \<Rightarrow> 'u \<Rightarrow> upstream_reply \<times> 'u) \<Rightarrow>
     's play_classifier list \<Rightarrow> cache_config \<Rightarrow> http_request \<Rightarrow> ('s, 'x, 'u) play_session \<Rightarrow> http_reply \<times> ('s, 'x, 'u) play_session" where
  "play_step js show_code env post cls cfg q ses =
     (let json = ''application/json''
      in if hq_method q = HttpGet \<and> hq_url q = ''/''
         then (\<lparr>hr_status = 200, hr_type = ''text/html; charset=utf-8'', hr_body = IndexPage, hr_cache = None\<rparr>, ses)
         else if hq_method q = HttpGet \<and> hq_url q = ''/api/info''
         then (\<lparr>hr_status = 200, hr_type = json, hr_body = InfoBody (info_json cls cfg (ps_servers ses)), hr_cache = None\<rparr>, ses)
         else if hq_method q = HttpPost \<and> hq_url q = ''/api/classify''
         then (case handle_classify js show_code cls (hq_body q) (ps_seq ses, ps_servers ses) of
                 (r, seq, st) \<Rightarrow>
                   (\<lparr>hr_status = 200, hr_type = json,
                     hr_body = (case r of Inr report \<Rightarrow> ReportBody report | Inl msg \<Rightarrow> error_json msg), hr_cache = None\<rparr>,
                    ses\<lparr>ps_seq := seq, ps_servers := st\<rparr>))
         else if hq_method q = HttpPost \<and> hq_url q = ''/v1/chat/completions''
         then (case play_chat js env post (hq_body q) (ps_chat ses) (ps_upstream ses) of
                 (r, chat, u) \<Rightarrow>
                   (case r of
                      Inr (code, status, body) \<Rightarrow> \<lparr>hr_status = code, hr_type = json, hr_body = UpstreamBody body, hr_cache = Some status\<rparr>
                    | Inl msg \<Rightarrow> \<lparr>hr_status = 502, hr_type = json, hr_body = error_json msg, hr_cache = None\<rparr>,
                    ses\<lparr>ps_chat := chat, ps_upstream := u\<rparr>))
         else (\<lparr>hr_status = 404, hr_type = ''text/plain'', hr_body = TextBody ''not found'', hr_cache = None\<rparr>, ses))"


section \<open>The program\<close>

definition exact_config :: cache_config where
  "exact_config = \<lparr>strategy = ''exact'', redis_url = None, threshold = default_threshold, ttl_secs = 86400, timeout_ms = 50\<rparr>"

definition fetch_hint :: string where
  "fetch_hint = ''Run ./hack/fetch-model --classifier complexity (and cost, sensitivity), or use ./hack/playground.''"

text \<open>
  \<open>env_var\<close> reads a variable, \<open>cfg_env\<close> is the cache configuration of the environment, \<open>chat_of\<close> is
  \<open>build_response_cache\<close>, \<open>http\<close> binds the page's address. The result is what the loop starts
  with; \<open>None\<close> is a panic while loading.
\<close>

definition play_main ::
  "(string \<Rightarrow> string option) \<Rightarrow> (string \<Rightarrow> bool) \<Rightarrow> (string \<Rightarrow> string \<Rightarrow> 's \<Rightarrow> ((string + 's play_classifier) \<times> 's) option) \<Rightarrow>
     config_error + cache_config \<Rightarrow> (string \<Rightarrow> cache_config \<Rightarrow> (chat_ctx \<times> 'x response_cache) option) \<Rightarrow> (string \<Rightarrow> string + unit) \<Rightarrow> 'u \<Rightarrow> 's \<Rightarrow>
     (string + 's play_classifier list \<times> cache_config \<times> ('s, 'x, 'u) play_session) option" where
  "play_main env_var file_exists load cfg_env chat_of http u st =
     (let models_dir = unwrap_or ''artifacts/models'' (env_var ''LLM_D_SC_MODELS_DIR'');
          names = unwrap_or ''complexity,cost,sensitivity'' (env_var ''LLM_D_SC_PLAYGROUND_CLASSIFIERS'');
          ui_addr = unwrap_or ''127.0.0.1:8080'' (env_var ''LLM_D_SC_PLAYGROUND_ADDR'')
      in map_option (\<lambda>(cls, st1).
           if cls = [] then Inl (''no classifier models found under '' @ models_dir @ '' (tried: '' @ names @ '').'' @ [CHR 0x0A, CHR 0x0A] @ fetch_hint)
           else (let cfg = (case cfg_env of Inr c \<Rightarrow> c
                              | Inl _ \<Rightarrow> exact_config);
                     chat = chat_of models_dir cfg
                 in bind_res (map_err (\<lambda>e. ''could not bind playground UI on '' @ ui_addr @ '': '' @ e) (http ui_addr)) (\<lambda>_.
                      Inr (cls, cfg, \<lparr>ps_seq = 0, ps_servers = st1, ps_chat = chat, ps_upstream = u\<rparr>))))
         (load_named file_exists load models_dir (classifier_names names) st))"

section \<open>A session\<close>



text \<open>
  To see what reaches the classifiers, a classifier is given a log beside its state, of the
  calls it answered.
\<close>

type_synonym call_log = "(string \<times> classify_request \<times> (grpc_status + classify_response)) list"

definition logged :: "'s play_classifier \<Rightarrow> ('s \<times> call_log) play_classifier" where
  "logged c =
     \<lparr>pc_name = pc_name c, pc_classifier_id = pc_classifier_id c, pc_labels = pc_labels c,
      pc_call = (\<lambda>req (st, log). case pc_call c req st of (res, rtt, st') \<Rightarrow> (res, rtt, (st', log @ [(pc_name c, req, res)]))),
      pc_snapshot = (\<lambda>st. pc_snapshot c (fst st)), pc_baseline = pc_baseline c\<rparr>"

lemma logged_sel [simp]:
  "pc_name (logged c) = pc_name c" "pc_snapshot (logged c) = (\<lambda>st. pc_snapshot c (fst st))"
  "pc_baseline (logged c) = pc_baseline c"
  "pc_call (logged c) req st = (case pc_call c req (fst st) of (res, rtt, st') \<Rightarrow> (res, rtt, (st', snd st @ [(pc_name c, req, res)])))"
  by (simp_all add: logged_def split_beta)











text \<open>A disabled chat route is not an unknown route: it fails as an upstream that is down does.\<close>

lemma disabled_chat_route_is_bad_gateway:
  "ps_chat ses = None \<Longrightarrow>
     hr_status (fst (play_step js show_code env post cls cfg \<lparr>hq_method = HttpPost, hq_url = ''/v1/chat/completions'', hq_body = raw\<rparr> ses)) = 502"
  by (simp add: play_step_def play_chat_def)








end
