(* ===== verification/ResponseCodec.thy ===== *)
theory ResponseCodec
  imports RedisCodec
begin

text \<open>
  The response cache (\<open>src/src/cache/response.rs\<close>) has its own copies of the tag escaping and of
  the parser of search replies, said to mirror those of the classification cache
  (\<open>src/src/cache/redis.rs\<close>, modelled in \<open>RedisCodec\<close>). They are translated here from their own
  text, the parser with its index; that they agree is a theorem, so the models of both caches
  use one codec.
\<close>

text \<open>Characters are pushed one by one; the bytes that continue a character follow its first.\<close>

definition resp_escape_tag_value :: "string \<Rightarrow> string" where
  "resp_escape_tag_value s =
     foldl (\<lambda>out c. if is_ascii_alnum c \<or> c = CHR ''_'' \<or> is_cont_byte c then out @ [c] else (out @ [CHR 0x5C]) @ [c]) [] s"

definition resp_as_string :: "redis_value \<Rightarrow> string option" where
  "resp_as_string v =
     (case v of RBulk bytes \<Rightarrow> Some (from_utf8_lossy bytes) | RSimple s \<Rightarrow> Some s | _ \<Rightarrow> None)"

function resp_knn_loop ::
  "redis_value list \<Rightarrow> nat \<Rightarrow> flt option \<Rightarrow> string option \<Rightarrow> flt option \<times> string option" where
  "resp_knn_loop fds i dst payload =
     (if i + 1 < length fds
      then (let name = resp_as_string (fds ! i); val = resp_as_string (fds ! (i + 1))
            in if name = Some ''dist'' then resp_knn_loop fds (i + 2) (Option.bind val parse_f32) payload
               else if name = Some ''payload'' then resp_knn_loop fds (i + 2) dst val
               else resp_knn_loop fds (i + 2) dst payload)
      else (dst, payload))"
  by auto

termination by (relation "measure (\<lambda>(fds, i, _). length fds - i)") auto

declare resp_knn_loop.simps [simp del]

definition resp_parse_knn_reply :: "redis_value \<Rightarrow> (flt \<times> string) option" where
  "resp_parse_knn_reply reply =
     (case reply of
        RArray items \<Rightarrow>
          (if 2 < length items then
             (case items ! 2 of
                RArray fds \<Rightarrow>
                  (case resp_knn_loop fds 0 None None of (Some d, Some p) \<Rightarrow> Some (d, p) | _ \<Rightarrow> None)
              | _ \<Rightarrow> None)
           else None)
      | _ \<Rightarrow> None)"

lemma resp_as_string_eq [simp]: "resp_as_string v = as_string v"
  by (cases v) (simp_all add: resp_as_string_def)

text \<open>The loop from an index reads the fields that are left.\<close>

lemma resp_knn_loop_eq: "resp_knn_loop fds i dst payload = knn_fields (drop i fds) (dst, payload)"
proof (induction fds i dst payload rule: resp_knn_loop.induct)
  case (1 fds i dst payload)
  show ?case
  proof (cases "i + 1 < length fds")
    case True
    then have "drop i fds = fds ! i # fds ! (i + 1) # drop (i + 2) fds"
      by (simp add: Cons_nth_drop_Suc)
    with 1 True show ?thesis by (subst resp_knn_loop.simps) (simp add: Let_def)
  next
    case False
    then have "drop i fds = [] \<or> (\<exists>v. drop i fds = [v])" 
      by (cases "drop i fds"; cases "tl (drop i fds)") (auto dest: arg_cong [of _ _ length])
    with False show ?thesis by (subst resp_knn_loop.simps) auto
  qed
qed

lemma resp_escape_eq:
  "foldl (\<lambda>out c. if is_ascii_alnum c \<or> c = CHR ''_'' \<or> is_cont_byte c then out @ [c] else (out @ [CHR 0x5C]) @ [c]) out s =
     out @ escape_tag_value s"
  by (induction s arbitrary: out) (simp_all add: escape_tag_value_def escape_char_def)

text \<open>
  The response cache escapes tags and reads replies exactly as the classification cache
  does: on every tag, and on every reply of any shape, the copies give the same.
\<close>

theorem response_codec_mirrors:
  "resp_escape_tag_value tag = escape_tag_value tag \<and> resp_parse_knn_reply reply = parse_knn_reply reply"
  by (simp add: resp_escape_tag_value_def resp_escape_eq resp_parse_knn_reply_def parse_knn_reply_def resp_knn_loop_eq
      split: redis_value.split)

end
