(* ===== verification/Spec2Isabelle.thy ===== *)
theory Spec2Isabelle
  imports Queue SingleFlight Config Telemetry GrpcClassify Health RedisServed BenchCore Playground RunnerReport
    VsrAdapter EvalClassifier TextLocks ModernAttention GrpcServer PlaygroundServer ResponseCodec
begin

text \<open>
  A verification development for the llm-d semantic classifier, a Rust service that labels a
  request text with the classes of a taxonomy (\<open>src/src\<close>), its tools and its benchmark
  driver (\<open>src/bench/driver\<close>).

  \<^bold>\<open>The program.\<close> A gRPC call carries a text and the signals the caller wants. The handler
  (\<open>grpc/classify.rs\<close>) traces the request, refuses signals it does not serve, works out the
  deadline, and gives the job to a bounded executor (\<open>handoff.rs\<close>): a permit per job, a
  channel, and worker threads that drop cancelled and expired jobs. A worker runs the service
  core (\<open>ServiceCore::classify\<close> in \<open>classify.rs\<close>): a text with only a delta abstains; otherwise
  the exact cache with single flight (\<open>cache.rs\<close>), then the text tier (\<open>prefilter.rs\<close>,
  \<open>cache/text.rs\<close>), then the encoder (\<open>embedding.rs\<close>, \<open>modernbert.rs\<close>), then the semantic tier
  (\<open>cache/redis.rs\<close> behind \<open>cache/breaker.rs\<close>), and last the ranking by the trained head or by
  the anchors (\<open>head.rs\<close>, \<open>ranker.rs\<close>, \<open>taxonomy.rs\<close>). Every stage reports to \<open>metrics.rs\<close>.
  The playground and the benchmark library drive the same core.

  \<^bold>\<open>Shared theories.\<close> \<open>Prelude\<close>: strings as UTF-8 bytes, fallible results as sums, comparators
  and the stable sort, the locale \<open>bounded_store\<close> for the bounded containers. \<open>Floats\<close>: IEEE 754
  values, rounding to \<open>f32\<close> and \<open>f64\<close> (locale \<open>rounding\<close>, interpreted on both) and the
  conversions; \<open>FloatRange\<close> and \<open>RoundError\<close> bound the results and the errors of the operations
  (locale \<open>near_rounding\<close>). \<open>Parsing\<close>, \<open>Display\<close>: the number parsing and printing the program relies on.
  \<open>ClassifyTypes\<close>: the data of the classification contract. \<open>Percentile\<close>: the nearest-rank
  percentile. \<open>Tier\<close>: the locale \<open>approx_tier\<close>, the contract of an approximate cache tier; \<open>GuardedTier\<close>: the tiers
  that keep only results of their own identity (locales \<open>guarded_tier\<close>, \<open>owned_tier\<close>).

  \<^bold>\<open>Components.\<close>
  \<^item> \<open>CacheKey\<close> (\<open>cache.rs\<close>: \<open>CacheKey::new\<close>, \<open>identity_tag\<close>): the key pre-image is injective, so
    two identities share a key only if the hash collides.
  \<^item> \<open>ExactCache\<close> (\<open>cache.rs\<close>: \<open>ExactCache\<close>): the map with its insertion queue refines a bounded
    FIFO list.
  \<^item> \<open>SharedCache\<close>, \<open>SingleFlight\<close> (\<open>cache.rs\<close>: \<open>SharedCache::classify_concurrent\<close>): any number of
    callers, one atomic step per lock region, the condition variable with its notification
    and spurious wake-ups; the state invariant, one forward in flight per key, provenance of
    results, and that every caller returns under any scheduling.
  \<^item> \<open>Prefilter\<close>, \<open>TextCache\<close> (\<open>prefilter.rs\<close>, \<open>cache/text.rs\<close>): signatures, bands and the text
    tier; lookup returns the best candidate over the threshold and recalls similar texts.
    \<open>TextLocks\<close>: concurrent calls of the tier with the mutexes they take, and the one way in
    which they can block each other for ever. The servers never attach this tier.
  \<^item> \<open>Breaker\<close>, \<open>RedisCodec\<close>, \<open>RedisTier\<close> (\<open>cache/breaker.rs\<close>, \<open>cache/redis_codec.rs\<close>,
    \<open>cache/redis.rs\<close>, \<open>cache/response.rs\<close>): the escaping and parsing of the protocol, the tier
    with its two breakers, bounded write queue and write-back thread, and the response cache.
    \<open>ResponseCodec\<close>: the response cache's own copies of the codec agree with the tier's.
  \<^item> \<open>Ranker\<close>, \<open>Head\<close>, \<open>Taxonomy\<close>: cosine ranking with its tie rule, softmax and label map,
    classifier definitions and their validation. \<open>Similarity\<close>: scores of finite vectors are finite
    and bounded.
  \<^item> \<open>ModernBert\<close>, \<open>EmbeddingLoad\<close> (\<open>modernbert.rs\<close>, \<open>embedding.rs\<close>, \<open>head.rs\<close>, and
    \<open>CandleClassifier::from_modelcar\<close>, \<open>load_and_warm_modelcar\<close> in \<open>classify.rs\<close>): rotary
    frequencies, attention masks, the gate on configurations, loading and the forward pass.
    \<open>ModernAttention\<close> opens the layers, attention and feed-forward over the tensor operations,
    and adds the masked-LM and sequence classification models; from the shapes the operations
    document, exactly when the encoder answers.
  \<^item> \<open>ModelRuntime\<close>, \<open>Health\<close> (\<open>runtime.rs\<close>, \<open>grpc/health.rs\<close>): required files, content digest,
    warm-up, readiness and the health protocol. The file system is what it is at each look an
    operation takes at it, so a file can change or be lost between two of them.
  \<^item> \<open>Metrics\<close>, \<open>Telemetry\<close>, \<open>Config\<close>, \<open>Queue\<close> (the files of these names).
  \<^item> \<open>ServiceCore\<close>, \<open>Backends\<close>, \<open>ServedCore\<close> (\<open>classify.rs\<close>): the core, its two backends, and the
    locale \<open>core_contract\<close> that proves what the core guarantees from the contracts of its parts,
    interpreted on the backends and tiers. \<open>WellFormed\<close> is the shape of a result, which the
    backends establish and the caches keep; \<open>RedisServed\<close> interprets the contract on the Redis
    tier, interleaved with its write-back thread.
  \<^item> \<open>Handoff\<close>, \<open>Executor\<close> (\<open>handoff.rs\<close>): the executor as an interleaved step system, and what one
    admitted job sees of it, with the refinement between the two; the bound on admitted work,
    what is never run, and that the executor drains under any scheduling.
  \<^item> \<open>Wire\<close>, \<open>GrpcClassify\<close> (\<open>grpc/classify.rs\<close>, \<open>proto/classify.proto\<close>): messages, statuses,
    deadlines, the handler, and a call whose caller goes away. \<open>Tokenizer\<close> (\<open>tokenizer.rs\<close>, the fixtures of \<open>classify.rs\<close>)
    and \<open>GrpcServer\<close> (also the client of \<open>grpc/health.rs\<close>): binding a server over the
    fixtures or a loaded classifier, and what it answers to any sequence of events; its
    responses are well typed.
  \<^item> \<open>Playground\<close> (\<open>bin/playground.rs\<close>): the tier it reports, its handlers, the chat route and
    its response cache. \<open>PlaygroundServer\<close>: loading the classifiers, the HTTP routes, the
    information page and the main program.
  \<^item> \<open>Bench\<close>, \<open>BenchCore\<close>, \<open>BenchConcurrent\<close>, \<open>BenchRunner\<close>, \<open>RunnerReport\<close>, \<open>LoadDriver\<close> (\<open>bench.rs\<close>, \<open>dummy_gateway.rs\<close>,
    \<open>bin/bench-runner.rs\<close>, \<open>src/bench/driver/src/main.rs\<close>): request contexts, the methodology
    checks, serial and concurrent runs against the core as the server binds it, the search for a seed, the
    runner's matrix and report, and the driver's choice of keys and texts. \<open>DriverRun\<close>: the workers, the scheduler and the main task of a run as an
    interleaved step system with its accounting invariant; \<open>DriverReport\<close>: what counts as a
    success, the report and the premises it checks.
  \<^item> \<open>VsrAdapter\<close> (\<open>src/bench/round2/vsr-adapter\<close>): the HTTP front of a router, its access key and
    the softmax of its scores, and that the driver accepts what it serves.
  \<^item> \<open>EvalClassifier\<close>, \<open>Programs\<close> (\<open>bin/eval-classifier.rs\<close>, \<open>bin/classify.rs\<close>, \<open>bin/server.rs\<close>,
    \<open>bin/gateway-probe.rs\<close>): the evaluation with its counts and metrics, the arguments and the
    output of the command line, the start of the server, and what the probe sends.

  \<^bold>\<open>Modelling.\<close> State is a record, an operation returns it updated; a lock region, a channel
  operation or an atomic update is one step of an inductive step relation. Errors are the left
  summand of a sum; \<open>None\<close> is a panic where a function can panic. \<open>u64\<close> values that wrap are
  words; other integers are \<open>nat\<close>, with saturation, clamping and casts written out. Floats keep
  their rounding, infinities and NaN; the sign of zero and the NaN payload are not kept.

  \<^bold>\<open>Bounds and loops.\<close> Nothing runs on fuel. The recursions are structural or have a termination
  proof; the one loop that may not end, the runner's search for a seed, is a
  \<open>partial_function\<close>, and exactly when it returns is a theorem. The upper bounds in hypotheses
  (\<open>2 ^ 53\<close> samples for a quantile, \<open>2 ^ 44\<close> for a distribution, \<open>2 ^ 31\<close> positions for a mask) are
  the ranges in which the casts and the float ranks of the code are exact.

  \<^bold>\<open>Parameters.\<close> Code outside the repository is an argument of the model: BLAKE3 and hexadecimal
  digests, \<open>hash_one\<close> of the standard hasher, Unicode lower-casing, the JSON and TOML decoders,
  the tokenizer library, the tensor operations and the BERT encoder, \<open>exp\<close>, \<open>ln\<close>, \<open>powf\<close>, sine and cosine,
  the file system, the clock, the Redis server with its pool, and the transport of a client.
  What a property needs of one is a named hypothesis with a witness on a concrete instance.

  \<^bold>\<open>Not modelled.\<close> The inside of the sockets, of the runtime of asynchronous tasks and of the
  HTTP servers (\<open>tonic\<close>, \<open>tokio\<close>, \<open>hyper\<close>, \<open>tiny_http\<close>): what they are called with is modelled,
  what arrives at them is a list of events. What follows a panic in the service: its release
  build aborts (\<open>panic = "abort"\<close>), so no thread survives one and no lock is ever poisoned; the
  load driver is built without this, and a panic there ends one worker. The build scripts;
  the file the runner writes its report to; the layout of printed tables and of log lines.
  What is left of the sources beside these is accessors, derived traits, doc comments and
  tests.
\<close>

end
